(* ===== verification/Prelude.thy ===== *)
theory Prelude
  imports Main "HOL-Library.Word" "HOL-Library.Sublist" "HOL-Library.AList"
    "HOL-Library.List_Lexorder" "HOL-Library.Char_ord"
begin

text \<open>
  Shared vocabulary of the development: machine integers, fallible results, the list and map
  lemmas the components have in common, and the simplification collections they declare into.
  Nothing here models a particular component of the program.
\<close>

section \<open>Machine integers\<close>

type_synonym u64 = "64 word"

text \<open>Go's \<open>^uint64(0)\<close>: the largest value of an unsigned 64-bit integer.\<close>

definition max_u64 :: u64 where
  "max_u64 = - 1"

definition max_int64 :: int where
  "max_int64 = 9223372036854775807"

text \<open>The value a signed 64-bit variable holds after storing the mathematical result \<open>x\<close>.\<close>

definition wrap64 :: "int \<Rightarrow> int" where
  "wrap64 x = (x + 9223372036854775808) mod 18446744073709551616 - 9223372036854775808"

definition int64_range :: "int \<Rightarrow> bool" where
  "int64_range x \<longleftrightarrow> - 9223372036854775808 \<le> x \<and> x \<le> 9223372036854775807"

lemma wrap64_id [simp]: "int64_range x \<Longrightarrow> wrap64 x = x"
  by (simp add: wrap64_def int64_range_def)

lemma int64_range_wrap64 [simp]: "int64_range (wrap64 x)"
proof -
  have "0 \<le> (x + 9223372036854775808) mod 18446744073709551616"
    and "(x + 9223372036854775808) mod 18446744073709551616 < 18446744073709551616"
    by simp_all
  then show ?thesis unfolding wrap64_def int64_range_def by linarith
qed

lemma unat_max_u64: "unat max_u64 = 18446744073709551615"
  by (simp add: max_u64_def unsigned_minus_1_eq_mask mask_eq_exp_minus_1)

lemma unat_u64_lt: "unat (x :: u64) < 18446744073709551616"
  using unsigned_less [of x] by simp

lemma u64_succ_unat:
  assumes "x \<noteq> max_u64"
  shows "unat (x + 1 :: u64) = unat x + 1"
proof -
  have "unat x \<noteq> unat max_u64" using assms by (simp add: word_unat_eq_iff)
  then have "unat x + 1 < 2 ^ LENGTH(64)"
    using unat_u64_lt [of x] by (simp add: unat_max_u64)
  then show ?thesis by (simp add: unat_word_ariths)
qed

lemma u64_succ_neq [simp]: "x + 1 \<noteq> (x :: u64)"
proof
  assume "x + 1 = x"
  then have "1 = (0 :: u64)" by (metis add_cancel_right_right)
  then show False by simp
qed

lemma u64_succ_less: "x \<noteq> max_u64 \<Longrightarrow> x < (x + 1 :: u64)"
  by (simp add: word_less_nat_alt u64_succ_unat)

lemma u64_succ_nonzero: "x \<noteq> max_u64 \<Longrightarrow> x + 1 \<noteq> (0 :: u64)"
  by (metis Suc_eq_plus1 nat.distinct(1) u64_succ_unat unat_0)

section \<open>Fallible results\<close>

text \<open>
  A Go function that returns \<open>(T, error)\<close> returns a sum here: \<open>Inl e\<close> for the error and
  \<open>Inr v\<close> for the value.
\<close>

fun res_bind :: "'e + 'a \<Rightarrow> ('a \<Rightarrow> 'e + 'b) \<Rightarrow> 'e + 'b" where
  "res_bind (Inl e) f = Inl e"
| "res_bind (Inr v) f = f v"

lemma res_bind_Inr_iff: "res_bind m f = Inr v \<longleftrightarrow> (\<exists>x. m = Inr x \<and> f x = Inr v)"
  by (cases m) auto

lemma res_bind_split:
  "P (res_bind m f) \<longleftrightarrow> ((\<forall>e. m = Inl e \<longrightarrow> P (Inl e)) \<and> (\<forall>x. m = Inr x \<longrightarrow> P (f x)))"
  by (cases m) auto

text \<open>A loop that rewrites every row of a slice in place and may return early with an error.\<close>

fun map_res :: "('a \<Rightarrow> 'e + 'b) \<Rightarrow> 'a list \<Rightarrow> 'e + 'b list" where
  "map_res f [] = Inr []"
| "map_res f (x # xs) =
     res_bind (f x) (\<lambda>y. res_bind (map_res f xs) (\<lambda>ys. Inr (y # ys)))"

lemma map_res_Inr_iff:
  "map_res f xs = Inr ys \<longleftrightarrow> list_all2 (\<lambda>x y. f x = Inr y) xs ys"
proof (induction xs arbitrary: ys)
  case Nil
  then show ?case by auto
next
  case (Cons x xs)
  then show ?case by (cases ys) (auto simp: res_bind_Inr_iff list_all2_Cons1)
qed

lemma map_res_length: "map_res f xs = Inr ys \<Longrightarrow> length ys = length xs"
  by (auto simp: map_res_Inr_iff dest: list_all2_lengthD)


lemma map_res_ext:
  "(\<And>x. x \<in> set xs \<Longrightarrow> f x = Inr (g x)) \<Longrightarrow> map_res f xs = Inr (map g xs)"
  by (induction xs) auto


lemma map_res_source:
  "map_res f xs = Inr ys \<Longrightarrow> y \<in> set ys \<Longrightarrow> \<exists>x \<in> set xs. f x = Inr y"
  by (induction xs arbitrary: ys) (auto simp: res_bind_Inr_iff)

lemma map_res_image:
  "map_res f xs = Inr ys \<Longrightarrow> x \<in> set xs \<Longrightarrow> \<exists>y \<in> set ys. f x = Inr y"
  by (induction xs arbitrary: ys) (auto simp: res_bind_Inr_iff)

text \<open>A key of the selected rows after the loop, as a key of the rows before it.\<close>

lemma map_res_filter_map:
  assumes "map_res f xs = Inr ys"
    and "\<And>x y. x \<in> set xs \<Longrightarrow> f x = Inr y \<Longrightarrow> q y = p x \<and> (p x \<longrightarrow> g y = h x)"
  shows "map g (filter q ys) = map h (filter p xs)"
  using assms
proof (induction xs arbitrary: ys)
  case Nil
  then show ?case by simp
next
  case (Cons x xs)
  from Cons.prems(1) obtain y ys' where y: "f x = Inr y" "map_res f xs = Inr ys'" "ys = y # ys'"
    by (auto simp: res_bind_Inr_iff)
  have "map g (filter q ys') = map h (filter p xs)"
    by (rule Cons.IH [OF y(2)]) (use Cons.prems(2) in auto)
  moreover have "q y = p x \<and> (p x \<longrightarrow> g y = h x)" using Cons.prems(2) [OF _ y(1)] by simp
  ultimately show ?case by (auto simp: y(3))
qed

lemma map_res_map:
  assumes "map_res f xs = Inr ys" "\<And>x y. x \<in> set xs \<Longrightarrow> f x = Inr y \<Longrightarrow> g y = h x"
  shows "map g ys = map h xs"
  using map_res_filter_map [OF assms(1), of "\<lambda>_. True" "\<lambda>_. True" g h] assms(2) by simp

section \<open>First matching row of a slice\<close>

text \<open>\<open>for i, x := range xs { if p(x) { return i } }\<close>\<close>

fun find_index :: "('a \<Rightarrow> bool) \<Rightarrow> 'a list \<Rightarrow> nat option" where
  "find_index p [] = None"
| "find_index p (x # xs) = (if p x then Some 0 else map_option Suc (find_index p xs))"

lemma find_index_Some:
  "find_index p xs = Some i \<Longrightarrow> i < length xs \<and> p (xs ! i) \<and> (\<forall>j < i. \<not> p (xs ! j))"
proof (induction xs arbitrary: i)
  case Nil
  then show ?case by simp
next
  case (Cons x xs)
  show ?case
  proof (cases "p x")
    case True
    with Cons.prems show ?thesis by simp
  next
    case False
    with Cons.prems obtain k where k: "find_index p xs = Some k" "i = Suc k" by auto
    from Cons.IH [OF k(1)] k(2) False show ?thesis
      by (auto simp: nth_Cons split: nat.splits)
  qed
qed

lemma find_index_None: "find_index p xs = None \<longleftrightarrow> (\<forall>x \<in> set xs. \<not> p x)"
  by (induction xs) auto

lemma find_index_cong:
  "(\<And>x. x \<in> set xs \<Longrightarrow> p x = q x) \<Longrightarrow> find_index p xs = find_index q xs"
  by (induction xs) auto

section \<open>Rows selected by a key\<close>

lemma distinct_map_filter_inj:
  "distinct (map f (filter p xs)) \<Longrightarrow> x \<in> set xs \<Longrightarrow> y \<in> set xs \<Longrightarrow> p x \<Longrightarrow> p y \<Longrightarrow> f x = f y
    \<Longrightarrow> x = y"
  by (auto simp: distinct_map inj_on_def)

lemma distinct_map_inj:
  "distinct (map f xs) \<Longrightarrow> x \<in> set xs \<Longrightarrow> y \<in> set xs \<Longrightarrow> f x = f y \<Longrightarrow> x = y"
  by (auto simp: distinct_map inj_on_def)

lemma distinct_map_filterI: "distinct (map f xs) \<Longrightarrow> distinct (map f (filter p xs))"
  by (induction xs) auto

lemma map_update_id: "f y = f (xs ! i) \<Longrightarrow> map f (xs[i := y]) = map f xs"
  by (metis list_update_id map_update)

lemma in_set_update: "x \<in> set (xs[i := y]) \<Longrightarrow> x = y \<or> x \<in> set xs"
  using set_update_subset_insert [of xs i y] by auto

lemma filter_map_update_same:
  assumes "i < length xs" "p (xs ! i) = p y" "f y = f (xs ! i)"
  shows "map f (filter p (xs[i := y])) = map f (filter p xs)"
  using assms
proof (induction xs arbitrary: i)
  case Nil
  then show ?case by simp
next
  case (Cons x xs)
  then show ?case by (cases i) auto
qed

text \<open>Two rows of a slice with the same key, both selected, are the same row.\<close>

lemma distinct_map_filter_nth:
  assumes "distinct (map f (filter p xs))" "i < length xs" "j < length xs"
    and "p (xs ! i)" "p (xs ! j)" "f (xs ! i) = f (xs ! j)"
  shows "i = j"
  using assms
proof (induction xs arbitrary: i j)
  case Nil
  then show ?case by simp
next
  case (Cons x xs)
  have mem: "f (xs ! k) \<in> f ` set (filter p xs)" if "k < length xs" "p (xs ! k)" for k
    using that by simp
  show ?case
  proof (cases i)
    case 0
    with Cons.prems mem [of "j - 1"] show ?thesis by (cases j) auto
  next
    case (Suc n)
    with Cons.prems mem [of n] Cons.IH [of n "j - 1"] show ?thesis
      by (cases j) (auto split: if_splits)
  qed
qed

section \<open>Association lists as Go maps\<close>

text \<open>
  A Go map that is iterated or counted is an association list with distinct keys; an assignment
  \<open>m[k] = v\<close> is \<^const>\<open>AList.update\<close> and \<open>delete(m, k)\<close> is \<^const>\<open>AList.delete\<close>.
\<close>

lemma map_of_alist_update [simp]: "map_of (AList.update k v al) = (map_of al)(k \<mapsto> v)"
  by (rule update_conv')

lemma map_of_alist_delete [simp]: "map_of (AList.delete k al) = (map_of al)(k := None)"
  by (rule delete_conv')

section \<open>Lists taken from the end\<close>

lemma take_rev_drop: "drop (length xs - n) xs = rev (take n (rev xs))"
  by (simp add: rev_take)

text \<open>In a strictly increasing list the rows above a member are the rows after it.\<close>

lemma filter_above_nth:
  fixes key :: "'a \<Rightarrow> 'k :: linorder"
  assumes "sorted_wrt (\<lambda>x y. key x < key y) xs" "i < length xs"
  shows "filter (\<lambda>x. key (xs ! i) < key x) xs = drop (Suc i) xs"
proof -
  let ?p = "\<lambda>x. key (xs ! i) < key x"
  have mono: "key (xs ! a) < key (xs ! b)" if "a < b" "b < length xs" for a b
    using assms(1) that by (auto simp: sorted_wrt_iff_nth_less)
  have "filter ?p xs = filter ?p (take (Suc i) xs) @ filter ?p (drop (Suc i) xs)"
    by (metis append_take_drop_id filter_append)
  moreover have "filter ?p (take (Suc i) xs) = []"
  proof -
    have "\<not> ?p (xs ! a)" if "a < Suc i" "a < length xs" for a
      using mono [of a i] that assms(2) by (cases "a = i") (auto simp: not_less)
    then show ?thesis by (auto simp: filter_empty_conv in_set_conv_nth)
  qed
  moreover have "filter ?p (drop (Suc i) xs) = drop (Suc i) xs"
    using assms(2) mono by (auto simp: filter_id_conv in_set_conv_nth)
  ultimately show ?thesis by simp
qed

lemma filter_above_last:
  fixes key :: "'a \<Rightarrow> 'k :: linorder"
  assumes srt: "sorted_wrt (\<lambda>x y. key x < key y) xs"
    and out: "out = take n (filter (\<lambda>x. s < key x) xs)" "out \<noteq> []"
  shows "filter (\<lambda>x. s < key x) xs = out @ filter (\<lambda>x. key (last out) < key x) xs"
proof -
  let ?fs = "filter (\<lambda>x. s < key x) xs"
  have fs: "sorted_wrt (\<lambda>x y. key x < key y) ?fs" using srt by (rule sorted_wrt_filter)
  have len: "0 < length out" "length out \<le> length ?fs"
    using out by auto
  have tk: "out = take (length out) ?fs"
    using out(1) by (cases "n \<le> length ?fs") simp_all
  define i where "i = length out - 1"
  have i: "i < length ?fs" "Suc i = length out" using len unfolding i_def by arith+
  have "last out = out ! i" using out(2) by (simp add: last_conv_nth i_def)
  also have "\<dots> = take (length out) ?fs ! i" using tk by simp
  also have "\<dots> = ?fs ! i" using i(2) by simp
  finally have lst: "last out = ?fs ! i" .
  have "s < key (last out)" using nth_mem [OF i(1)] lst by simp
  then have "filter (\<lambda>x. key (last out) < key x) xs = filter (\<lambda>x. key (last out) < key x) ?fs"
    by (auto intro!: filter_cong dest: less_trans)
  also have "\<dots> = drop (length out) ?fs"
    using filter_above_nth [OF fs i(1)] i lst by simp
  also have "\<dots> = drop n ?fs" using out(1) by (simp add: min_def split: if_splits)
  finally show ?thesis using out(1) by simp
qed

end
