(* ===== verification/Go_Lib.thy ===== *)
theory Go_Lib
  imports Prelude
begin

text \<open>
  The parts of Go's standard library the modelled code uses: byte strings (\<^verbatim>\<open>strings\<close>), slash
  separated paths (\<^verbatim>\<open>path\<close>), hexadecimal text and \<^verbatim>\<open>time.Time\<close>. A Go string is a sequence of bytes
  and so is a HOL \<^typ>\<open>string\<close>; \<^const>\<open>length\<close> is Go's \<open>len\<close>.
\<close>

section \<open>Prefixes of paths\<close>

text \<open>\<open>strings.HasPrefix(q, p + "/")\<close>: \<open>q\<close> names something strictly below \<open>p\<close>.\<close>

definition under :: "string \<Rightarrow> string \<Rightarrow> bool" where
  "under p q \<longleftrightarrow> prefix (p @ ''/'') q"

text \<open>\<open>q == p || strings.HasPrefix(q, p + "/")\<close>\<close>

definition within :: "string \<Rightarrow> string \<Rightarrow> bool" where
  "within p q \<longleftrightarrow> q = p \<or> under p q"

definition trim_prefix :: "string \<Rightarrow> string \<Rightarrow> string" where
  "trim_prefix s p = (if prefix p s then drop (length p) s else s)"

text \<open>\<open>newPath + strings.TrimPrefix(p, oldPath)\<close>\<close>

definition rebase :: "string \<Rightarrow> string \<Rightarrow> string \<Rightarrow> string" where
  "rebase old new p = new @ trim_prefix p old"

lemma under_alt: "under p q \<longleftrightarrow> (\<exists>s. q = p @ ''/'' @ s)"
  by (auto simp: under_def prefix_def)

lemma under_irrefl [simp]: "\<not> under p p"
  by (auto simp: under_alt)

lemma under_trans: "under p q \<Longrightarrow> under q r \<Longrightarrow> under p r"
  by (auto simp: under_alt)

lemma under_asym: "under p q \<Longrightarrow> \<not> under q p"
  using under_trans under_irrefl by blast

lemma under_neq: "under p q \<Longrightarrow> p \<noteq> q"
  by auto

lemma within_refl [simp]: "within p p"
  by (simp add: within_def)

lemma within_trans: "within p q \<Longrightarrow> within q r \<Longrightarrow> within p r"
  by (auto simp: within_def intro: under_trans)

lemma under_within_trans: "under p q \<Longrightarrow> within q r \<Longrightarrow> under p r"
  by (auto simp: within_def intro: under_trans)

text \<open>Two ancestors of the same path are comparable.\<close>

lemma under_linear:
  assumes "under p r" "under q r"
  shows "p = q \<or> under p q \<or> under q p"
proof -
  from assms obtain s t where "p @ (''/'' @ s) = q @ (''/'' @ t)"
    by (auto simp: under_alt)
  then consider us where "p = q @ us" "us @ ''/'' @ s = ''/'' @ t"
    | us where "q = p @ us" "''/'' @ s = us @ ''/'' @ t"
    by (auto simp: append_eq_append_conv2)
  then show ?thesis
  proof cases
    case 1
    then show ?thesis by (cases us) (auto simp: under_alt)
  next
    case 2
    then show ?thesis by (cases us) (auto simp: under_alt)
  qed
qed

lemma within_decomp: "within p q \<longleftrightarrow> (\<exists>s. q = p @ s \<and> (s = '''' \<or> hd s = CHR ''/''))"
proof
  assume "within p q"
  then show "\<exists>s. q = p @ s \<and> (s = '''' \<or> hd s = CHR ''/'')"
    by (auto simp: within_def under_alt)
next
  assume "\<exists>s. q = p @ s \<and> (s = '''' \<or> hd s = CHR ''/'')"
  then obtain s where "q = p @ s" "s = '''' \<or> hd s = CHR ''/''" by blast
  then show "within p q" by (cases s) (auto simp: within_def under_alt)
qed

lemma rebase_within: "within old p \<Longrightarrow> within new (rebase old new p)"
  by (auto simp: within_decomp rebase_def trim_prefix_def)

lemma rebase_append: "rebase old new (old @ s) = new @ s"
  by (simp add: rebase_def trim_prefix_def)

lemma rebase_old [simp]: "rebase old new old = new"
  by (simp add: rebase_def trim_prefix_def)

lemma rebase_inj:
  "within old p \<Longrightarrow> within old q \<Longrightarrow> rebase old new p = rebase old new q \<longleftrightarrow> p = q"
  by (auto simp: within_decomp rebase_append dest: sym)

lemma rebase_under:
  "within old p \<Longrightarrow> within old q \<Longrightarrow> under (rebase old new p) (rebase old new q) \<longleftrightarrow> under p q"
  by (auto simp: within_decomp rebase_append under_alt)

lemma rebase_inverse: "within old p \<Longrightarrow> rebase new old (rebase old new p) = p"
  by (auto simp: within_decomp rebase_append)

lemma rebase_same: "within old p \<Longrightarrow> rebase old old p = p"
  by (auto simp: within_decomp rebase_append)

section \<open>Splitting and joining\<close>

text \<open>\<open>strings.Split(s, sep)\<close> for a one-byte separator: \<open>""\<close> splits into one empty part.\<close>

fun split_on :: "char \<Rightarrow> string \<Rightarrow> string list" where
  "split_on c [] = [[]]"
| "split_on c (x # xs) =
     (if x = c then [] # split_on c xs
      else (case split_on c xs of [] \<Rightarrow> [[x]] | p # ps \<Rightarrow> (x # p) # ps))"

fun join_with :: "char \<Rightarrow> string list \<Rightarrow> string" where
  "join_with c [] = []"
| "join_with c [p] = p"
| "join_with c (p # q # ps) = p @ [c] @ join_with c (q # ps)"

lemma split_on_neq [simp]: "split_on c s \<noteq> []"
  by (induction s) (auto split: list.splits)

lemma join_with_Cons: "ps \<noteq> [] \<Longrightarrow> join_with c (p # ps) = p @ [c] @ join_with c ps"
  by (cases ps) auto

lemma join_split [simp]: "join_with c (split_on c s) = s"
proof (induction s)
  case Nil
  then show ?case by simp
next
  case (Cons x xs)
  obtain p ps where sp: "split_on c xs = p # ps" by (cases "split_on c xs") auto
  with Cons show ?case by (cases ps) (auto simp: join_with_Cons)
qed

lemma split_on_no_sep: "p \<in> set (split_on c s) \<Longrightarrow> c \<notin> set p"
proof (induction s arbitrary: p)
  case Nil
  then show ?case by simp
next
  case (Cons x xs)
  then show ?case by (cases "split_on c xs") (auto split: if_splits)
qed

section \<open>Lexical path functions\<close>

text \<open>
  \<open>path.Clean\<close>: \<open>""\<close> and \<open>"."\<close> components are dropped, \<open>".."\<close> removes the component
  before it, or is kept at the front of a relative path, or dropped after a leading slash.
\<close>

fun clean_step :: "bool \<Rightarrow> string list \<Rightarrow> string \<Rightarrow> string list" where
  "clean_step rooted out part =
     (if part = '''' \<or> part = ''.'' then out
      else if part = ''..'' then
        (case out of
           prev # rest \<Rightarrow> if prev = ''..'' then part # out else rest
         | [] \<Rightarrow> if rooted then [] else [part])
      else part # out)"

definition path_is_abs :: "string \<Rightarrow> bool" where
  "path_is_abs p \<longleftrightarrow> (case p of [] \<Rightarrow> False | c # _ \<Rightarrow> c = CHR ''/'')"

definition path_clean :: "string \<Rightarrow> string" where
  "path_clean p =
     (let rooted = path_is_abs p;
          body = join_with (CHR ''/'') (rev (foldl (clean_step rooted) [] (split_on (CHR ''/'') p)))
      in if rooted then CHR ''/'' # body else if body = '''' then ''.'' else body)"

text \<open>\<open>path.Dir\<close>: everything up to the last slash, cleaned.\<close>

definition path_dir :: "string \<Rightarrow> string" where
  "path_dir p = path_clean (rev (dropWhile (\<lambda>c. c \<noteq> CHR ''/'') (rev p)))"

text \<open>\<open>path.Ext\<close>: the suffix from the final dot of the final component, or nothing.\<close>

fun ext_scan :: "string \<Rightarrow> string \<Rightarrow> string" where
  "ext_scan [] acc = ''''"
| "ext_scan (c # cs) acc =
     (if c = CHR ''/'' then '''' else if c = CHR ''.'' then c # acc else ext_scan cs (c # acc))"

definition path_ext :: "string \<Rightarrow> string" where
  "path_ext p = ext_scan (rev p) ''''"

section \<open>Case and white space\<close>

text \<open>\<open>strings.ToLower\<close> on ASCII letters; bytes outside ASCII are kept.\<close>

definition lower_char :: "char \<Rightarrow> char" where
  "lower_char c =
     (if 65 \<le> (of_char c :: nat) \<and> (of_char c :: nat) \<le> 90 then char_of (of_char c + 32 :: nat)
      else c)"

definition to_lower :: "string \<Rightarrow> string" where
  "to_lower s = map lower_char s"

text \<open>
  \<open>strings.TrimSpace\<close>: the UTF-8 encodings of the code points \<open>unicode.IsSpace\<close> accepts are
  removed from both ends.
\<close>

definition bytes :: "nat list \<Rightarrow> string" where
  "bytes ns = map char_of ns"

definition space_codes :: "string list" where
  "space_codes = map bytes
     ([[9], [10], [11], [12], [13], [32], [194, 133], [194, 160], [225, 154, 128]]
      @ map (\<lambda>n. [226, 128, 128 + n]) [0..<11]
      @ [[226, 128, 168], [226, 128, 169], [226, 128, 175], [226, 129, 159], [227, 128, 128]])"

fun strip_front :: "string list \<Rightarrow> nat \<Rightarrow> string \<Rightarrow> string" where
  "strip_front codes 0 s = s"
| "strip_front codes (Suc n) s =
     (case List.find (\<lambda>w. prefix w s) codes of
        None \<Rightarrow> s
      | Some w \<Rightarrow> strip_front codes n (drop (length w) s))"

definition trim_space :: "string \<Rightarrow> string" where
  "trim_space s =
     (let left = strip_front space_codes (length s) s
      in rev (strip_front (map rev space_codes) (length left) (rev left)))"

section \<open>Hexadecimal text\<close>

definition hex_digit :: "nat \<Rightarrow> char" where
  "hex_digit n = ''0123456789abcdef'' ! (n mod 16)"

definition hex_encode :: "string \<Rightarrow> string" where
  "hex_encode s = concat (map (\<lambda>c. [hex_digit (of_char c div 16), hex_digit (of_char c)]) s)"

lemma hex_digit_inj: "m < 16 \<Longrightarrow> n < 16 \<Longrightarrow> hex_digit m = hex_digit n \<Longrightarrow> m = n"
proof -
  have d: "distinct ''0123456789abcdef''" by code_simp
  have l: "length ''0123456789abcdef'' = 16" by simp
  assume "m < 16" "n < 16" "hex_digit m = hex_digit n"
  then show "m = n" using d l by (simp add: hex_digit_def nth_eq_iff_index_eq del: length_Cons)
qed

lemma of_char_lt: "(of_char c :: nat) < 256"
  by (rule nat_of_char_less_256)

lemma length_hex_encode [simp]: "length (hex_encode s) = 2 * length s"
  by (induction s) (auto simp: hex_encode_def)

lemma hex_encode_inj: "hex_encode s = hex_encode t \<Longrightarrow> s = t"
proof (induction s arbitrary: t)
  case Nil
  then show ?case by (cases t) (auto simp: hex_encode_def)
next
  case (Cons c s)
  then obtain d t' where t: "t = d # t'" by (cases t) (auto simp: hex_encode_def)
  with Cons.prems have hi: "hex_digit (of_char c div 16) = hex_digit (of_char d div 16)"
    and lo: "hex_digit (of_char c mod 16) = hex_digit (of_char d mod 16)"
    and rest: "hex_encode s = hex_encode t'"
    by (auto simp: hex_encode_def hex_digit_def)
  have small: "(of_char x :: nat) div 16 < 16" for x :: char
    using of_char_lt [of x] by (simp add: less_mult_imp_div_less)
  have "(of_char c :: nat) div 16 = of_char d div 16"
    by (rule hex_digit_inj [OF small small hi])
  moreover have "(of_char c :: nat) mod 16 = of_char d mod 16"
    using lo by (intro hex_digit_inj) auto
  ultimately have "(of_char c :: nat) = of_char d"
    by (metis div_mult_mod_eq)
  then have "c = d" by simp
  with Cons.IH [OF rest] t show ?case by simp
qed

section \<open>Time\<close>

text \<open>
  A \<open>time.Time\<close> is an instant, in nanoseconds since the start of year 1 (UTC), and the offset of
  its location in seconds east of UTC. \<open>Equal\<close>, \<open>Before\<close> and \<open>After\<close> compare instants,
  \<open>IsZero\<close> recognises the zero instant and \<open>Year\<close> reads the calendar at the location.
\<close>

record gotime =
  instant :: int
  zone :: int

definition zero_time :: gotime where
  "zero_time = \<lparr>instant = 0, zone = 0\<rparr>"

definition is_zero :: "gotime \<Rightarrow> bool" where
  "is_zero t \<longleftrightarrow> instant t = 0"

definition time_eq :: "gotime \<Rightarrow> gotime \<Rightarrow> bool" where
  "time_eq s t \<longleftrightarrow> instant s = instant t"

definition time_after :: "gotime \<Rightarrow> gotime \<Rightarrow> bool" where
  "time_after s t \<longleftrightarrow> instant t < instant s"

definition time_before :: "gotime \<Rightarrow> gotime \<Rightarrow> bool" where
  "time_before s t \<longleftrightarrow> instant s < instant t"

definition to_utc :: "gotime \<Rightarrow> gotime" where
  "to_utc t = t\<lparr>zone := 0\<rparr>"

text \<open>The proleptic Gregorian year of a day number, day 0 being 1 January of year 1.\<close>

definition year_of_day :: "int \<Rightarrow> int" where
  "year_of_day d =
     (let n400 = d div 146097; r400 = d mod 146097;
          n100 = min 3 (r400 div 36524); r100 = r400 - n100 * 36524;
          n4 = r100 div 1461; r4 = r100 mod 1461;
          n1 = min 3 (r4 div 365)
      in 400 * n400 + 100 * n100 + 4 * n4 + n1 + 1)"

definition time_year :: "gotime \<Rightarrow> int" where
  "time_year t = year_of_day ((instant t div 1000000000 + zone t) div 86400)"

lemma time_eq_refl [simp]: "time_eq t t"
  by (simp add: time_eq_def)

lemma instant_to_utc [simp]: "instant (to_utc t) = instant t"
  by (simp add: to_utc_def)

end
