(* ===== verification/Catalog_Data.thy ===== *)
theory Catalog_Data
  imports Go_Lib
begin

text \<open>
  The data of \<^verbatim>\<open>internal/catalog\<close>: the encrypted catalog's rows, albums, collections, change
  journal and in-memory state, as declared in \<^verbatim>\<open>catalog.go\<close>, \<^verbatim>\<open>albums.go\<close>, \<^verbatim>\<open>collections.go\<close>,
  \<^verbatim>\<open>photo_sources.go\<close>, \<^verbatim>\<open>photo_ingest.go\<close> and \<^verbatim>\<open>journal.go\<close>, and the surroundings one call sees:
  the clock, the random draws, the order in which the runtime iterates a map, the digest of the
  hash chain and the outcome of the atomic file write.
\<close>

section \<open>Errors\<close>

text \<open>How the write of one sealed catalog file ends (\<^verbatim>\<open>saveFilesLocked\<close>).\<close>

datatype save_outcome =
    Save_ok
  | Seal_error   \<comment> \<open>\<open>json.Marshal\<close> or \<open>vault.Wrap\<close> failed: nothing was written\<close>
  | Write_error  \<comment> \<open>\<open>cryptox.AtomicWrite\<close> failed before its final rename\<close>
  | Sync_error   \<comment> \<open>the file was replaced, syncing its directory failed\<close>

datatype catalog_error =
    ErrConflict
  | ErrNotFound
  | ErrDescendant
  | ErrUnknownReference
  | ErrRevisionOverflow
  | ErrRevisionMismatch
  | ErrSyncExpired
  | ErrCollectionSchema
  | ErrSourceConflict
  | ErrSourceDependency
  | ErrAlbumNotFound
  | ErrAlbumInvalid
  | ErrInvalidHiddenEntry
  | ErrCaptureRevisionMismatch
  | ErrInvalidCaptureMetadata
  | ErrMigrationRecoveryConflict
  | ErrEntropy
  | ErrSave save_outcome
  | ErrOther string

section \<open>Rows\<close>

record reference =
  r_backend :: string
  r_version :: nat
  r_snapshot :: string
  r_object :: string
  r_operation :: string
  r_owner_entry_id :: string
  r_owner_revision :: u64

record photo_component =
  pc_id :: string
  pc_asset_id :: string
  pc_media_type :: string

record file_row =
  f_preview_unsupported :: bool
  f_processing_pending :: bool
  f_pair_albums :: "string list"
  f_parent_id :: string
  f_components :: "photo_component list"
  f_device_id :: string
  f_device_asset_id :: string
  f_source_revision :: string
  f_entry_id :: string
  f_revision :: u64
  f_path :: string
  f_folder :: bool
  f_hidden :: bool
  f_size :: int
  f_mtime :: gotime
  f_imported_at :: gotime
  f_capture_time :: "gotime option"
  f_capture_offset :: "int option"
  f_capture_source :: string
  f_capture_user_corrected :: bool
  f_width :: int
  f_height :: int
  f_duration :: int
  f_orientation :: int
  f_preferred :: bool
  f_camera :: string
  f_rotation :: int
  f_favorite :: bool
  f_archived :: bool
  f_caption :: string
  f_hash :: string
  f_snap :: string
  f_object :: string
  f_reference :: "reference option"
  f_present :: bool
  f_deleted_at :: "gotime option"

text \<open>Go's zero value \<open>File{}\<close>.\<close>

definition zero_file :: file_row where
  "zero_file = \<lparr>
     f_preview_unsupported = False, f_processing_pending = False, f_pair_albums = [],
     f_parent_id = '''', f_components = [], f_device_id = '''', f_device_asset_id = '''',
     f_source_revision = '''', f_entry_id = '''', f_revision = 0, f_path = '''',
     f_folder = False, f_hidden = False, f_size = 0, f_mtime = zero_time,
     f_imported_at = zero_time, f_capture_time = None, f_capture_offset = None,
     f_capture_source = '''', f_capture_user_corrected = False, f_width = 0, f_height = 0,
     f_duration = 0, f_orientation = 0, f_preferred = False, f_camera = '''', f_rotation = 0,
     f_favorite = False, f_archived = False, f_caption = '''', f_hash = '''', f_snap = '''',
     f_object = '''', f_reference = None, f_present = False, f_deleted_at = None\<rparr>"

text \<open>
  An album. A nil \<open>AssetIDs\<close> slice (\<open>None\<close>) and an empty one (\<open>Some []\<close>) differ: the code
  tests \<open>AssetIDs != nil\<close> and compares albums with \<open>reflect.DeepEqual\<close>.
\<close>

record album =
  a_parent_id :: string
  a_parent_set :: bool
  a_id :: string
  a_revision :: u64
  a_title :: string
  a_description :: string
  a_cover_id :: string
  a_position :: int
  a_asset_ids :: "string list option"

definition ids_of :: "string list option \<Rightarrow> string list" where
  "ids_of ids = (case ids of None \<Rightarrow> [] | Some xs \<Rightarrow> xs)"

text \<open>\<open>append([]string(nil), ids...)\<close>: an empty slice is copied to nil.\<close>

definition clone_ids :: "string list option \<Rightarrow> string list option" where
  "clone_ids ids = (if ids_of ids = [] then None else Some (ids_of ids))"

definition cloneAlbum :: "album \<Rightarrow> album" where
  "cloneAlbum a = a\<lparr>a_asset_ids := clone_ids (a_asset_ids a)\<rparr>"

definition cloneAlbums :: "album list \<Rightarrow> album list" where
  "cloneAlbums as = map cloneAlbum as"

record collection_folder =
  cf_id :: string
  cf_parent_id :: string
  cf_title :: string
  cf_position :: int
  cf_revision :: u64

record source_mapping =
  m_device_id :: string
  m_namespace :: string
  m_source_id :: string
  m_kind :: string
  m_server_id :: string
  m_source_revision :: string
  m_server_revision :: u64

record source_receipt =
  sr_digest :: string
  sr_server_id :: string
  sr_revision :: u64

text \<open>The two Go maps are association lists with distinct keys.\<close>

record collection_state =
  cs_folders :: "collection_folder list"
  cs_sources :: "(string \<times> source_mapping) list"
  cs_operations :: "(string \<times> source_receipt) list"

definition empty_collections :: collection_state where
  "empty_collections = \<lparr>cs_folders = [], cs_sources = [], cs_operations = []\<rparr>"

section \<open>Journal\<close>

record sync_position =
  sp_epoch :: string
  sp_sequence :: u64
  sp_hash :: string

record change_record =
  cr_collection :: "collection_folder option"
  cr_source :: "source_mapping option"
  cr_sequence :: u64
  cr_hash :: string
  cr_kind :: string
  cr_id :: string
  cr_deleted :: bool
  cr_photos :: bool
  cr_file :: "file_row option"
  cr_album :: "album option"

definition zero_record :: change_record where
  "zero_record = \<lparr>cr_collection = None, cr_source = None, cr_sequence = 0, cr_hash = '''',
     cr_kind = '''', cr_id = '''', cr_deleted = False, cr_photos = False, cr_file = None,
     cr_album = None\<rparr>"

record journal =
  j_epoch :: string
  j_sequence :: u64
  j_hash :: string
  j_records :: "change_record list"

definition zero_journal :: journal where
  "zero_journal = \<lparr>j_epoch = '''', j_sequence = 0, j_hash = '''', j_records = []\<rparr>"

text \<open>The embedded \<open>SyncPosition\<close> of a journal.\<close>

definition position_of :: "journal \<Rightarrow> sync_position" where
  "position_of j = \<lparr>sp_epoch = j_epoch j, sp_sequence = j_sequence j, sp_hash = j_hash j\<rparr>"

section \<open>The catalog and its file\<close>

record tree =
  t_schema :: int
  t_collections :: collection_state
  t_files :: "file_row list"
  t_albums :: "album list"
  t_journal :: journal
  t_checkpoints :: "(string \<times> sync_position) list"

record catalog_summary =
  s_logical :: int
  s_unique :: int
  s_trash :: int
  s_trash_count :: int

text \<open>
  The state behind a \<open>*Catalog\<close>. \<open>c_disk\<close> is the sealed file at the catalog's path: a stamp that
  changes with every replacement (the \<open>os.FileInfo\<close> that \<open>os.SameFile\<close> compares) and its
  decrypted contents; \<open>c_disk_info\<close> is the stamp the catalog remembers; \<open>c_recovery\<close> is the copy
  kept at \<open>RecoveryPath()\<close> before an upgrade. A summary that is not ready is \<open>None\<close>.
\<close>

record catalog =
  c_batch_only :: bool
  c_collections :: collection_state
  c_saved_collections :: collection_state
  c_files :: "file_row list"
  c_albums :: "album list"
  c_saved_albums :: "album list"
  c_journal :: journal
  c_checkpoints :: "(string \<times> sync_position) list"
  c_children :: "string \<rightharpoonup> file_row list"
  c_by_path :: "string \<rightharpoonup> file_row"
  c_summary :: "catalog_summary option"
  c_version :: u64
  c_disk :: "(nat \<times> tree) option"
  c_disk_info :: "nat option"
  c_recovery :: "(nat \<times> tree) option"

text \<open>\<open>New(path, v)\<close> over a path that holds no file yet.\<close>

definition new_catalog :: catalog where
  "new_catalog = \<lparr>c_batch_only = False, c_collections = empty_collections,
     c_saved_collections = empty_collections, c_files = [], c_albums = [], c_saved_albums = [],
     c_journal = zero_journal, c_checkpoints = [], c_children = Map.empty,
     c_by_path = Map.empty, c_summary = None, c_version = 0, c_disk = None, c_disk_info = None,
     c_recovery = None\<rparr>"

text \<open>
  What the surroundings answer during one call: \<open>time.Now().UTC()\<close>, the successive 16-byte draws
  of \<open>cryptox.Random\<close> (\<open>None\<close>: the draw fails; so does a draw from an exhausted list), the
  order in which the Go runtime iterates over the keys of a map, the hexadecimal SHA-256 of the
  previous hash followed by the JSON of a record, and how the file write ends.
\<close>

record env =
  clock :: gotime
  entropy :: "string option list"
  map_order :: "string list \<Rightarrow> string list"
  digest :: "string \<Rightarrow> change_record \<Rightarrow> string"
  outcome :: save_outcome

text \<open>The runtime iterates over every key once, in some order.\<close>

definition fair_order :: "env \<Rightarrow> bool" where
  "fair_order e \<longleftrightarrow> (\<forall>ks. distinct ks \<longrightarrow> distinct (map_order e ks) \<and> set (map_order e ks) = set ks)"

definition newEntryID :: "env \<Rightarrow> catalog_error + string \<times> env" where
  "newEntryID e =
     (case entropy e of
        Some raw # rest \<Rightarrow> Inr (hex_encode raw, e\<lparr>entropy := rest\<rparr>)
      | None # rest \<Rightarrow> Inl ErrEntropy
      | [] \<Rightarrow> Inl ErrEntropy)"

text \<open>The identifiers the draws of an environment produce.\<close>

definition draws :: "env \<Rightarrow> string list" where
  "draws e = map hex_encode (List.map_filter id (entropy e))"

lemma newEntryID_Inr:
  "newEntryID e = Inr (i, e') \<Longrightarrow> draws e = i # draws e' \<and> e' = e\<lparr>entropy := entropy e'\<rparr>"
  by (auto simp: newEntryID_def draws_def List.map_filter_def split: list.splits option.splits)

lemma clone_ids_idem [simp]: "clone_ids (clone_ids ids) = clone_ids ids"
  by (auto simp: clone_ids_def ids_of_def)

lemma ids_of_clone [simp]: "ids_of (clone_ids ids) = ids_of ids"
  by (auto simp: clone_ids_def ids_of_def)

lemma cloneAlbum_simps [simp]:
  "a_id (cloneAlbum a) = a_id a" "a_revision (cloneAlbum a) = a_revision a"
  "a_parent_id (cloneAlbum a) = a_parent_id a" "a_cover_id (cloneAlbum a) = a_cover_id a"
  "a_parent_set (cloneAlbum a) = a_parent_set a" "a_title (cloneAlbum a) = a_title a"
  "a_position (cloneAlbum a) = a_position a" "ids_of (a_asset_ids (cloneAlbum a)) = ids_of (a_asset_ids a)"
  by (simp_all add: cloneAlbum_def)

lemma cloneAlbum_idem [simp]: "cloneAlbum (cloneAlbum a) = cloneAlbum a"
  by (simp add: cloneAlbum_def)

lemma cloneAlbums_idem [simp]: "cloneAlbums (cloneAlbums as) = cloneAlbums as"
  by (simp add: cloneAlbums_def)

lemma length_cloneAlbums [simp]: "length (cloneAlbums as) = length as"
  by (simp add: cloneAlbums_def)

end
