(* ===== verification/Identity.thy ===== *)
theory Identity
  imports Catalog_Data
begin

text \<open>
  \<^verbatim>\<open>internal/catalog/identity.go\<close>: the immutable entry identity and revision of a row, the storage
  reference it may carry, and the upgrade of rows read from a legacy catalog.
\<close>

section \<open>Storage references\<close>

definition ResticBackend :: string where
  "ResticBackend = ''restic''"

definition SharedBackend :: string where
  "SharedBackend = ''shared-object''"

text \<open>\<open>None\<close> is Go's nil error.\<close>

definition validateReference :: "file_row \<Rightarrow> catalog_error option" where
  "validateReference f =
     (case f_reference f of
        None \<Rightarrow> None
      | Some ref \<Rightarrow>
          if f_folder f \<or> (f_object f \<noteq> '''' \<and> r_object ref \<noteq> f_object f)
          then Some ErrUnknownReference
          else if r_backend ref = ResticBackend \<and> r_version ref = 1 \<and> r_snapshot ref = f_snap f
          then None
          else if r_backend ref = SharedBackend \<and> (r_version ref = 1 \<or> r_version ref = 2)
                  \<and> r_snapshot ref = '''' \<and> r_object ref \<noteq> '''' \<and> r_operation ref \<noteq> ''''
                  \<and> f_snap f = ''''
          then None
          else Some ErrUnknownReference)"

definition assignReference :: "file_row \<Rightarrow> catalog_error + file_row" where
  "assignReference f =
     (let g = (if f_reference f = None \<and> \<not> f_folder f \<and> f_snap f \<noteq> ''''
               then f\<lparr>f_reference := Some \<lparr>r_backend = ResticBackend, r_version = 1,
                        r_snapshot = f_snap f,
                        r_object = (if f_object f = '''' then f_hash f else f_object f),
                        r_operation = '''', r_owner_entry_id = '''', r_owner_revision = 0\<rparr>\<rparr>
               else f)
      in case validateReference g of Some err \<Rightarrow> Inl err | None \<Rightarrow> Inr g)"

definition assignIdentity :: "env \<Rightarrow> file_row \<Rightarrow> catalog_error + file_row \<times> env" where
  "assignIdentity e f =
     res_bind (if f_entry_id f = ''''
               then res_bind (newEntryID e) (\<lambda>(i, e'). Inr (f\<lparr>f_entry_id := i\<rparr>, e'))
               else Inr (f, e))
       (\<lambda>(g, e').
          let h = (if f_revision g = 0 then g\<lparr>f_revision := 1\<rparr> else g)
          in res_bind (assignReference h) (\<lambda>k. Inr (k, e')))"

definition sameReference :: "reference option \<Rightarrow> reference option \<Rightarrow> bool" where
  "sameReference a b = (a = b)"

section \<open>Reserving an identity\<close>

definition NextIdentity :: "env \<Rightarrow> string \<Rightarrow> catalog \<Rightarrow> catalog_error + string \<times> u64" where
  "NextIdentity e path c =
     (case List.find (\<lambda>f. f_path f = path \<and> f_present f) (c_files c) of
        Some f \<Rightarrow>
          if f_revision f = max_u64 then Inl ErrRevisionOverflow
          else Inr (f_entry_id f, f_revision f + 1)
      | None \<Rightarrow> res_bind (newEntryID e) (\<lambda>(i, e'). Inr (i, 1)))"

section \<open>Upgrading legacy rows\<close>

text \<open>
  One iteration of the second loop of \<open>upgradeFiles\<close>: a missing identity is assigned, an identity
  seen before is replaced, a snapshot without a reference gets one.
\<close>

definition upgrade_row ::
  "env \<Rightarrow> string list \<Rightarrow> file_row \<Rightarrow> catalog_error + file_row \<times> bool \<times> env" where
  "upgrade_row e seen f =
     res_bind (if f_entry_id f = '''' \<or> f_revision f = 0
               then res_bind (assignIdentity e f) (\<lambda>(g, e'). Inr (g, True, e'))
               else Inr (f, False, e))
       (\<lambda>(g, ch, e1).
     res_bind (if f_entry_id g \<in> set seen
               then res_bind (assignIdentity e1 (g\<lparr>f_entry_id := ''''\<rparr>)) (\<lambda>(h, e'). Inr (h, True, e'))
               else Inr (g, ch, e1))
       (\<lambda>(h, ch2, e2).
     res_bind (if f_reference h = None \<and> \<not> f_folder h \<and> f_snap h \<noteq> ''''
               then res_bind (assignReference h) (\<lambda>k. Inr (k, True))
               else Inr (h, ch2))
       (\<lambda>(k, ch3).
          case validateReference k of Some err \<Rightarrow> Inl err | None \<Rightarrow> Inr (k, ch3, e2))))"

fun upgrade_rows ::
  "env \<Rightarrow> string list \<Rightarrow> file_row list \<Rightarrow> catalog_error + file_row list \<times> bool \<times> env" where
  "upgrade_rows e seen [] = Inr ([], False, e)"
| "upgrade_rows e seen (f # fs) =
     res_bind (upgrade_row e seen f) (\<lambda>(g, ch, e1).
     res_bind (upgrade_rows e1 (f_entry_id g # seen) fs) (\<lambda>(gs, chs, e2).
       Inr (g # gs, ch \<or> chs, e2)))"

definition upgradeFiles ::
  "env \<Rightarrow> file_row list \<Rightarrow> catalog_error + file_row list \<times> bool \<times> env" where
  "upgradeFiles e fs =
     (if \<exists>f \<in> set fs. f_reference f \<noteq> None \<and> validateReference f \<noteq> None
      then Inl ErrUnknownReference
      else upgrade_rows e [] fs)"

section \<open>What an assigned identity satisfies\<close>

text \<open>
  A row as the catalog stores it: an identity, a revision and a supported reference, which a file
  with a snapshot always has.
\<close>

definition referenced :: "file_row \<Rightarrow> bool" where
  "referenced f \<longleftrightarrow> validateReference f = None
     \<and> (f_reference f \<noteq> None \<or> f_folder f \<or> f_snap f = '''')"

definition row_ok :: "file_row \<Rightarrow> bool" where
  "row_ok f \<longleftrightarrow> f_entry_id f \<noteq> '''' \<and> f_revision f \<noteq> 0 \<and> referenced f"

definition distinct_ids :: "file_row list \<Rightarrow> bool" where
  "distinct_ids fs \<longleftrightarrow> distinct (map f_entry_id fs)"

lemma assignReference_Inr:
  assumes "assignReference f = Inr g"
  shows "\<exists>ref. g = f\<lparr>f_reference := ref\<rparr>" and "referenced g"
proof -
  have noop: "f = f\<lparr>f_reference := f_reference f\<rparr>" by simp
  from assms show "\<exists>ref. g = f\<lparr>f_reference := ref\<rparr>"
    unfolding assignReference_def Let_def
    by (simp split: if_splits option.splits) (use noop in blast)+
  from assms show "referenced g"
    unfolding assignReference_def Let_def referenced_def by (auto split: option.splits if_splits)
qed

lemma assignReference_id:
  "referenced f \<Longrightarrow> assignReference f = Inr f"
  by (auto simp: assignReference_def referenced_def)

lemma hex_encode_empty_iff: "hex_encode s = '''' \<longleftrightarrow> s = ''''"
  by (cases s) (auto simp: hex_encode_def)

text \<open>A draw of 16 bytes is not empty, so neither is the identity it becomes.\<close>

definition good_entropy :: "env \<Rightarrow> bool" where
  "good_entropy e \<longleftrightarrow> '''' \<notin> set (draws e)"

lemma newEntryID_good:
  "newEntryID e = Inr (i, e') \<Longrightarrow> good_entropy e \<Longrightarrow> i \<noteq> '''' \<and> good_entropy e'"
  using newEntryID_Inr [of e i e'] by (auto simp: good_entropy_def)

lemma assignIdentity_shape:
  assumes "assignIdentity e f = Inr (g, e')"
  shows "\<exists>i ref. g = f\<lparr>f_entry_id := i,
             f_revision := (if f_revision f = 0 then 1 else f_revision f), f_reference := ref\<rparr>
           \<and> referenced g
           \<and> (if f_entry_id f = '''' then draws e = i # draws e' else i = f_entry_id f \<and> e' = e)"
proof -
  from assms obtain f1 where
    f1: "(if f_entry_id f = '''' then res_bind (newEntryID e) (\<lambda>(i, e'). Inr (f\<lparr>f_entry_id := i\<rparr>, e'))
          else Inr (f, e)) = Inr (f1, e')"
    and g: "assignReference (if f_revision f1 = 0 then f1\<lparr>f_revision := 1\<rparr> else f1) = Inr g"
    by (auto simp: assignIdentity_def res_bind_Inr_iff Let_def)
  have noop: "f = f\<lparr>f_entry_id := f_entry_id f\<rparr>" by simp
  from f1 obtain i where i: "f1 = f\<lparr>f_entry_id := i\<rparr>"
      "if f_entry_id f = '''' then draws e = i # draws e' else i = f_entry_id f \<and> e' = e"
    by (cases "f_entry_id f = ''''")
       (auto simp: res_bind_Inr_iff dest!: newEntryID_Inr intro: noop)
  from assignReference_Inr(1) [OF g] obtain ref where
    ref: "g = (if f_revision f1 = 0 then f1\<lparr>f_revision := 1\<rparr> else f1)\<lparr>f_reference := ref\<rparr>" ..
  have "g = f\<lparr>f_entry_id := i,
             f_revision := (if f_revision f = 0 then 1 else f_revision f), f_reference := ref\<rparr>"
    by (simp add: ref i(1))
  with i(2) assignReference_Inr(2) [OF g] show ?thesis by blast
qed

lemma assignIdentity_simps:
  assumes "assignIdentity e f = Inr (g, e')"
  shows "f_path g = f_path f" "f_present g = f_present f" "f_folder g = f_folder f"
    and "f_revision g = (if f_revision f = 0 then 1 else f_revision f)"
    and "referenced g"
    and "if f_entry_id f = '''' then draws e = f_entry_id g # draws e'
         else f_entry_id g = f_entry_id f \<and> e' = e"
proof -
  from assignIdentity_shape [OF assms] obtain i ref where
    g: "g = f\<lparr>f_entry_id := i,
             f_revision := (if f_revision f = 0 then 1 else f_revision f), f_reference := ref\<rparr>"
    and v: "referenced g"
    and i: "if f_entry_id f = '''' then draws e = i # draws e' else i = f_entry_id f \<and> e' = e"
    by blast
  show "f_path g = f_path f" "f_present g = f_present f" "f_folder g = f_folder f"
    "f_revision g = (if f_revision f = 0 then 1 else f_revision f)"
    "if f_entry_id f = '''' then draws e = f_entry_id g # draws e'
         else f_entry_id g = f_entry_id f \<and> e' = e"
    using i by (simp_all add: g)
  show "referenced g" by (rule v)
qed

text \<open>Rows that are already well formed are loaded as they are.\<close>

lemma upgrade_row_id:
  assumes "row_ok f" "f_entry_id f \<notin> set seen"
  shows "upgrade_row e seen f = Inr (f, False, e)"
  using assms by (auto simp: upgrade_row_def row_ok_def referenced_def)

lemma upgrade_rows_id:
  assumes "\<forall>f \<in> set fs. row_ok f" "distinct_ids fs" "f_entry_id ` set fs \<inter> set seen = {}"
  shows "upgrade_rows e seen fs = Inr (fs, False, e)"
  using assms
  by (induction fs arbitrary: seen) (auto simp: upgrade_row_id distinct_ids_def)

lemma upgradeFiles_id:
  assumes "\<forall>f \<in> set fs. row_ok f" "distinct_ids fs"
  shows "upgradeFiles e fs = Inr (fs, False, e)"
  using assms upgrade_rows_id [OF assms, of "[]"]
  by (auto simp: upgradeFiles_def row_ok_def referenced_def)

end
