(* ===== verification/Index.thy ===== *)
theory Index
  imports Catalog_Data
begin

text \<open>
  \<^verbatim>\<open>internal/catalog/children.go\<close> and \<^verbatim>\<open>internal/catalog/index.go\<close>: the two indexes rebuilt on
  every save (live rows by path, and directory listings with synthesised folders) and the read
  operations over them.
\<close>

section \<open>Building the indexes\<close>

fun indexPaths_from :: "(string \<rightharpoonup> file_row) \<Rightarrow> file_row list \<Rightarrow> (string \<rightharpoonup> file_row)" where
  "indexPaths_from m [] = m"
| "indexPaths_from m (f # fs) =
     indexPaths_from (if f_present f then m(f_path f \<mapsto> f) else m) fs"

definition indexPaths :: "file_row list \<Rightarrow> (string \<rightharpoonup> file_row)" where
  "indexPaths fs = indexPaths_from Map.empty fs"

type_synonym child_sets = "string \<rightharpoonup> (string \<times> file_row) list"

definition rows_at :: "child_sets \<Rightarrow> string \<Rightarrow> (string \<times> file_row) list" where
  "rows_at s parent = (case s parent of None \<Rightarrow> [] | Some rows \<Rightarrow> rows)"

text \<open>The closure \<open>put\<close> of \<open>indexChildren\<close>: an actual row always wins over a synthesised one.\<close>

definition put_child :: "string \<Rightarrow> file_row \<Rightarrow> bool \<Rightarrow> child_sets \<Rightarrow> child_sets" where
  "put_child parent row actual s =
     (let rows = rows_at s parent
      in case map_of rows (f_path row) of
           None \<Rightarrow> s(parent \<mapsto> AList.update (f_path row) row rows)
         | Some old \<Rightarrow>
             if f_entry_id old \<noteq> '''' \<and> \<not> actual then s(parent \<mapsto> rows)
             else
               (let row' = (if f_entry_id old = '''' \<and> \<not> actual
                                \<and> time_after (f_mtime old) (f_mtime row)
                             then row\<lparr>f_mtime := f_mtime old\<rparr> else row)
                in s(parent \<mapsto> AList.update (f_path row) row' rows)))"

text \<open>A folder that only exists because something below it does.\<close>

definition synthetic_folder :: "string \<Rightarrow> gotime \<Rightarrow> file_row" where
  "synthetic_folder name mtime =
     zero_file\<lparr>f_path := name, f_folder := True, f_mtime := mtime, f_present := True\<rparr>"

fun index_parts :: "file_row \<Rightarrow> string list \<Rightarrow> string list \<Rightarrow> child_sets \<Rightarrow> child_sets" where
  "index_parts row pre [] s = s"
| "index_parts row pre (p # ps) s =
     (let parent = join_with (CHR ''/'') pre;
          name = join_with (CHR ''/'') (pre @ [p]);
          s' = (if ps = [] then put_child parent row True s
                else put_child parent (synthetic_folder name (f_mtime row)) False s)
      in index_parts row (pre @ [p]) ps s')"

fun index_children_from :: "child_sets \<Rightarrow> file_row list \<Rightarrow> child_sets" where
  "index_children_from s [] = s"
| "index_children_from s (f # fs) =
     index_children_from
       (if \<not> f_present f \<or> f_path f = '''' then s
        else index_parts f [] (split_on (CHR ''/'') (f_path f)) s) fs"

definition indexChildren :: "file_row list \<Rightarrow> (string \<rightharpoonup> file_row list)" where
  "indexChildren fs = (\<lambda>parent. map_option (map snd) (index_children_from Map.empty fs parent))"

section \<open>Reads\<close>

definition ListFiles :: "catalog \<Rightarrow> file_row list" where
  "ListFiles c = filter f_present (c_files c)"

definition All :: "catalog \<Rightarrow> file_row list" where
  "All c = c_files c"

definition Trash :: "catalog \<Rightarrow> file_row list" where
  "Trash c = filter (\<lambda>f. \<not> f_present f \<and> f_deleted_at f \<noteq> None) (c_files c)"

definition Get :: "catalog \<Rightarrow> string \<Rightarrow> file_row option" where
  "Get c name = c_by_path c name"

text \<open>The part before the last slash, or the empty string.\<close>

definition parent_name :: "string \<Rightarrow> string" where
  "parent_name name = join_with (CHR ''/'') (butlast (split_on (CHR ''/'') name))"

definition Children :: "catalog \<Rightarrow> string \<Rightarrow> file_row list" where
  "Children c name = (case c_children c name of None \<Rightarrow> [] | Some rows \<Rightarrow> rows)"

definition IsFolder :: "catalog \<Rightarrow> string \<Rightarrow> bool" where
  "IsFolder c name =
     (case c_by_path c name of
        Some f \<Rightarrow> f_folder f
      | None \<Rightarrow>
          (case List.find (\<lambda>child. f_path child = name) (Children c (parent_name name)) of
             Some child \<Rightarrow> f_folder child
           | None \<Rightarrow> False))"

fun Matching :: "(file_row \<Rightarrow> bool) \<Rightarrow> catalog \<Rightarrow> file_row list" where
  "Matching include c = filter (\<lambda>f. f_present f \<and> include f) (c_files c)"

text \<open>\<open>Summary\<close> keeps its totals in signed 64-bit integers.\<close>

fun summarize :: "string list \<Rightarrow> catalog_summary \<Rightarrow> file_row list \<Rightarrow> catalog_summary" where
  "summarize hashes s [] = s"
| "summarize hashes s (f # fs) =
     (if f_present f \<and> \<not> f_folder f then
        (let s' = s\<lparr>s_logical := wrap64 (s_logical s + f_size f)\<rparr>
         in if f_hash f \<in> set hashes then summarize hashes s' fs
            else summarize (f_hash f # hashes) (s'\<lparr>s_unique := wrap64 (s_unique s' + f_size f)\<rparr>) fs)
      else if \<not> f_present f \<and> f_deleted_at f \<noteq> None \<and> \<not> f_folder f then
        summarize hashes (s\<lparr>s_trash := wrap64 (s_trash s + f_size f),
                            s_trash_count := wrap64 (s_trash_count s + 1)\<rparr>) fs
      else summarize hashes s fs)"

definition zero_summary :: catalog_summary where
  "zero_summary = \<lparr>s_logical = 0, s_unique = 0, s_trash = 0, s_trash_count = 0\<rparr>"

definition Summary :: "catalog \<Rightarrow> catalog_summary \<times> catalog" where
  "Summary c =
     (case c_summary c of
        Some s \<Rightarrow> (s, c)
      | None \<Rightarrow> let s = summarize [] zero_summary (c_files c) in (s, c\<lparr>c_summary := Some s\<rparr>))"

definition DiskUnchanged :: "catalog \<Rightarrow> bool" where
  "DiskUnchanged c = (map_option fst (c_disk c) = c_disk_info c)"

definition Clear :: "catalog \<Rightarrow> catalog" where
  "Clear c = c\<lparr>c_files := [], c_children := Map.empty, c_by_path := Map.empty, c_albums := [],
     c_saved_albums := [], c_journal := zero_journal, c_checkpoints := [], c_summary := None,
     c_version := c_version c + 1\<rparr>"

section \<open>Lookup by path\<close>

definition unique_live_paths :: "file_row list \<Rightarrow> bool" where
  "unique_live_paths fs \<longleftrightarrow> distinct (map f_path (filter f_present fs))"

lemma indexPaths_from_miss:
  "(\<forall>f \<in> set fs. f_present f \<longrightarrow> f_path f \<noteq> p) \<Longrightarrow> indexPaths_from m fs p = m p"
  by (induction fs arbitrary: m) auto

lemma indexPaths_from_Some:
  "indexPaths_from m fs p = Some f \<Longrightarrow>
   m p = Some f \<or> f \<in> set fs \<and> f_present f \<and> f_path f = p"
  by (induction fs arbitrary: m) (fastforce split: if_splits)+

lemma indexPaths_from_hit:
  assumes "unique_live_paths fs" "f \<in> set fs" "f_present f"
  shows "indexPaths_from m fs (f_path f) = Some f"
  using assms
proof (induction fs arbitrary: m)
  case Nil
  then show ?case by simp
next
  case (Cons g fs)
  show ?case
  proof (cases "f = g")
    case True
    with Cons.prems have "\<forall>h \<in> set fs. f_present h \<longrightarrow> f_path h \<noteq> f_path f"
      by (auto simp: unique_live_paths_def image_iff)
    with True Cons.prems show ?thesis by (simp add: indexPaths_from_miss)
  next
    case False
    with Cons show ?thesis by (auto simp: unique_live_paths_def split: if_splits)
  qed
qed

lemma indexPaths_Some: "indexPaths fs p = Some f \<Longrightarrow> f \<in> set fs \<and> f_present f \<and> f_path f = p"
  unfolding indexPaths_def using indexPaths_from_Some [of Map.empty fs p f] by auto

lemma indexPaths_iff:
  assumes "unique_live_paths fs"
  shows "indexPaths fs p = Some f \<longleftrightarrow> f \<in> set fs \<and> f_present f \<and> f_path f = p"
  using indexPaths_Some indexPaths_from_hit [OF assms] unfolding indexPaths_def by blast

lemma indexPaths_from_None:
  "indexPaths_from m fs p = None \<Longrightarrow> m p = None \<and> (\<forall>f \<in> set fs. f_present f \<longrightarrow> f_path f \<noteq> p)"
proof (induction fs arbitrary: m)
  case Nil
  then show ?case by simp
next
  case (Cons g fs)
  from Cons.IH [of "if f_present g then m(f_path g \<mapsto> g) else m"] Cons.prems
  show ?case by (auto split: if_splits)
qed

lemma indexPaths_None:
  "indexPaths fs p = None \<longleftrightarrow> (\<forall>f \<in> set fs. f_present f \<longrightarrow> f_path f \<noteq> p)"
proof
  assume n: "indexPaths fs p = None"
  show "\<forall>f \<in> set fs. f_present f \<longrightarrow> f_path f \<noteq> p"
  proof (rule ccontr)
    assume "\<not> ?thesis"
    then show False using n indexPaths_from_None unfolding indexPaths_def by blast
  qed
next
  assume "\<forall>f \<in> set fs. f_present f \<longrightarrow> f_path f \<noteq> p"
  then show "indexPaths fs p = None" by (simp add: indexPaths_def indexPaths_from_miss)
qed

section \<open>Directory listings\<close>

definition child_row :: "child_sets \<Rightarrow> string \<Rightarrow> string \<Rightarrow> file_row option" where
  "child_row s parent name = map_of (rows_at s parent) name"

lemma child_row_put:
  "child_row (put_child parent row actual s) q x =
     (if q = parent \<and> x = f_path row then
        (case child_row s q x of
           None \<Rightarrow> Some row
         | Some old \<Rightarrow>
             if f_entry_id old \<noteq> '''' \<and> \<not> actual then Some old
             else if f_entry_id old = '''' \<and> \<not> actual \<and> time_after (f_mtime old) (f_mtime row)
             then Some (row\<lparr>f_mtime := f_mtime old\<rparr>) else Some row)
      else child_row s q x)"
  by (auto simp: put_child_def child_row_def rows_at_def Let_def split: option.splits)

text \<open>A stored row survives the insertion of any other path.\<close>

lemma put_child_keeps:
  assumes "child_row s q x = Some f" "f_entry_id f \<noteq> ''''" "actual \<Longrightarrow> f_path row \<noteq> x"
  shows "child_row (put_child parent row actual s) q x = Some f"
  using assms by (auto simp: child_row_put)

lemma index_parts_keeps:
  assumes "child_row s q x = Some f" "f_entry_id f \<noteq> ''''" "f_path row \<noteq> x"
  shows "child_row (index_parts row pre ps s) q x = Some f"
  using assms by (induction row pre ps s rule: index_parts.induct)
    (simp_all add: Let_def put_child_keeps)

lemma index_parts_stores:
  assumes "ps \<noteq> []"
  shows "child_row (index_parts row pre ps s)
           (join_with (CHR ''/'') (pre @ butlast ps)) (f_path row) = Some row"
  using assms
proof (induction row pre ps s rule: index_parts.induct)
  case (1 row pre s)
  then show ?case by simp
next
  case (2 row pre p ps s)
  show ?case
  proof (cases "ps = []")
    case True
    then show ?thesis by (auto simp: Let_def child_row_put split: option.splits)
  next
    case False
    with 2 show ?thesis by (simp add: Let_def)
  qed
qed

lemma index_children_from_keeps:
  assumes "child_row s q x = Some f" "f_entry_id f \<noteq> ''''"
    and "\<forall>g \<in> set fs. f_present g \<longrightarrow> f_path g \<noteq> x"
  shows "child_row (index_children_from s fs) q x = Some f"
  using assms by (induction fs arbitrary: s) (simp_all add: index_parts_keeps)

lemma index_children_from_stores:
  assumes "unique_live_paths fs" "f \<in> set fs" "f_present f" "f_path f \<noteq> ''''" "f_entry_id f \<noteq> ''''"
  shows "child_row (index_children_from s fs) (parent_name (f_path f)) (f_path f) = Some f"
  using assms
proof (induction fs arbitrary: s)
  case Nil
  then show ?case by simp
next
  case (Cons g fs)
  show ?case
  proof (cases "f = g")
    case True
    with Cons.prems have "\<forall>h \<in> set fs. f_present h \<longrightarrow> f_path h \<noteq> f_path f"
      by (auto simp: unique_live_paths_def image_iff)
    moreover have "child_row (index_parts f [] (split_on (CHR ''/'') (f_path f)) s)
        (parent_name (f_path f)) (f_path f) = Some f"
      using index_parts_stores [of "split_on (CHR ''/'') (f_path f)" f "[]" s]
      by (simp add: parent_name_def)
    ultimately show ?thesis using True Cons.prems by (simp add: index_children_from_keeps)
  next
    case False
    with Cons show ?thesis by (auto simp: unique_live_paths_def split: if_splits)
  qed
qed

text \<open>Every live row is listed in its parent directory.\<close>

lemma indexChildren_lists:
  assumes "unique_live_paths fs" "f \<in> set fs" "f_present f" "f_path f \<noteq> ''''" "f_entry_id f \<noteq> ''''"
  shows "\<exists>rows. indexChildren fs (parent_name (f_path f)) = Some rows \<and> f \<in> set rows"
proof -
  from index_children_from_stores [OF assms, of Map.empty]
  have "map_of (rows_at (index_children_from Map.empty fs) (parent_name (f_path f))) (f_path f) = Some f"
    by (simp add: child_row_def)
  then have "(f_path f, f) \<in> set (rows_at (index_children_from Map.empty fs) (parent_name (f_path f)))"
    by (rule map_of_SomeD)
  then obtain al where "index_children_from Map.empty fs (parent_name (f_path f)) = Some al"
      "(f_path f, f) \<in> set al"
    by (cases "index_children_from Map.empty fs (parent_name (f_path f))") (simp_all add: rows_at_def)
  then show ?thesis by (auto simp: indexChildren_def image_iff intro!: bexI [of _ "(f_path f, f)"])
qed

text \<open>A directory holds at most one row of each name.\<close>

definition keyed_rows :: "child_sets \<Rightarrow> bool" where
  "keyed_rows s \<longleftrightarrow> (\<forall>q. distinct (map fst (rows_at s q)) \<and> (\<forall>(k, f) \<in> set (rows_at s q). f_path f = k))"

lemma set_alist_update: "(k, v) \<in> set (AList.update k' v' al) \<Longrightarrow> (k, v) = (k', v') \<or> (k, v) \<in> set al"
  by (induction al) (auto split: if_splits)

lemma keyed_upd:
  assumes "keyed_rows s"
    and "distinct (map fst rows)" "\<forall>(k, f) \<in> set rows. f_path f = k"
  shows "keyed_rows (s(parent \<mapsto> rows))"
  unfolding keyed_rows_def
proof
  fix q
  show "distinct (map fst (rows_at (s(parent \<mapsto> rows)) q))
      \<and> (\<forall>(k, f) \<in> set (rows_at (s(parent \<mapsto> rows)) q). f_path f = k)"
    using assms by (cases "q = parent") (simp_all add: keyed_rows_def rows_at_def)
qed

lemma keyed_alist:
  assumes "distinct (map fst rows)" "\<forall>(k, f) \<in> set rows. f_path f = k" "f_path v = k'"
  shows "distinct (map fst (AList.update k' v rows))"
    and "\<forall>(k, f) \<in> set (AList.update k' v rows). f_path f = k"
  using assms by (auto simp: distinct_update dest!: set_alist_update)

lemma keyed_put:
  assumes "keyed_rows s"
  shows "keyed_rows (put_child parent row actual s)"
proof -
  have r: "distinct (map fst (rows_at s parent))" "\<forall>(k, f) \<in> set (rows_at s parent). f_path f = k"
    using assms by (auto simp: keyed_rows_def)
  show ?thesis
    unfolding put_child_def Let_def
    by (simp split: option.split)
       (intro conjI impI allI keyed_upd keyed_alist; (rule assms r)?; simp)
qed

lemma keyed_parts: "keyed_rows s \<Longrightarrow> keyed_rows (index_parts row pre ps s)"
  by (induction row pre ps s rule: index_parts.induct) (simp_all add: Let_def keyed_put)

lemma keyed_children: "keyed_rows s \<Longrightarrow> keyed_rows (index_children_from s fs)"
  by (induction fs arbitrary: s) (simp_all add: keyed_parts)

lemma indexChildren_distinct:
  "indexChildren fs p = Some rows \<Longrightarrow> distinct (map f_path rows)"
proof -
  assume r: "indexChildren fs p = Some rows"
  have k: "keyed_rows (index_children_from Map.empty fs)"
    by (rule keyed_children) (simp add: keyed_rows_def rows_at_def)
  from r obtain al where al: "index_children_from Map.empty fs p = Some al" "rows = map snd al"
    by (auto simp: indexChildren_def)
  with k have "distinct (map fst al)" "\<forall>(x, f) \<in> set al. f_path f = x"
    by (auto simp: keyed_rows_def rows_at_def split: option.splits dest: spec [of _ p])
  then have "map f_path (map snd al) = map fst al" by (auto simp: map_eq_conv)
  with al \<open>distinct (map fst al)\<close> show ?thesis by (simp only:)
qed

end
