(* ===== verification/Journal.thy ===== *)
theory Journal
  imports Catalog_Data
begin

text \<open>
  \<^verbatim>\<open>internal/catalog/journal.go\<close> and \<^verbatim>\<open>collection_journal.go\<close>: the change journal written with
  every catalog save, its hash chain, its bounded retention and the pages of changes a device
  reads from it.
\<close>

section \<open>Appending\<close>

definition ChangeRetention :: nat where
  "ChangeRetention = 8192"

definition syncPhotoPath :: "string \<Rightarrow> bool" where
  "syncPhotoPath path \<longleftrightarrow> within ''Photos'' path"

text \<open>
  \<open>(journal *Journal) append\<close>: the record is hashed with its sequence number and an empty
  \<open>Hash\<close> field, after the hash of its predecessor.
\<close>

definition journal_append :: "env \<Rightarrow> journal \<Rightarrow> change_record \<Rightarrow> catalog_error + journal" where
  "journal_append e j r =
     (if j_sequence j = max_u64 then Inl ErrRevisionOverflow
      else
        (let r1 = r\<lparr>cr_sequence := j_sequence j + 1, cr_hash := ''''\<rparr>;
             r2 = r1\<lparr>cr_hash := digest e (j_hash j) r1\<rparr>
         in Inr (j\<lparr>j_sequence := cr_sequence r2, j_hash := cr_hash r2,
                   j_records := j_records j @ [r2]\<rparr>)))"

fun append_all :: "env \<Rightarrow> journal \<Rightarrow> change_record list \<Rightarrow> catalog_error + journal" where
  "append_all e j [] = Inr j"
| "append_all e j (r # rs) = res_bind (journal_append e j r) (\<lambda>j'. append_all e j' rs)"

section \<open>Comparing the saved rows with the next ones\<close>

text \<open>A Go map built by a loop of assignments: the last row of a key wins.\<close>

definition index_by :: "('a \<Rightarrow> string) \<Rightarrow> 'a list \<Rightarrow> (string \<rightharpoonup> 'a)" where
  "index_by key xs = map_of (rev (map (\<lambda>x. (key x, x)) xs))"

text \<open>
  The loop over the next rows: each row is looked up among the previous ones and removed from
  them; a row that is the same is skipped. The rest of the previous rows is returned.
\<close>

fun diff_rows ::
  "('a \<Rightarrow> string) \<Rightarrow> ('a \<Rightarrow> 'a \<Rightarrow> bool) \<Rightarrow> ('a option \<Rightarrow> 'a \<Rightarrow> change_record)
   \<Rightarrow> (string \<rightharpoonup> 'a) \<Rightarrow> 'a list \<Rightarrow> change_record list \<times> (string \<rightharpoonup> 'a)" where
  "diff_rows key same change prev [] = ([], prev)"
| "diff_rows key same change prev (x # xs) =
     (let old = prev (key x);
          (recs, rest) = diff_rows key same change (prev(key x := None)) xs
      in if (case old of Some y \<Rightarrow> same y x | None \<Rightarrow> False) then (recs, rest)
         else (change old x # recs, rest))"

text \<open>The rows that are gone, in the order the runtime iterates over the remaining map.\<close>

definition gone_rows ::
  "env \<Rightarrow> ('a \<Rightarrow> string) \<Rightarrow> 'a list \<Rightarrow> (string \<rightharpoonup> 'a) \<Rightarrow> (string \<times> 'a) list" where
  "gone_rows e key olds rest =
     List.map_filter (\<lambda>k. map_option (Pair k) (rest k))
       (map_order e (filter (\<lambda>k. rest k \<noteq> None) (remdups (map key olds))))"

definition file_kind :: "file_row \<Rightarrow> string" where
  "file_kind f = (if f_folder f then ''folder'' else ''asset'')"

definition same_version :: "file_row \<Rightarrow> file_row \<Rightarrow> bool" where
  "same_version old f \<longleftrightarrow>
     f_revision old = f_revision f \<and> f_path old = f_path f \<and> f_present old = f_present f"

definition file_change :: "file_row option \<Rightarrow> file_row \<Rightarrow> change_record" where
  "file_change old f =
     zero_record\<lparr>cr_kind := file_kind f, cr_id := f_entry_id f, cr_file := Some f,
       cr_deleted := \<not> f_present f,
       cr_photos := syncPhotoPath (f_path f)
         \<or> (case old of Some g \<Rightarrow> syncPhotoPath (f_path g) | None \<Rightarrow> False)\<rparr>"

definition file_gone :: "string \<times> file_row \<Rightarrow> change_record" where
  "file_gone kf =
     zero_record\<lparr>cr_kind := file_kind (snd kf), cr_id := fst kf, cr_deleted := True,
       cr_photos := syncPhotoPath (f_path (snd kf))\<rparr>"

definition file_changes :: "env \<Rightarrow> file_row list \<Rightarrow> file_row list \<Rightarrow> change_record list" where
  "file_changes e olds news =
     (let (recs, rest) = diff_rows f_entry_id same_version file_change (index_by f_entry_id olds) news
      in recs @ map file_gone (gone_rows e f_entry_id olds rest))"

definition album_change :: "album option \<Rightarrow> album \<Rightarrow> change_record" where
  "album_change old a =
     zero_record\<lparr>cr_kind := ''album'', cr_id := a_id a, cr_album := Some (cloneAlbum a),
       cr_photos := True\<rparr>"

definition album_gone :: "string \<times> album \<Rightarrow> change_record" where
  "album_gone ka = zero_record\<lparr>cr_kind := ''album'', cr_id := fst ka, cr_deleted := True, cr_photos := True\<rparr>"

definition album_changes :: "env \<Rightarrow> album list \<Rightarrow> album list \<Rightarrow> change_record list" where
  "album_changes e saved now =
     (let (recs, rest) = diff_rows a_id (=) album_change (index_by a_id saved) now
      in recs @ map album_gone (gone_rows e a_id saved rest))"

definition folder_change :: "collection_folder option \<Rightarrow> collection_folder \<Rightarrow> change_record" where
  "folder_change old f =
     zero_record\<lparr>cr_kind := ''collection'', cr_id := cf_id f, cr_collection := Some f, cr_photos := True\<rparr>"

definition folder_gone :: "string \<times> collection_folder \<Rightarrow> change_record" where
  "folder_gone kf =
     zero_record\<lparr>cr_kind := ''collection'', cr_id := fst kf, cr_deleted := True, cr_photos := True\<rparr>"

definition zero_mapping :: source_mapping where
  "zero_mapping = \<lparr>m_device_id = '''', m_namespace = '''', m_source_id = '''', m_kind = '''',
     m_server_id = '''', m_source_revision = '''', m_server_revision = 0\<rparr>"

text \<open>A missing key reads as the zero mapping.\<close>

definition source_changes ::
  "env \<Rightarrow> (string \<times> source_mapping) list \<Rightarrow> (string \<times> source_mapping) list \<Rightarrow> change_record list" where
  "source_changes e saved now =
     List.map_filter
       (\<lambda>k. case map_of now k of
              None \<Rightarrow> None
            | Some m \<Rightarrow>
                if (case map_of saved k of None \<Rightarrow> zero_mapping | Some old \<Rightarrow> old) = m then None
                else Some (zero_record\<lparr>cr_kind := ''source-mapping'', cr_id := k,
                             cr_source := Some m, cr_photos := True\<rparr>))
       (map_order e (remdups (map fst now)))"

definition journalCollections ::
  "env \<Rightarrow> collection_state \<Rightarrow> collection_state \<Rightarrow> change_record list" where
  "journalCollections e saved now =
     (let (recs, rest) = diff_rows cf_id (=) folder_change (index_by cf_id (cs_folders saved))
                           (cs_folders now)
      in recs @ map folder_gone (gone_rows e cf_id (cs_folders saved) rest)
         @ source_changes e (cs_sources saved) (cs_sources now))"

section \<open>The next journal\<close>

text \<open>Every change between the catalog as last saved and the candidate rows.\<close>

definition journal_changes :: "env \<Rightarrow> file_row list \<Rightarrow> catalog \<Rightarrow> change_record list" where
  "journal_changes e files c =
     file_changes e (c_files c) files
     @ album_changes e (c_saved_albums c) (c_albums c)
     @ journalCollections e (c_saved_collections c) (c_collections c)"

definition trim_journal :: "journal \<Rightarrow> journal" where
  "trim_journal j =
     (if length (j_records j) > ChangeRetention
      then j\<lparr>j_records := drop (length (j_records j) - ChangeRetention) (j_records j)\<rparr> else j)"

definition start_epoch :: "env \<Rightarrow> journal \<Rightarrow> catalog_error + journal \<times> env" where
  "start_epoch e j =
     (if j_epoch j = '''' then res_bind (newEntryID e) (\<lambda>(i, e'). Inr (j\<lparr>j_epoch := i\<rparr>, e'))
      else Inr (j, e))"

definition nextJournalLocked :: "env \<Rightarrow> file_row list \<Rightarrow> catalog \<Rightarrow> catalog_error + journal" where
  "nextJournalLocked e files c =
     res_bind (start_epoch e (c_journal c)) (\<lambda>(j, e').
     res_bind (append_all e' j (journal_changes e' files c)) (\<lambda>j'. Inr (trim_journal j')))"

section \<open>Reading changes\<close>

definition validateSyncLocked :: "sync_position \<Rightarrow> journal \<Rightarrow> catalog_error option" where
  "validateSyncLocked p j =
     (if sp_epoch p \<noteq> j_epoch j \<or> j_sequence j < sp_sequence p then Some ErrSyncExpired
      else if sp_sequence p = j_sequence j \<and> sp_hash p = j_hash j then None
      else if sp_sequence p = 0 \<and> sp_hash p = ''''
              \<and> (case j_records j of [] \<Rightarrow> True | r # _ \<Rightarrow> cr_sequence r = 1) then None
      else if \<exists>r \<in> set (j_records j). cr_sequence r = sp_sequence p \<and> cr_hash r = sp_hash p then None
      else Some ErrSyncExpired)"

fun collect_changes :: "nat \<Rightarrow> u64 \<Rightarrow> change_record list \<Rightarrow> change_record list \<times> bool" where
  "collect_changes room after [] = ([], False)"
| "collect_changes room after (r # rs) =
     (if cr_sequence r \<le> after then collect_changes room after rs
      else if room = 0 then ([], True)
      else (let (out, has_more) = collect_changes (room - 1) after rs in (r # out, has_more)))"

definition ChangesAfter ::
  "sync_position \<Rightarrow> int \<Rightarrow> journal \<Rightarrow> catalog_error + change_record list \<times> sync_position \<times> bool" where
  "ChangesAfter p limit j =
     (case validateSyncLocked p j of
        Some err \<Rightarrow> Inl err
      | None \<Rightarrow>
          (let (out, has_more) = collect_changes (nat (max 1 (min limit 200))) (sp_sequence p) (j_records j);
               next = (if out = [] then p
                       else p\<lparr>sp_sequence := cr_sequence (last out), sp_hash := cr_hash (last out)\<rparr>)
           in Inr (out, next, has_more)))"

section \<open>The hash chain\<close>

text \<open>
  The records lead from one position to another: consecutive sequence numbers without wrap-around,
  and each hash computed from the hash before it.
\<close>

fun chained ::
  "(string \<Rightarrow> change_record \<Rightarrow> string) \<Rightarrow> u64 \<Rightarrow> string \<Rightarrow> change_record list \<Rightarrow> u64 \<Rightarrow> string \<Rightarrow> bool" where
  "chained D s h [] s' h' \<longleftrightarrow> s = s' \<and> h = h'"
| "chained D s h (r # rs) s' h' \<longleftrightarrow>
     s \<noteq> max_u64 \<and> cr_sequence r = s + 1 \<and> cr_hash r = D h (r\<lparr>cr_hash := ''''\<rparr>)
     \<and> chained D (cr_sequence r) (cr_hash r) rs s' h'"

definition journal_inv :: "(string \<Rightarrow> change_record \<Rightarrow> string) \<Rightarrow> journal \<Rightarrow> bool" where
  "journal_inv D j \<longleftrightarrow>
     length (j_records j) \<le> ChangeRetention
     \<and> (j_records j = [] \<longrightarrow> j_sequence j = 0)
     \<and> (\<exists>s h. (s = 0 \<longrightarrow> h = '''') \<and> chained D s h (j_records j) (j_sequence j) (j_hash j))"

lemma chained_append:
  "chained D s h (xs @ ys) s' h' \<longleftrightarrow> (\<exists>t k. chained D s h xs t k \<and> chained D t k ys s' h')"
  by (induction xs arbitrary: s h) auto

lemma chained_sequence:
  assumes "chained D s h rs s' h'"
  shows "unat s' = unat s + length rs"
    and "\<And>i. i < length rs \<Longrightarrow> unat (cr_sequence (rs ! i)) = unat s + i + 1"
proof -
  have "unat s' = unat s + length rs
      \<and> (\<forall>i < length rs. unat (cr_sequence (rs ! i)) = unat s + i + 1)"
    using assms
  proof (induction rs arbitrary: s h)
    case Nil
    then show ?case by simp
  next
    case (Cons r rs)
    then have s: "s \<noteq> max_u64" "cr_sequence r = s + 1"
      and IH: "unat s' = unat (cr_sequence r) + length rs"
        "\<forall>i < length rs. unat (cr_sequence (rs ! i)) = unat (cr_sequence r) + i + 1"
      by auto
    have u: "unat (cr_sequence r) = unat s + 1" using s by (simp add: u64_succ_unat)
    show ?case using IH u by (auto simp: nth_Cons split: nat.split)
  qed
  then show "unat s' = unat s + length rs"
    and "\<And>i. i < length rs \<Longrightarrow> unat (cr_sequence (rs ! i)) = unat s + i + 1" by auto
qed

lemma journal_append_chained:
  assumes "journal_append e j r = Inr j'"
  shows "\<exists>q. j_records j' = j_records j @ [q]
           \<and> chained (digest e) (j_sequence j) (j_hash j) [q] (j_sequence j') (j_hash j')
           \<and> q = r\<lparr>cr_sequence := cr_sequence q, cr_hash := cr_hash q\<rparr> \<and> j_epoch j' = j_epoch j"
  using assms by (auto simp: journal_append_def Let_def split: if_splits)

text \<open>The record a client sees is the record that was appended, numbered and hashed.\<close>

definition stamped :: "change_record list \<Rightarrow> change_record list \<Rightarrow> bool" where
  "stamped rs qs \<longleftrightarrow>
     list_all2 (\<lambda>r q. q = r\<lparr>cr_sequence := cr_sequence q, cr_hash := cr_hash q\<rparr>) rs qs"

lemma append_all_chained:
  assumes "append_all e j rs = Inr j'"
  shows "\<exists>qs. j_records j' = j_records j @ qs \<and> stamped rs qs
           \<and> chained (digest e) (j_sequence j) (j_hash j) qs (j_sequence j') (j_hash j')
           \<and> j_epoch j' = j_epoch j"
  using assms
proof (induction rs arbitrary: j)
  case Nil
  then show ?case by (simp add: stamped_def)
next
  case (Cons r rs)
  from Cons.prems obtain k where k: "journal_append e j r = Inr k" and k': "append_all e k rs = Inr j'"
    by (auto simp: res_bind_Inr_iff)
  from journal_append_chained [OF k] obtain q where q: "j_records k = j_records j @ [q]"
      "chained (digest e) (j_sequence j) (j_hash j) [q] (j_sequence k) (j_hash k)"
      "q = r\<lparr>cr_sequence := cr_sequence q, cr_hash := cr_hash q\<rparr>" "j_epoch k = j_epoch j"
    by blast
  from Cons.IH [OF k'] obtain qs where qs: "j_records j' = j_records k @ qs" "stamped rs qs"
      "chained (digest e) (j_sequence k) (j_hash k) qs (j_sequence j') (j_hash j')"
      "j_epoch j' = j_epoch k"
    by blast
  have "chained (digest e) (j_sequence j) (j_hash j) ([q] @ qs) (j_sequence j') (j_hash j')"
    unfolding chained_append using q(2) qs(3) by blast
  then show ?case using q qs by (intro exI [of _ "q # qs"]) (simp add: stamped_def)
qed

lemma start_epoch_simps:
  assumes "start_epoch e j = Inr (j', e')"
  shows "j_records j' = j_records j" "j_sequence j' = j_sequence j" "j_hash j' = j_hash j"
    and "digest e' = digest e" "map_order e' = map_order e" "j_epoch j \<noteq> '''' \<Longrightarrow> j' = j \<and> e' = e"
  using assms
  by (auto simp: start_epoch_def newEntryID_def res_bind_Inr_iff split: if_splits list.splits option.splits)

lemma journal_changes_cong:
  "map_order e' = map_order e \<Longrightarrow> journal_changes e' files c = journal_changes e files c"
  by (simp add: journal_changes_def file_changes_def album_changes_def journalCollections_def
      source_changes_def gone_rows_def)

text \<open>One save extends the chain by the changes and keeps the newest records.\<close>

lemma nextJournalLocked_Inr:
  assumes "nextJournalLocked e files c = Inr j"
  shows "\<exists>qs. stamped (journal_changes e files c) qs
     \<and> chained (digest e) (j_sequence (c_journal c)) (j_hash (c_journal c)) qs (j_sequence j) (j_hash j)
     \<and> j_records j = drop (length (j_records (c_journal c)) + length qs - ChangeRetention)
                          (j_records (c_journal c) @ qs)"
proof -
  from assms obtain j0 e' j1 where
    j0: "start_epoch e (c_journal c) = Inr (j0, e')"
    and j1: "append_all e' j0 (journal_changes e' files c) = Inr j1" and j: "j = trim_journal j1"
    by (auto simp: nextJournalLocked_def res_bind_Inr_iff)
  note s = start_epoch_simps [OF j0]
  from append_all_chained [OF j1] obtain qs where qs: "j_records j1 = j_records j0 @ qs"
      "stamped (journal_changes e' files c) qs"
      "chained (digest e') (j_sequence j0) (j_hash j0) qs (j_sequence j1) (j_hash j1)"
    by blast
  have "journal_changes e' files c = journal_changes e files c"
    by (rule journal_changes_cong) (rule s(5))
  then show ?thesis
    using qs s(1-4) j by (intro exI [of _ qs]) (simp add: trim_journal_def)
qed

lemma chained_drop:
  assumes "chained D s h rs s' h'" "n \<le> length rs" "s = 0 \<longrightarrow> h = ''''"
  shows "\<exists>t k. (t = 0 \<longrightarrow> k = '''') \<and> chained D t k (drop n rs) s' h'"
proof (cases n)
  case 0
  with assms show ?thesis by auto
next
  case (Suc m)
  from assms(1) have "chained D s h (take n rs @ drop n rs) s' h'" by simp
  then obtain t k where tk: "chained D s h (take n rs) t k" "chained D t k (drop n rs) s' h'"
    unfolding chained_append by blast
  from chained_sequence(1) [OF tk(1)] assms(2) Suc have "unat t \<noteq> 0" by simp
  then have "t \<noteq> 0" by auto
  with tk(2) show ?thesis by blast
qed

lemma nextJournalLocked_inv:
  assumes "journal_inv (digest e) (c_journal c)" "nextJournalLocked e files c = Inr j"
  shows "journal_inv (digest e) j"
proof -
  let ?j0 = "c_journal c"
  from nextJournalLocked_Inr [OF assms(2)] obtain qs where
    qs: "chained (digest e) (j_sequence ?j0) (j_hash ?j0) qs (j_sequence j) (j_hash j)"
    and r: "j_records j = drop (length (j_records ?j0) + length qs - ChangeRetention) (j_records ?j0 @ qs)"
    by blast
  from assms(1) obtain s h where sh: "s = 0 \<longrightarrow> h = ''''"
      "chained (digest e) s h (j_records ?j0) (j_sequence ?j0) (j_hash ?j0)"
    by (auto simp: journal_inv_def)
  then have "chained (digest e) s h (j_records ?j0 @ qs) (j_sequence j) (j_hash j)"
    unfolding chained_append using qs by blast
  moreover have "length (j_records ?j0) + length qs - ChangeRetention \<le> length (j_records ?j0 @ qs)"
    by simp
  ultimately have "\<exists>t k. (t = 0 \<longrightarrow> k = '''') \<and>
      chained (digest e) t k (j_records j) (j_sequence j) (j_hash j)"
    unfolding r using sh(1) by (rule chained_drop)
  moreover have "length (j_records j) \<le> ChangeRetention" by (simp add: r)
  moreover have "j_records j = [] \<longrightarrow> j_sequence j = 0"
  proof
    assume "j_records j = []"
    moreover have "length (j_records j) = (length (j_records ?j0) + length qs)
        - (length (j_records ?j0) + length qs - 8192)"
      by (simp add: r ChangeRetention_def)
    ultimately have "length (j_records ?j0) + length qs = 0" by (simp only: list.size)
    then have "j_records ?j0 = [] \<and> qs = []" by simp
    then show "j_sequence j = 0" using qs assms(1) by (simp add: journal_inv_def)
  qed
  ultimately show ?thesis unfolding journal_inv_def by blast
qed

section \<open>Pages of changes\<close>

lemma collect_changes_eq:
  "collect_changes n s rs =
     (take n (filter (\<lambda>r. s < cr_sequence r) rs), n < length (filter (\<lambda>r. s < cr_sequence r) rs))"
  by (induction n s rs rule: collect_changes.induct) (auto simp: Let_def take_Cons' not_le)

lemma chained_sorted:
  assumes "chained D s h rs s' h'"
  shows "sorted_wrt (\<lambda>x y. cr_sequence x < cr_sequence y) rs"
  using chained_sequence(2) [OF assms] by (auto simp: sorted_wrt_iff_nth_less word_less_nat_alt)
lemma chained_last:
  assumes "chained D s h rs s' h'" "rs \<noteq> []"
  shows "cr_sequence (last rs) = s' \<and> cr_hash (last rs) = h'"
  using assms by (induction rs arbitrary: s h) auto

end
