(* ===== verification/Sync.thy ===== *)
theory Sync
  imports Journal
begin

text \<open>
  What the journal promises to a device: a page of \<open>ChangesAfter\<close> is exactly the next records in
  order and ends at a position that validates again, reading page after page delivers every record
  and reaches the catalog's position, and the records of one save turn the versions a device knew
  before the save into the versions after it.
\<close>

section \<open>Pages\<close>

lemma valid_position:
  assumes "validateSyncLocked p j = None"
  shows "sp_epoch p = j_epoch j" and "sp_sequence p \<le> j_sequence j"
    and "p = position_of j
      \<or> (sp_sequence p = 0 \<and> sp_hash p = ''''
         \<and> (case j_records j of [] \<Rightarrow> True | r # _ \<Rightarrow> cr_sequence r = 1))
      \<or> (\<exists>r \<in> set (j_records j). cr_sequence r = sp_sequence p \<and> cr_hash r = sp_hash p)"
  using assms by (auto simp: validateSyncLocked_def position_of_def not_less split: if_splits)

lemma retained_position_valid:
  assumes "journal_inv D j" "r \<in> set (j_records j)" "sp_epoch p = j_epoch j"
    and "sp_sequence p = cr_sequence r" "sp_hash p = cr_hash r"
  shows "validateSyncLocked p j = None"
proof -
  from assms(1) obtain s h where c: "chained D s h (j_records j) (j_sequence j) (j_hash j)"
    by (auto simp: journal_inv_def)
  from assms(2) obtain i where i: "i < length (j_records j)" "r = j_records j ! i"
    by (auto simp: in_set_conv_nth)
  from chained_sequence(1) [OF c] chained_sequence(2) [OF c i(1)] i
  have "\<not> j_sequence j < cr_sequence r" by (simp add: word_less_nat_alt)
  then show ?thesis using assms by (auto simp: validateSyncLocked_def)
qed

lemma ChangesAfter_Inr:
  assumes "ChangesAfter p limit j = Inr (out, next, has_more)"
  shows "validateSyncLocked p j = None"
    and "out = take (nat (max 1 (min limit 200))) (filter (\<lambda>r. sp_sequence p < cr_sequence r) (j_records j))"
    and "has_more \<longleftrightarrow> nat (max 1 (min limit 200))
                    < length (filter (\<lambda>r. sp_sequence p < cr_sequence r) (j_records j))"
    and "next = (if out = [] then p
                 else p\<lparr>sp_sequence := cr_sequence (last out), sp_hash := cr_hash (last out)\<rparr>)"
  using assms by (auto simp: ChangesAfter_def collect_changes_eq Let_def split: option.splits)

lemma ChangesAfter_next_valid:
  assumes inv: "journal_inv D j" and page: "ChangesAfter p limit j = Inr (out, next, has_more)"
  shows "validateSyncLocked next j = None"
proof (cases "out = []")
  case True
  with ChangesAfter_Inr [OF page] show ?thesis by simp
next
  case False
  then have "last out \<in> set (j_records j)"
  proof -
    have "set out \<subseteq> set (j_records j)"
      unfolding ChangesAfter_Inr(2) [OF page] by (auto dest: in_set_takeD)
    then show ?thesis using last_in_set [OF False] by blast
  qed
  then show ?thesis
    using ChangesAfter_Inr(4) [OF page] False valid_position(1) [OF ChangesAfter_Inr(1) [OF page]]
    by (intro retained_position_valid [OF inv]) auto
qed

text \<open>What is still to be read after a page is what the page left out.\<close>

lemma ChangesAfter_rest:
  assumes inv: "journal_inv D j" and page: "ChangesAfter p limit j = Inr (out, next, has_more)"
  shows "filter (\<lambda>r. sp_sequence p < cr_sequence r) (j_records j)
       = out @ filter (\<lambda>r. sp_sequence next < cr_sequence r) (j_records j)"
proof (cases "out = []")
  case True
  have "nat (max 1 (min limit 200)) \<noteq> 0" by simp
  with True ChangesAfter_Inr(2) [OF page]
  have "filter (\<lambda>r. sp_sequence p < cr_sequence r) (j_records j) = []" by auto
  with True ChangesAfter_Inr(4) [OF page] show ?thesis by simp
next
  case False
  from inv obtain s h where "chained D s h (j_records j) (j_sequence j) (j_hash j)"
    by (auto simp: journal_inv_def)
  from filter_above_last [OF chained_sorted [OF this] ChangesAfter_Inr(2) [OF page] False]
  show ?thesis using ChangesAfter_Inr(4) [OF page] False by simp
qed

text \<open>A position with nothing after it is the position of the catalog.\<close>

lemma position_at_end:
  assumes inv: "journal_inv D j" and valid: "validateSyncLocked p j = None"
    and empty: "filter (\<lambda>r. sp_sequence p < cr_sequence r) (j_records j) = []"
  shows "p = position_of j"
proof -
  from inv obtain s h where sh: "s = 0 \<longrightarrow> h = ''''"
    and c: "chained D s h (j_records j) (j_sequence j) (j_hash j)"
    by (auto simp: journal_inv_def)
  from valid_position(3) [OF valid] show ?thesis
  proof (elim disjE conjE bexE)
    assume p0: "sp_sequence p = 0" "sp_hash p = ''''"
      and first: "case j_records j of [] \<Rightarrow> True | r # _ \<Rightarrow> cr_sequence r = 1"
    have "j_records j = []"
      using empty p0 first by (cases "j_records j") auto
    then show ?thesis
      using inv sh c p0 valid_position(1) [OF valid] by (auto simp: journal_inv_def position_of_def)
  next
    fix r assume r: "r \<in> set (j_records j)" "cr_sequence r = sp_sequence p" "cr_hash r = sp_hash p"
    then obtain i where i: "i < length (j_records j)" "r = j_records j ! i"
      by (auto simp: in_set_conv_nth)
    from filter_above_nth [OF chained_sorted [OF c] i(1)] empty r i
    have "drop (Suc i) (j_records j) = []" by simp
    then have len: "Suc i = length (j_records j)" using i(1) by simp
    then have ne: "j_records j \<noteq> []" by auto
    have "i = length (j_records j) - 1" using len by simp
    then have "r = last (j_records j)" using i(2) ne by (simp add: last_conv_nth)
    then show ?thesis
      using chained_last [OF c ne] r valid_position(1) [OF valid] by (simp add: position_of_def)
  qed simp
qed

text \<open>A client that keeps asking until \<open>has_more\<close> is false.\<close>

fun drain :: "nat \<Rightarrow> int \<Rightarrow> sync_position \<Rightarrow> journal \<Rightarrow> (change_record list \<times> sync_position) option" where
  "drain 0 limit p j = None"
| "drain (Suc fuel) limit p j =
     (case ChangesAfter p limit j of
        Inl err \<Rightarrow> None
      | Inr (out, next, has_more) \<Rightarrow>
          if has_more then map_option (\<lambda>(rs, q). (out @ rs, q)) (drain fuel limit next j)
          else Some (out, next))"

lemma drain_complete:
  assumes inv: "journal_inv D j" and valid: "validateSyncLocked p j = None"
    and fuel: "length (filter (\<lambda>r. sp_sequence p < cr_sequence r) (j_records j)) < fuel"
  shows "drain fuel limit p j
       = Some (filter (\<lambda>r. sp_sequence p < cr_sequence r) (j_records j), position_of j)"
  using valid fuel
proof (induction fuel arbitrary: p)
  case 0
  then show ?case by simp
next
  case (Suc fuel)
  let ?after = "\<lambda>q. filter (\<lambda>r. sp_sequence q < cr_sequence r) (j_records j)"
  obtain out nxt has_more where page: "ChangesAfter p limit j = Inr (out, nxt, has_more)"
    using Suc.prems(1)
    by (cases "collect_changes (nat (max 1 (min limit 200))) (sp_sequence p) (j_records j)")
       (auto simp: ChangesAfter_def Let_def)
  note valid' = ChangesAfter_next_valid [OF inv page] and rest = ChangesAfter_rest [OF inv page]
  show ?case
  proof (cases has_more)
    case True
    then have "out \<noteq> []" using ChangesAfter_Inr(2,3) [OF page] by auto
    then have "length (?after nxt) < fuel" using rest Suc.prems(2) by (cases out) auto
    from Suc.IH [OF valid' this] True page rest show ?thesis by simp
  next
    case False
    then have out: "out = ?after p" using ChangesAfter_Inr(2,3) [OF page] by auto
    then have "?after nxt = []" using rest by simp
    from position_at_end [OF inv valid' this] False page out show ?thesis by simp
  qed
qed

section \<open>Replaying a save\<close>

text \<open>
  What a device remembers of the files: the revision, path and liveness of each entry. A record of
  an asset or a folder replaces it, a record without a row forgets it; other records are not about
  files.
\<close>

type_synonym versions = "string \<rightharpoonup> u64 \<times> string \<times> bool"

definition version_of :: "file_row \<Rightarrow> u64 \<times> string \<times> bool" where
  "version_of f = (f_revision f, f_path f, f_present f)"

definition versions_of :: "file_row list \<Rightarrow> versions" where
  "versions_of fs = map_option version_of \<circ> index_by f_entry_id fs"

definition apply_record :: "change_record \<Rightarrow> versions \<Rightarrow> versions" where
  "apply_record r v =
     (if cr_kind r = ''asset'' \<or> cr_kind r = ''folder''
      then v(cr_id r := map_option version_of (cr_file r)) else v)"

lemma index_by_Nil [simp]: "index_by key [] = Map.empty"
  by (simp add: index_by_def)

lemma index_by_Cons: "index_by key (x # xs) k = (case index_by key xs k of None \<Rightarrow>
    (if k = key x then Some x else None) | Some y \<Rightarrow> Some y)"
  by (auto simp: index_by_def map_add_def split: option.splits)

lemma index_by_Some: "index_by key xs k = Some x \<Longrightarrow> x \<in> set xs \<and> key x = k"
  by (induction xs) (auto simp: index_by_Cons split: option.splits if_splits)

lemma index_by_None: "index_by key xs k = None \<longleftrightarrow> k \<notin> key ` set xs"
  by (induction xs) (auto simp: index_by_Cons split: option.splits)

lemma index_by_distinct:
  assumes "distinct (map key xs)" "x \<in> set xs"
  shows "index_by key xs (key x) = Some x"
proof (cases "index_by key xs (key x)")
  case None
  with assms show ?thesis by (simp add: index_by_None)
next
  case (Some y)
  with index_by_Some [OF Some] assms show ?thesis by (auto dest: distinct_map_inj)
qed

lemma apply_file_change:
  "apply_record (file_change old f) v = v(f_entry_id f \<mapsto> version_of f)"
  by (simp add: file_change_def file_kind_def zero_record_def apply_record_def)

lemma apply_file_gone: "apply_record (file_gone kf) v = v(fst kf := None)"
  by (simp add: file_gone_def file_kind_def zero_record_def apply_record_def)

lemma diff_rows_records:
  "r \<in> set (fst (diff_rows key same change prev xs)) \<Longrightarrow> \<exists>old x. x \<in> set xs \<and> r = change old x"
  by (induction key same change prev xs rule: diff_rows.induct)
     (auto simp: Let_def split: prod.splits if_splits)

lemma apply_other:
  assumes "r \<in> set (album_changes e sa na) \<union> set (journalCollections e sc nc)"
  shows "apply_record r v = v"
proof -
  have "cr_kind r \<in> {''album'', ''collection'', ''source-mapping''}"
    using assms
    by (auto simp: album_changes_def journalCollections_def source_changes_def map_filter_def
        album_gone_def folder_gone_def zero_record_def Let_def split_def
        dest!: diff_rows_records split: option.splits if_splits)
       (auto simp: album_change_def folder_change_def zero_record_def)
  then show ?thesis by (auto simp: apply_record_def)
qed

text \<open>The first loop: every next row is known afterwards, the others are as before.\<close>

lemma diff_rows_rest:
  "snd (diff_rows key same change prev xs) = (\<lambda>k. if k \<in> key ` set xs then None else prev k)"
proof (induction xs arbitrary: prev)
  case Nil
  then show ?case by simp
next
  case (Cons x xs)
  have "snd (diff_rows key same change prev (x # xs))
      = snd (diff_rows key same change (prev(key x := None)) xs)"
    by (simp add: Let_def split: prod.split)
  then show ?case by (simp only: Cons.IH) auto
qed

lemma fst_diff_rows_Cons:
  "fst (diff_rows key same change prev (x # xs)) =
     (if (case prev (key x) of Some y \<Rightarrow> same y x | None \<Rightarrow> False) then []
      else [change (prev (key x)) x])
     @ fst (diff_rows key same change (prev(key x := None)) xs)"
  by (simp add: Let_def split: prod.split)

lemma diff_rows_replay:
  assumes "distinct (map f_entry_id news)"
    and "\<And>k g. prev k = Some g \<Longrightarrow> v k = Some (version_of g)"
  shows "fold apply_record (fst (diff_rows f_entry_id same_version file_change prev news)) v
       = (\<lambda>k. case index_by f_entry_id news k of Some f \<Rightarrow> Some (version_of f) | None \<Rightarrow> v k)"
  using assms
proof (induction news arbitrary: prev v)
  case Nil
  then show ?case by simp
next
  case (Cons f news)
  let ?id = "f_entry_id f"
  let ?same = "case prev ?id of Some g \<Rightarrow> same_version g f | None \<Rightarrow> False"
  let ?v = "if ?same then v else v(?id \<mapsto> version_of f)"
  have id: "?v ?id = Some (version_of f)"
    using Cons.prems(2) by (auto simp: same_version_def version_of_def split: option.splits)
  have others: "?v k = v k" if "k \<noteq> ?id" for k using that by simp
  have step: "fold apply_record (fst (diff_rows f_entry_id same_version file_change prev (f # news))) v
      = fold apply_record
          (fst (diff_rows f_entry_id same_version file_change (prev(?id := None)) news)) ?v"
    by (simp only: fst_diff_rows_Cons) (simp add: apply_file_change)
  have "fold apply_record
          (fst (diff_rows f_entry_id same_version file_change (prev(?id := None)) news)) ?v
      = (\<lambda>k. case index_by f_entry_id news k of Some g \<Rightarrow> Some (version_of g) | None \<Rightarrow> ?v k)"
    using Cons.prems others by (intro Cons.IH) (auto split: if_splits)
  also have "\<dots> = (\<lambda>k. case index_by f_entry_id (f # news) k of
                        Some g \<Rightarrow> Some (version_of g) | None \<Rightarrow> v k)"
    using id by (auto simp: index_by_Cons fun_eq_iff split: option.split)
  finally show ?case using step by simp
qed

text \<open>The second loop: what is left of the previous rows is forgotten.\<close>

lemma forget_replay:
  "fold apply_record (map file_gone kfs) v = (\<lambda>k. if k \<in> fst ` set kfs then None else v k)"
  by (induction kfs arbitrary: v) (auto simp: apply_file_gone fun_eq_iff)

lemma gone_rows_keys:
  assumes "fair_order e"
  shows "fst ` set (gone_rows e key olds rest) = {k \<in> key ` set olds. rest k \<noteq> None}"
proof -
  have "set (map_order e (filter (\<lambda>k. rest k \<noteq> None) (remdups (map key olds))))
      = {k \<in> key ` set olds. rest k \<noteq> None}"
    using assms by (auto simp: fair_order_def)
  then show ?thesis
    unfolding gone_rows_def map_filter_def by (force simp: image_iff)
qed

lemma file_changes_replay:
  assumes fair: "fair_order e" and dist: "distinct (map f_entry_id news)"
  shows "fold apply_record (file_changes e olds news) (versions_of olds) = versions_of news"
proof -
  let ?prev = "index_by f_entry_id olds"
  let ?d = "diff_rows f_entry_id same_version file_change ?prev news"
  have first: "fold apply_record (fst ?d) (versions_of olds)
      = (\<lambda>k. case index_by f_entry_id news k of
               Some f \<Rightarrow> Some (version_of f) | None \<Rightarrow> versions_of olds k)"
    by (rule diff_rows_replay [OF dist]) (simp add: versions_of_def)
  have "fst ` set (gone_rows e f_entry_id olds (snd ?d))
      = {k \<in> f_entry_id ` set olds. k \<notin> f_entry_id ` set news}"
    unfolding gone_rows_keys [OF fair] diff_rows_rest
    by (auto simp: index_by_None)
  moreover have "file_changes e olds news
      = fst ?d @ map file_gone (gone_rows e f_entry_id olds (snd ?d))"
    by (simp add: file_changes_def split_def Let_def)
  ultimately have "fold apply_record (file_changes e olds news) (versions_of olds)
      = (\<lambda>k. if k \<in> f_entry_id ` set olds \<and> k \<notin> f_entry_id ` set news then None
             else case index_by f_entry_id news k of
               Some f \<Rightarrow> Some (version_of f) | None \<Rightarrow> versions_of olds k)"
    by (simp add: first forget_replay)
  also have "\<dots> = versions_of news"
    by (auto simp: versions_of_def fun_eq_iff index_by_None split: option.split)
       (auto simp: index_by_None [symmetric])
  finally show ?thesis .
qed

lemma fold_apply_others:
  "(\<forall>r \<in> set rs. \<forall>v. apply_record r v = v) \<Longrightarrow> fold apply_record rs v = v"
  by (induction rs arbitrary: v) auto

lemma apply_stamped:
  "stamped rs qs \<Longrightarrow> fold apply_record qs v = fold apply_record rs v"
proof (induction rs arbitrary: qs v)
  case Nil
  then show ?case by (simp add: stamped_def)
next
  case (Cons r rs)
  from Cons.prems obtain q qs' where qs: "qs = q # qs'" "stamped rs qs'"
    and q: "q = r\<lparr>cr_sequence := cr_sequence q, cr_hash := cr_hash q\<rparr>"
    by (auto simp: stamped_def list_all2_Cons1)
  have "cr_kind q = cr_kind r" "cr_id q = cr_id r" "cr_file q = cr_file r"
    by (subst q, simp)+
  then have "apply_record q v = apply_record r v" by (simp add: apply_record_def)
  then show ?case using Cons.IH [OF qs(2)] qs(1) by simp
qed

text \<open>Replaying the records one save appends gives the versions of the rows it saved.\<close>

lemma save_replay:
  assumes "fair_order e" "distinct (map f_entry_id files)"
    and "stamped (journal_changes e files c) qs"
  shows "fold apply_record qs (versions_of (c_files c)) = versions_of files"
proof -
  have "fold apply_record (album_changes e sa na) v = v"
    and "fold apply_record (journalCollections e sc nc) v = v" for sa na sc nc v
    by (intro fold_apply_others ballI allI apply_other [of _ e sa na sc nc]; simp)+
  then have "fold apply_record (journal_changes e files c) (versions_of (c_files c)) = versions_of files"
    unfolding journal_changes_def fold_append comp_apply file_changes_replay [OF assms(1,2)] by simp
  then show ?thesis using apply_stamped [OF assms(3)] by simp
qed

end
