(* ===== verification/Persist.thy ===== *)
theory Persist
  imports Identity Index Sync
begin

text \<open>
  \<^verbatim>\<open>internal/catalog/persist.go\<close>, \<^verbatim>\<open>catalog.go\<close> (\<open>load\<close>), \<^verbatim>\<open>migration.go\<close> and \<^verbatim>\<open>checkpoint.go\<close>:
  the single write that publishes rows, albums, collections, journal and device checkpoints, and
  its way back.
\<close>

section \<open>Saving\<close>

definition stored_tree :: "file_row list \<Rightarrow> journal \<Rightarrow> catalog \<Rightarrow> tree" where
  "stored_tree files j c =
     \<lparr>t_schema = 2, t_collections = c_collections c, t_files = files, t_albums = c_albums c,
      t_journal = j, t_checkpoints = c_checkpoints c\<rparr>"

text \<open>Every replacement of the file is a new file.\<close>

definition next_stamp :: "catalog \<Rightarrow> nat" where
  "next_stamp c = (case c_disk c of None \<Rightarrow> 0 | Some (n, t) \<Rightarrow> Suc n)"

definition saveFilesLocked :: "env \<Rightarrow> file_row list \<Rightarrow> catalog \<Rightarrow> (catalog_error + unit) \<times> catalog" where
  "saveFilesLocked e files c =
     (if c_batch_only c then (Inr (), c)
      else case nextJournalLocked e files c of
        Inl err \<Rightarrow> (Inl err, c)
      | Inr j \<Rightarrow>
          (let disk = Some (next_stamp c, stored_tree files j c)
           in case outcome e of
                Seal_error \<Rightarrow> (Inl (ErrSave Seal_error), c)
              | Write_error \<Rightarrow> (Inl (ErrSave Write_error), c)
              | Sync_error \<Rightarrow> (Inl (ErrSave Sync_error), c\<lparr>c_disk := disk\<rparr>)
              | Save_ok \<Rightarrow>
                  (Inr (),
                   c\<lparr>c_disk := disk, c_disk_info := Some (next_stamp c), c_journal := j,
                     c_saved_albums := cloneAlbums (c_albums c),
                     c_saved_collections := c_collections c, c_summary := None,
                     c_children := indexChildren files, c_by_path := indexPaths files,
                     c_version := c_version c + 1\<rparr>)))"

text \<open>
  The ending every mutation of the rows has: save the candidate, and only then make it the
  catalog's rows.
\<close>

definition commit_files :: "env \<Rightarrow> file_row list \<Rightarrow> catalog \<Rightarrow> (catalog_error + unit) \<times> catalog" where
  "commit_files e files c =
     (case saveFilesLocked e files c of
        (Inl err, c') \<Rightarrow> (Inl err, c')
      | (Inr u, c') \<Rightarrow> (Inr (), c'\<lparr>c_files := files\<rparr>))"

section \<open>Loading\<close>

definition preserveMigrationRecovery :: "nat \<times> tree \<Rightarrow> catalog \<Rightarrow> (catalog_error + unit) \<times> catalog" where
  "preserveMigrationRecovery raw c =
     (case c_recovery c of
        Some previous \<Rightarrow> if previous \<noteq> raw then (Inl ErrMigrationRecoveryConflict, c) else (Inr (), c)
      | None \<Rightarrow> (Inr (), c\<lparr>c_recovery := Some raw\<rparr>))"

text \<open>
  \<open>read_error\<close> is the failure of reading, unwrapping or parsing the file, if any.
\<close>

definition load :: "env \<Rightarrow> bool \<Rightarrow> catalog_error option \<Rightarrow> catalog \<Rightarrow> (catalog_error + unit) \<times> catalog" where
  "load e persist_upgrade read_error c =
     (let c0 = c\<lparr>c_files := [], c_collections := empty_collections,
                 c_saved_collections := empty_collections, c_albums := [], c_saved_albums := [],
                 c_journal := zero_journal, c_checkpoints := [], c_children := Map.empty,
                 c_by_path := Map.empty, c_summary := None\<rparr>
      in case c_disk c of
           None \<Rightarrow> (Inr (), c0\<lparr>c_disk_info := None\<rparr>)
         | Some (stamp, t) \<Rightarrow>
             (case read_error of
                Some err \<Rightarrow> (Inl err, c0)
              | None \<Rightarrow>
                  if t_schema t < 0 \<or> 2 < t_schema t then (Inl ErrCollectionSchema, c0)
                  else
                    (let c1 = c0\<lparr>c_collections := t_collections t, c_saved_collections := t_collections t\<rparr>
                     in case upgradeFiles e (t_files t) of
                          Inl err \<Rightarrow> (Inl err, c1)
                        | Inr (files, changed, e1) \<Rightarrow>
                            (let c2 = c1\<lparr>c_albums := cloneAlbums (t_albums t),
                                         c_saved_albums := cloneAlbums (t_albums t),
                                         c_journal := t_journal t, c_checkpoints := t_checkpoints t\<rparr>;
                                 (res, c3) =
                                   (if (changed \<or> t_schema t < 2) \<and> persist_upgrade then
                                      (let (r, c') = (if t_schema t < 2
                                                      then preserveMigrationRecovery (stamp, t) c2
                                                      else (Inr (), c2))
                                       in case r of Inl err \<Rightarrow> (Inl err, c')
                                                  | Inr u \<Rightarrow> saveFilesLocked e1 files c')
                                    else (Inr (), c2))
                             in case res of
                                  Inl err \<Rightarrow> (Inl err, c3)
                                | Inr u \<Rightarrow>
                                    (Inr (), c3\<lparr>c_files := files, c_children := indexChildren files,
                                                c_by_path := indexPaths files,
                                                c_disk_info := map_option fst (c_disk c3),
                                                c_version := c_version c3 + 1\<rparr>)))))"

definition Load :: "env \<Rightarrow> catalog_error option \<Rightarrow> catalog \<Rightarrow> (catalog_error + unit) \<times> catalog" where
  "Load e read_error c = load e True read_error c"

definition LoadReadOnly :: "env \<Rightarrow> catalog_error option \<Rightarrow> catalog \<Rightarrow> (catalog_error + unit) \<times> catalog" where
  "LoadReadOnly e read_error c = load e False read_error c"

section \<open>Sync positions and device checkpoints\<close>

definition SyncPosition :: "env \<Rightarrow> catalog \<Rightarrow> (catalog_error + sync_position) \<times> catalog" where
  "SyncPosition e c =
     (if j_epoch (c_journal c) = '''' then
        (case saveFilesLocked e (c_files c) c of
           (Inl err, c') \<Rightarrow> (Inl err, c')
         | (Inr u, c') \<Rightarrow> (Inr (position_of (c_journal c')), c'))
      else (Inr (position_of (c_journal c)), c))"

definition DeviceCheckpoint :: "string \<Rightarrow> catalog \<Rightarrow> sync_position option \<times> catalog_error option" where
  "DeviceCheckpoint device c =
     (case map_of (c_checkpoints c) device of
        None \<Rightarrow> (None, Some ErrSyncExpired)
      | Some p \<Rightarrow> (Some p, validateSyncLocked p (c_journal c)))"

definition AcknowledgeDevice ::
  "env \<Rightarrow> string \<Rightarrow> sync_position \<Rightarrow> catalog \<Rightarrow> (catalog_error + unit) \<times> catalog" where
  "AcknowledgeDevice e device p c =
     (if device = '''' \<or> 128 < length device then (Inl (ErrOther ''invalid checkpoint device''), c)
      else case validateSyncLocked p (c_journal c) of
        Some err \<Rightarrow> (Inl err, c)
      | None \<Rightarrow>
          (let old = map_of (c_checkpoints c) device
           in if (case old of Some q \<Rightarrow> sp_epoch q = sp_epoch p \<and> sp_sequence p < sp_sequence q
                            | None \<Rightarrow> False)
              then (Inl (ErrOther ''checkpoint cannot move backwards''), c)
              else if old = Some p then (Inr (), c)
              else if old = None \<and> 128 \<le> length (c_checkpoints c)
              then (Inl (ErrOther ''too many device checkpoints''), c)
              else
                (case saveFilesLocked e (c_files c)
                        (c\<lparr>c_checkpoints := AList.update device p (c_checkpoints c)\<rparr>) of
                   (Inl err, c') \<Rightarrow>
                     (Inl err, c'\<lparr>c_checkpoints :=
                        (case old of Some q \<Rightarrow> AList.update device q (c_checkpoints c')
                                   | None \<Rightarrow> AList.delete device (c_checkpoints c'))\<rparr>)
                 | (Inr u, c') \<Rightarrow> (Inr (), c'))))"

section \<open>What a save leaves behind\<close>

lemma saveFilesLocked_error:
  "saveFilesLocked e files c = (Inl err, c') \<Longrightarrow> \<exists>d. c' = c\<lparr>c_disk := d\<rparr>"
  unfolding saveFilesLocked_def Let_def
  by (auto split: if_splits sum.splits save_outcome.splits intro: exI [of _ "c_disk c"])

text \<open>A failed write leaves everything the process holds in memory as it was.\<close>

lemma commit_files_error:
  "commit_files e files c = (Inl err, c') \<Longrightarrow> \<exists>d. c' = c\<lparr>c_disk := d\<rparr>"
  unfolding commit_files_def
  by (auto split: prod.splits sum.splits dest: saveFilesLocked_error)

lemma saveFilesLocked_ok:
  assumes "saveFilesLocked e files c = (Inr u, c')" "\<not> c_batch_only c"
  shows "\<exists>j. nextJournalLocked e files c = Inr j \<and>
     c' = c\<lparr>c_disk := Some (next_stamp c, stored_tree files j c), c_disk_info := Some (next_stamp c),
            c_journal := j, c_saved_albums := cloneAlbums (c_albums c),
            c_saved_collections := c_collections c, c_summary := None,
            c_children := indexChildren files, c_by_path := indexPaths files,
            c_version := c_version c + 1\<rparr>"
  using assms unfolding saveFilesLocked_def Let_def
  by (auto split: sum.splits save_outcome.splits)

lemma saveFilesLocked_batch: "c_batch_only c \<Longrightarrow> saveFilesLocked e files c = (Inr (), c)"
  by (simp add: saveFilesLocked_def)

lemma commit_files_ok:
  assumes "commit_files e files c = (Inr u, c')"
  shows "c_files c' = files" "c_albums c' = c_albums c" "c_collections c' = c_collections c"
    and "c_checkpoints c' = c_checkpoints c" "c_batch_only c' = c_batch_only c"
    and "\<not> c_batch_only c \<Longrightarrow> nextJournalLocked e files c = Inr (c_journal c')"
    and "\<not> c_batch_only c \<Longrightarrow> c_children c' = indexChildren files \<and> c_by_path c' = indexPaths files
          \<and> c_summary c' = None \<and> c_disk_info c' = map_option fst (c_disk c')
          \<and> map_option snd (c_disk c') = Some (stored_tree files (c_journal c') c)"
proof -
  from assms obtain v c1 where s: "saveFilesLocked e files c = (Inr v, c1)"
    and c': "c' = c1\<lparr>c_files := files\<rparr>"
    by (auto simp: commit_files_def split: prod.splits sum.splits)
  show "c_files c' = files" by (simp add: c')
  show "c_albums c' = c_albums c" "c_collections c' = c_collections c"
    "c_checkpoints c' = c_checkpoints c" "c_batch_only c' = c_batch_only c"
    using s c' saveFilesLocked_ok [OF s]
    by (cases "c_batch_only c"; auto simp: saveFilesLocked_batch)+
  show "\<not> c_batch_only c \<Longrightarrow> nextJournalLocked e files c = Inr (c_journal c')"
    "\<not> c_batch_only c \<Longrightarrow> c_children c' = indexChildren files \<and> c_by_path c' = indexPaths files
          \<and> c_summary c' = None \<and> c_disk_info c' = map_option fst (c_disk c')
          \<and> map_option snd (c_disk c') = Some (stored_tree files (c_journal c') c)"
    using c' saveFilesLocked_ok [OF s] by auto
qed

section \<open>Memory and disk\<close>

text \<open>What the process would write now.\<close>

definition memory_tree :: "catalog \<Rightarrow> tree" where
  "memory_tree c = stored_tree (c_files c) (c_journal c) c"

text \<open>
  While the remembered stamp is the stamp of the file, the file holds what the process holds: a
  reader that trusts \<open>DiskUnchanged\<close> never works on stale rows.
\<close>

definition disk_faithful :: "catalog \<Rightarrow> bool" where
  "disk_faithful c \<longleftrightarrow>
     (case c_disk_info c of
        None \<Rightarrow> True
      | Some n \<Rightarrow> (case c_disk c of
                    None \<Rightarrow> False
                  | Some (m, t) \<Rightarrow> n \<le> m \<and> (n = m \<longrightarrow> t = memory_tree c)))"

lemma disk_faithful_unchanged:
  "disk_faithful c \<Longrightarrow> DiskUnchanged c \<Longrightarrow> c_disk c = Some (n, t) \<Longrightarrow> t = memory_tree c"
  by (auto simp: disk_faithful_def DiskUnchanged_def split: option.splits)

lemma commit_files_faithful:
  assumes "commit_files e files c = (r, c')" "disk_faithful c" "\<not> c_batch_only c"
  shows "disk_faithful c'"
proof (cases r)
  case (Inr u)
  with assms obtain v c1 where s: "saveFilesLocked e files c = (Inr v, c1)"
    and c': "c' = c1\<lparr>c_files := files\<rparr>"
    by (auto simp: commit_files_def split: prod.splits sum.splits)
  from saveFilesLocked_ok [OF s assms(3)] c' show ?thesis
    by (auto simp: disk_faithful_def memory_tree_def stored_tree_def)
next
  case (Inl err)
  with assms have s: "saveFilesLocked e files c = (Inl err, c')"
    by (auto simp: commit_files_def split: prod.splits sum.splits)
  then show ?thesis
    using assms(2,3) unfolding saveFilesLocked_def Let_def
    by (auto simp: disk_faithful_def next_stamp_def memory_tree_def stored_tree_def
        split: sum.splits save_outcome.splits option.splits)
qed

text \<open>A write that replaced the file but could not be confirmed is noticed.\<close>

lemma sync_error_noticed:
  assumes "nextJournalLocked e files c = Inr j" "outcome e = Sync_error"
    and "disk_faithful c" "\<not> c_batch_only c"
  shows "fst (commit_files e files c) = Inl (ErrSave Sync_error)
    \<and> \<not> DiskUnchanged (snd (commit_files e files c))"
  using assms unfolding commit_files_def saveFilesLocked_def Let_def
  by (auto simp: disk_faithful_def DiskUnchanged_def next_stamp_def
      split: sum.splits save_outcome.splits option.splits if_splits)

section \<open>Saving and loading again\<close>

lemma load_stored:
  assumes rows: "\<forall>f \<in> set files. row_ok f" "distinct_ids files"
    and disk: "c_disk c0 = Some (n, stored_tree files j c)"
  shows "load e persist_upgrade None c0 = (Inr (), c0\<lparr>c_files := files, c_collections := c_collections c,
       c_saved_collections := c_collections c, c_albums := cloneAlbums (c_albums c),
       c_saved_albums := cloneAlbums (c_albums c), c_journal := j,
       c_checkpoints := c_checkpoints c, c_children := indexChildren files,
       c_by_path := indexPaths files, c_summary := None, c_disk_info := Some n,
       c_version := c_version c0 + 1\<rparr>)"
  by (simp add: load_def disk stored_tree_def upgradeFiles_id [OF rows])

end
