(* ===== verification/Samples.thy ===== *)
theory Samples
  imports Catalog_Data
begin

text \<open>
  Small concrete surroundings and rows, on which the operations are evaluated.
\<close>

definition sample_env :: "string list \<Rightarrow> env" where
  "sample_env ids = \<lparr>clock = \<lparr>instant = 5, zone = 0\<rparr>, entropy = map Some ids,
     map_order = (\<lambda>ks. ks), digest = (\<lambda>prev r. prev @ ''.''), outcome = Save_ok\<rparr>"

definition sample_doc :: "string \<Rightarrow> file_row" where
  "sample_doc p = zero_file\<lparr>f_path := p, f_hash := ''h'', f_size := 3, f_snap := ''s'', f_object := ''o''\<rparr>"

lemma sample_env_fair [simp]: "fair_order (sample_env ids)"
  by (simp add: fair_order_def sample_env_def)

lemma sample_env_simps [simp]:
  "digest (sample_env ids) = (\<lambda>prev r. prev @ ''.'')" "outcome (sample_env ids) = Save_ok"
  "draws (sample_env ids) = map hex_encode ids"
  by (simp_all add: sample_env_def draws_def List.map_filter_def comp_def)

end
