(* ===== verification/Mutations.thy ===== *)
theory Mutations
  imports Persist Samples
begin

text \<open>
  The mutations of the catalog's tree: \<^verbatim>\<open>catalog.go\<close> (\<open>Mkdir\<close>, \<open>Rename\<close>), \<^verbatim>\<open>mutations.go\<close>
  (\<open>Put\<close>, \<open>SwitchReference\<close>), \<^verbatim>\<open>mutations_copy.go\<close> (\<open>CopyWith\<close>, \<open>Delete\<close>, \<open>Restore\<close>,
  \<open>PurgeTrash\<close>), \<^verbatim>\<open>photo_pair_mutations.go\<close>, \<^verbatim>\<open>delete_paths.go\<close>, \<^verbatim>\<open>document.go\<close>
  (\<open>SetTrashDate\<close>) and \<^verbatim>\<open>mutations_visibility.go\<close>. Each computes the candidate rows
  (\<open>..._rows\<close>, every guard and early return of the code) and publishes them with one save.
\<close>

definition publish ::
  "env \<Rightarrow> catalog_error + file_row list \<Rightarrow> catalog \<Rightarrow> (catalog_error + unit) \<times> catalog" where
  "publish e r c = (case r of Inl err \<Rightarrow> (Inl err, c) | Inr files \<Rightarrow> commit_files e files c)"

text \<open>\<open>f.Revision++\<close> behind its overflow guard.\<close>

definition bump :: "(file_row \<Rightarrow> file_row) \<Rightarrow> file_row \<Rightarrow> catalog_error + file_row" where
  "bump upd f =
     (if f_revision f = max_u64 then Inl ErrRevisionOverflow
      else Inr (upd (f\<lparr>f_revision := f_revision f + 1\<rparr>)))"

section \<open>Mkdir and Rename\<close>

definition Mkdir :: "env \<Rightarrow> string \<Rightarrow> catalog \<Rightarrow> (catalog_error + unit) \<times> catalog" where
  "Mkdir e path c =
     (if \<exists>f \<in> set (c_files c). f_present f
           \<and> (f_path f = path \<or> (\<not> f_folder f \<and> under (f_path f) path))
      then (Inl ErrConflict, c)
      else case assignIdentity e (zero_file\<lparr>f_path := path, f_folder := True,
                                             f_mtime := clock e, f_present := True\<rparr>) of
             Inl err \<Rightarrow> (Inl err, c)
           | Inr (f, e') \<Rightarrow> commit_files e' (c_files c @ [f]) c)"

definition Rename_rows :: "string \<Rightarrow> string \<Rightarrow> file_row list \<Rightarrow> catalog_error + file_row list" where
  "Rename_rows old new fs =
     (if under old new then Inl ErrDescendant
      else if \<not> (\<exists>f \<in> set fs. f_present f \<and> within old (f_path f)) then Inl ErrNotFound
      else if \<exists>f \<in> set fs. f_present f \<and> \<not> within old (f_path f)
                \<and> (f_path f = new \<or> under new (f_path f) \<or> (\<not> f_folder f \<and> under (f_path f) new))
      then Inl ErrConflict
      else map_res (\<lambda>f. if \<not> f_present f \<or> \<not> within old (f_path f) then Inr f
                        else bump (\<lambda>g. g\<lparr>f_path := rebase old new (f_path f)\<rparr>) f) fs)"

definition Rename :: "env \<Rightarrow> string \<Rightarrow> string \<Rightarrow> catalog \<Rightarrow> (catalog_error + unit) \<times> catalog" where
  "Rename e old new c =
     (if old = new then (Inr (), c) else publish e (Rename_rows old new (c_files c)) c)"

section \<open>Put\<close>

definition sameCaptureFile :: "file_row \<Rightarrow> file_row \<Rightarrow> bool" where
  "sameCaptureFile l r \<longleftrightarrow>
     (case (f_capture_time l, f_capture_time r) of
        (None, None) \<Rightarrow> True | (Some s, Some t) \<Rightarrow> time_eq s t | _ \<Rightarrow> False)
     \<and> f_capture_offset l = f_capture_offset r
     \<and> f_capture_source l = f_capture_source r
     \<and> f_capture_user_corrected l = f_capture_user_corrected r
     \<and> f_camera l = f_camera r \<and> f_width l = f_width r \<and> f_height l = f_height r
     \<and> f_duration l = f_duration r \<and> f_orientation l = f_orientation r
     \<and> f_preferred l = f_preferred r \<and> f_rotation l = f_rotation r
     \<and> f_favorite l = f_favorite r \<and> f_archived l = f_archived r \<and> f_caption l = f_caption r"

definition put_conflict :: "file_row \<Rightarrow> file_row \<Rightarrow> bool" where
  "put_conflict f x \<longleftrightarrow> f_present x
     \<and> ((f_path x = f_path f \<and> f_folder x \<noteq> f_folder f)
        \<or> (f_path x \<noteq> f_path f \<and> \<not> f_folder x \<and> under (f_path x) (f_path f))
        \<or> (f_folder f \<and> f_path x \<noteq> f_path f \<and> under (f_path f) (f_path x)))"

text \<open>
  The row \<open>f\<close> replaces the live row \<open>x\<close> of the same path: \<open>None\<close> when the call is an exact replay
  and nothing is to be written.
\<close>

definition put_over :: "file_row \<Rightarrow> file_row \<Rightarrow> catalog_error + file_row option" where
  "put_over f x =
     (let f1 = f\<lparr>f_hidden := f_hidden x\<rparr>;
          f2 = (if is_zero (f_imported_at f1)
                then f1\<lparr>f_imported_at := (if is_zero (f_imported_at x) then f_mtime x
                                          else f_imported_at x)\<rparr>
                else f1)
      in if f_revision x = max_u64 then Inl ErrRevisionOverflow
         else if f_entry_id f \<noteq> '''' then
           (if f_entry_id f = f_entry_id x \<and> f_revision f = f_revision x
               \<and> sameReference (f_reference f2) (f_reference x) \<and> f_path f2 = f_path x
               \<and> f_folder f2 = f_folder x \<and> f_size f2 = f_size x
               \<and> time_eq (f_mtime f2) (f_mtime x) \<and> time_eq (f_imported_at f2) (f_imported_at x)
               \<and> sameCaptureFile f2 x \<and> f_hash f2 = f_hash x \<and> f_snap f2 = f_snap x
               \<and> f_object f2 = f_object x
            then Inr None
            else if f_entry_id f \<noteq> f_entry_id x \<or> f_revision f \<noteq> f_revision x + 1
            then Inl ErrRevisionMismatch
            else res_bind (assignReference f2) (\<lambda>g. Inr (Some g)))
         else res_bind (assignReference (f2\<lparr>f_entry_id := f_entry_id x,
                                            f_revision := f_revision x + 1\<rparr>))
                (\<lambda>g. Inr (Some g)))"

text \<open>The row \<open>f\<close> has no live row at its path.\<close>

definition put_new :: "env \<Rightarrow> file_row \<Rightarrow> file_row list \<Rightarrow> catalog_error + file_row \<times> env" where
  "put_new e f fs =
     (let f1 = (if is_zero (f_imported_at f) then f\<lparr>f_imported_at := clock e\<rparr> else f)
      in if f_entry_id f \<noteq> '''' then
           (if f_revision f \<noteq> 1 then Inl ErrRevisionMismatch
            else if \<exists>old \<in> set fs. f_entry_id old = f_entry_id f then Inl ErrRevisionMismatch
            else res_bind (assignReference f1) (\<lambda>g. Inr (g, e)))
         else assignIdentity e (f1\<lparr>f_entry_id := '''', f_revision := 0\<rparr>))"

definition Put :: "env \<Rightarrow> file_row \<Rightarrow> catalog \<Rightarrow> (catalog_error + unit) \<times> catalog" where
  "Put e f0 c =
     (if f_hidden f0 \<and> \<not> f_folder f0 then (Inl ErrInvalidHiddenEntry, c)
      else
        (let f = f0\<lparr>f_present := True\<rparr>; fs = c_files c
         in if \<exists>x \<in> set fs. put_conflict f x then (Inl ErrConflict, c)
            else case find_index (\<lambda>x. f_path x = f_path f \<and> f_present x) fs of
              Some i \<Rightarrow>
                (case put_over f (fs ! i) of
                   Inl err \<Rightarrow> (Inl err, c)
                 | Inr None \<Rightarrow> (Inr (), c)
                 | Inr (Some g) \<Rightarrow> commit_files e (fs[i := g]) c)
            | None \<Rightarrow>
                (case put_new e f fs of
                   Inl err \<Rightarrow> (Inl err, c)
                 | Inr (g, e') \<Rightarrow> commit_files e' (fs @ [g]) c)))"

section \<open>SwitchReference\<close>

definition switch_row ::
  "string \<Rightarrow> u64 \<Rightarrow> reference \<Rightarrow> reference \<Rightarrow> file_row \<Rightarrow> catalog_error + file_row" where
  "switch_row entry revn previous next f =
     (if f_folder f \<or> f_reference f \<noteq> Some previous \<or> f_revision f = max_u64
      then Inl ErrRevisionMismatch
      else if r_backend next \<noteq> SharedBackend \<or> r_version next = 0 \<or> r_object next = ''''
              \<or> r_operation next = '''' \<or> r_owner_entry_id next \<noteq> entry
              \<or> r_owner_revision next \<noteq> revn + 1 \<or> r_snapshot next \<noteq> ''''
      then Inl ErrUnknownReference
      else
        (let g = f\<lparr>f_revision := f_revision f + 1, f_reference := Some next, f_snap := '''',
                   f_object := r_object next\<rparr>
         in case validateReference g of Some err \<Rightarrow> Inl err | None \<Rightarrow> Inr g))"

definition SwitchReference ::
  "env \<Rightarrow> string \<Rightarrow> u64 \<Rightarrow> reference \<Rightarrow> reference \<Rightarrow> catalog \<Rightarrow> (catalog_error + file_row) \<times> catalog" where
  "SwitchReference e entry revn previous next c =
     (case find_index (\<lambda>f. f_entry_id f = entry \<and> f_revision f = revn) (c_files c) of
        None \<Rightarrow> (Inl (ErrOther ''catalog version changed before migration switch''), c)
      | Some i \<Rightarrow>
          (case switch_row entry revn previous next (c_files c ! i) of
             Inl err \<Rightarrow> (Inl err, c)
           | Inr g \<Rightarrow>
               (case commit_files e ((c_files c)[i := g]) c of
                  (Inl err, c') \<Rightarrow> (Inl err, c')
                | (Inr u, c') \<Rightarrow> (Inr g, c'))))"

section \<open>Rows that move together\<close>

text \<open>
  \<open>photoMutationSelection\<close>: the eligible rows at or below the path, then, in the order of the
  rows, the components of every selected row; a component selected on the way selects its own.
\<close>

definition eligible :: "bool \<Rightarrow> file_row \<Rightarrow> bool" where
  "eligible restore f = (if restore then \<not> f_present f \<and> f_deleted_at f \<noteq> None else f_present f)"

definition same_deletion :: "file_row \<Rightarrow> file_row \<Rightarrow> bool" where
  "same_deletion f g = (case (f_deleted_at f, f_deleted_at g) of
     (Some s, Some t) \<Rightarrow> time_eq s t | _ \<Rightarrow> False)"

definition component_selected :: "(string \<rightharpoonup> file_row) \<Rightarrow> bool \<Rightarrow> file_row \<Rightarrow> photo_component \<Rightarrow> string list" where
  "component_selected byID restore f part =
     (case byID (pc_asset_id part) of
        None \<Rightarrow> []
      | Some g \<Rightarrow>
          if f_parent_id g \<noteq> f_entry_id f then []
          else if \<not> restore \<and> f_present g then [f_entry_id g]
          else if restore \<and> \<not> f_present g \<and> same_deletion g f then [f_entry_id g]
          else [])"

fun select_components ::
  "(string \<rightharpoonup> file_row) \<Rightarrow> bool \<Rightarrow> string list \<Rightarrow> file_row list \<Rightarrow> string list" where
  "select_components byID restore selected [] = selected"
| "select_components byID restore selected (f # fs) =
     select_components byID restore
       (if f_entry_id f \<in> set selected
        then concat (map (component_selected byID restore f) (f_components f)) @ selected
        else selected) fs"

definition photoMutationSelection :: "file_row list \<Rightarrow> string \<Rightarrow> bool \<Rightarrow> string list" where
  "photoMutationSelection fs path restore =
     select_components (index_by f_entry_id fs) restore
       (map f_entry_id (filter (\<lambda>f. eligible restore f \<and> within path (f_path f)) fs)) fs"

definition RelatedPhotoPaths :: "catalog \<Rightarrow> string \<Rightarrow> bool \<Rightarrow> string list" where
  "RelatedPhotoPaths c path restore =
     map f_path (filter (\<lambda>f. f_entry_id f \<in> set (photoMutationSelection (c_files c) path restore)) (c_files c))"

section \<open>Delete, Restore and PurgeTrash\<close>

definition Delete_rows :: "gotime \<Rightarrow> string list \<Rightarrow> file_row list \<Rightarrow> catalog_error + file_row list" where
  "Delete_rows now selected fs =
     map_res (\<lambda>f. if f_entry_id f \<in> set selected \<and> f_present f
                  then bump (\<lambda>g. g\<lparr>f_present := False, f_deleted_at := Some now\<rparr>) f
                  else Inr f) fs"

definition Delete :: "env \<Rightarrow> string \<Rightarrow> catalog \<Rightarrow> (catalog_error + unit) \<times> catalog" where
  "Delete e path c =
     (let fs = c_files c; selected = photoMutationSelection fs path False
      in if \<not> (\<exists>f \<in> set fs. f_entry_id f \<in> set selected \<and> f_present f) then (Inr (), c)
         else publish e (Delete_rows (clock e) selected fs) c)"

definition restore_conflict :: "file_row \<Rightarrow> file_row \<Rightarrow> bool" where
  "restore_conflict candidate existing \<longleftrightarrow> f_present existing
     \<and> (f_path existing = f_path candidate
        \<or> (\<not> f_folder existing \<and> under (f_path existing) (f_path candidate))
        \<or> (\<not> f_folder candidate \<and> under (f_path candidate) (f_path existing)))"

definition Restore_rows :: "string list \<Rightarrow> file_row list \<Rightarrow> catalog_error + file_row list" where
  "Restore_rows selected fs =
     (if \<not> (\<exists>f \<in> set fs. f_entry_id f \<in> set selected) then Inl ErrNotFound
      else if \<exists>f \<in> set fs. f_entry_id f \<in> set selected \<and> (\<exists>x \<in> set fs. restore_conflict f x)
      then Inl ErrConflict
      else map_res (\<lambda>f. if f_entry_id f \<in> set selected
                        then bump (\<lambda>g. g\<lparr>f_present := True, f_deleted_at := None\<rparr>) f
                        else Inr f) fs)"

definition Restore :: "env \<Rightarrow> string \<Rightarrow> catalog \<Rightarrow> (catalog_error + unit) \<times> catalog" where
  "Restore e path c =
     publish e (Restore_rows (photoMutationSelection (c_files c) path True) (c_files c)) c"

definition purgeable :: "gotime \<Rightarrow> file_row \<Rightarrow> bool" where
  "purgeable before f \<longleftrightarrow> \<not> f_present f
     \<and> (case f_deleted_at f of None \<Rightarrow> False | Some t \<Rightarrow> \<not> time_after t before)"

definition PurgeTrash :: "env \<Rightarrow> gotime \<Rightarrow> catalog \<Rightarrow> (catalog_error + file_row list) \<times> catalog" where
  "PurgeTrash e before c =
     (let removed = filter (purgeable before) (c_files c)
      in if removed = [] then (Inr [], c)
         else (case commit_files e (filter (\<lambda>f. \<not> purgeable before f) (c_files c)) c of
                 (Inl err, c') \<Rightarrow> (Inl err, c')
               | (Inr u, c') \<Rightarrow> (Inr removed, c')))"

section \<open>Copy\<close>

text \<open>\<open>relinkCopiedPhotoPairs\<close> on the copied suffix of the candidate rows.\<close>

definition relink_row :: "(string \<rightharpoonup> string) \<Rightarrow> file_row \<Rightarrow> file_row" where
  "relink_row mapped f =
     f\<lparr>f_device_id := '''', f_device_asset_id := '''', f_source_revision := '''',
       f_pair_albums := [],
       f_parent_id := (case mapped (f_parent_id f) of None \<Rightarrow> '''' | Some i \<Rightarrow> i),
       f_components := List.map_filter
         (\<lambda>part. case mapped (pc_asset_id part) of
                   None \<Rightarrow> None
                 | Some i \<Rightarrow> if i = '''' then None else Some (part\<lparr>pc_asset_id := i\<rparr>))
         (f_components f)\<rparr>"

definition relinkCopiedPhotoPairs :: "file_row list \<Rightarrow> string list \<Rightarrow> file_row list" where
  "relinkCopiedPhotoPairs copies oldIDs =
     map (relink_row (map_of (rev (zip oldIDs (map f_entry_id copies))))) copies"

definition copy_conflict :: "string \<Rightarrow> string \<Rightarrow> file_row \<Rightarrow> file_row \<Rightarrow> bool" where
  "copy_conflict old new f existing \<longleftrightarrow>
     f_present existing \<and> \<not> within old (f_path existing)
     \<and> (let target = rebase old new (f_path f)
        in f_path existing = target
           \<or> (\<not> f_folder existing \<and> under (f_path existing) target)
           \<or> (f_folder f \<and> under target (f_path existing)))"

text \<open>\<open>grant\<close> is the storage layer's callback; it may rewrite the destination row.\<close>

fun copy_rows ::
  "env \<Rightarrow> string \<Rightarrow> string \<Rightarrow> (file_row \<Rightarrow> file_row \<Rightarrow> catalog_error + file_row) option
   \<Rightarrow> file_row list \<Rightarrow> catalog_error + file_row list \<times> env" where
  "copy_rows e old new grant [] = Inr ([], e)"
| "copy_rows e old new grant (f # fs) =
     res_bind (assignIdentity e (f\<lparr>f_path := rebase old new (f_path f), f_entry_id := '''',
                                   f_revision := 0, f_deleted_at := None\<rparr>)) (\<lambda>(g, e1).
     res_bind (case grant of None \<Rightarrow> Inr g | Some gr \<Rightarrow> gr f g) (\<lambda>h.
     res_bind (copy_rows e1 old new grant fs) (\<lambda>(hs, e2). Inr (h # hs, e2))))"

definition CopyWith ::
  "env \<Rightarrow> string \<Rightarrow> string \<Rightarrow> (file_row \<Rightarrow> file_row \<Rightarrow> catalog_error + file_row) option
   \<Rightarrow> catalog \<Rightarrow> (catalog_error + unit) \<times> catalog" where
  "CopyWith e old new grant c =
     (if old = new \<or> under old new then (Inl ErrDescendant, c)
      else
        (let fs = c_files c;
             source = filter (\<lambda>f. f_present f \<and> within old (f_path f)) fs
         in if source = [] then (Inl ErrNotFound, c)
            else if \<exists>f \<in> set source. \<exists>x \<in> set fs. copy_conflict old new f x then (Inl ErrConflict, c)
            else case copy_rows e old new grant source of
              Inl err \<Rightarrow> (Inl err, c)
            | Inr (copies, e') \<Rightarrow>
                commit_files e' (fs @ relinkCopiedPhotoPairs copies (map f_entry_id source)) c))"

definition CopyPath :: "env \<Rightarrow> string \<Rightarrow> string \<Rightarrow> catalog \<Rightarrow> (catalog_error + unit) \<times> catalog" where
  "CopyPath e old new c = CopyWith e old new None c"

section \<open>Deleting a selection of paths\<close>

definition delete_paths_selected :: "string list \<Rightarrow> file_row list \<Rightarrow> string list" where
  "delete_paths_selected paths fs =
     concat (map (\<lambda>f. f_entry_id f # map pc_asset_id
                        (filter (\<lambda>p. pc_id p \<noteq> ''original'') (f_components f)))
        (filter (\<lambda>f. f_present f \<and> f_path f \<in> set paths) fs))"

definition DeletePaths :: "env \<Rightarrow> string list \<Rightarrow> catalog \<Rightarrow> (catalog_error + string list) \<times> catalog" where
  "DeletePaths e paths c =
     (let fs = c_files c; selected = delete_paths_selected paths fs
      in case Delete_rows (clock e) selected fs of
           Inl err \<Rightarrow> (Inl err, c)
         | Inr next \<Rightarrow>
             (let affected = map f_path (filter (\<lambda>f. f_entry_id f \<in> set selected \<and> f_present f) fs)
              in if affected = [] then (Inr [], c)
                 else (case commit_files e next c of
                         (Inl err, c') \<Rightarrow> (Inl err, c')
                       | (Inr u, c') \<Rightarrow> (Inr affected, c'))))"

section \<open>Retention dates and visibility\<close>

definition SetTrashDate :: "env \<Rightarrow> string \<Rightarrow> u64 \<Rightarrow> gotime \<Rightarrow> catalog \<Rightarrow> (catalog_error + unit) \<times> catalog" where
  "SetTrashDate e entry revn at c =
     (case find_index (\<lambda>f. f_entry_id f = entry) (c_files c) of
        None \<Rightarrow> (Inl ErrNotFound, c)
      | Some i \<Rightarrow>
          (let f = c_files c ! i
           in if f_present f \<or> f_deleted_at f = None then (Inl ErrConflict, c)
              else if f_revision f \<noteq> revn then (Inl ErrRevisionMismatch, c)
              else publish e (res_bind (bump (\<lambda>g. g\<lparr>f_deleted_at := Some at\<rparr>) f)
                     (\<lambda>g. Inr ((c_files c)[i := g]))) c))"

definition SetFolderHidden ::
  "env \<Rightarrow> string \<Rightarrow> u64 \<Rightarrow> bool \<Rightarrow> catalog \<Rightarrow> (catalog_error + file_row) \<times> catalog" where
  "SetFolderHidden e entry revn hidden c =
     (case find_index (\<lambda>f. f_entry_id f = entry \<and> f_revision f = revn \<and> f_present f \<and> f_folder f)
             (c_files c) of
        None \<Rightarrow> (Inl ErrRevisionMismatch, c)
      | Some i \<Rightarrow>
          (let f = c_files c ! i
           in if f_hidden f = hidden then (Inr f, c)
              else (case bump (\<lambda>g. g\<lparr>f_hidden := hidden\<rparr>) f of
                      Inl err \<Rightarrow> (Inl err, c)
                    | Inr g \<Rightarrow>
                        (case commit_files e ((c_files c)[i := g]) c of
                           (Inl err, c') \<Rightarrow> (Inl err, c')
                         | (Inr u, c') \<Rightarrow> (Inr g, c')))))"

text \<open>
  One pass of \<open>SetPhotoFlags\<close>: \<open>expected\<close> shrinks as its rows are met; the result is the next
  rows, the changed ones and what is still expected.
\<close>

fun flag_rows ::
  "bool option \<Rightarrow> bool option \<Rightarrow> (string \<times> u64) list \<Rightarrow> file_row list
   \<Rightarrow> catalog_error + file_row list \<times> file_row list \<times> (string \<times> u64) list" where
  "flag_rows hidden archived expected [] = Inr ([], [], expected)"
| "flag_rows hidden archived expected (f # fs) =
     (case map_of expected (f_entry_id f) of
        None \<Rightarrow>
          res_bind (flag_rows hidden archived expected fs)
            (\<lambda>(next, changed, rest). Inr (f # next, changed, rest))
      | Some revn \<Rightarrow>
          if \<not> f_present f \<or> f_folder f \<or> f_revision f \<noteq> revn then Inl ErrRevisionMismatch
          else
            (let expected' = AList.delete (f_entry_id f) expected
             in if (hidden = None \<or> hidden = Some (f_hidden f))
                   \<and> (archived = None \<or> archived = Some (f_archived f))
                then res_bind (flag_rows hidden archived expected' fs)
                       (\<lambda>(next, changed, rest). Inr (f # next, changed, rest))
                else
                  res_bind (bump (\<lambda>g. g\<lparr>f_hidden := (case hidden of None \<Rightarrow> f_hidden g | Some b \<Rightarrow> b),
                                        f_archived := (case archived of None \<Rightarrow> f_archived g | Some b \<Rightarrow> b)\<rparr>) f)
                    (\<lambda>g. res_bind (flag_rows hidden archived expected' fs)
                       (\<lambda>(next, changed, rest). Inr (g # next, g # changed, rest)))))"

definition SetPhotoFlags ::
  "env \<Rightarrow> file_row list \<Rightarrow> bool option \<Rightarrow> bool option \<Rightarrow> catalog
   \<Rightarrow> (catalog_error + file_row list) \<times> catalog" where
  "SetPhotoFlags e files hidden archived c =
     (case flag_rows hidden archived
             (foldl (\<lambda>m f. AList.update (f_entry_id f) (f_revision f) m) [] files) (c_files c) of
        Inl err \<Rightarrow> (Inl err, c)
      | Inr (next, changed, rest) \<Rightarrow>
          if rest \<noteq> [] then (Inl ErrRevisionMismatch, c)
          else if changed = [] then (Inr [], c)
          else (case commit_files e next c of
                  (Inl err, c') \<Rightarrow> (Inl err, c')
                | (Inr u, c') \<Rightarrow> (Inr changed, c')))"

end
