(* ===== verification/Tree.thy ===== *)
theory Tree
  imports Mutations
begin

text \<open>
  What the catalog's tree mutations keep and do: identities stay distinct and rows well formed,
  live paths stay unique, nothing live sits below a live file, whatever the outcome of the save;
  and what each operation does to the live namespace.
\<close>

section \<open>The store of rows every mutation goes through\<close>

text \<open>
  The contract of \<open>saveFilesLocked\<close> followed by \<open>c.files = next\<close>: a successful commit installs
  exactly the candidate rows, a failed one leaves the rows alone.
\<close>

locale row_store =
  fixes commit :: "env \<Rightarrow> file_row list \<Rightarrow> 'c \<Rightarrow> (catalog_error + unit) \<times> 'c"
    and rows :: "'c \<Rightarrow> file_row list"
  assumes commit_installs: "commit e fs c = (Inr u, c') \<Longrightarrow> rows c' = fs"
    and commit_fails: "commit e fs c = (Inl err, c') \<Longrightarrow> rows c' = rows c"
begin

text \<open>An invariant of the rows survives any attempt to commit rows that satisfy it.\<close>

lemma commit_invariant:
  assumes "P (rows c)" "P fs" "commit e fs c = (r, c')"
  shows "P (rows c')"
  using assms commit_installs commit_fails by (cases r) auto

lemma publish_invariant:
  assumes "P (rows c)" "\<And>fs. cand = Inr fs \<Longrightarrow> P fs"
    and "(case cand of Inl err \<Rightarrow> (Inl err, c) | Inr fs \<Rightarrow> commit e fs c) = (r, c')"
  shows "P (rows c')"
  using assms commit_invariant by (cases cand) auto

lemma publish_rows:
  assumes "(case cand of Inl err \<Rightarrow> (Inl err, c) | Inr fs \<Rightarrow> commit e fs c) = (Inr u, c')"
  shows "cand = Inr (rows c')"
  using assms commit_installs by (cases cand) auto

end

interpretation catalog_rows: row_store commit_files c_files
proof
  show "c_files c' = fs" if "commit_files e fs c = (Inr u, c')" for e fs c u c'
    by (rule commit_files_ok(1) [OF that])
  show "c_files c' = c_files c" if "commit_files e fs c = (Inl err, c')" for e fs c err c'
    using commit_files_error [OF that] by auto
qed

lemmas publish_keeps = catalog_rows.publish_invariant [folded publish_def]
lemmas publish_installs = catalog_rows.publish_rows [folded publish_def]

lemma option_eqI: "(\<And>i. x = Some i \<longleftrightarrow> y = Some i) \<Longrightarrow> x = y"
  by (cases x; cases y) auto

section \<open>Invariants of the rows\<close>

text \<open>A live row below another live row is below a folder.\<close>

definition tree_ok :: "file_row list \<Rightarrow> bool" where
  "tree_ok fs \<longleftrightarrow>
     (\<forall>f \<in> set fs. \<forall>g \<in> set fs. f_present f \<and> f_present g \<and> under (f_path f) (f_path g) \<longrightarrow> f_folder f)"

definition rows_ok :: "file_row list \<Rightarrow> bool" where
  "rows_ok fs \<longleftrightarrow> (\<forall>f \<in> set fs. row_ok f) \<and> distinct_ids fs"

definition namespace_ok :: "file_row list \<Rightarrow> bool" where
  "namespace_ok fs \<longleftrightarrow> unique_live_paths fs \<and> tree_ok fs"

lemma bump_Inr:
  "bump upd f = Inr g \<longleftrightarrow> f_revision f \<noteq> max_u64 \<and> g = upd (f\<lparr>f_revision := f_revision f + 1\<rparr>)"
  by (auto simp: bump_def)

lemma row_ok_cong:
  assumes "row_ok f" "f_entry_id g = f_entry_id f" "f_revision g \<noteq> 0" "f_reference g = f_reference f"
    and "f_folder g = f_folder f" "f_snap g = f_snap f" "f_object g = f_object f"
  shows "row_ok g"
proof -
  have "validateReference g = validateReference f"
    unfolding validateReference_def assms(4-7) ..
  with assms show ?thesis by (simp add: row_ok_def referenced_def)
qed

lemma unique_live_paths_append:
  "unique_live_paths (fs @ [g]) \<longleftrightarrow>
     unique_live_paths fs \<and> (f_present g \<longrightarrow> (\<forall>f \<in> set fs. f_present f \<longrightarrow> f_path f \<noteq> f_path g))"
  by (auto simp: unique_live_paths_def image_iff)

lemma tree_ok_append:
  "tree_ok (fs @ [g]) \<longleftrightarrow> tree_ok fs \<and>
     (f_present g \<longrightarrow> (\<forall>f \<in> set fs. f_present f \<longrightarrow>
        (under (f_path f) (f_path g) \<longrightarrow> f_folder f) \<and> (under (f_path g) (f_path f) \<longrightarrow> f_folder g)))"
  by (auto simp: tree_ok_def)

lemma unique_live_paths_D:
  "unique_live_paths fs \<Longrightarrow> f \<in> set fs \<Longrightarrow> g \<in> set fs \<Longrightarrow> f_present f \<Longrightarrow> f_present g
   \<Longrightarrow> f_path f = f_path g \<Longrightarrow> f = g"
  unfolding unique_live_paths_def by (rule distinct_map_filter_inj)

text \<open>Rows that keep their path and lose liveness at most.\<close>

definition shrinks :: "file_row list \<Rightarrow> file_row list \<Rightarrow> bool" where
  "shrinks fs gs \<longleftrightarrow> list_all2 (\<lambda>f g. (f_present g \<longrightarrow> f_present f) \<and> f_path g = f_path f
                                       \<and> f_folder g = f_folder f) fs gs"

lemma shrinks_namespace:
  assumes "shrinks fs gs" "namespace_ok fs"
  shows "namespace_ok gs"
proof -
  have main: "unique_live_paths gs \<and> (\<forall>g \<in> set gs. f_present g \<longrightarrow>
      (\<exists>f \<in> set fs. f_present f \<and> f_path f = f_path g \<and> f_folder f = f_folder g))"
    if "list_all2 (\<lambda>f g. (f_present g \<longrightarrow> f_present f) \<and> f_path g = f_path f
                        \<and> f_folder g = f_folder f) fs gs" "unique_live_paths fs" for fs gs
    using that
  proof (induction rule: list_all2_induct)
    case Nil
    then show ?case by simp
  next
    case (Cons f fs g gs)
    then have IH: "unique_live_paths gs" "\<forall>g \<in> set gs. f_present g \<longrightarrow>
      (\<exists>f \<in> set fs. f_present f \<and> f_path f = f_path g \<and> f_folder f = f_folder g)"
      by (auto simp: unique_live_paths_def split: if_splits)
    have "f_path h \<noteq> f_path g" if "f_present g" "h \<in> set gs" "f_present h" for h
    proof -
      from IH(2) that obtain k where k: "k \<in> set fs" "f_present k" "f_path k = f_path h" by blast
      from Cons.hyps(1) that(1) have f: "f_present f" "f_path g = f_path f" by simp_all
      from Cons.prems f(1) have "f_path f \<notin> f_path ` set (filter f_present fs)"
        by (simp add: unique_live_paths_def)
      with k f(2) show ?thesis by (auto simp: image_iff)
    qed
    then have "f_present g \<Longrightarrow> f_path g \<notin> f_path ` set (filter f_present gs)" by fastforce
    with IH(1) have "unique_live_paths (g # gs)" by (simp add: unique_live_paths_def)
    moreover have "\<forall>h \<in> set (g # gs). f_present h \<longrightarrow>
      (\<exists>k \<in> set (f # fs). f_present k \<and> f_path k = f_path h \<and> f_folder k = f_folder h)"
      using IH(2) Cons.hyps(1) by auto
    ultimately show ?case ..
  qed
  from assms have "unique_live_paths fs" by (simp add: namespace_ok_def)
  note main' = main [OF assms(1) [unfolded shrinks_def] this]
  from main' have u: "unique_live_paths gs" ..
  from main' have orig: "\<And>g. g \<in> set gs \<Longrightarrow> f_present g \<Longrightarrow>
      \<exists>f \<in> set fs. f_present f \<and> f_path f = f_path g \<and> f_folder f = f_folder g"
    by blast
  have "tree_ok gs"
    unfolding tree_ok_def
  proof (intro ballI impI)
    fix g h assume gh: "g \<in> set gs" "h \<in> set gs" "f_present g \<and> f_present h \<and> under (f_path g) (f_path h)"
    from orig [of g] gh obtain f where f: "f \<in> set fs" "f_present f" "f_path f = f_path g"
      "f_folder f = f_folder g" by blast
    from orig [of h] gh obtain k where k: "k \<in> set fs" "f_present k" "f_path k = f_path h" by blast
    from f(3) k(3) gh(3) have "under (f_path f) (f_path k)" by simp
    with assms(2) f(1,2) k(1,2) have "f_folder f" by (auto simp: namespace_ok_def tree_ok_def)
    with f(4) show "f_folder g" by simp
  qed
  with u show ?thesis by (simp add: namespace_ok_def)
qed

section \<open>Mkdir\<close>

lemma Mkdir_namespace:
  assumes "namespace_ok (c_files c)" "Mkdir e path c = (r, c')"
  shows "namespace_ok (c_files c')"
proof (cases "\<exists>f \<in> set (c_files c). f_present f
           \<and> (f_path f = path \<or> (\<not> f_folder f \<and> under (f_path f) path))")
  case True
  with assms show ?thesis by (simp add: Mkdir_def)
next
  case False
  let ?new = "zero_file\<lparr>f_path := path, f_folder := True, f_mtime := clock e, f_present := True\<rparr>"
  have mk: "(case assignIdentity e ?new of Inl err \<Rightarrow> (Inl err, c)
      | Inr (f, e') \<Rightarrow> commit_files e' (c_files c @ [f]) c) = (r, c')"
    using assms(2) False unfolding Mkdir_def by (simp only: if_False)
  show ?thesis
  proof (cases "assignIdentity e ?new")
    case (Inl err)
    with mk assms(1) show ?thesis by simp
  next
    case (Inr p)
    then obtain g e' where g: "assignIdentity e ?new = Inr (g, e')" by (cases p) auto
    note s = assignIdentity_simps [OF g]
    have "namespace_ok (c_files c @ [g])"
      using assms(1) False s(1-3)
      by (auto simp: namespace_ok_def unique_live_paths_append tree_ok_append)
    moreover have "commit_files e' (c_files c @ [g]) c = (r, c')"
      using mk g by simp
    ultimately show ?thesis
      using catalog_rows.commit_invariant [of namespace_ok] assms(1) by blast
  qed
qed

section \<open>Rename\<close>

text \<open>The path a live row has after renaming.\<close>

definition renamed :: "string \<Rightarrow> string \<Rightarrow> string \<Rightarrow> string" where
  "renamed old new p = (if within old p then rebase old new p else p)"

lemma Rename_rows_Inr:
  assumes "Rename_rows old new fs = Inr gs"
  shows "\<not> under old new" and "\<exists>f \<in> set fs. f_present f \<and> within old (f_path f)"
    and "\<And>f. f \<in> set fs \<Longrightarrow> f_present f \<Longrightarrow> \<not> within old (f_path f) \<Longrightarrow>
           \<not> within new (f_path f) \<and> (under (f_path f) new \<longrightarrow> f_folder f)"
    and "list_all2 (\<lambda>f g. if f_present f \<and> within old (f_path f)
            then f_revision f \<noteq> max_u64
               \<and> g = f\<lparr>f_path := rebase old new (f_path f), f_revision := f_revision f + 1\<rparr>
            else g = f) fs gs"
  using assms
  by (auto simp: Rename_rows_def within_def map_res_Inr_iff bump_Inr split: if_splits
      elim!: list_all2_mono)

lemma Rename_rows_member:
  assumes "Rename_rows old new fs = Inr gs" "g \<in> set gs" "f_present g"
  shows "\<exists>f \<in> set fs. f_present f \<and> f_path g = renamed old new (f_path f)
           \<and> f_folder g = f_folder f \<and> f_entry_id g = f_entry_id f"
proof -
  from assms(2) obtain i where i: "i < length gs" "g = gs ! i" by (auto simp: in_set_conv_nth)
  from list_all2_nthD2 [OF Rename_rows_Inr(4) [OF assms(1)] i(1)] i(2)
  have g: "if f_present (fs ! i) \<and> within old (f_path (fs ! i))
       then f_revision (fs ! i) \<noteq> max_u64
          \<and> g = (fs ! i)\<lparr>f_path := rebase old new (f_path (fs ! i)), f_revision := f_revision (fs ! i) + 1\<rparr>
       else g = fs ! i" by simp
  have "fs ! i \<in> set fs"
    using i list_all2_lengthD [OF Rename_rows_Inr(4) [OF assms(1)]] by simp
  with g assms(3) show ?thesis
    by (cases "f_present (fs ! i) \<and> within old (f_path (fs ! i))")
       (auto simp: renamed_def intro!: bexI [of _ "fs ! i"])
qed

lemma Rename_rows_paths:
  assumes "Rename_rows old new fs = Inr gs"
  shows "map f_path (filter f_present gs) = map (\<lambda>f. renamed old new (f_path f)) (filter f_present fs)"
proof -
  have "list_all2 (\<lambda>f g. f_present g = f_present f
          \<and> (f_present f \<longrightarrow> f_path g = renamed old new (f_path f))) fs gs"
    using Rename_rows_Inr(4) [OF assms]
    by (elim list_all2_mono) (auto simp: renamed_def split: if_splits)
  then show ?thesis by (induction rule: list_all2_induct) auto
qed

text \<open>Distinct live paths have distinct names afterwards, and the tree order is kept.\<close>

lemma renamed_inj:
  assumes r: "Rename_rows old new fs = Inr gs"
    and f: "f \<in> set fs" "f_present f" and g: "g \<in> set fs" "f_present g"
    and eq: "renamed old new (f_path f) = renamed old new (f_path g)"
  shows "f_path f = f_path g"
proof -
  note cond = Rename_rows_Inr(3) [OF r]
  show ?thesis
  proof (cases "within old (f_path f)")
    case True
    show ?thesis
    proof (cases "within old (f_path g)")
      case True
      with \<open>within old (f_path f)\<close> eq show ?thesis by (simp add: renamed_def rebase_inj)
    next
      case False
      with True eq cond [OF g False] show ?thesis
        using rebase_within [OF True, of new] by (simp add: renamed_def)
    qed
  next
    case False
    note nf = False
    show ?thesis
    proof (cases "within old (f_path g)")
      case True
      with False eq cond [OF f False] show ?thesis
        using rebase_within [OF True, of new] by (simp add: renamed_def)
    qed (use nf eq in \<open>simp add: renamed_def\<close>)
  qed
qed

lemma renamed_under:
  assumes r: "Rename_rows old new fs = Inr gs" and t: "tree_ok fs"
    and f: "f \<in> set fs" "f_present f" and g: "g \<in> set fs" "f_present g"
    and u: "under (renamed old new (f_path f)) (renamed old new (f_path g))"
  shows "f_folder f"
proof -
  note cond = Rename_rows_Inr(3) [OF r]
  consider "within old (f_path f)" "within old (f_path g)" | "within old (f_path f)" "\<not> within old (f_path g)"
    | "\<not> within old (f_path f)" "within old (f_path g)" | "\<not> within old (f_path f)" "\<not> within old (f_path g)"
    by blast
  then show ?thesis
  proof cases
    case 1
    then have "under (f_path f) (f_path g)" using u by (simp add: renamed_def rebase_under)
    with t f g show ?thesis by (auto simp: tree_ok_def)
  next
    case 2
    from rebase_within [OF 2(1), of new] u 2 have "within new (f_path g)"
      by (auto simp: renamed_def within_def intro: under_trans)
    with cond [OF g 2(2)] show ?thesis by blast
  next
    case 3
    have w: "within new (rebase old new (f_path g))" by (rule rebase_within [OF 3(2)])
    have u': "under (f_path f) (rebase old new (f_path g))" using u 3 by (simp add: renamed_def)
    have "\<not> within new (f_path f)" using cond [OF f 3(1)] by blast
    then have "under (f_path f) new"
      using w u' under_linear [of "f_path f" _ new] by (auto simp: within_def)
    with cond [OF f 3(1)] show ?thesis by blast
  next
    case 4
    with u t f g show ?thesis by (auto simp: renamed_def tree_ok_def)
  qed
qed

lemma Rename_rows_namespace:
  assumes r: "Rename_rows old new fs = Inr gs" and ns: "namespace_ok fs"
  shows "namespace_ok gs"
proof -
  have "inj_on (\<lambda>f. renamed old new (f_path f)) (set (filter f_present fs))"
    using renamed_inj [OF r] ns unique_live_paths_D
    by (auto simp: inj_on_def namespace_ok_def)
  moreover have "distinct (filter f_present fs)"
    using ns by (simp add: namespace_ok_def unique_live_paths_def distinct_map)
  ultimately have "unique_live_paths gs"
    by (simp add: unique_live_paths_def Rename_rows_paths [OF r] distinct_map)
  moreover have "tree_ok gs"
    unfolding tree_ok_def
  proof (intro ballI impI)
    fix g h assume gh: "g \<in> set gs" "h \<in> set gs" "f_present g \<and> f_present h \<and> under (f_path g) (f_path h)"
    from Rename_rows_member [OF r] gh obtain f k where
      "f \<in> set fs" "f_present f" "f_path g = renamed old new (f_path f)" "f_folder g = f_folder f"
      "k \<in> set fs" "f_present k" "f_path h = renamed old new (f_path k)" by metis
    with renamed_under [OF r, of f k] ns gh show "f_folder g" by (simp add: namespace_ok_def)
  qed
  ultimately show ?thesis by (simp add: namespace_ok_def)
qed

lemma Rename_namespace:
  assumes "namespace_ok (c_files c)" "Rename e old new c = (r, c')"
  shows "namespace_ok (c_files c')"
proof (cases "old = new")
  case True
  with assms show ?thesis by (simp add: Rename_def)
next
  case False
  with assms(2) have p: "publish e (Rename_rows old new (c_files c)) c = (r, c')"
    by (simp add: Rename_def)
  show ?thesis
    by (rule publish_keeps [where P = namespace_ok, OF assms(1) _ p])
       (rule Rename_rows_namespace [OF _ assms(1)])
qed

text \<open>
  The namespace a user sees: which entry is live at a path. Renaming moves the subtree and touches
  nothing else.
\<close>

definition live_at :: "file_row list \<Rightarrow> (string \<rightharpoonup> string)" where
  "live_at fs p = map_option f_entry_id (indexPaths fs p)"

lemma live_at_iff:
  assumes "unique_live_paths fs"
  shows "live_at fs p = Some i \<longleftrightarrow> (\<exists>f \<in> set fs. f_present f \<and> f_path f = p \<and> f_entry_id f = i)"
  using indexPaths_iff [OF assms] by (auto simp: live_at_def)

lemma live_at_None: "live_at fs p = None \<longleftrightarrow> (\<forall>f \<in> set fs. f_present f \<longrightarrow> f_path f \<noteq> p)"
  by (simp add: live_at_def indexPaths_None)

definition moved_namespace :: "string \<Rightarrow> string \<Rightarrow> (string \<rightharpoonup> string) \<Rightarrow> (string \<rightharpoonup> string)" where
  "moved_namespace old new m q =
     (if within new q then m (rebase new old q) else if within old q then None else m q)"

lemma Rename_rows_live:
  assumes r: "Rename_rows old new fs = Inr gs" and ns: "namespace_ok fs"
  shows "live_at gs = moved_namespace old new (live_at fs)"
proof
  fix q
  have uf: "unique_live_paths fs" and ug: "unique_live_paths gs"
    using ns Rename_rows_namespace [OF r ns] by (simp_all add: namespace_ok_def)
  have mem: "\<exists>g \<in> set gs. f_present g \<and> f_path g = renamed old new (f_path f) \<and> f_entry_id g = f_entry_id f"
    if "f \<in> set fs" "f_present f" for f
  proof -
    from that(1) obtain i where i: "i < length fs" "fs ! i = f" by (auto simp: in_set_conv_nth)
    have "length gs = length fs" using Rename_rows_Inr(4) [OF r] by (simp add: list_all2_lengthD)
    with i have "gs ! i \<in> set gs" by simp
    moreover have "if f_present f \<and> within old (f_path f)
            then f_revision f \<noteq> max_u64
               \<and> gs ! i = f\<lparr>f_path := rebase old new (f_path f), f_revision := f_revision f + 1\<rparr>
            else gs ! i = f"
      using Rename_rows_Inr(4) [OF r] i by (auto simp: list_all2_conv_all_nth)
    ultimately show ?thesis using that(2)
      by (cases "within old (f_path f)") (auto simp: renamed_def intro!: bexI [of _ "gs ! i"])
  qed
  have up: "live_at gs q = Some i \<longleftrightarrow>
      (\<exists>f \<in> set fs. f_present f \<and> renamed old new (f_path f) = q \<and> f_entry_id f = i)" for i
    unfolding live_at_iff [OF ug] using Rename_rows_member [OF r] mem by metis
  note cond = Rename_rows_Inr(3) [OF r]
  show "live_at gs q = moved_namespace old new (live_at fs) q"
  proof (rule option_eqI)
  fix i
  show "live_at gs q = Some i \<longleftrightarrow> moved_namespace old new (live_at fs) q = Some i"
  proof (cases "within new q")
    case True
    have "renamed old new (f_path f) = q \<longleftrightarrow> f_path f = rebase new old q"
      if "f \<in> set fs" "f_present f" for f
    proof (cases "within old (f_path f)")
      case w: True
      show ?thesis using rebase_inverse [OF w, of new] rebase_inverse [OF True, of old] w
        by (auto simp: renamed_def)
    next
      case False
      have "within old (rebase new old q)" by (rule rebase_within [OF True])
      with False cond [OF that False] True show ?thesis by (auto simp: renamed_def)
    qed
    then show ?thesis using True unfolding up by (auto simp: moved_namespace_def live_at_iff [OF uf])
  next
    case False
    have "renamed old new (f_path f) = q \<longleftrightarrow> \<not> within old q \<and> f_path f = q"
      if "f \<in> set fs" "f_present f" for f
      using False rebase_within [of old "f_path f" new] by (auto simp: renamed_def)
    then show ?thesis using False unfolding up by (auto simp: moved_namespace_def live_at_iff [OF uf])
  qed
  qed
qed

section \<open>Deleting and hiding\<close>

lemma Delete_rows_Inr:
  assumes "Delete_rows now selected fs = Inr gs"
  shows "list_all2 (\<lambda>f g. if f_entry_id f \<in> set selected \<and> f_present f
            then f_revision f \<noteq> max_u64
               \<and> g = f\<lparr>f_revision := f_revision f + 1, f_present := False, f_deleted_at := Some now\<rparr>
            else g = f) fs gs"
  using assms
  by (auto simp: Delete_rows_def map_res_Inr_iff bump_Inr split: if_splits elim!: list_all2_mono)

lemma Delete_rows_shrinks:
  assumes "Delete_rows now selected fs = Inr gs"
  shows "shrinks fs gs"
  unfolding shrinks_def
  by (rule list_all2_mono [OF Delete_rows_Inr [OF assms]]) (auto split: if_splits)

lemma publish_shrinks:
  assumes "namespace_ok (c_files c)" "publish e cand c = (r, c')"
    and "\<And>gs. cand = Inr gs \<Longrightarrow> shrinks (c_files c) gs"
  shows "namespace_ok (c_files c')"
  by (rule publish_keeps [where P = namespace_ok, OF assms(1) _ assms(2)])
     (rule shrinks_namespace [OF assms(3) assms(1)])

lemma Delete_namespace:
  assumes "namespace_ok (c_files c)" "Delete e path c = (r, c')"
  shows "namespace_ok (c_files c')"
proof (cases "\<exists>f \<in> set (c_files c). f_entry_id f \<in> set (photoMutationSelection (c_files c) path False) \<and> f_present f")
  case True
  with assms(2) have p: "publish e (Delete_rows (clock e) (photoMutationSelection (c_files c) path False)
      (c_files c)) c = (r, c')"
    by (auto simp: Delete_def Let_def split: if_splits)
  show ?thesis by (rule publish_shrinks [OF assms(1) p Delete_rows_shrinks])
next
  case False
  with assms show ?thesis by (simp add: Delete_def Let_def)
qed

lemma filter_namespace: "namespace_ok fs \<Longrightarrow> namespace_ok (filter p fs)"
  by (auto simp: namespace_ok_def tree_ok_def unique_live_paths_def filter_filter conj_commute
      dest: distinct_map_filterI [where p = p])

lemma shrinks_refl: "shrinks fs fs"
  by (simp add: shrinks_def list_all2_refl)

lemma shrinks_update:
  assumes "i < length fs" "f_present g \<longrightarrow> f_present (fs ! i)" "f_path g = f_path (fs ! i)"
    and "f_folder g = f_folder (fs ! i)"
  shows "shrinks fs (fs[i := g])"
  using assms by (auto simp: shrinks_def list_all2_conv_all_nth nth_list_update)

text \<open>A save that ends with a value instead of \<open>()\<close> keeps what the commit keeps.\<close>

lemma commit_value_Inr:
  "(case commit_files e fs c of (Inl err, c') \<Rightarrow> (Inl err, c') | (Inr u, c') \<Rightarrow> (Inr v, c')) = (Inr g, c')
   \<longleftrightarrow> commit_files e fs c = (Inr (), c') \<and> g = v"
  by (cases "commit_files e fs c"; cases "fst (commit_files e fs c)") auto

text \<open>The same behind the test that something changed and the overflow guard.\<close>

lemma guarded_commit_Inr:
  "(if \<not> ch then (Inr a, c) else if ov then (Inl er, c)
    else (case commit_files e fs c of (Inl err, c') \<Rightarrow> (Inl err, c') | (Inr u, c') \<Rightarrow> (Inr v, c'))) = (Inr g, c')
   \<longleftrightarrow> (\<not> ch \<and> g = a \<and> c' = c) \<or> (ch \<and> \<not> ov \<and> commit_files e fs c = (Inr (), c') \<and> g = v)"
  by (cases ch; cases ov) (auto simp: commit_value_Inr)
lemma commit_value_keeps:
  assumes "P (c_files c)" "P fs"
    and "(case commit_files e fs c of (Inl err, c') \<Rightarrow> (Inl err, c') | (Inr u, c') \<Rightarrow> (Inr v, c')) = (r, c')"
  shows "P (c_files c')"
  using assms catalog_rows.commit_invariant [of P c fs e]
  by (cases "commit_files e fs c") (auto split: sum.splits)

lemma DeletePaths_namespace:
  assumes "namespace_ok (c_files c)" "DeletePaths e paths c = (r, c')"
  shows "namespace_ok (c_files c')"
proof (cases "Delete_rows (clock e) (delete_paths_selected paths (c_files c)) (c_files c)")
  case (Inl err)
  with assms show ?thesis by (simp add: DeletePaths_def Let_def)
next
  case (Inr gs)
  show ?thesis
    using assms(2) Inr commit_value_keeps [where P = namespace_ok, OF assms(1)
        shrinks_namespace [OF Delete_rows_shrinks [OF Inr] assms(1)]] assms(1)
    by (auto simp: DeletePaths_def Let_def split: if_splits)
qed

lemma PurgeTrash_namespace:
  assumes "namespace_ok (c_files c)" "PurgeTrash e before c = (r, c')"
  shows "namespace_ok (c_files c')"
  using assms commit_value_keeps [where P = namespace_ok, OF assms(1) filter_namespace [OF assms(1)]]
  by (auto simp: PurgeTrash_def Let_def split: if_splits)

lemma SetFolderHidden_namespace:
  assumes "namespace_ok (c_files c)" "SetFolderHidden e entry revn hidden c = (r, c')"
  shows "namespace_ok (c_files c')"
proof (cases "find_index (\<lambda>f. f_entry_id f = entry \<and> f_revision f = revn \<and> f_present f \<and> f_folder f)
             (c_files c)")
  case None
  with assms show ?thesis by (simp add: SetFolderHidden_def)
next
  case (Some i)
  let ?f = "c_files c ! i"
  show ?thesis
  proof (cases "f_hidden ?f = hidden \<or> f_revision ?f = max_u64")
    case True
    with assms Some show ?thesis
      by (auto simp: SetFolderHidden_def Let_def bump_def split: if_splits)
  next
    case False
    let ?g = "?f\<lparr>f_revision := f_revision ?f + 1, f_hidden := hidden\<rparr>"
    have "shrinks (c_files c) ((c_files c)[i := ?g])"
      using find_index_Some [OF Some] by (intro shrinks_update) auto
    note ns = shrinks_namespace [OF this assms(1)]
    have "(case commit_files e ((c_files c)[i := ?g]) c of
        (Inl err, c') \<Rightarrow> (Inl err, c') | (Inr u, c') \<Rightarrow> (Inr ?g, c')) = (r, c')"
      using assms(2) Some False by (simp add: SetFolderHidden_def Let_def bump_def)
    from commit_value_keeps [where P = namespace_ok, OF assms(1) ns this] show ?thesis .
  qed
qed

end
