(* ===== verification/Lifecycle.thy ===== *)
theory Lifecycle
  imports Tree "HOL-Library.Multiset"
begin

text \<open>
  The life of an entry: \<open>Put\<close> makes it live, \<open>Delete\<close> turns it and everything below it into
  tombstones, \<open>Restore\<close> brings exactly them back, \<open>CopyWith\<close> duplicates a subtree under fresh
  identities. Also the conditions under which the namespace invariant can break.
\<close>

section \<open>Identities\<close>

text \<open>The draws of an environment are fresh: none is empty, repeated or already an entry.\<close>

definition fresh_env :: "env \<Rightarrow> file_row list \<Rightarrow> bool" where
  "fresh_env e fs \<longleftrightarrow> good_entropy e \<and> distinct (draws e) \<and> set (draws e) \<inter> f_entry_id ` set fs = {}"

lemma assignIdentity_fresh:
  assumes "assignIdentity e f = Inr (g, e')" "f_entry_id f = ''''" "fresh_env e fs"
  shows "f_entry_id g \<noteq> ''''" "f_entry_id g \<notin> f_entry_id ` set fs" "fresh_env e' (g # fs)"
    and "row_ok g" "f_entry_id g \<in> set (draws e)" "set (draws e') \<subseteq> set (draws e)"
proof -
  note s = assignIdentity_simps [OF assms(1)]
  from s(6) assms(2) have d: "draws e = f_entry_id g # draws e'" by simp
  with assms(3) show "f_entry_id g \<noteq> ''''" "f_entry_id g \<notin> f_entry_id ` set fs" "fresh_env e' (g # fs)"
    "f_entry_id g \<in> set (draws e)" "set (draws e') \<subseteq> set (draws e)"
    by (auto simp: fresh_env_def good_entropy_def)
  with s(4,5) show "row_ok g" by (simp add: row_ok_def)
qed

lemma rows_ok_append:
  "rows_ok (fs @ [g]) \<longleftrightarrow> rows_ok fs \<and> row_ok g \<and> f_entry_id g \<notin> f_entry_id ` set fs"
  by (auto simp: rows_ok_def distinct_ids_def)

lemma rows_ok_update:
  assumes "rows_ok fs" "row_ok g" "i < length fs" "f_entry_id g = f_entry_id (fs ! i)"
  shows "rows_ok (fs[i := g])"
  using assms by (auto simp: rows_ok_def distinct_ids_def map_update_id dest!: in_set_update)

section \<open>Put\<close>

lemma put_over_Inr:
  assumes "put_over f x = Inr (Some g)" "f_entry_id x \<noteq> ''''"
  shows "f_path g = f_path f" "f_present g = f_present f" "f_folder g = f_folder f"
    and "f_entry_id g = f_entry_id x" "f_revision g = f_revision x + 1" "f_revision x \<noteq> max_u64"
    and "f_hash g = f_hash f" "f_size g = f_size f" "f_snap g = f_snap f" "f_object g = f_object f"
    and "f_hidden g = f_hidden x" "referenced g"
proof -
  define f2 where "f2 = (if is_zero (f_imported_at f)
                then f\<lparr>f_hidden := f_hidden x, f_imported_at := (if is_zero (f_imported_at x) then f_mtime x
                                          else f_imported_at x)\<rparr>
                else f\<lparr>f_hidden := f_hidden x\<rparr>)"
  have f2: "f_path f2 = f_path f" "f_present f2 = f_present f" "f_folder f2 = f_folder f"
    "f_entry_id f2 = f_entry_id f" "f_revision f2 = f_revision f" "f_hash f2 = f_hash f"
    "f_size f2 = f_size f" "f_snap f2 = f_snap f" "f_object f2 = f_object f" "f_hidden f2 = f_hidden x"
    by (simp_all add: f2_def)
  have m: "f_revision x \<noteq> max_u64" and "assignReference f2 = Inr g \<and> f_entry_id f = f_entry_id x
      \<and> f_revision f = f_revision x + 1 \<or>
    assignReference (f2\<lparr>f_entry_id := f_entry_id x, f_revision := f_revision x + 1\<rparr>) = Inr g"
    using assms unfolding put_over_def Let_def f2_def
    by (auto simp: res_bind_Inr_iff split: if_splits)
  then obtain h where h: "assignReference h = Inr g" "f_path h = f_path f" "f_present h = f_present f"
    "f_folder h = f_folder f" "f_entry_id h = f_entry_id x" "f_revision h = f_revision x + 1"
    "f_hash h = f_hash f" "f_size h = f_size f" "f_snap h = f_snap f" "f_object h = f_object f"
    "f_hidden h = f_hidden x"
    by (auto simp: f2)
  from assignReference_Inr(1) [OF h(1)] obtain ref where "g = h\<lparr>f_reference := ref\<rparr>" ..
  with h show "f_path g = f_path f" "f_present g = f_present f" "f_folder g = f_folder f"
    "f_entry_id g = f_entry_id x" "f_revision g = f_revision x + 1"
    "f_hash g = f_hash f" "f_size g = f_size f" "f_snap g = f_snap f" "f_object g = f_object f"
    "f_hidden g = f_hidden x"
    by simp_all
  show "f_revision x \<noteq> max_u64" by (rule m)
  show "referenced g" by (rule assignReference_Inr(2) [OF h(1)])
qed

lemma put_new_Inr:
  assumes "put_new e f fs = Inr (g, e')" "fresh_env e fs"
  shows "f_path g = f_path f" "f_present g = f_present f" "f_folder g = f_folder f"
    and "f_revision g = 1" "row_ok g" "f_entry_id g \<notin> f_entry_id ` set fs"
    and "f_hash g = f_hash f" "f_size g = f_size f" "f_snap g = f_snap f" "f_object g = f_object f"
    and "f_hidden g = f_hidden f"
proof -
  define f1 where "f1 = (if is_zero (f_imported_at f) then f\<lparr>f_imported_at := clock e\<rparr> else f)"
  have f1: "f_path f1 = f_path f" "f_present f1 = f_present f" "f_folder f1 = f_folder f"
    "f_entry_id f1 = f_entry_id f" "f_revision f1 = f_revision f" "f_hash f1 = f_hash f"
    "f_size f1 = f_size f" "f_snap f1 = f_snap f" "f_object f1 = f_object f" "f_hidden f1 = f_hidden f"
    by (simp_all add: f1_def)
  have "f_path g = f_path f \<and> f_present g = f_present f \<and> f_folder g = f_folder f
    \<and> f_revision g = 1 \<and> row_ok g \<and> f_entry_id g \<notin> f_entry_id ` set fs
    \<and> f_hash g = f_hash f \<and> f_size g = f_size f \<and> f_snap g = f_snap f \<and> f_object g = f_object f
    \<and> f_hidden g = f_hidden f"
  proof (cases "f_entry_id f = ''''")
    case True
    with assms(1) have a: "assignIdentity e (f1\<lparr>f_entry_id := '''', f_revision := 0\<rparr>) = Inr (g, e')"
      by (simp add: put_new_def Let_def f1_def)
    from assignIdentity_fresh(2,4) [OF a _ assms(2)] have "row_ok g" "f_entry_id g \<notin> f_entry_id ` set fs"
      by simp_all
    with assignIdentity_shape [OF a] show ?thesis by (auto simp: f1)
  next
    case False
    with assms(1) have r: "f_revision f = 1" "\<forall>old \<in> set fs. f_entry_id old \<noteq> f_entry_id f"
      "assignReference f1 = Inr g"
      by (auto simp: put_new_def Let_def f1_def res_bind_Inr_iff split: if_splits)
    from assignReference_Inr(1) [OF r(3)] obtain ref where g: "g = f1\<lparr>f_reference := ref\<rparr>" ..
    have "row_ok g" using assignReference_Inr(2) [OF r(3)] False r(1) by (simp add: row_ok_def g f1)
    with r(1,2) show ?thesis by (auto simp: g f1)
  qed
  then show "f_path g = f_path f" "f_present g = f_present f" "f_folder g = f_folder f"
    "f_revision g = 1" "row_ok g" "f_entry_id g \<notin> f_entry_id ` set fs"
    "f_hash g = f_hash f" "f_size g = f_size f" "f_snap g = f_snap f" "f_object g = f_object f"
    "f_hidden g = f_hidden f"
    by blast+
qed

text \<open>
  The three ways \<open>Put\<close> can end: it changes nothing, it commits a replacement of the live row at the
  path, or it commits a new row.
\<close>

lemma put_over_replay: "put_over f x = Inr None \<Longrightarrow> f_entry_id f \<noteq> ''''"
  unfolding put_over_def Let_def by (auto simp: res_bind_Inr_iff split: if_splits)

lemma Put_cases:
  assumes "Put e f0 c = (r, c')"
  obtains (unchanged) "c' = c" "r = Inr () \<Longrightarrow> f_entry_id f0 \<noteq> ''''"
  | (replaced) i g where "find_index (\<lambda>x. f_path x = f_path f0 \<and> f_present x) (c_files c) = Some i"
      "put_over (f0\<lparr>f_present := True\<rparr>) (c_files c ! i) = Inr (Some g)"
      "\<forall>x \<in> set (c_files c). \<not> put_conflict (f0\<lparr>f_present := True\<rparr>) x"
      "commit_files e ((c_files c)[i := g]) c = (r, c')"
  | (added) g e' where "find_index (\<lambda>x. f_path x = f_path f0 \<and> f_present x) (c_files c) = None"
      "put_new e (f0\<lparr>f_present := True\<rparr>) (c_files c) = Inr (g, e')"
      "\<forall>x \<in> set (c_files c). \<not> put_conflict (f0\<lparr>f_present := True\<rparr>) x"
      "commit_files e' (c_files c @ [g]) c = (r, c')"
  using assms unfolding Put_def Let_def
  by (auto split: if_splits option.splits sum.splits dest: put_over_replay)

lemma Put_rows_ok:
  assumes "rows_ok (c_files c)" "fresh_env e (c_files c)" "Put e f c = (r, c')"
  shows "rows_ok (c_files c')"
  using assms(3)
proof (cases rule: Put_cases)
  case unchanged
  with assms(1) show ?thesis by simp
next
  case (replaced i g)
  have i: "i < length (c_files c)" using find_index_Some [OF replaced(1)] by simp
  with assms(1) have ok: "row_ok (c_files c ! i)" by (simp add: rows_ok_def)
  then have "f_entry_id (c_files c ! i) \<noteq> ''''" by (simp add: row_ok_def)
  note p = put_over_Inr [OF replaced(2) this]
  have "row_ok g" using p(4-6,12) ok u64_succ_nonzero by (simp add: row_ok_def)
  with rows_ok_update [OF assms(1) _ i] p(4) have "rows_ok ((c_files c)[i := g])" by simp
  with catalog_rows.commit_invariant [of rows_ok] assms(1) replaced(4) show ?thesis by blast
next
  case (added g e')
  note p = put_new_Inr [OF added(2) assms(2)]
  from assms(1) p(5,6) have "rows_ok (c_files c @ [g])" by (simp add: rows_ok_append)
  with catalog_rows.commit_invariant [of rows_ok] assms(1) added(4) show ?thesis by blast
qed

text \<open>
  \<open>Put\<close> keeps live paths unique; it keeps files childless when the row is a folder or nothing is
  live below its path.
\<close>

lemma Put_namespace:
  assumes ns: "namespace_ok (c_files c)" and ok: "rows_ok (c_files c)" "fresh_env e (c_files c)"
    and put: "Put e f c = (r, c')"
    and leaf: "f_folder f \<or> \<not> (\<exists>x \<in> set (c_files c). f_present x \<and> under (f_path f) (f_path x))"
  shows "namespace_ok (c_files c')"
  using put
proof (cases rule: Put_cases)
  case unchanged
  with ns show ?thesis by simp
next
  case (replaced i g)
  note i = find_index_Some [OF replaced(1)]
  then have mem: "c_files c ! i \<in> set (c_files c)" by simp
  with ok(1) have "f_entry_id (c_files c ! i) \<noteq> ''''" by (simp add: rows_ok_def row_ok_def)
  note p = put_over_Inr [OF replaced(2) this]
  have "f_folder g = f_folder (c_files c ! i)"
    using replaced(3) mem i p(3) by (auto simp: put_conflict_def)
  then have "shrinks (c_files c) ((c_files c)[i := g])"
    using i p(1-3) by (intro shrinks_update) auto
  note n = shrinks_namespace [OF this ns]
  show ?thesis by (rule catalog_rows.commit_invariant [OF ns n replaced(4)])
next
  case (added g e')
  note p = put_new_Inr [OF added(2) ok(2)]
  have free: "\<forall>x \<in> set (c_files c). f_present x \<longrightarrow> f_path x \<noteq> f_path f"
    using added(1) by (auto simp: find_index_None)
  have "namespace_ok (c_files c @ [g])"
    using ns p(1-3) free added(3) leaf
    by (auto simp: namespace_ok_def unique_live_paths_append tree_ok_append put_conflict_def)
  then show ?thesis using catalog_rows.commit_invariant [of namespace_ok] ns added(4) by blast
qed

text \<open>What a successful \<open>Put\<close> stores is what \<open>Get\<close> returns.\<close>

lemma Put_Get:
  assumes ns: "unique_live_paths (c_files c)" and ok: "rows_ok (c_files c)" "fresh_env e (c_files c)"
    and put: "Put e f c = (Inr (), c')" and nb: "\<not> c_batch_only c"
    and idx: "c_by_path c = indexPaths (c_files c)"
    and fresh: "f_entry_id f = ''''"
  shows "\<exists>g. Get c' (f_path f) = Some g \<and> f_hash g = f_hash f \<and> f_size g = f_size f
    \<and> f_snap g = f_snap f \<and> f_object g = f_object f \<and> f_folder g = f_folder f
    \<and> (case Get c (f_path f) of
         None \<Rightarrow> f_revision g = 1 \<and> f_entry_id g \<notin> f_entry_id ` set (c_files c)
       | Some x \<Rightarrow> f_revision g = f_revision x + 1 \<and> f_entry_id g = f_entry_id x)"
  using put
proof (cases rule: Put_cases)
  case unchanged
  with fresh show ?thesis by simp
next
  case (replaced i g)
  note i = find_index_Some [OF replaced(1)]
  then have mem: "c_files c ! i \<in> set (c_files c)" by simp
  with ok(1) have "f_entry_id (c_files c ! i) \<noteq> ''''" by (simp add: rows_ok_def row_ok_def)
  note p = put_over_Inr [OF replaced(2) this]
  have old: "Get c (f_path f) = Some (c_files c ! i)"
    using indexPaths_iff [OF ns, of "f_path f" "c_files c ! i"] i mem by (simp add: Get_def idx)
  have "unique_live_paths ((c_files c)[i := g])"
    using ns i p(1,2) by (simp add: unique_live_paths_def filter_map_update_same)
  from indexPaths_iff [OF this, of "f_path f" g] i p(1,2)
  have "indexPaths ((c_files c)[i := g]) (f_path f) = Some g" by (simp add: set_update_memI)
  with commit_files_ok(7) [OF replaced(4) nb] have "Get c' (f_path f) = Some g" by (simp add: Get_def)
  with old p show ?thesis by simp
next
  case (added g e')
  note p = put_new_Inr [OF added(2) ok(2)]
  have free: "\<forall>x \<in> set (c_files c). f_present x \<longrightarrow> f_path x \<noteq> f_path f"
    using added(1) by (auto simp: find_index_None)
  then have old: "Get c (f_path f) = None" by (simp add: Get_def idx indexPaths_None)
  have "unique_live_paths (c_files c @ [g])"
    using ns p(1) free by (auto simp: unique_live_paths_append)
  from indexPaths_iff [OF this, of "f_path f" g] p(1,2)
  have "indexPaths (c_files c @ [g]) (f_path f) = Some g" by simp
  with commit_files_ok(7) [OF added(4) nb] have "Get c' (f_path f) = Some g" by (simp add: Get_def)
  with old p show ?thesis by simp
qed

section \<open>Delete and Restore\<close>

lemma select_components_plain:
  assumes "\<forall>f \<in> set fs. f_entry_id f \<in> set selected \<longrightarrow> f_components f = []"
  shows "select_components byID restore selected fs = selected"
  using assms by (induction fs) auto

text \<open>Rows without components are selected by their path alone.\<close>

lemma photoMutationSelection_plain:
  assumes "distinct_ids fs" "f \<in> set fs"
    and "\<forall>g \<in> set fs. eligible restore g \<and> within path (f_path g) \<longrightarrow> f_components g = []"
  shows "f_entry_id f \<in> set (photoMutationSelection fs path restore)
     \<longleftrightarrow> eligible restore f \<and> within path (f_path f)"
proof -
  let ?sel = "map f_entry_id (filter (\<lambda>f. eligible restore f \<and> within path (f_path f)) fs)"
  have same: "f = g" if "f \<in> set fs" "g \<in> set fs" "f_entry_id f = f_entry_id g" for f g
    using that assms(1) distinct_map_inj by (auto simp: distinct_ids_def)
  have in_sel: "f_entry_id g \<in> set ?sel \<longleftrightarrow> eligible restore g \<and> within path (f_path g)"
    if "g \<in> set fs" for g
    using that same by (auto simp: image_iff)
  have "photoMutationSelection fs path restore = ?sel"
    unfolding photoMutationSelection_def
    by (rule select_components_plain) (use assms(3) in_sel in blast)
  then show ?thesis using in_sel [OF assms(2)] by simp
qed

lemma map_res_over:
  "(\<And>x. x \<in> set xs \<Longrightarrow> f (g x) = Inr (h x)) \<Longrightarrow> map_res f (map g xs) = Inr (map h xs)"
  by (induction xs) auto

definition deleted_row :: "gotime \<Rightarrow> string \<Rightarrow> file_row \<Rightarrow> file_row" where
  "deleted_row now path f =
     (if f_present f \<and> within path (f_path f)
      then f\<lparr>f_revision := f_revision f + 1, f_present := False, f_deleted_at := Some now\<rparr> else f)"

definition brought_back :: "string \<Rightarrow> file_row \<Rightarrow> file_row" where
  "brought_back path f =
     (if f_present f \<and> within path (f_path f) then f\<lparr>f_revision := f_revision f + 1 + 1\<rparr> else f)"

lemma deleted_row_simps [simp]:
  "f_entry_id (deleted_row now path f) = f_entry_id f" "f_path (deleted_row now path f) = f_path f"
  "f_folder (deleted_row now path f) = f_folder f" "f_components (deleted_row now path f) = f_components f"
  "f_present (deleted_row now path f) \<longleftrightarrow> f_present f \<and> \<not> within path (f_path f)"
  by (auto simp: deleted_row_def)

lemma Delete_rows_plain:
  assumes "Delete_rows now (photoMutationSelection fs path False) fs = Inr gs" "distinct_ids fs"
    and "\<forall>g \<in> set fs. f_present g \<and> within path (f_path g) \<longrightarrow> f_components g = []"
  shows "gs = map (deleted_row now path) fs"
proof -
  have "map_res (\<lambda>f. if f_entry_id f \<in> set (photoMutationSelection fs path False) \<and> f_present f
                  then bump (\<lambda>g. g\<lparr>f_present := False, f_deleted_at := Some now\<rparr>) f
                  else Inr f) fs = Inr gs"
    using assms(1) by (simp add: Delete_rows_def)
  then have "map (\<lambda>g. g) gs = map (deleted_row now path) fs"
  proof (rule map_res_map)
    fix x y assume that: "x \<in> set fs"
    "(if f_entry_id x \<in> set (photoMutationSelection fs path False) \<and> f_present x
      then bump (\<lambda>g. g\<lparr>f_present := False, f_deleted_at := Some now\<rparr>) x else Inr x) = Inr y"
    show "y = deleted_row now path x"
      using that photoMutationSelection_plain [OF assms(2), of x False path] assms(3)
      by (cases "f_present x \<and> within path (f_path x)")
         (auto simp: bump_Inr deleted_row_def eligible_def)
  qed
  then show ?thesis by simp
qed

text \<open>
  Deleting a path without older tombstones and restoring it meets no conflict and gives back the
  same rows, two revisions later.
\<close>

lemma Delete_then_Restore_rows:
  assumes del: "Delete_rows now (photoMutationSelection fs path False) fs = Inr gs"
    and ids: "distinct_ids fs" and ns: "namespace_ok fs"
    and rows: "\<And>f. f \<in> set fs \<Longrightarrow> within path (f_path f) \<Longrightarrow>
        f_components f = [] \<and> f_deleted_at f = None \<and> f_revision f + 1 \<noteq> max_u64"
    and some: "\<exists>f \<in> set fs. f_present f \<and> within path (f_path f)"
  shows "Restore_rows (photoMutationSelection gs path True) gs = Inr (map (brought_back path) fs)"
proof -
  let ?d = "deleted_row now path" and ?sel = "photoMutationSelection gs path True"
  have gs: "gs = map ?d fs" by (rule Delete_rows_plain [OF del ids]) (use rows in blast)
  have ids': "distinct_ids gs" using ids by (simp add: gs distinct_ids_def comp_def)
  have elig: "eligible True (?d f) \<longleftrightarrow> f_present f \<or> f_deleted_at f \<noteq> None"
    if "f \<in> set fs" "within path (f_path f)" for f
    using that by (auto simp: eligible_def deleted_row_def)
  have sel: "f_entry_id f \<in> set ?sel \<longleftrightarrow> f_present f \<and> within path (f_path f)" if "f \<in> set fs" for f
  proof -
    have "\<forall>g \<in> set gs. eligible True g \<and> within path (f_path g) \<longrightarrow> f_components g = []"
      using rows by (auto simp: gs)
    from photoMutationSelection_plain [OF ids' _ this, of "?d f"] that elig rows show ?thesis
      by (auto simp: gs)
  qed
  have no_conflict: "\<not> restore_conflict (?d f) (?d x)"
    if f: "f \<in> set fs" "f_present f" "within path (f_path f)" and x: "x \<in> set fs" for f x
  proof
    assume conf: "restore_conflict (?d f) (?d x)"
    then have px: "f_present x" "\<not> within path (f_path x)" by (simp_all add: restore_conflict_def)
    from conf consider "f_path x = f_path f" | "\<not> f_folder x" "under (f_path x) (f_path f)"
      | "under (f_path f) (f_path x)"
      by (auto simp: restore_conflict_def)
    then show False
    proof cases
      case 1 with f px show False by simp
    next
      case 2 with ns f x px show False by (auto simp: namespace_ok_def tree_ok_def)
    next
      case 3 with f(3) px(2) show False by (auto simp: within_def intro: under_trans)
    qed
  qed
  have "\<exists>g \<in> set gs. f_entry_id g \<in> set ?sel" using some sel by (auto simp: gs)
  moreover have "\<not> (\<exists>g \<in> set gs. f_entry_id g \<in> set ?sel \<and> (\<exists>x \<in> set gs. restore_conflict g x))"
    using sel no_conflict by (auto simp: gs)
  moreover have "map_res (\<lambda>f. if f_entry_id f \<in> set ?sel
                        then bump (\<lambda>g. g\<lparr>f_present := True, f_deleted_at := None\<rparr>) f
                        else Inr f) gs = Inr (map (brought_back path) fs)"
  proof -
    have "(if f_entry_id (?d f) \<in> set ?sel
           then bump (\<lambda>g. g\<lparr>f_present := True, f_deleted_at := None\<rparr>) (?d f)
           else Inr (?d f)) = Inr (brought_back path f)" if "f \<in> set fs" for f
      using sel [OF that] rows [OF that]
      by (auto simp: deleted_row_def brought_back_def bump_def)
    then show ?thesis unfolding gs by (intro map_res_over)
  qed
  ultimately show ?thesis by (simp add: Restore_rows_def)
qed

section \<open>Restore\<close>

text \<open>
  \<open>Restore\<close> compares its candidates with the live rows only. It keeps the namespace invariant when
  the candidates alone, once live, satisfy it.
\<close>

definition candidates :: "string list \<Rightarrow> file_row list \<Rightarrow> file_row list" where
  "candidates selected fs = map (\<lambda>f. f\<lparr>f_present := True\<rparr>) (filter (\<lambda>f. f_entry_id f \<in> set selected) fs)"

text \<open>
  The namespace invariant speaks of the live paths and their folder flags only, in any order.
\<close>

definition live_keys :: "file_row list \<Rightarrow> (string \<times> bool) list" where
  "live_keys fs = map (\<lambda>f. (f_path f, f_folder f)) (filter f_present fs)"

definition keys_ok :: "(string \<times> bool) list \<Rightarrow> bool" where
  "keys_ok ks \<longleftrightarrow> distinct (map fst ks) \<and>
     (\<forall>a \<in> set ks. \<forall>b \<in> set ks. under (fst a) (fst b) \<longrightarrow> snd a)"

definition keys_apart :: "string \<times> bool \<Rightarrow> string \<times> bool \<Rightarrow> bool" where
  "keys_apart a b \<longleftrightarrow> fst a \<noteq> fst b \<and> (under (fst a) (fst b) \<longrightarrow> snd a) \<and> (under (fst b) (fst a) \<longrightarrow> snd b)"

lemma namespace_ok_keys: "namespace_ok fs \<longleftrightarrow> keys_ok (live_keys fs)"
  by (auto simp: namespace_ok_def unique_live_paths_def tree_ok_def keys_ok_def live_keys_def comp_def)

lemma keys_ok_mset:
  assumes "mset ks = mset ls"
  shows "keys_ok ks \<longleftrightarrow> keys_ok ls"
proof -
  have "mset (map fst ks) = mset (map fst ls)" using assms by simp
  from mset_eq_imp_distinct_iff [OF this] mset_eq_setD [OF assms]
  show ?thesis unfolding keys_ok_def by simp
qed

lemma keys_ok_append:
  assumes "keys_ok ks" "keys_ok ls" "\<And>a b. a \<in> set ks \<Longrightarrow> b \<in> set ls \<Longrightarrow> keys_apart a b"
  shows "keys_ok (ks @ ls)"
proof -
  have "fst ` set ks \<inter> fst ` set ls = {}" using assms(3) by (auto simp: keys_apart_def)
  moreover have "snd a" if "a \<in> set (ks @ ls)" "b \<in> set (ks @ ls)" "under (fst a) (fst b)" for a b
    using that assms(1,2) assms(3) [of a b] assms(3) [of b a] by (auto simp: keys_ok_def keys_apart_def)
  ultimately show ?thesis using assms(1,2) by (auto simp: keys_ok_def)
qed

lemma live_keys_append [simp]: "live_keys (fs @ gs) = live_keys fs @ live_keys gs"
  by (simp add: live_keys_def)

lemma live_keys_member:
  "a \<in> set (live_keys fs) \<longleftrightarrow> (\<exists>f \<in> set fs. f_present f \<and> a = (f_path f, f_folder f))"
  by (auto simp: live_keys_def)

lemma restored_keys:
  assumes "map_res (\<lambda>f. if f_entry_id f \<in> S then bump (\<lambda>g. g\<lparr>f_present := True, f_deleted_at := None\<rparr>) f
                        else Inr f) fs = Inr gs"
    and "\<And>f. f \<in> set fs \<Longrightarrow> f_entry_id f \<in> S \<Longrightarrow> \<not> f_present f"
  shows "mset (live_keys gs) =
    mset (live_keys (map (\<lambda>f. f\<lparr>f_present := True\<rparr>) (filter (\<lambda>f. f_entry_id f \<in> S) fs))) + mset (live_keys fs)"
  using assms
proof (induction fs arbitrary: gs)
  case Nil
  then show ?case by (simp add: live_keys_def)
next
  case (Cons f fs)
  from Cons.prems(1) obtain g gs' where g: "gs = g # gs'"
    "(if f_entry_id f \<in> S then bump (\<lambda>g. g\<lparr>f_present := True, f_deleted_at := None\<rparr>) f else Inr f) = Inr g"
    "map_res (\<lambda>f. if f_entry_id f \<in> S then bump (\<lambda>g. g\<lparr>f_present := True, f_deleted_at := None\<rparr>) f
                        else Inr f) fs = Inr gs'"
    by (auto simp: res_bind_Inr_iff)
  have IH: "mset (live_keys gs') =
    mset (live_keys (map (\<lambda>f. f\<lparr>f_present := True\<rparr>) (filter (\<lambda>f. f_entry_id f \<in> S) fs))) + mset (live_keys fs)"
    by (rule Cons.IH [OF g(3)]) (use Cons.prems(2) in auto)
  show ?case
  proof (cases "f_entry_id f \<in> S")
    case True
    with g(2) Cons.prems(2) [of f] IH show ?thesis
      by (simp add: g(1) bump_Inr) (simp add: live_keys_def)
  next
    case False
    with g(2) IH show ?thesis by (simp add: g(1)) (simp add: live_keys_def)
  qed
qed

lemma Restore_rows_namespace:
  assumes r: "Restore_rows selected fs = Inr gs" and ns: "namespace_ok fs"
    and dead: "\<And>f. f \<in> set fs \<Longrightarrow> f_entry_id f \<in> set selected \<Longrightarrow> \<not> f_present f"
    and cands: "namespace_ok (candidates selected fs)"
  shows "namespace_ok gs"
proof -
  from r have conf: "\<And>f x. f \<in> set fs \<Longrightarrow> f_entry_id f \<in> set selected \<Longrightarrow> x \<in> set fs \<Longrightarrow> \<not> restore_conflict f x"
    and m: "map_res (\<lambda>f. if f_entry_id f \<in> set selected
                        then bump (\<lambda>g. g\<lparr>f_present := True, f_deleted_at := None\<rparr>) f
                        else Inr f) fs = Inr gs"
    by (auto simp: Restore_rows_def split: if_splits)
  have "keys_ok (live_keys (candidates selected fs) @ live_keys fs)"
  proof (rule keys_ok_append)
    show "keys_ok (live_keys (candidates selected fs))" using cands by (simp add: namespace_ok_keys)
    show "keys_ok (live_keys fs)" using ns by (simp add: namespace_ok_keys)
    fix a b assume "a \<in> set (live_keys (candidates selected fs))" "b \<in> set (live_keys fs)"
    then obtain f x where f: "f \<in> set fs" "f_entry_id f \<in> set selected" "a = (f_path f, f_folder f)"
      and x: "x \<in> set fs" "f_present x" "b = (f_path x, f_folder x)"
      by (auto simp: live_keys_member candidates_def)
    from conf [OF f(1,2) x(1)] x(2) show "keys_apart a b"
      by (auto simp: keys_apart_def f(3) x(3) restore_conflict_def)
  qed
  moreover have "mset (live_keys gs) = mset (live_keys (candidates selected fs) @ live_keys fs)"
    using restored_keys [OF m dead] by (simp add: candidates_def)
  ultimately show ?thesis
    unfolding namespace_ok_keys using keys_ok_mset by blast
qed

section \<open>Copy\<close>

text \<open>A \<open>grant\<close> changes what a row refers to, never what it is called.\<close>

definition grant_keeps_name :: "(file_row \<Rightarrow> file_row \<Rightarrow> catalog_error + file_row) option \<Rightarrow> bool" where
  "grant_keeps_name grant \<longleftrightarrow> (\<forall>gr f g h. grant = Some gr \<longrightarrow> gr f g = Inr h \<longrightarrow>
     f_path h = f_path g \<and> f_present h = f_present g \<and> f_folder h = f_folder g
     \<and> f_entry_id h = f_entry_id g \<and> f_revision h = f_revision g)"

lemma copy_rows_shape:
  assumes "copy_rows e old new grant fs = Inr (hs, e')" "grant_keeps_name grant" "fresh_env e ex"
  shows "list_all2 (\<lambda>f h. f_path h = rebase old new (f_path f) \<and> f_present h = f_present f
            \<and> f_folder h = f_folder f \<and> f_revision h = 1) fs hs
    \<and> distinct (map f_entry_id hs) \<and> f_entry_id ` set hs \<subseteq> set (draws e) \<and> fresh_env e' ex
    \<and> set (draws e') \<subseteq> set (draws e)"
  using assms
proof (induction fs arbitrary: e hs)
  case Nil
  then show ?case by simp
next
  case (Cons f fs)
  let ?f = "f\<lparr>f_path := rebase old new (f_path f), f_entry_id := '''', f_revision := 0, f_deleted_at := None\<rparr>"
  from Cons.prems(1) obtain g e1 h hs' where
    g: "assignIdentity e ?f = Inr (g, e1)"
    and h: "(case grant of None \<Rightarrow> Inr g | Some gr \<Rightarrow> gr f g) = Inr h"
    and hs: "copy_rows e1 old new grant fs = Inr (hs', e')" "hs = h # hs'"
    by (auto simp: res_bind_Inr_iff)
  note s = assignIdentity_simps [OF g]
  from s(6) have d: "draws e = f_entry_id g # draws e1" by simp
  have fr: "fresh_env e1 ex" using Cons.prems(3) d by (auto simp: fresh_env_def good_entropy_def)
  from Cons.IH [OF hs(1) Cons.prems(2) fr]
  have IH: "list_all2 (\<lambda>f h. f_path h = rebase old new (f_path f) \<and> f_present h = f_present f
            \<and> f_folder h = f_folder f \<and> f_revision h = 1) fs hs'"
    "distinct (map f_entry_id hs')" "f_entry_id ` set hs' \<subseteq> set (draws e1)" "fresh_env e' ex"
    "set (draws e') \<subseteq> set (draws e1)" by blast+
  have hg: "f_path h = f_path g \<and> f_present h = f_present g \<and> f_folder h = f_folder g
      \<and> f_entry_id h = f_entry_id g \<and> f_revision h = f_revision g"
    using h Cons.prems(2) by (auto simp: grant_keeps_name_def split: option.splits)
  have "f_entry_id h \<notin> f_entry_id ` set hs'"
    using IH(3) d hg Cons.prems(3) by (auto simp: fresh_env_def)
  with IH hg s(1-4) d show ?case by (auto simp: hs(2))
qed

lemma relink_keys [simp]:
  "f_path (relink_row m f) = f_path f" "f_present (relink_row m f) = f_present f"
  "f_folder (relink_row m f) = f_folder f" "f_entry_id (relink_row m f) = f_entry_id f"
  "f_revision (relink_row m f) = f_revision f"
  by (simp_all add: relink_row_def)

lemma relinked_keys: "live_keys (relinkCopiedPhotoPairs copies olds) = live_keys copies"
  by (simp add: live_keys_def relinkCopiedPhotoPairs_def filter_map comp_def)

text \<open>Paths below two paths neither of which is below the other are apart.\<close>

lemma within_apart:
  assumes "\<not> within old new" "\<not> within new old" "within old x" "within new t"
  shows "x \<noteq> t" "\<not> under x t" "\<not> under t x"
proof -
  have no: False if "within old t" "within new t" for t
    using that assms(1,2) under_linear [of old t new] by (auto simp: within_def)
  show "x \<noteq> t" using no [of t] assms(3,4) by auto
  show "\<not> under x t"
    using no [of t] assms(3,4) by (meson within_trans within_def)
  show "\<not> under t x"
    using no [of x] assms(3,4) by (meson within_trans within_def)
qed

text \<open>
  \<open>CopyWith\<close> keeps the namespace invariant when the destination is not an ancestor of the source
  and no copied file lands above a live row.
\<close>

lemma CopyWith_namespace:
  assumes ns: "namespace_ok (c_files c)" and fr: "fresh_env e (c_files c)"
    and grant: "grant_keeps_name grant"
    and copy: "CopyWith e old new grant c = (r, c')"
    and up: "\<not> under new old"
    and leaf: "\<forall>f \<in> set (c_files c). \<forall>x \<in> set (c_files c). f_present f \<and> f_present x
        \<and> within old (f_path f) \<and> under (rebase old new (f_path f)) (f_path x) \<longrightarrow> f_folder f"
  shows "namespace_ok (c_files c')"
proof (cases r)
  case (Inl err)
  with copy have "c_files c' = c_files c"
    by (auto simp: CopyWith_def Let_def split: if_splits sum.splits dest!: commit_files_error)
  with ns show ?thesis by (simp add: namespace_ok_def)
next
  case (Inr u)
  let ?fs = "c_files c" and ?src = "filter (\<lambda>f. f_present f \<and> within old (f_path f)) (c_files c)"
  from copy Inr obtain copies e' where
    c: "old \<noteq> new" "\<not> under old new" "\<forall>f \<in> set ?src. \<forall>x \<in> set ?fs. \<not> copy_conflict old new f x"
      "copy_rows e old new grant ?src = Inr (copies, e')"
      "commit_files e' (?fs @ relinkCopiedPhotoPairs copies (map f_entry_id ?src)) c = (r, c')"
    by (auto simp: CopyWith_def Let_def split: if_splits sum.splits)
  have src: "keys_ok (live_keys ?src)" using filter_namespace [OF ns] by (simp add: namespace_ok_keys)
  have keys: "live_keys copies = map (\<lambda>(p, d). (rebase old new p, d)) (live_keys ?src)"
  proof -
    have "list_all2 (\<lambda>f h. f_path h = rebase old new (f_path f) \<and> f_present h = f_present f
            \<and> f_folder h = f_folder f \<and> f_revision h = 1) ?src copies"
      using copy_rows_shape [OF c(4) grant fr] by blast
    then show ?thesis by (induction rule: list_all2_induct) (auto simp: live_keys_def)
  qed
  have win: "within old (fst a)" if "a \<in> set (live_keys ?src)" for a
    using that by (auto simp: live_keys_member)
  have "keys_ok (map (\<lambda>(p, d). (rebase old new p, d)) (live_keys ?src))"
  proof -
    have "inj_on (rebase old new) (fst ` set (live_keys ?src))"
      using win rebase_inj by (auto simp: inj_on_def)
    then have "distinct (map (rebase old new) (map fst (live_keys ?src)))"
      using src by (subst distinct_map) (simp add: keys_ok_def)
    moreover have "snd a" if "a \<in> set (live_keys ?src)" "b \<in> set (live_keys ?src)"
      "under (rebase old new (fst a)) (rebase old new (fst b))" for a b
    proof -
      have "under (fst a) (fst b)" using that rebase_under [OF win [OF that(1)] win [OF that(2)]] by simp
      with src that(1,2) show ?thesis by (auto simp only: keys_ok_def)
    qed
    ultimately show ?thesis
      unfolding keys_ok_def by (simp add: comp_def case_prod_unfold) blast
  qed
  then have kc: "keys_ok (live_keys copies)" by (simp add: keys)
  have "keys_ok (live_keys ?fs @ live_keys copies)"
  proof (rule keys_ok_append)
    show "keys_ok (live_keys ?fs)" using ns by (simp add: namespace_ok_keys)
    show "keys_ok (live_keys copies)" by (rule kc)
    fix a b assume "a \<in> set (live_keys ?fs)" "b \<in> set (live_keys copies)"
    then obtain x f where x: "x \<in> set ?fs" "f_present x" "a = (f_path x, f_folder x)"
      and f: "f \<in> set ?fs" "f_present f" "within old (f_path f)" "b = (rebase old new (f_path f), f_folder f)"
      by (auto simp: keys live_keys_member)
    show "keys_apart a b"
    proof (cases "within old (f_path x)")
      case True
      have "within new (rebase old new (f_path f))" by (rule rebase_within [OF f(3)])
      from within_apart [OF _ _ True this] c(1,2) up show ?thesis
        by (auto simp: keys_apart_def x(3) f(4) within_def)
    next
      case False
      then have "\<not> copy_conflict old new f x" using c(3) x(1) f by simp
      with False x(1,2) leaf f show ?thesis
        by (auto simp: keys_apart_def x(3) f(4) copy_conflict_def)
    qed
  qed
  then have "namespace_ok (?fs @ relinkCopiedPhotoPairs copies (map f_entry_id ?src))"
    by (simp add: namespace_ok_keys relinked_keys)
  then show ?thesis using catalog_rows.commit_invariant [of namespace_ok] ns c(5) by blast
qed

section \<open>Rows after an upgrade\<close>

text \<open>Whatever a legacy file holds, the rows an upgrade returns are well formed and at the same places.\<close>

lemma assignIdentity_draws:
  assumes "assignIdentity e f = Inr (g, e')" "good_entropy e" "distinct (draws e)"
  shows "f_entry_id g \<noteq> ''''" "f_revision g \<noteq> 0" "referenced g" "good_entropy e'" "distinct (draws e')"
    "set (draws e') \<subseteq> set (draws e)" "f_entry_id g \<notin> set (draws e') \<or> f_entry_id g = f_entry_id f"
    "f_entry_id f = '''' \<Longrightarrow> f_entry_id g \<in> set (draws e) - set (draws e')"
    "f_entry_id f \<noteq> '''' \<Longrightarrow> f_entry_id g = f_entry_id f \<and> e' = e"
    "f_path g = f_path f" "f_present g = f_present f" "f_folder g = f_folder f"
  using assignIdentity_simps [OF assms(1)] assms(2,3)
  by (auto simp: good_entropy_def split: if_splits)

lemma upgrade_row_ok:
  assumes up: "upgrade_row e seen f = Inr (g, ch, e')"
    and good: "good_entropy e" "distinct (draws e)" "set (draws e) \<inter> insert (f_entry_id f) (set seen) = {}"
  shows "row_ok g" "f_entry_id g \<notin> set seen" "f_path g = f_path f" "f_present g = f_present f"
    "f_folder g = f_folder f" "good_entropy e'" "distinct (draws e')" "set (draws e') \<subseteq> set (draws e)"
    "f_entry_id g \<notin> set (draws e')"
proof -
  from up obtain g1 c1 e1 where s1: "(if f_entry_id f = '''' \<or> f_revision f = 0
               then res_bind (assignIdentity e f) (\<lambda>(g, e'). Inr (g, True, e'))
               else Inr (f, False, e)) = Inr (g1, c1, e1)"
    and up1: "res_bind (if f_entry_id g1 \<in> set seen
               then res_bind (assignIdentity e1 (g1\<lparr>f_entry_id := ''''\<rparr>)) (\<lambda>(h, e'). Inr (h, True, e'))
               else Inr (g1, c1, e1))
       (\<lambda>(h, ch2, e2).
     res_bind (if f_reference h = None \<and> \<not> f_folder h \<and> f_snap h \<noteq> ''''
               then res_bind (assignReference h) (\<lambda>k. Inr (k, True))
               else Inr (h, ch2))
       (\<lambda>(k, ch3).
          case validateReference k of Some err \<Rightarrow> Inl err | None \<Rightarrow> Inr (k, ch3, e2))) = Inr (g, ch, e')"
    unfolding upgrade_row_def by (auto simp: res_bind_Inr_iff)
  from up1 obtain g2 c2 e2 where s2: "(if f_entry_id g1 \<in> set seen
               then res_bind (assignIdentity e1 (g1\<lparr>f_entry_id := ''''\<rparr>)) (\<lambda>(h, e'). Inr (h, True, e'))
               else Inr (g1, c1, e1)) = Inr (g2, c2, e2)"
    and up2: "res_bind (if f_reference g2 = None \<and> \<not> f_folder g2 \<and> f_snap g2 \<noteq> ''''
               then res_bind (assignReference g2) (\<lambda>k. Inr (k, True))
               else Inr (g2, c2))
       (\<lambda>(k, ch3).
          case validateReference k of Some err \<Rightarrow> Inl err | None \<Rightarrow> Inr (k, ch3, e2)) = Inr (g, ch, e')"
    by (auto simp: res_bind_Inr_iff)
  have g1: "f_entry_id g1 \<noteq> ''''" "f_revision g1 \<noteq> 0" "good_entropy e1" "distinct (draws e1)"
    "set (draws e1) \<subseteq> set (draws e)" "f_entry_id g1 \<notin> set (draws e1)"
    "f_path g1 = f_path f" "f_present g1 = f_present f" "f_folder g1 = f_folder f"
  proof -
    have "f_entry_id g1 \<noteq> '''' \<and> f_revision g1 \<noteq> 0 \<and> good_entropy e1 \<and> distinct (draws e1)
      \<and> set (draws e1) \<subseteq> set (draws e) \<and> f_entry_id g1 \<notin> set (draws e1)
      \<and> f_path g1 = f_path f \<and> f_present g1 = f_present f \<and> f_folder g1 = f_folder f"
    proof (cases "f_entry_id f = '''' \<or> f_revision f = 0")
      case True
      with s1 have a: "assignIdentity e f = Inr (g1, e1)" by (auto simp: res_bind_Inr_iff)
      note d = assignIdentity_draws [OF a good(1,2)]
      have "f_entry_id g1 \<notin> set (draws e1)" using d(8,9) good(3) by (cases "f_entry_id f = ''''") auto
      with d(1,2,4,5,6,10,11,12) show ?thesis by blast
    next
      case False
      with s1 have "g1 = f" "e1 = e" by simp_all
      with False good show ?thesis by simp
    qed
    then show "f_entry_id g1 \<noteq> ''''" "f_revision g1 \<noteq> 0" "good_entropy e1" "distinct (draws e1)"
      "set (draws e1) \<subseteq> set (draws e)" "f_entry_id g1 \<notin> set (draws e1)"
      "f_path g1 = f_path f" "f_present g1 = f_present f" "f_folder g1 = f_folder f" by blast+
  qed
  have g2: "f_entry_id g2 \<noteq> ''''" "f_revision g2 \<noteq> 0" "good_entropy e2" "distinct (draws e2)"
    "set (draws e2) \<subseteq> set (draws e)" "f_entry_id g2 \<notin> set (draws e2)" "f_entry_id g2 \<notin> set seen"
    "f_path g2 = f_path f" "f_present g2 = f_present f" "f_folder g2 = f_folder f"
  proof -
    have "f_entry_id g2 \<noteq> '''' \<and> f_revision g2 \<noteq> 0 \<and> good_entropy e2 \<and> distinct (draws e2)
      \<and> set (draws e2) \<subseteq> set (draws e) \<and> f_entry_id g2 \<notin> set (draws e2) \<and> f_entry_id g2 \<notin> set seen
      \<and> f_path g2 = f_path f \<and> f_present g2 = f_present f \<and> f_folder g2 = f_folder f"
    proof (cases "f_entry_id g1 \<in> set seen")
      case True
      with s2 have a: "assignIdentity e1 (g1\<lparr>f_entry_id := ''''\<rparr>) = Inr (g2, e2)" by (auto simp: res_bind_Inr_iff)
      note d = assignIdentity_draws [OF a g1(3,4)]
      have "f_entry_id g2 \<in> set (draws e1)" "f_entry_id g2 \<notin> set (draws e2)" using d(8) by auto
      with d(1,2,4,5,6,10,11,12) g1 good(3) show ?thesis by auto
    next
      case False
      with s2 have "g2 = g1" "e2 = e1" by simp_all
      with False g1 show ?thesis by simp
    qed
    then show "f_entry_id g2 \<noteq> ''''" "f_revision g2 \<noteq> 0" "good_entropy e2" "distinct (draws e2)"
      "set (draws e2) \<subseteq> set (draws e)" "f_entry_id g2 \<notin> set (draws e2)" "f_entry_id g2 \<notin> set seen"
      "f_path g2 = f_path f" "f_present g2 = f_present f" "f_folder g2 = f_folder f" by blast+
  qed
  from up2 obtain c3 where s3: "(if f_reference g2 = None \<and> \<not> f_folder g2 \<and> f_snap g2 \<noteq> ''''
               then res_bind (assignReference g2) (\<lambda>k. Inr (k, True))
               else Inr (g2, c2)) = Inr (g, c3)"
    and v: "validateReference g = None" and e': "e' = e2"
    by (auto simp: res_bind_Inr_iff split: option.splits)
  from s3 obtain ref where g: "g = g2\<lparr>f_reference := ref\<rparr>" and r: "referenced g"
  proof (cases "f_reference g2 = None \<and> \<not> f_folder g2 \<and> f_snap g2 \<noteq> ''''")
    case True
    with s3 have "assignReference g2 = Inr g" by (auto simp: res_bind_Inr_iff)
    with assignReference_Inr that show ?thesis by blast
  next
    case False
    with s3 have eq: "g = g2" by (simp only: if_False) simp
    moreover have "g2 = g2\<lparr>f_reference := f_reference g2\<rparr>" by simp
    moreover have "referenced g" using False v unfolding eq referenced_def by auto
    ultimately show ?thesis using that by metis
  qed
  show "row_ok g" "f_entry_id g \<notin> set seen" "f_path g = f_path f" "f_present g = f_present f"
    "f_folder g = f_folder f" "good_entropy e'" "distinct (draws e')" "set (draws e') \<subseteq> set (draws e)"
    "f_entry_id g \<notin> set (draws e')"
    using g2 r by (simp_all add: g e' row_ok_def)
qed

lemma upgrade_rows_ok:
  assumes "upgrade_rows e seen fs = Inr (gs, ch, e')"
    and "good_entropy e" "distinct (draws e)" "set (draws e) \<inter> (f_entry_id ` set fs \<union> set seen) = {}"
  shows "(\<forall>g \<in> set gs. row_ok g) \<and> distinct (map f_entry_id gs) \<and> f_entry_id ` set gs \<inter> set seen = {}
    \<and> list_all2 (\<lambda>f g. f_path g = f_path f \<and> f_present g = f_present f \<and> f_folder g = f_folder f) fs gs"
  using assms
proof (induction fs arbitrary: e seen gs ch e')
  case (Cons f fs)
  from Cons.prems(1) obtain g c1 e1 gs' c2 e2 where row: "upgrade_row e seen f = Inr (g, c1, e1)"
    and rows: "upgrade_rows e1 (f_entry_id g # seen) fs = Inr (gs', c2, e2)" and gs: "gs = g # gs'"
    by (cases "upgrade_row e seen f"; simp split: prod.splits add: res_bind_Inr_iff) blast
  note r = upgrade_row_ok [OF row Cons.prems(2,3)]
  have d: "set (draws e) \<inter> insert (f_entry_id f) (set seen) = {}" using Cons.prems(4) by auto
  have "set (draws e1) \<inter> (f_entry_id ` set fs \<union> set (f_entry_id g # seen)) = {}"
    using r(8,9) [OF d] Cons.prems(4) by auto
  from Cons.IH [OF rows r(6,7) [OF d] this] r(1-5) [OF d] show ?case by (auto simp: gs)
qed simp


end
