(* ===== verification/Metadata.thy ===== *)
theory Metadata
  imports Lifecycle
begin

text \<open>
  Photo metadata: \<^verbatim>\<open>internal/catalog/metadata.go\<close> (one row, bound to the revision its caller saw),
  \<^verbatim>\<open>metadata_batch.go\<close> (a page of resolver results published by one save) and
  \<^verbatim>\<open>photo_processing.go\<close> (the outbox flag). A capture time the owner corrected is never replaced by an
  automatic one.
\<close>

section \<open>One row\<close>

record capture_metadata =
  cm_time :: "gotime option"
  cm_offset :: "int option"
  cm_source :: string
  cm_user_corrected :: bool

record media_metadata =
  mm_camera :: string
  mm_width :: int
  mm_height :: int
  mm_duration :: int
  mm_orientation :: int
  mm_rotation :: int
  mm_favorite :: bool
  mm_archived :: bool
  mm_caption :: string

definition timeEqual :: "gotime option \<Rightarrow> gotime option \<Rightarrow> bool" where
  "timeEqual l r = (case (l, r) of (None, None) \<Rightarrow> True | (Some s, Some t) \<Rightarrow> time_eq s t | _ \<Rightarrow> False)"

definition cloneTime :: "gotime option \<Rightarrow> gotime option" where
  "cloneTime t = map_option to_utc t"

definition sameCapture :: "file_row \<Rightarrow> capture_metadata \<Rightarrow> bool" where
  "sameCapture f m \<longleftrightarrow> timeEqual (f_capture_time f) (cm_time m) \<and> f_capture_offset f = cm_offset m
     \<and> f_capture_source f = cm_source m \<and> f_capture_user_corrected f = cm_user_corrected m"

definition validCaptureMetadata :: "capture_metadata \<Rightarrow> bool" where
  "validCaptureMetadata m \<longleftrightarrow>
     (case cm_time m of
        Some t \<Rightarrow> \<not> is_zero t \<and> 1900 \<le> time_year t \<and> time_year t \<le> 2100
      | None \<Rightarrow> True)
     \<and> (case cm_offset m of Some n \<Rightarrow> - 24 * 60 \<le> n \<and> n \<le> 24 * 60 | None \<Rightarrow> True)"

definition set_capture :: "capture_metadata \<Rightarrow> file_row \<Rightarrow> file_row" where
  "set_capture m f = f\<lparr>f_capture_time := cloneTime (cm_time m), f_capture_offset := cm_offset m,
     f_capture_source := cm_source m, f_capture_user_corrected := cm_user_corrected m\<rparr>"

text \<open>The three conditional assignments of \<open>updatePhotoMetadataLocked\<close>, each with its \<open>changed\<close>.\<close>

definition apply_capture :: "capture_metadata option \<Rightarrow> file_row \<Rightarrow> file_row \<times> bool" where
  "apply_capture capture f =
     (case capture of
        Some m \<Rightarrow> if \<not> (f_capture_user_corrected f \<and> \<not> cm_user_corrected m) \<and> \<not> sameCapture f m
                  then (set_capture m f, True) else (f, False)
      | None \<Rightarrow> (f, False))"

definition apply_derived :: "media_metadata option \<Rightarrow> file_row \<Rightarrow> file_row \<times> bool" where
  "apply_derived derived f =
     (case derived of
        Some d \<Rightarrow>
          if f_width f \<noteq> mm_width d \<or> f_height f \<noteq> mm_height d \<or> f_duration f \<noteq> mm_duration d
             \<or> f_orientation f \<noteq> mm_orientation d \<or> f_camera f \<noteq> mm_camera d
          then (f\<lparr>f_width := mm_width d, f_height := mm_height d, f_duration := mm_duration d,
                   f_orientation := mm_orientation d, f_camera := mm_camera d\<rparr>, True)
          else (f, False)
      | None \<Rightarrow> (f, False))"

definition apply_user :: "media_metadata option \<Rightarrow> file_row \<Rightarrow> file_row \<times> bool" where
  "apply_user user f =
     (case user of
        Some u \<Rightarrow>
          if f_favorite f \<noteq> mm_favorite u \<or> f_archived f \<noteq> mm_archived u
             \<or> f_caption f \<noteq> mm_caption u \<or> f_rotation f \<noteq> mm_rotation u
          then (f\<lparr>f_favorite := mm_favorite u, f_archived := mm_archived u,
                   f_caption := mm_caption u, f_rotation := mm_rotation u\<rparr>, True)
          else (f, False)
      | None \<Rightarrow> (f, False))"

definition metadata_row ::
  "capture_metadata option \<Rightarrow> media_metadata option \<Rightarrow> media_metadata option \<Rightarrow> file_row
   \<Rightarrow> file_row \<times> bool" where
  "metadata_row capture derived user f =
     (let (f1, ch1) = apply_capture capture f;
          (f2, ch2) = apply_derived derived f1;
          (f3, ch3) = apply_user user f2
      in (f3, ch1 \<or> ch2 \<or> ch3))"

definition updatePhotoMetadataLocked ::
  "env \<Rightarrow> string \<Rightarrow> u64 \<Rightarrow> capture_metadata option \<Rightarrow> media_metadata option \<Rightarrow> media_metadata option
   \<Rightarrow> catalog \<Rightarrow> (catalog_error + file_row) \<times> catalog" where
  "updatePhotoMetadataLocked e entry revn capture derived user c =
     (if (case user of Some u \<Rightarrow> mm_rotation u < 0 \<or> 270 < mm_rotation u \<or> mm_rotation u mod 90 \<noteq> 0
                     | None \<Rightarrow> False)
      then (Inl ErrInvalidCaptureMetadata, c)
      else if (case capture of Some m \<Rightarrow> \<not> validCaptureMetadata m | None \<Rightarrow> False)
      then (Inl ErrInvalidCaptureMetadata, c)
      else case find_index (\<lambda>f. f_entry_id f = entry \<and> f_revision f = revn \<and> f_present f \<and> \<not> f_folder f)
                  (c_files c) of
        None \<Rightarrow> (Inl ErrCaptureRevisionMismatch, c)
      | Some i \<Rightarrow>
          (let (f, changed) = metadata_row capture derived user (c_files c ! i)
           in if \<not> changed then (Inr f, c)
              else if f_revision f = max_u64 then (Inl ErrRevisionOverflow, c)
              else
                (let g = f\<lparr>f_revision := f_revision f + 1\<rparr>
                 in case commit_files e ((c_files c)[i := g]) c of
                      (Inl err, c') \<Rightarrow> (Inl err, c')
                    | (Inr u, c') \<Rightarrow> (Inr g, c'))))"

definition UpdateCapture ::
  "env \<Rightarrow> string \<Rightarrow> u64 \<Rightarrow> capture_metadata \<Rightarrow> catalog \<Rightarrow> (catalog_error + file_row) \<times> catalog" where
  "UpdateCapture e entry revn m c = updatePhotoMetadataLocked e entry revn (Some m) None None c"

definition UpdateMedia ::
  "env \<Rightarrow> string \<Rightarrow> u64 \<Rightarrow> media_metadata \<Rightarrow> catalog \<Rightarrow> (catalog_error + file_row) \<times> catalog" where
  "UpdateMedia e entry revn m c = updatePhotoMetadataLocked e entry revn None (Some m) (Some m) c"

definition UpdatePhotoMetadata ::
  "env \<Rightarrow> string \<Rightarrow> u64 \<Rightarrow> capture_metadata option \<Rightarrow> media_metadata option \<Rightarrow> catalog
   \<Rightarrow> (catalog_error + file_row) \<times> catalog" where
  "UpdatePhotoMetadata e entry revn capture media c =
     updatePhotoMetadataLocked e entry revn capture media None c"

definition UpdatePhotoUserMetadata ::
  "env \<Rightarrow> string \<Rightarrow> u64 \<Rightarrow> capture_metadata option \<Rightarrow> media_metadata \<Rightarrow> catalog
   \<Rightarrow> (catalog_error + file_row) \<times> catalog" where
  "UpdatePhotoUserMetadata e entry revn capture media c =
     updatePhotoMetadataLocked e entry revn capture None (Some media) c"

section \<open>A batch of rows\<close>

record metadata_mutation =
  pm_id :: string
  pm_revision :: u64
  pm_path :: string
  pm_hash :: string
  pm_capture :: "capture_metadata option"
  pm_media :: "media_metadata option"

record metadata_batch =
  mb_files :: "file_row list"
  mb_changed :: "file_row list"
  mb_conflicts :: "string list"

definition empty_batch :: metadata_batch where
  "empty_batch = \<lparr>mb_files = [], mb_changed = [], mb_conflicts = []\<rparr>"

text \<open>\<open>positions\<close>: the last row of each identity.\<close>

definition positions :: "file_row list \<Rightarrow> string \<Rightarrow> nat option" where
  "positions fs = map_of (rev (zip (map f_entry_id fs) [0..<length fs]))"

definition keep_positive :: "int \<Rightarrow> int \<Rightarrow> int" where
  "keep_positive new old = (if 0 < new then new else old)"

definition batch_media :: "media_metadata \<Rightarrow> file_row \<Rightarrow> file_row" where
  "batch_media m f = f\<lparr>f_width := keep_positive (mm_width m) (f_width f),
     f_height := keep_positive (mm_height m) (f_height f),
     f_duration := keep_positive (mm_duration m) (f_duration f),
     f_orientation := keep_positive (mm_orientation m) (f_orientation f),
     f_camera := (if mm_camera m \<noteq> '''' then mm_camera m else f_camera f)\<rparr>"

definition batch_row :: "metadata_mutation \<Rightarrow> file_row \<Rightarrow> file_row" where
  "batch_row u f =
     (let f1 = (case pm_capture u of
                  Some m \<Rightarrow> if \<not> f_capture_user_corrected f \<and> \<not> sameCapture f m then set_capture m f else f
                | None \<Rightarrow> f)
      in case pm_media u of Some m \<Rightarrow> batch_media m f1 | None \<Rightarrow> f1)"

text \<open>One iteration over the updates: candidate rows, identities seen so far and the result.\<close>

definition batch_step ::
  "(string \<Rightarrow> nat option) \<Rightarrow> metadata_mutation \<Rightarrow> file_row list \<times> string list \<times> metadata_batch
   \<Rightarrow> catalog_error + file_row list \<times> string list \<times> metadata_batch" where
  "batch_step pos u s =
     (case s of (next, seen, b) \<Rightarrow>
       let conflict = b\<lparr>mb_conflicts := mb_conflicts b @ [pm_id u]\<rparr>
       in case pos (pm_id u) of
            None \<Rightarrow> Inr (next, seen, conflict)
          | Some i \<Rightarrow>
              if pm_id u \<in> set seen then Inr (next, seen, conflict)
              else
                (let f = next ! i; seen' = pm_id u # seen
                 in if \<not> f_present f \<or> f_folder f \<or> f_revision f \<noteq> pm_revision u
                       \<or> f_path f \<noteq> pm_path u \<or> f_hash f \<noteq> pm_hash u
                    then Inr (next, seen', conflict)
                    else if (case pm_capture u of Some m \<Rightarrow> \<not> validCaptureMetadata m | None \<Rightarrow> False)
                    then Inl ErrInvalidCaptureMetadata
                    else
                      (let g = batch_row u f
                       in if sameCaptureFile f g
                          then Inr (next, seen', b\<lparr>mb_files := mb_files b @ [g]\<rparr>)
                          else if f_revision g = max_u64 then Inl ErrRevisionOverflow
                          else
                            (let h = g\<lparr>f_revision := f_revision g + 1\<rparr>
                             in Inr (next[i := h], seen',
                                     b\<lparr>mb_changed := mb_changed b @ [h], mb_files := mb_files b @ [h]\<rparr>)))))"

fun batch_loop ::
  "(string \<Rightarrow> nat option) \<Rightarrow> metadata_mutation list \<Rightarrow> file_row list \<times> string list \<times> metadata_batch
   \<Rightarrow> catalog_error + file_row list \<times> string list \<times> metadata_batch" where
  "batch_loop pos [] s = Inr s"
| "batch_loop pos (u # us) s = res_bind (batch_step pos u s) (batch_loop pos us)"

definition UpdatePhotoMetadataBatch ::
  "env \<Rightarrow> metadata_mutation list \<Rightarrow> catalog \<Rightarrow> (catalog_error + metadata_batch) \<times> catalog" where
  "UpdatePhotoMetadataBatch e updates c =
     (if 100 < length updates then (Inl (ErrOther ''metadata batch exceeds 100 assets''), c)
      else case batch_loop (positions (c_files c)) updates (c_files c, [], empty_batch) of
        Inl err \<Rightarrow> (Inl err, c)
      | Inr (next, seen, b) \<Rightarrow>
          if mb_changed b = [] then (Inr b, c)
          else (case commit_files e next c of
                  (Inl err, c') \<Rightarrow> (Inl err, c')
                | (Inr u, c') \<Rightarrow> (Inr b, c')))"

section \<open>The processing outbox\<close>

definition ack_row :: "(string \<times> u64) list \<Rightarrow> file_row \<Rightarrow> file_row" where
  "ack_row versions f =
     (if f_processing_pending f \<and> f_present f
         \<and> (case map_of versions (f_entry_id f) of Some v \<Rightarrow> v | None \<Rightarrow> 0) = f_revision f
      then f\<lparr>f_processing_pending := False\<rparr> else f)"

definition AcknowledgePhotoProcessing ::
  "env \<Rightarrow> (string \<times> u64) list \<Rightarrow> catalog \<Rightarrow> (catalog_error + unit) \<times> catalog" where
  "AcknowledgePhotoProcessing e versions c =
     (if \<forall>f \<in> set (c_files c). f_processing_pending (ack_row versions f) = f_processing_pending f
      then (Inr (), c)
      else commit_files e (map (ack_row versions) (c_files c)) c)"

section \<open>What an update may touch\<close>

definition same_capture_fields :: "file_row \<Rightarrow> file_row \<Rightarrow> bool" where
  "same_capture_fields f g \<longleftrightarrow> f_capture_time g = f_capture_time f \<and> f_capture_offset g = f_capture_offset f
     \<and> f_capture_source g = f_capture_source f \<and> f_capture_user_corrected g = f_capture_user_corrected f"

text \<open>What no metadata operation touches: the place, the identity and the contents of the row.\<close>

definition same_entry :: "file_row \<Rightarrow> file_row \<Rightarrow> bool" where
  "same_entry f g \<longleftrightarrow> f_entry_id g = f_entry_id f \<and> f_path g = f_path f \<and> f_folder g = f_folder f
     \<and> f_present g = f_present f \<and> f_hash g = f_hash f \<and> f_size g = f_size f
     \<and> f_reference g = f_reference f \<and> f_snap g = f_snap f \<and> f_object g = f_object f
     \<and> f_deleted_at g = f_deleted_at f"

lemma same_entry_refl [simp]: "same_entry f f"
  by (simp add: same_entry_def)

lemma same_entry_trans: "same_entry f g \<Longrightarrow> same_entry g h \<Longrightarrow> same_entry f h"
  by (simp add: same_entry_def)

lemma same_capture_fields_trans:
  "same_capture_fields f g \<Longrightarrow> same_capture_fields g h \<Longrightarrow> same_capture_fields f h"
  by (simp add: same_capture_fields_def)

lemma apply_same_entry:
  "same_entry f (fst (apply_capture capture f)) \<and> f_revision (fst (apply_capture capture f)) = f_revision f"
  "same_entry f (fst (apply_derived derived f)) \<and> f_revision (fst (apply_derived derived f)) = f_revision f"
  "same_entry f (fst (apply_user user f)) \<and> f_revision (fst (apply_user user f)) = f_revision f"
  by (simp_all add: apply_capture_def apply_derived_def apply_user_def set_capture_def same_entry_def
      split: option.split)

lemma apply_owner:
  "f_capture_user_corrected f \<Longrightarrow> (case capture of Some m \<Rightarrow> \<not> cm_user_corrected m | None \<Rightarrow> True)
    \<Longrightarrow> same_capture_fields f (fst (apply_capture capture f))"
  "same_capture_fields f (fst (apply_derived derived f))"
  "same_capture_fields f (fst (apply_user user f))"
  by (simp_all add: apply_capture_def apply_derived_def apply_user_def same_capture_fields_def
      split: option.splits)

lemma metadata_row_fst:
  "fst (metadata_row capture derived user f)
    = fst (apply_user user (fst (apply_derived derived (fst (apply_capture capture f)))))"
  by (simp add: metadata_row_def split_def Let_def)

lemma metadata_row_same_entry:
  assumes "metadata_row capture derived user f = (g, ch)"
  shows "same_entry f g" "f_revision g = f_revision f"
proof -
  have g: "g = fst (metadata_row capture derived user f)" using assms by simp
  show "same_entry f g" unfolding g metadata_row_fst
    using apply_same_entry same_entry_trans by blast
  show "f_revision g = f_revision f" unfolding g metadata_row_fst
    by (simp add: apply_same_entry)
qed

lemma metadata_row_owner:
  assumes "metadata_row capture derived user f = (g, ch)" "f_capture_user_corrected f"
    and "case capture of Some m \<Rightarrow> \<not> cm_user_corrected m | None \<Rightarrow> True"
  shows "same_capture_fields f g"
proof -
  have g: "g = fst (metadata_row capture derived user f)" using assms(1) by simp
  show ?thesis unfolding g metadata_row_fst
    using apply_owner(1) [OF assms(2,3)] apply_owner(2,3) same_capture_fields_trans by blast
qed
lemma batch_row_same_entry: "same_entry f (batch_row u f) \<and> f_revision (batch_row u f) = f_revision f"
  unfolding batch_row_def same_entry_def Let_def set_capture_def batch_media_def
  by (cases "pm_capture u"; cases "pm_media u") auto

lemma batch_row_owner: "f_capture_user_corrected f \<Longrightarrow> same_capture_fields f (batch_row u f)"
  unfolding batch_row_def same_capture_fields_def Let_def batch_media_def
  by (cases "pm_capture u"; cases "pm_media u") auto

lemma positions_Some:
  "positions fs i = Some k \<Longrightarrow> k < length fs \<and> f_entry_id (fs ! k) = i"
  unfolding positions_def by (auto dest!: map_of_SomeD simp: in_set_zip)

text \<open>The loop's candidate against the rows it started from.\<close>

definition batch_inv :: "file_row list \<Rightarrow> file_row list \<Rightarrow> string list \<Rightarrow> bool" where
  "batch_inv fs next seen \<longleftrightarrow> list_all2 (\<lambda>f g.
      same_entry f g \<and> (f_capture_user_corrected f \<longrightarrow> same_capture_fields f g)
      \<and> (g = f \<or> f_entry_id f \<in> set seen \<and> f_revision f \<noteq> max_u64 \<and> f_revision g = f_revision f + 1)) fs next"

lemma batch_inv_start: "batch_inv fs fs []"
  by (simp add: batch_inv_def list_all2_refl same_capture_fields_def)

lemma batch_inv_seen: "batch_inv fs next seen \<Longrightarrow> set seen \<subseteq> set seen' \<Longrightarrow> batch_inv fs next seen'"
  unfolding batch_inv_def by (erule list_all2_mono) auto

lemma batch_step_inv:
  assumes "batch_step (positions fs) u (next, seen, b) = Inr (next', seen', b')" "batch_inv fs next seen"
  shows "batch_inv fs next' seen' \<and> set seen' \<subseteq> insert (pm_id u) (set seen)
    \<and> length (mb_files b') + length (mb_conflicts b') = Suc (length (mb_files b) + length (mb_conflicts b))"
proof (cases "next' = next")
  case True
  with assms show ?thesis
    unfolding batch_step_def Let_def
    by (auto split: option.splits if_splits intro: batch_inv_seen)
next
  case False
  with assms(1) obtain i where i: "positions fs (pm_id u) = Some i" "pm_id u \<notin> set seen"
    "seen' = pm_id u # seen" "f_revision (batch_row u (next ! i)) \<noteq> max_u64"
    "next' = next[i := (batch_row u (next ! i))\<lparr>f_revision := f_revision (batch_row u (next ! i)) + 1\<rparr>]"
    and b': "length (mb_files b') = Suc (length (mb_files b))" "mb_conflicts b' = mb_conflicts b"
    unfolding batch_step_def Let_def
    by (auto split: option.splits if_splits)
  from positions_Some [OF i(1)] have k: "i < length fs" "f_entry_id (fs ! i) = pm_id u" by auto
  have len: "length next = length fs" using assms(2) by (simp add: batch_inv_def list_all2_lengthD)
  have "next ! i = fs ! i"
    using assms(2) k len i(2) by (auto simp: batch_inv_def list_all2_conv_all_nth)
  let ?g = "batch_row u (fs ! i)"
  have "same_entry (fs ! i) (?g\<lparr>f_revision := f_revision ?g + 1\<rparr>)"
    "f_capture_user_corrected (fs ! i) \<longrightarrow> same_capture_fields (fs ! i) (?g\<lparr>f_revision := f_revision ?g + 1\<rparr>)"
    using batch_row_same_entry [of "fs ! i" u] batch_row_owner [of "fs ! i" u]
    by (simp_all add: same_entry_def same_capture_fields_def)
  moreover have "batch_inv fs next seen'"
    by (rule batch_inv_seen [OF assms(2)]) (auto simp: i(3))
  ultimately have "batch_inv fs next' seen'"
    using k len i(4,5) \<open>next ! i = fs ! i\<close> batch_row_same_entry [of "fs ! i" u]
    unfolding batch_inv_def list_all2_conv_all_nth
    by (auto simp: nth_list_update i(3))
  with b' i(3) show ?thesis by auto
qed

lemma batch_loop_inv:
  assumes "batch_loop (positions fs) us (next, seen, b) = Inr (next', seen', b')" "batch_inv fs next seen"
  shows "batch_inv fs next' seen' \<and> set seen' \<subseteq> pm_id ` set us \<union> set seen
    \<and> length (mb_files b') + length (mb_conflicts b') = length us + length (mb_files b) + length (mb_conflicts b)"
  using assms
proof (induction us arbitrary: "next" seen b)
  case Nil
  then show ?case by auto
next
  case (Cons u us)
  from Cons.prems(1) obtain n1 s1 b1 where
    1: "batch_step (positions fs) u (next, seen, b) = Inr (n1, s1, b1)"
    "batch_loop (positions fs) us (n1, s1, b1) = Inr (next', seen', b')"
    by (auto simp: res_bind_Inr_iff)
  from batch_step_inv [OF 1(1) Cons.prems(2)] Cons.IH [OF 1(2)] show ?case by auto
qed

text \<open>
  A metadata update is bound to the live file and the revision its caller saw: it keeps the entry's
  identity, place and contents, moves the revision forward by exactly one when something changed,
  and an automatic capture time never replaces one the owner corrected.
\<close>

lemma metadata_update_bound:
  assumes "updatePhotoMetadataLocked e entry revn capture derived user c = (Inr g, c')"
    and auto: "case capture of Some m \<Rightarrow> \<not> cm_user_corrected m | None \<Rightarrow> True"
  shows "\<exists>i < length (c_files c). let f = c_files c ! i in
      f_entry_id f = entry \<and> f_revision f = revn \<and> f_present f \<and> \<not> f_folder f
      \<and> same_entry f g \<and> (f_capture_user_corrected f \<longrightarrow> same_capture_fields f g)
      \<and> (c' = c \<and> f_revision g = revn
         \<or> revn \<noteq> max_u64 \<and> f_revision g = revn + 1 \<and> c_files c' = (c_files c)[i := g])"
proof -
  from assms(1) obtain i where
    i: "find_index (\<lambda>f. f_entry_id f = entry \<and> f_revision f = revn \<and> f_present f \<and> \<not> f_folder f)
          (c_files c) = Some i"
    by (auto simp: updatePhotoMetadataLocked_def split: if_splits option.splits)
  let ?f = "c_files c ! i"
  obtain f' ch where row: "metadata_row capture derived user ?f = (f', ch)" by fastforce
  note m = metadata_row_same_entry [OF row]
  have own: "f_capture_user_corrected ?f \<longrightarrow> same_capture_fields ?f f'"
    using metadata_row_owner [OF row _ auto] by blast
  from assms(1) i row have "(if \<not> ch then (Inr f', c)
      else if f_revision f' = max_u64 then (Inl ErrRevisionOverflow, c)
      else (case commit_files e ((c_files c)[i := f'\<lparr>f_revision := f_revision f' + 1\<rparr>]) c of
              (Inl err, c') \<Rightarrow> (Inl err, c')
            | (Inr u, c') \<Rightarrow> (Inr (f'\<lparr>f_revision := f_revision f' + 1\<rparr>), c'))) = (Inr g, c')"
    by (simp add: updatePhotoMetadataLocked_def Let_def split: if_splits)
  then have "(\<not> ch \<and> g = f' \<and> c' = c) \<or> (f_revision f' \<noteq> max_u64
      \<and> commit_files e ((c_files c)[i := f'\<lparr>f_revision := f_revision f' + 1\<rparr>]) c = (Inr (), c')
      \<and> g = f'\<lparr>f_revision := f_revision f' + 1\<rparr>)"
    unfolding guarded_commit_Inr by blast
  then consider (same) "g = f'" "c' = c"
    | (new) "f_revision f' \<noteq> max_u64" "g = f'\<lparr>f_revision := f_revision f' + 1\<rparr>"
        "commit_files e ((c_files c)[i := f'\<lparr>f_revision := f_revision f' + 1\<rparr>]) c = (Inr (), c')"
    by blast
  then have g: "same_entry ?f g \<and> (f_capture_user_corrected ?f \<longrightarrow> same_capture_fields ?f g)
      \<and> (c' = c \<and> f_revision g = f_revision ?f
         \<or> f_revision ?f \<noteq> max_u64 \<and> f_revision g = f_revision ?f + 1 \<and> c_files c' = (c_files c)[i := g])"
  proof cases
    case same
    with m own show ?thesis by simp
  next
    case new
    with m own commit_files_ok(1) [OF new(3)] show ?thesis
      by (simp add: same_entry_def same_capture_fields_def)
  qed
  show ?thesis
    using find_index_Some [OF i] g by (auto simp: Let_def intro!: exI [of _ i])
qed

text \<open>
  A metadata batch handles every update exactly once, as a result row or as a conflict; rows it does
  not name are untouched, the others move by one revision at most, and owner corrected capture data
  survives the whole batch.
\<close>

lemma metadata_batch_rows:
  assumes "UpdatePhotoMetadataBatch e us c = (Inr b, c')"
  shows "length us \<le> 100 \<and> length (mb_files b) + length (mb_conflicts b) = length us
    \<and> list_all2 (\<lambda>f g. same_entry f g \<and> (f_capture_user_corrected f \<longrightarrow> same_capture_fields f g)
        \<and> (g = f \<or> f_entry_id f \<in> pm_id ` set us \<and> f_revision f \<noteq> max_u64
                   \<and> f_revision g = f_revision f + 1)) (c_files c) (c_files c')"
proof -
  let ?R = "\<lambda>f g. same_entry f g \<and> (f_capture_user_corrected f \<longrightarrow> same_capture_fields f g)
        \<and> (g = f \<or> f_entry_id f \<in> pm_id ` set us \<and> f_revision f \<noteq> max_u64
                   \<and> f_revision g = f_revision f + 1)"
  from assms have len: "length us \<le> 100"
    by (auto simp: UpdatePhotoMetadataBatch_def split: if_splits)
  from assms len obtain nxt seen b1 where
    l: "batch_loop (positions (c_files c)) us (c_files c, [], empty_batch) = Inr (nxt, seen, b1)"
    by (auto simp: UpdatePhotoMetadataBatch_def split: sum.splits)
  from assms len l have b: "b1 = b" "c' = c \<or> (\<exists>u. commit_files e nxt c = (Inr u, c'))"
    by (auto simp: UpdatePhotoMetadataBatch_def split: if_splits prod.splits sum.splits)
  note inv = batch_loop_inv [OF l batch_inv_start]
  have same: "list_all2 ?R (c_files c) (c_files c)"
    by (simp add: list_all2_refl same_capture_fields_def)
  have "list_all2 ?R (c_files c) nxt"
    using inv unfolding batch_inv_def by (auto elim!: list_all2_mono)
  moreover have "c_files c' = c_files c \<or> c_files c' = nxt"
    using b(2) commit_files_ok(1) by auto
  ultimately have "list_all2 ?R (c_files c) (c_files c')"
    using same by (elim disjE) simp_all
  moreover have "length (mb_files b) + length (mb_conflicts b) = length us"
    using inv b(1) by (simp add: empty_batch_def)
  ultimately show ?thesis using len by blast
qed

end
