(* ===== verification/Paging.thy ===== *)
theory Paging
  imports Prelude
begin

text \<open>
  The contract of a keyset cursor: rows in strictly increasing key order, a page is the next rows
  above the cursor, and a reader that moves the cursor to the last key of each page until there is
  no more receives every row above its start exactly once, in order.
\<close>

text \<open>\<open>max(1, min(limit, maximum))\<close> with the service's maximum of 200 rows.\<close>

definition page_size :: "int \<Rightarrow> nat" where
  "page_size limit = nat (max 1 (min limit 200))"

lemma page_size_pos [simp]: "0 < page_size limit"
  by (simp add: page_size_def)

lemma page_size_le: "page_size limit \<le> 200"
  by (simp add: page_size_def)

fun read_pages :: "nat \<Rightarrow> ('k \<Rightarrow> 'a list \<times> bool) \<Rightarrow> ('a \<Rightarrow> 'k) \<Rightarrow> 'k \<Rightarrow> 'a list" where
  "read_pages 0 page key after = []"
| "read_pages (Suc fuel) page key after =
     (case page after of (rows, has_more) \<Rightarrow>
        if has_more then rows @ read_pages fuel page key (key (last rows)) else rows)"

locale keyset_cursor =
  fixes rows :: "'c \<Rightarrow> 'a list"
    and key :: "'a \<Rightarrow> 'k :: linorder"
    and page :: "'c \<Rightarrow> int \<Rightarrow> 'k \<Rightarrow> 'a list \<times> bool"
    and ok :: "'c \<Rightarrow> bool"
  assumes rows_sorted: "ok c \<Longrightarrow> sorted_wrt (\<lambda>x y. key x < key y) (rows c)"
    and page_rows: "ok c \<Longrightarrow> page c limit after =
      (take (page_size limit) (filter (\<lambda>x. after < key x) (rows c)),
       page_size limit < length (filter (\<lambda>x. after < key x) (rows c)))"
begin

lemma page_bounded: "ok c \<Longrightarrow> length (fst (page c limit after)) \<le> 200"
  using page_size_le [of limit] by (simp add: page_rows)

text \<open>One more read than there are rows above the cursor is always enough.\<close>

lemma read_all:
  assumes "ok c" "length (filter (\<lambda>x. after < key x) (rows c)) < fuel"
  shows "read_pages fuel (page c limit) key after = filter (\<lambda>x. after < key x) (rows c)"
  using assms(2)
proof (induction fuel arbitrary: after)
  case 0
  then show ?case by simp
next
  case (Suc fuel)
  let ?above = "\<lambda>a. filter (\<lambda>x. a < key x) (rows c)" and ?n = "page_size limit"
  note p = page_rows [OF assms(1), of limit after]
  show ?case
  proof (cases "?n < length (?above after)")
    case False
    with p show ?thesis by simp
  next
    case True
    let ?out = "take ?n (?above after)"
    have ne: "?out \<noteq> []" using True page_size_pos [of limit] by (auto simp del: page_size_pos)
    have split: "?above after = ?out @ ?above (key (last ?out))"
      by (rule filter_above_last [OF rows_sorted [OF assms(1)] refl ne])
    then have "length (?above after) = length ?out + length (?above (key (last ?out)))"
      by (metis length_append)
    moreover have "0 < length ?out" using ne by (simp only: length_greater_0_conv not_False_eq_True)
    ultimately have "length (?above (key (last ?out))) < fuel" using Suc.prems by linarith
    from Suc.IH [OF this] p True split show ?thesis by simp
  qed
qed

end

section \<open>Keeping the smallest keys seen so far\<close>

text \<open>
  A page that is selected while the rows stream by: the sorted list of the \<open>n\<close> smallest rows so
  far. Whatever the order of the stream, the result is the first \<open>n\<close> rows of the sorted whole.
\<close>

definition smallest :: "('a \<Rightarrow> 'k :: linorder) \<Rightarrow> nat \<Rightarrow> 'a list \<Rightarrow> 'a list" where
  "smallest key n xs = take n (sort_key key xs)"

lemma strictly_sorted_unique:
  fixes key :: "'a \<Rightarrow> 'k :: linorder"
  assumes "sorted_wrt (\<lambda>x y. key x < key y) xs" "sorted_wrt (\<lambda>x y. key x < key y) ys" "set xs = set ys"
  shows "xs = ys"
proof -
  have s: "sorted_wrt (<) (map key xs)" "sorted_wrt (<) (map key ys)"
    using assms(1,2) by (simp_all add: sorted_wrt_map)
  with assms(3) have "map key xs = map key ys"
    by (intro strict_sorted_equal) auto
  moreover have "inj_on key (set xs \<union> set ys)"
  proof -
    have "distinct (map key xs)" using s(1) by (simp add: strict_sorted_iff)
    then show ?thesis by (simp add: distinct_map assms(3))
  qed
  ultimately show ?thesis by (simp add: inj_on_map_eq_map)
qed

lemma sort_key_strict:
  "distinct (map key xs) \<Longrightarrow> sorted_wrt (\<lambda>x y. key x < (key y :: 'k :: linorder)) (sort_key key xs)"
proof -
  assume d: "distinct (map key xs)"
  have "distinct (map key (sort_key key xs))"
    using d by (simp add: distinct_map)
  moreover have "sorted (map key (sort_key key xs))" by simp
  ultimately have "sorted_wrt (<) (map key (sort_key key xs))" by (simp only: strict_sorted_iff)
  then show ?thesis by (simp only: sorted_wrt_map)
qed

lemma sort_key_same_set:
  assumes "distinct (map key xs)" "distinct (map key ys)" "set xs = set ys"
  shows "sort_key key xs = sort_key (key :: 'a \<Rightarrow> 'k :: linorder) ys"
  by (rule strictly_sorted_unique [OF sort_key_strict [OF assms(1)] sort_key_strict [OF assms(2)]])
     (simp add: assms(3))

lemma take_insort_take:
  "take n (insort_key key x (take n ys)) = take n (insort_key key x ys)"
proof (induction ys arbitrary: n)
  case Nil
  then show ?case by simp
next
  case (Cons y ys)
  show ?case
  proof (cases n)
    case 0
    then show ?thesis by simp
  next
    case (Suc m)
    then show ?thesis
    proof (cases "key x \<le> key y")
      case True
      with Suc show ?thesis by (cases m) (simp_all add: min_def)
    next
      case False
      with Suc Cons.IH [of m] show ?thesis by simp
    qed
  qed
qed

lemma smallest_Cons: "smallest key n (x # xs) = take n (insort_key key x (smallest key n xs))"
  by (simp add: smallest_def take_insort_take)

text \<open>Insertion at the position a binary search finds.\<close>

lemma insort_at:
  fixes key :: "'a \<Rightarrow> 'k :: linorder"
  assumes "sorted_wrt (\<lambda>x y. key x < key y) ys" "key x \<notin> key ` set ys"
  shows "insort_key key x ys =
    takeWhile (\<lambda>y. \<not> key x < key y) ys @ x # dropWhile (\<lambda>y. \<not> key x < key y) ys"
  using assms
proof (induction ys)
  case Nil
  then show ?case by simp
next
  case (Cons y ys)
  then show ?case by (cases "key x \<le> key y") (auto simp: not_less)
qed

text \<open>A stream processed by any step that keeps the \<open>n\<close> smallest.\<close>

lemma smallest_stream:
  fixes key :: "'a \<Rightarrow> 'k :: linorder"
  assumes step: "\<And>seen x. distinct (map key (x # seen)) \<Longrightarrow> x \<in> set xs \<Longrightarrow>
      step (smallest key n seen) x = take n (insort_key key x (smallest key n seen))"
    and d: "distinct (map key xs)"
  shows "foldl step [] xs = smallest key n xs"
proof -
  have "foldl step (smallest key n seen) ys = smallest key n (rev ys @ seen)"
    if "distinct (map key (ys @ seen))" "set ys \<subseteq> set xs" for ys seen
    using that
  proof (induction ys arbitrary: seen)
    case Nil
    then show ?case by simp
  next
    case (Cons y ys)
    then have "step (smallest key n seen) y = smallest key n (y # seen)"
      using step [of y seen] by (auto simp: smallest_Cons)
    moreover have "distinct (map key (ys @ y # seen))" using Cons.prems(1) by auto
    ultimately show ?case using Cons.IH [of "y # seen"] Cons.prems(2) by simp
  qed
  from this [of xs "[]"] d have "foldl step (smallest key n []) xs = smallest key n (rev xs)" by simp
  moreover have "sort_key key (rev xs) = sort_key key xs"
    by (rule sort_key_same_set) (use d in \<open>auto simp: rev_map [symmetric]\<close>)
  ultimately show ?thesis by (simp add: smallest_def)
qed

end
