(* ===== verification/Collections.thy ===== *)
theory Collections
  imports Lifecycle Paging
begin

text \<open>
  \<^verbatim>\<open>internal/catalog/collections.go\<close>: the folders that group albums. A folder's parent chain ends
  at the root within 63 steps, whatever is saved or deleted, and no folder or album is left under a
  folder that is gone; a failed save puts the previous folders back.
\<close>

section \<open>Folders\<close>

definition find_folder :: "collection_folder list \<Rightarrow> string \<Rightarrow> collection_folder option" where
  "find_folder fs i = List.find (\<lambda>f. cf_id f = i) fs"

text \<open>
  The loop of \<open>validateCollectionParentLocked\<close>: \<open>n\<close> counts down from 63, the code's \<open>depth\<close> up
  to it.
\<close>

fun parent_walk :: "collection_folder list \<Rightarrow> string list \<Rightarrow> nat \<Rightarrow> string \<Rightarrow> catalog_error option" where
  "parent_walk fs seen 0 parent = (if parent = '''' then None else Some ErrDescendant)"
| "parent_walk fs seen (Suc n) parent =
     (if parent = '''' then None
      else if parent \<in> set seen then Some ErrDescendant
      else case find_folder fs parent of
             None \<Rightarrow> Some ErrNotFound
           | Some f \<Rightarrow> parent_walk fs (parent # seen) n (cf_parent_id f))"

definition validateCollectionParentLocked ::
  "collection_folder list \<Rightarrow> string \<Rightarrow> string \<Rightarrow> catalog_error option" where
  "validateCollectionParentLocked fs parent self = parent_walk fs [self] 63 parent"

text \<open>The last loop of \<open>mutateCollectionFolderLocked\<close>: the first folder whose chain is refused.\<close>

fun check_parents :: "collection_folder list \<Rightarrow> collection_folder list \<Rightarrow> catalog_error option" where
  "check_parents fs [] = None"
| "check_parents fs (child # rest) =
     (case validateCollectionParentLocked fs (cf_parent_id child) (cf_id child) of
        Some err \<Rightarrow> Some err
      | None \<Rightarrow> check_parents fs rest)"

text \<open>The candidate folders and the saved folder of \<open>mutateCollectionFolderLocked\<close>.\<close>

definition mutateCollectionFolderLocked ::
  "env \<Rightarrow> collection_folder \<Rightarrow> collection_folder list
   \<Rightarrow> catalog_error + collection_folder \<times> collection_folder list \<times> env" where
  "mutateCollectionFolderLocked e f0 fs =
     (let f = f0\<lparr>cf_title := trim_space (cf_title f0)\<rparr>
      in if cf_title f = '''' \<or> 200 < length (cf_title f) \<or> cf_position f < 0 \<or> 100000 < cf_position f
         then Inl ErrAlbumInvalid
         else case validateCollectionParentLocked fs (cf_parent_id f) (cf_id f) of
           Some err \<Rightarrow> Inl err
         | None \<Rightarrow>
             res_bind
               (if cf_id f = '''' then
                  res_bind (newEntryID e) (\<lambda>(i, e').
                    let g = f\<lparr>cf_id := ''pc_'' @ i, cf_revision := 1\<rparr> in Inr (g, fs @ [g], e'))
                else case find_index (\<lambda>old. cf_id old = cf_id f) fs of
                  None \<Rightarrow> Inl ErrNotFound
                | Some i \<Rightarrow>
                    if cf_revision (fs ! i) \<noteq> cf_revision f then Inl ErrRevisionMismatch
                    else if cf_revision (fs ! i) = max_u64 then Inl ErrRevisionOverflow
                    else let g = f\<lparr>cf_revision := cf_revision f + 1\<rparr> in Inr (g, fs[i := g], e))
               (\<lambda>(g, next, e').
                  case check_parents next next of Some err \<Rightarrow> Inl err | None \<Rightarrow> Inr (g, next, e')))"

text \<open>
  A save with candidate collections; a failed one puts the previous collections back.
\<close>

definition save_collections ::
  "env \<Rightarrow> collection_state \<Rightarrow> catalog \<Rightarrow> (catalog_error + unit) \<times> catalog" where
  "save_collections e cs c =
     (case saveFilesLocked e (c_files c) (c\<lparr>c_collections := cs\<rparr>) of
        (Inl err, c') \<Rightarrow> (Inl err, c'\<lparr>c_collections := c_collections c\<rparr>)
      | (Inr u, c') \<Rightarrow> (Inr (), c'))"

definition SaveCollectionFolder ::
  "env \<Rightarrow> collection_folder \<Rightarrow> catalog \<Rightarrow> (catalog_error + collection_folder) \<times> catalog" where
  "SaveCollectionFolder e f c =
     (case mutateCollectionFolderLocked e f (cs_folders (c_collections c)) of
        Inl err \<Rightarrow> (Inl err, c)
      | Inr (g, next, e') \<Rightarrow>
          (case save_collections e' ((c_collections c)\<lparr>cs_folders := next\<rparr>) c of
             (Inl err, c') \<Rightarrow> (Inl err, c')
           | (Inr u, c') \<Rightarrow> (Inr g, c')))"

text \<open>
  The scan of \<open>DeleteCollectionFolder\<close>: the index of the last folder with the identity, or the first
  refusal met on the way.
\<close>

fun delete_scan ::
  "string \<Rightarrow> u64 \<Rightarrow> nat \<Rightarrow> nat option \<Rightarrow> collection_folder list \<Rightarrow> catalog_error + nat option" where
  "delete_scan i revn k index [] = Inr index"
| "delete_scan i revn k index (f # fs) =
     (if cf_id f = i \<and> cf_revision f \<noteq> revn then Inl ErrRevisionMismatch
      else if cf_parent_id f = i then Inl ErrConflict
      else delete_scan i revn (Suc k) (if cf_id f = i then Some k else index) fs)"

definition remove_nth :: "nat \<Rightarrow> 'a list \<Rightarrow> 'a list" where
  "remove_nth k xs = take k xs @ drop (Suc k) xs"

definition DeleteCollectionFolder ::
  "env \<Rightarrow> string \<Rightarrow> u64 \<Rightarrow> catalog \<Rightarrow> (catalog_error + unit) \<times> catalog" where
  "DeleteCollectionFolder e i revn c =
     (case delete_scan i revn 0 None (cs_folders (c_collections c)) of
        Inl err \<Rightarrow> (Inl err, c)
      | Inr index \<Rightarrow>
          if \<exists>a \<in> set (c_albums c). a_parent_id a = i then (Inl ErrConflict, c)
          else case index of
            None \<Rightarrow> (Inl ErrNotFound, c)
          | Some k \<Rightarrow>
              save_collections e
                ((c_collections c)\<lparr>cs_folders := remove_nth k (cs_folders (c_collections c))\<rparr>) c)"

section \<open>Pages of the collection tree\<close>

record collection_node =
  n_id :: string
  n_folder :: "collection_folder option"
  n_album :: "album option"

record collection_page =
  cp_schema :: int
  cp_position :: sync_position
  cp_nodes :: "collection_node list"
  cp_next :: string
  cp_has_more :: bool

definition collection_nodes :: "catalog \<Rightarrow> collection_node list" where
  "collection_nodes c = sort_key n_id
     (map (\<lambda>f. \<lparr>n_id = cf_id f, n_folder = Some f, n_album = None\<rparr>) (cs_folders (c_collections c))
      @ map (\<lambda>a. \<lparr>n_id = a_id a, n_folder = None,
                   n_album = Some ((cloneAlbum a)\<lparr>a_asset_ids := None, a_cover_id := ''''\<rparr>)\<rparr>) (c_albums c))"

text \<open>\<open>sort.Search\<close> finds the first node above the cursor of the sorted nodes.\<close>

definition node_page :: "collection_node list \<Rightarrow> int \<Rightarrow> string \<Rightarrow> collection_node list \<times> bool" where
  "node_page nodes limit after =
     (let start = length (takeWhile (\<lambda>n. n_id n \<le> after) nodes);
          stop = min (start + page_size limit) (length nodes)
      in (take (stop - start) (drop start nodes), stop < length nodes))"

definition CollectionPage ::
  "env \<Rightarrow> string \<Rightarrow> sync_position option \<Rightarrow> int \<Rightarrow> catalog
   \<Rightarrow> (catalog_error + collection_page) \<times> catalog" where
  "CollectionPage e after position limit c =
     (let (res, c1) = (if j_epoch (c_journal c) = '''' then saveFilesLocked e (c_files c) c else (Inr (), c))
      in case res of
           Inl err \<Rightarrow> (Inl err, c1)
         | Inr u \<Rightarrow>
             if (case position of Some p \<Rightarrow> p \<noteq> position_of (c_journal c1) | None \<Rightarrow> False)
             then (Inl ErrSyncExpired, c1)
             else
               (let (rows, has_more) = node_page (collection_nodes c1) limit after
                in (Inr \<lparr>cp_schema = 2, cp_position = position_of (c_journal c1), cp_nodes = rows,
                         cp_next = (if has_more then n_id (last rows) else ''''),
                         cp_has_more = has_more\<rparr>, c1)))"

section \<open>Parent chains\<close>

text \<open>\<open>chain fs p n\<close>: following parents from \<open>p\<close> reaches the root in \<open>n\<close> steps.\<close>

inductive chain :: "collection_folder list \<Rightarrow> string \<Rightarrow> nat \<Rightarrow> bool" for fs where
  chain_root: "chain fs '''' 0"
| chain_step: "p \<noteq> '''' \<Longrightarrow> find_folder fs p = Some f \<Longrightarrow> chain fs (cf_parent_id f) n \<Longrightarrow> chain fs p (Suc n)"

inductive_cases chain_0E: "chain fs p 0"
inductive_cases chain_SucE: "chain fs p (Suc n)"

lemma chain_deterministic: "chain fs p n \<Longrightarrow> chain fs p m \<Longrightarrow> m = n"
proof (induction arbitrary: m rule: chain.induct)
  case chain_root
  then show ?case by (cases rule: chain.cases) auto
next
  case (chain_step p f n)
  from chain_step.prems chain_step.hyps show ?case
    by (cases rule: chain.cases) (auto dest: chain_step.IH)
qed

text \<open>The walk accepts a parent exactly when its chain is short enough and avoids what was seen.\<close>

lemma parent_walk_sound: "parent_walk fs seen k p = None \<Longrightarrow> \<exists>n \<le> k. chain fs p n"
proof (induction k arbitrary: seen p)
  case 0
  then show ?case by (auto split: if_splits intro: chain_root)
next
  case (Suc k)
  show ?case
  proof (cases "p = ''''")
    case True
    then show ?thesis by (auto intro: chain_root)
  next
    case False
    with Suc.prems obtain f where f: "find_folder fs p = Some f"
      "parent_walk fs (p # seen) k (cf_parent_id f) = None"
      by (auto split: if_splits option.splits)
    from Suc.IH [OF f(2)] obtain n where "n \<le> k" "chain fs (cf_parent_id f) n" by blast
    with False f(1) show ?thesis by (blast intro: chain_step exI [of _ "Suc n"])
  qed
qed

text \<open>The folders passed on the way to the root.\<close>

inductive passes :: "collection_folder list \<Rightarrow> string \<Rightarrow> string \<Rightarrow> bool" for fs where
  passes_here: "p \<noteq> '''' \<Longrightarrow> passes fs p p"
| passes_up: "p \<noteq> '''' \<Longrightarrow> find_folder fs p = Some f \<Longrightarrow> passes fs (cf_parent_id f) q \<Longrightarrow> passes fs p q"

lemma passes_chain: "passes fs p q \<Longrightarrow> chain fs p n \<Longrightarrow> \<exists>m \<le> n. chain fs q m"
proof (induction arbitrary: n rule: passes.induct)
  case (passes_here p)
  then show ?case by blast
next
  case (passes_up p f q)
  from passes_up.prems passes_up.hyps obtain m where "n = Suc m" "chain fs (cf_parent_id f) m"
    by (cases rule: chain.cases) auto
  with passes_up.IH show ?case by (metis le_SucI)
qed

text \<open>A chain that reaches the root never returns to where it started.\<close>

lemma chain_no_return:
  assumes "chain fs p (Suc n)" "find_folder fs p = Some f"
  shows "\<not> passes fs (cf_parent_id f) p"
proof
  assume ret: "passes fs (cf_parent_id f) p"
  from assms have "chain fs (cf_parent_id f) n" by (auto elim: chain_SucE)
  from passes_chain [OF ret this] obtain m where "m \<le> n" "chain fs p m" by blast
  with chain_deterministic [OF assms(1)] show False by force
qed

lemma parent_walk_complete:
  assumes "chain fs p n" "n \<le> k" "\<forall>q \<in> set seen. \<not> passes fs p q"
  shows "parent_walk fs seen k p = None"
  using assms
proof (induction k arbitrary: p n seen)
  case 0
  then show ?case by (auto elim: chain_0E)
next
  case (Suc k)
  show ?case
  proof (cases "p = ''''")
    case False
    with Suc.prems(1) obtain m f where f: "n = Suc m" "find_folder fs p = Some f"
      "chain fs (cf_parent_id f) m"
      by (cases rule: chain.cases) auto
    have "\<forall>q \<in> set (p # seen). \<not> passes fs (cf_parent_id f) q"
      using chain_no_return [of fs p m f] Suc.prems(1,3) f passes_up [OF False f(2)] by auto
    then have "parent_walk fs (p # seen) k (cf_parent_id f) = None"
      using Suc.IH [OF f(3)] Suc.prems(2) f(1) by simp
    moreover have "p \<notin> set seen" using Suc.prems(3) passes_here [OF False] by blast
    ultimately show ?thesis using f(2) by simp
  qed simp
qed

text \<open>Every folder's chain ends at the root, every album's parent is a folder or the root.\<close>

definition folders_ok :: "collection_folder list \<Rightarrow> bool" where
  "folders_ok fs \<longleftrightarrow> (\<forall>f \<in> set fs. \<exists>n \<le> 63. chain fs (cf_parent_id f) n)"

definition collections_ok :: "catalog \<Rightarrow> bool" where
  "collections_ok c \<longleftrightarrow> folders_ok (cs_folders (c_collections c))
     \<and> (\<forall>a \<in> set (c_albums c). a_parent_id a \<in> insert '''' (cf_id ` set (cs_folders (c_collections c))))"

lemma find_folder_Some: "find_folder fs i = Some f \<Longrightarrow> f \<in> set fs \<and> cf_id f = i"
  by (auto simp: find_folder_def find_Some_iff)

lemma find_folder_None: "find_folder fs i = None \<longleftrightarrow> i \<notin> cf_id ` set fs"
  by (auto simp: find_folder_def find_None_iff)

lemma folders_ok_chain:
  assumes "folders_ok fs" "p \<in> insert '''' (cf_id ` set fs)"
  shows "\<exists>n \<le> 64. chain fs p n"
proof (cases "p = ''''")
  case True
  then show ?thesis by (auto intro: chain_root)
next
  case False
  with assms(2) obtain f where f: "find_folder fs p = Some f" using find_folder_None by (cases "find_folder fs p") auto
  with assms(1) find_folder_Some [OF f] obtain n where "n \<le> 63" "chain fs (cf_parent_id f) n"
    by (auto simp: folders_ok_def)
  with chain_step [OF False f] show ?thesis by (intro exI [of _ "Suc n"]) simp
qed

section \<open>What a save keeps\<close>

lemma save_collections_cases:
  assumes "save_collections e cs c = (r, c')"
  obtains (failed) err d where "r = Inl err" "c' = c\<lparr>c_disk := d\<rparr>"
  | (saved) "r = Inr ()" "c_collections c' = cs" "c_albums c' = c_albums c" "c_files c' = c_files c"
proof (cases "saveFilesLocked e (c_files c) (c\<lparr>c_collections := cs\<rparr>)")
  case (Pair res c1)
  show ?thesis
  proof (cases res)
    case (Inl err)
    with Pair saveFilesLocked_error [of e "c_files c" "c\<lparr>c_collections := cs\<rparr>" err c1] assms failed
    show ?thesis by (auto simp: save_collections_def)
  next
    case (Inr u)
    with Pair have s: "saveFilesLocked e (c_files c) (c\<lparr>c_collections := cs\<rparr>) = (Inr u, c1)" by simp
    have "c_collections c1 = cs \<and> c_albums c1 = c_albums c \<and> c_files c1 = c_files c"
      using s saveFilesLocked_ok [OF s]
      by (cases "c_batch_only c") (auto simp: saveFilesLocked_batch)
    with s assms saved show ?thesis by (auto simp: save_collections_def)
  qed
qed

lemma check_parents_None:
  "check_parents fs rest = None
   \<longleftrightarrow> (\<forall>f \<in> set rest. validateCollectionParentLocked fs (cf_parent_id f) (cf_id f) = None)"
  by (induction rest) (auto split: option.splits)

lemma mutate_folders_ok:
  assumes "mutateCollectionFolderLocked e f fs = Inr (g, next, e')"
  shows "folders_ok next" "cf_id ` set fs \<subseteq> cf_id ` set next" "g \<in> set next"
proof -
  from assms have "check_parents next next = None"
    unfolding mutateCollectionFolderLocked_def Let_def
    by (auto simp: res_bind_Inr_iff split: if_splits option.splits)
  then have "\<forall>child \<in> set next. validateCollectionParentLocked next (cf_parent_id child) (cf_id child) = None"
    by (simp only: check_parents_None)
  then show "folders_ok next"
    unfolding folders_ok_def validateCollectionParentLocked_def by (blast dest: parent_walk_sound)
  from assms show "g \<in> set next"
    unfolding mutateCollectionFolderLocked_def Let_def
    by (auto simp: res_bind_Inr_iff set_update_memI dest: find_index_Some split: if_splits option.splits)
  from assms consider "next = fs @ [g]" | i where "i < length fs" "cf_id g = cf_id (fs ! i)" "next = fs[i := g]"
    unfolding mutateCollectionFolderLocked_def Let_def
    by (auto simp: res_bind_Inr_iff dest: find_index_Some split: if_splits option.splits)
  then show "cf_id ` set fs \<subseteq> cf_id ` set next"
  proof cases
    case 1
    then show ?thesis by auto
  next
    case 2
    then have "map cf_id next = map cf_id fs" by (simp add: map_update_id)
    then show ?thesis by (metis list.set_map order_refl)
  qed
qed

lemma SaveCollectionFolder_ok:
  assumes "collections_ok c" "SaveCollectionFolder e f c = (r, c')"
  shows "collections_ok c'"
proof (cases "mutateCollectionFolderLocked e f (cs_folders (c_collections c))")
  case (Inl err)
  with assms show ?thesis by (simp add: SaveCollectionFolder_def)
next
  case (Inr t)
  obtain g nxt e' where t: "t = (g, nxt, e')" by (cases t) auto
  note m = mutate_folders_ok [OF Inr [unfolded t]]
  obtain res c1 where s: "save_collections e' ((c_collections c)\<lparr>cs_folders := nxt\<rparr>) c = (res, c1)"
    by fastforce
  with assms(2) Inr t have c': "c' = c1" by (auto simp: SaveCollectionFolder_def split: sum.splits)
  from s show ?thesis
  proof (cases rule: save_collections_cases)
    case failed
    with assms(1) c' show ?thesis by (simp add: collections_ok_def)
  next
    case saved
    from assms(1) have "\<forall>a \<in> set (c_albums c). a_parent_id a \<in> insert '''' (cf_id ` set nxt)"
      using m(2) unfolding collections_ok_def by blast
    with saved c' m(1) show ?thesis by (simp add: collections_ok_def)
  qed
qed

lemma delete_scan_Inr:
  assumes "delete_scan i revn k index fs = Inr r"
  shows "\<forall>f \<in> set fs. cf_parent_id f \<noteq> i \<and> (cf_id f = i \<longrightarrow> cf_revision f = revn)"
    and "r = index \<and> (\<forall>f \<in> set fs. cf_id f \<noteq> i)
         \<or> (\<exists>j < length fs. r = Some (k + j) \<and> cf_id (fs ! j) = i)"
  using assms
proof (induction fs arbitrary: k index)
  case Nil
  { case 1 then show ?case by simp }
  { case 2 then show ?case by simp }
next
  case (Cons f fs)
  { case 1 with Cons.IH(1) show ?case by (auto split: if_splits) }
  { case 2
    then have "delete_scan i revn (Suc k) (if cf_id f = i then Some k else index) fs = Inr r"
      by (auto split: if_splits)
    from Cons.IH(2) [OF this] show ?case
      by (cases "cf_id f = i") (force intro: exI [of _ "0::nat"])+ }
qed

lemma set_remove_nth: "set (remove_nth k xs) \<subseteq> set xs"
  by (auto simp: remove_nth_def dest: in_set_takeD in_set_dropD)

lemma find_remove_nth:
  assumes "k < length fs" "cf_id (fs ! k) = i" "p \<noteq> i"
  shows "find_folder (remove_nth k fs) p = find_folder fs p"
proof -
  have "fs = take k fs @ fs ! k # drop (Suc k) fs" using assms(1) by (rule id_take_nth_drop)
  moreover have "find_folder (as @ x # bs) p = find_folder (as @ bs) p" if "cf_id x \<noteq> p" for as x bs
    using that by (induction as) (auto simp: find_folder_def)
  ultimately show ?thesis using assms(2,3) by (metis remove_nth_def)
qed

lemma chain_remove:
  assumes "chain fs p n" "p \<noteq> i" "k < length fs" "cf_id (fs ! k) = i"
    and "\<forall>f \<in> set fs. cf_parent_id f \<noteq> i"
  shows "chain (remove_nth k fs) p n"
  using assms(1,2)
proof (induction rule: chain.induct)
  case chain_root
  then show ?case by (simp add: chain.chain_root)
next
  case (chain_step p f n)
  have "cf_parent_id f \<noteq> i" using assms(5) find_folder_Some [OF chain_step.hyps(2)] by blast
  with chain_step find_remove_nth [OF assms(3,4)] show ?case by (auto intro: chain.chain_step)
qed

lemma DeleteCollectionFolder_ok:
  assumes ok: "collections_ok c" and del: "DeleteCollectionFolder e i revn c = (r, c')"
  shows "collections_ok c'"
proof -
  let ?fs = "cs_folders (c_collections c)"
  consider (unchanged) "c' = c" | (removed) k where "delete_scan i revn 0 None ?fs = Inr (Some k)"
    "\<forall>a \<in> set (c_albums c). a_parent_id a \<noteq> i"
    "save_collections e ((c_collections c)\<lparr>cs_folders := remove_nth k ?fs\<rparr>) c = (r, c')"
    using del by (auto simp: DeleteCollectionFolder_def split: sum.splits if_splits option.splits)
  then show ?thesis
  proof cases
    case unchanged
    with ok show ?thesis by simp
  next
    case removed
    from delete_scan_Inr [OF removed(1)] have k: "k < length ?fs" "cf_id (?fs ! k) = i"
      and np: "\<forall>f \<in> set ?fs. cf_parent_id f \<noteq> i" by auto
    have fo: "folders_ok (remove_nth k ?fs)"
      unfolding folders_ok_def
    proof
      fix f assume "f \<in> set (remove_nth k ?fs)"
      then have f: "f \<in> set ?fs" using set_remove_nth by fast
      with ok obtain n where "n \<le> 63" "chain ?fs (cf_parent_id f) n"
        by (auto simp: collections_ok_def folders_ok_def)
      with chain_remove [OF _ _ k np] np f show "\<exists>n \<le> 63. chain (remove_nth k ?fs) (cf_parent_id f) n"
        by blast
    qed
    have keep: "p \<in> cf_id ` set (remove_nth k ?fs)" if "p \<in> cf_id ` set ?fs" "p \<noteq> i" for p
      using that find_remove_nth [OF k, of p] find_folder_None by metis
    from removed(3) show ?thesis
    proof (cases rule: save_collections_cases)
      case failed
      with ok show ?thesis by (simp add: collections_ok_def)
    next
      case saved
      from ok keep removed(2)
      have "\<forall>a \<in> set (c_albums c). a_parent_id a \<in> insert '''' (cf_id ` set (remove_nth k ?fs))"
        unfolding collections_ok_def by blast
      with saved fo show ?thesis by (simp add: collections_ok_def)
    qed
  qed
qed

section \<open>Reading the tree page by page\<close>

definition nodes_ok :: "collection_node list \<Rightarrow> bool" where
  "nodes_ok nodes \<longleftrightarrow> sorted_wrt (\<lambda>x y. n_id x < n_id y) nodes"

lemma sorted_above:
  fixes key :: "'a \<Rightarrow> 'k :: linorder"
  assumes "sorted_wrt (\<lambda>x y. key x < key y) xs"
  shows "drop (length (takeWhile (\<lambda>x. key x \<le> a) xs)) xs = filter (\<lambda>x. a < key x) xs"
  using assms
proof (induction xs)
  case Nil
  then show ?case by simp
next
  case (Cons x xs)
  show ?case
  proof (cases "key x \<le> a")
    case True
    with Cons show ?thesis by simp
  next
    case False
    with Cons.prems have "\<forall>y \<in> set (x # xs). a < key y" by (auto intro: less_trans)
    with False show ?thesis by (simp add: filter_id_conv)
  qed
qed

interpretation collection_pages: keyset_cursor "\<lambda>nodes. nodes" n_id node_page nodes_ok
proof
  show "sorted_wrt (\<lambda>x y. n_id x < n_id y) c" if "nodes_ok c" for c
    using that by (simp add: nodes_ok_def)
  show "node_page c limit after =
      (take (page_size limit) (filter (\<lambda>x. after < n_id x) c),
       page_size limit < length (filter (\<lambda>x. after < n_id x) c))" if "nodes_ok c" for c limit after
  proof -
    let ?s = "length (takeWhile (\<lambda>n. n_id n \<le> after) c)"
    have d: "drop ?s c = filter (\<lambda>x. after < n_id x) c"
      using that sorted_above by (simp add: nodes_ok_def)
    have "?s \<le> length c" by (rule length_takeWhile_le)
    moreover have "length (filter (\<lambda>x. after < n_id x) c) = length c - ?s"
      unfolding d [symmetric] by simp
    ultimately show ?thesis
      by (auto simp: node_page_def Let_def d min_def)
  qed
qed

lemma collection_nodes_sorted:
  assumes "distinct (map n_id (collection_nodes c))"
  shows "nodes_ok (collection_nodes c)"
proof -
  have "sorted (map n_id (collection_nodes c))" by (simp add: collection_nodes_def)
  with assms have "sorted_wrt (<) (map n_id (collection_nodes c))"
    by (simp only: strict_sorted_iff)
  then show ?thesis by (simp only: nodes_ok_def sorted_wrt_map)
qed

text \<open>What the walk refuses to pass: \<open>seen\<close> holds the folder itself.\<close>

lemma parent_walk_avoids:
  "parent_walk fs seen k p = None \<Longrightarrow> passes fs p q \<Longrightarrow> q \<notin> set seen"
proof (induction k arbitrary: seen p)
  case 0
  then show ?case by (auto split: if_splits elim: passes.cases)
next
  case (Suc k)
  from Suc.prems(2) have "p \<noteq> ''''" by (auto elim: passes.cases)
  with Suc.prems(1) obtain f where f: "p \<notin> set seen" "find_folder fs p = Some f"
    "parent_walk fs (p # seen) k (cf_parent_id f) = None"
    by (auto split: if_splits option.splits)
  from Suc.prems(2) show ?case
  proof (cases rule: passes.cases)
    case passes_here
    with f(1) show ?thesis by simp
  next
    case (passes_up f')
    with f(2) have "passes fs (cf_parent_id f) q" by simp
    from Suc.IH [OF f(3) this] show ?thesis by simp
  qed
qed

text \<open>C31
  The parent check is exact: a parent is accepted when, and only when, its chain of parents ends at
  the root within 63 steps without passing the folder that is being moved.
\<close>

theorem parent_check_exact:
  "validateCollectionParentLocked fs parent self = None
   \<longleftrightarrow> (\<exists>n. n \<le> 63 \<and> chain fs parent n) \<and> \<not> passes fs parent self"
proof
  assume v: "validateCollectionParentLocked fs parent self = None"
  then show "(\<exists>n. n \<le> 63 \<and> chain fs parent n) \<and> \<not> passes fs parent self"
    using parent_walk_sound [of fs "[self]" 63 parent] parent_walk_avoids [of fs "[self]" 63 parent self]
    by (auto simp: validateCollectionParentLocked_def)
next
  assume "(\<exists>n. n \<le> 63 \<and> chain fs parent n) \<and> \<not> passes fs parent self"
  then show "validateCollectionParentLocked fs parent self = None"
    unfolding validateCollectionParentLocked_def by (auto intro: parent_walk_complete)
qed

text \<open>
  Reading \<open>CollectionPage\<close> from the start, page after page at one position, delivers every folder
  and album of the tree exactly once, in identity order, whatever the page size asked for; one read
  more than there are nodes is always enough.
\<close>

lemma collection_pages_complete:
  assumes "distinct (map n_id (collection_nodes c))" "\<forall>n \<in> set (collection_nodes c). n_id n \<noteq> ''''"
    and "j_epoch (c_journal c) \<noteq> ''''" "length (collection_nodes c) < fuel"
  shows "read_pages fuel
     (\<lambda>after. case fst (CollectionPage e after (Some (position_of (c_journal c))) limit c) of
                Inr p \<Rightarrow> (cp_nodes p, cp_has_more p) | Inl err \<Rightarrow> ([], False)) n_id ''''
     = collection_nodes c"
proof -
  have page: "(\<lambda>after. case fst (CollectionPage e after (Some (position_of (c_journal c))) limit c) of
                Inr p \<Rightarrow> (cp_nodes p, cp_has_more p) | Inl err \<Rightarrow> ([], False))
      = node_page (collection_nodes c) limit"
    using assms(3) by (auto simp: CollectionPage_def Let_def split_def fun_eq_iff)
  have all: "filter (\<lambda>n. '''' < n_id n) (collection_nodes c) = collection_nodes c"
    using assms(2) by (auto simp: filter_id_conv Nil_less_Cons neq_Nil_conv)
  have "read_pages fuel (node_page (collection_nodes c) limit) n_id '''' =
      filter (\<lambda>n. '''' < n_id n) (collection_nodes c)"
    by (rule collection_pages.read_all [OF collection_nodes_sorted [OF assms(1)]]) (simp add: all assms(4))
  then show ?thesis by (simp add: page all)
qed

end
