(* ===== verification/Albums.thy ===== *)
theory Albums
  imports Collections
begin

text \<open>
  \<^verbatim>\<open>internal/catalog/albums.go\<close> and \<^verbatim>\<open>photo_album_members.go\<close>: creating, replacing and deleting
  albums and changing their members. Members are live photo assets when they are added, without
  duplicates; a change is bound to the revision its caller saw; a failed save puts the albums back.
\<close>

section \<open>Operations\<close>

definition photo_extensions :: "string list" where
  "photo_extensions = [''.dng'', ''.opaque'', ''.jpg'', ''.jpeg'', ''.png'', ''.gif'', ''.webp'', ''.heic'',
     ''.heif'', ''.avif'', ''.tif'', ''.tiff'', ''.mp4'', ''.mov'', ''.m4v'', ''.webm'', ''.mkv'']"

definition photoAlbumMember :: "file_row \<Rightarrow> bool" where
  "photoAlbumMember f \<longleftrightarrow>
     f_present f \<and> \<not> f_folder f \<and> f_parent_id f = '''' \<and> prefix ''Photos/'' (f_path f)
     \<and> (f_components f \<noteq> [] \<or> to_lower (path_ext (f_path f)) \<in> set photo_extensions)"

definition validMembers :: "file_row list \<Rightarrow> string list" where
  "validMembers fs = map f_entry_id (filter photoAlbumMember fs)"

text \<open>A save with candidate albums; a failed one puts the previous albums back.\<close>

definition save_albums :: "env \<Rightarrow> album list \<Rightarrow> catalog \<Rightarrow> (catalog_error + unit) \<times> catalog" where
  "save_albums e albums c =
     (case saveFilesLocked e (c_files c) (c\<lparr>c_albums := albums\<rparr>) of
        (Inl err, c') \<Rightarrow> (Inl err, c'\<lparr>c_albums := c_albums c\<rparr>)
      | (Inr u, c') \<Rightarrow> (Inr (), c'))"

definition persistAlbumAtLocked :: "env \<Rightarrow> nat \<Rightarrow> album \<Rightarrow> catalog \<Rightarrow> (catalog_error + unit) \<times> catalog" where
  "persistAlbumAtLocked e i a c = save_albums e ((cloneAlbums (c_albums c))[i := cloneAlbum a]) c"

definition album_fields_ok :: "album \<Rightarrow> bool" where
  "album_fields_ok a \<longleftrightarrow> 0 \<le> a_position a \<and> a_position a \<le> 100000 \<and> a_title a \<noteq> ''''
     \<and> length (a_title a) \<le> 200 \<and> length (a_description a) \<le> 4000
     \<and> length (ids_of (a_asset_ids a)) \<le> 100000"

definition member_ids_ok :: "string list \<Rightarrow> bool" where
  "member_ids_ok ids \<longleftrightarrow> distinct ids \<and> (\<forall>i \<in> set ids. i \<noteq> '''' \<and> length i \<le> 128)"

text \<open>The album stored over \<open>old\<close>.\<close>

definition replace_album :: "album \<Rightarrow> album \<Rightarrow> catalog_error + album" where
  "replace_album a old =
     (if a_revision a \<noteq> a_revision old then Inl ErrRevisionMismatch
      else if a_revision old = max_u64 then Inl ErrRevisionOverflow
      else
        (let a1 = (if a_parent_set a then a else a\<lparr>a_parent_id := a_parent_id old\<rparr>);
             a2 = a1\<lparr>a_parent_set := False\<rparr>;
             a3 = (if a_asset_ids a2 = None then a2\<lparr>a_asset_ids := clone_ids (a_asset_ids old)\<rparr> else a2);
             a4 = (if a_cover_id a3 = '''' then a3\<lparr>a_cover_id := a_cover_id old\<rparr> else a3)
         in if a_cover_id a4 \<noteq> '''' \<and> a_cover_id a4 \<notin> set (ids_of (a_asset_ids a4))
            then Inl ErrAlbumInvalid
            else Inr (a4\<lparr>a_revision := a_revision old + 1\<rparr>)))"

text \<open>The checks of \<open>SaveAlbum\<close> before the lock is taken.\<close>

definition prepare_album :: "env \<Rightarrow> album \<Rightarrow> catalog_error + album \<times> env" where
  "prepare_album e a0 =
     (let a1 = a0\<lparr>a_title := trim_space (a_title a0), a_description := trim_space (a_description a0)\<rparr>
      in if \<not> album_fields_ok a1 then Inl ErrAlbumInvalid
         else res_bind
           (if a_id a0 = ''''
            then res_bind (newEntryID e) (\<lambda>(i, e'). Inr (a1\<lparr>a_id := ''pa_'' @ i, a_revision := 1\<rparr>, e'))
            else Inr (a1, e))
           (\<lambda>(a, e').
              let ids = ids_of (a_asset_ids a)
              in if 64 < length (a_id a) \<or> \<not> prefix ''pa_'' (a_id a) then Inl ErrAlbumInvalid
                 else if \<not> member_ids_ok ids then Inl ErrAlbumInvalid
                 else if a_asset_ids a \<noteq> None \<and> a_cover_id a \<noteq> '''' \<and> a_cover_id a \<notin> set ids
                 then Inl ErrAlbumInvalid
                 else Inr (a, e')))"

definition store_album :: "env \<Rightarrow> bool \<Rightarrow> album \<Rightarrow> catalog \<Rightarrow> (catalog_error + album) \<times> catalog" where
  "store_album e creating a c =
     (case (if a_parent_set a \<or> creating
            then validateCollectionParentLocked (cs_folders (c_collections c)) (a_parent_id a) ''''
            else None) of
        Some err \<Rightarrow> (Inl err, c)
      | None \<Rightarrow>
          if \<not> set (ids_of (a_asset_ids a)) \<subseteq> set (validMembers (c_files c)) then (Inl ErrNotFound, c)
          else case find_index (\<lambda>old. a_id old = a_id a) (c_albums c) of
            Some i \<Rightarrow>
              (case replace_album a (c_albums c ! i) of
                 Inl err \<Rightarrow> (Inl err, c)
               | Inr g \<Rightarrow>
                   (case persistAlbumAtLocked e i g c of
                      (Inl err, c') \<Rightarrow> (Inl err, c')
                    | (Inr u, c') \<Rightarrow> (Inr (cloneAlbum g), c')))
          | None \<Rightarrow>
              if \<not> creating then (Inl ErrAlbumNotFound, c)
              else
                (let g = a\<lparr>a_parent_set := False\<rparr>
                 in case save_albums e (cloneAlbums (c_albums c) @ [cloneAlbum g]) c of
                      (Inl err, c') \<Rightarrow> (Inl err, c')
                    | (Inr u, c') \<Rightarrow> (Inr (cloneAlbum g), c')))"

definition SaveAlbum :: "env \<Rightarrow> album \<Rightarrow> catalog \<Rightarrow> (catalog_error + album) \<times> catalog" where
  "SaveAlbum e a0 c =
     (case prepare_album e a0 of
        Inl err \<Rightarrow> (Inl err, c)
      | Inr (a, e') \<Rightarrow> store_album e' (a_id a0 = '''') a c)"
definition DeleteAlbum :: "env \<Rightarrow> string \<Rightarrow> u64 \<Rightarrow> catalog \<Rightarrow> (catalog_error + unit) \<times> catalog" where
  "DeleteAlbum e i revn c =
     (case find_index (\<lambda>a. a_id a = i) (c_albums c) of
        None \<Rightarrow> (Inl ErrAlbumNotFound, c)
      | Some k \<Rightarrow>
          if revn \<noteq> 0 \<and> revn \<noteq> a_revision (c_albums c ! k) then (Inl ErrRevisionMismatch, c)
          else save_albums e (cloneAlbums (take k (c_albums c)) @ cloneAlbums (drop (Suc k) (c_albums c))) c)"

text \<open>The loop over the members to add.\<close>

fun add_members :: "string list \<Rightarrow> string list \<Rightarrow> string list \<Rightarrow> catalog_error + string list" where
  "add_members valid members [] = Inr members"
| "add_members valid members (i # rest) =
     (if i = '''' \<or> 128 < length i then Inl ErrAlbumInvalid
      else if i \<in> set members then add_members valid members rest
      else if i \<notin> set valid then Inl ErrNotFound
      else add_members valid (members @ [i]) rest)"

definition changed_album :: "album \<Rightarrow> string list \<Rightarrow> string list \<Rightarrow> album" where
  "changed_album old members remove =
     (let cover = (if a_cover_id old \<in> set remove then '''' else a_cover_id old)
      in (cloneAlbum old)\<lparr>a_revision := a_revision old + 1, a_asset_ids := Some members,
           a_cover_id := (if cover = '''' \<and> members \<noteq> [] then hd members else cover)\<rparr>)"

definition ChangeAlbumMembers ::
  "env \<Rightarrow> string \<Rightarrow> u64 \<Rightarrow> string list \<Rightarrow> string list \<Rightarrow> catalog \<Rightarrow> (catalog_error + album) \<times> catalog" where
  "ChangeAlbumMembers e i revn add remove c =
     (case find_index (\<lambda>a. a_id a = i) (c_albums c) of
        None \<Rightarrow> (Inl ErrAlbumNotFound, c)
      | Some k \<Rightarrow>
          (let old = c_albums c ! k
           in if a_revision old \<noteq> revn then (Inl ErrRevisionMismatch, c)
              else if 100000 < length add + length remove then (Inl ErrAlbumInvalid, c)
              else if \<exists>x \<in> set remove. x = '''' \<or> 128 < length x then (Inl ErrAlbumInvalid, c)
              else case add_members (validMembers (c_files c))
                          (filter (\<lambda>x. x \<notin> set remove) (ids_of (a_asset_ids old))) add of
                Inl err \<Rightarrow> (Inl err, c)
              | Inr members \<Rightarrow>
                  if 100000 < length members then (Inl ErrAlbumInvalid, c)
                  else if a_revision old = max_u64 then (Inl ErrRevisionOverflow, c)
                  else
                    (let updated = changed_album old members remove
                     in case persistAlbumAtLocked e k updated c of
                          (Inl err, c') \<Rightarrow> (Inl err, c')
                        | (Inr u, c') \<Rightarrow> (Inr updated, c'))))"

section \<open>Saving albums\<close>

lemma save_albums_cases:
  assumes "save_albums e albums c = (r, c')"
  obtains (failed) err d where "r = Inl err" "c' = c\<lparr>c_disk := d\<rparr>"
  | (saved) "r = Inr ()" "c_albums c' = albums" "c_collections c' = c_collections c" "c_files c' = c_files c"
proof (cases "saveFilesLocked e (c_files c) (c\<lparr>c_albums := albums\<rparr>)")
  case (Pair res c1)
  show ?thesis
  proof (cases res)
    case (Inl err)
    with Pair saveFilesLocked_error [of e "c_files c" "c\<lparr>c_albums := albums\<rparr>" err c1] assms failed
    show ?thesis by (auto simp: save_albums_def)
  next
    case (Inr u)
    with Pair have s: "saveFilesLocked e (c_files c) (c\<lparr>c_albums := albums\<rparr>) = (Inr u, c1)" by simp
    have "c_albums c1 = albums \<and> c_collections c1 = c_collections c \<and> c_files c1 = c_files c"
      using s saveFilesLocked_ok [OF s]
      by (cases "c_batch_only c") (auto simp: saveFilesLocked_batch)
    with s assms saved show ?thesis by (auto simp: save_albums_def)
  qed
qed

text \<open>Every operation on albums ends with the catalog unchanged or with one save of the albums.\<close>

lemma value_after_save:
  "(case save_albums e as c of (Inl err, c') \<Rightarrow> (Inl err, c') | (Inr u, c') \<Rightarrow> (Inr v, c')) = (r, c')
   \<longleftrightarrow> (\<exists>res. save_albums e as c = (res, c') \<and> r = (case res of Inl err \<Rightarrow> Inl err | Inr u \<Rightarrow> Inr v))"
  by (cases "save_albums e as c"; cases "fst (save_albums e as c)") auto

lemma prepare_album_Inr:
  assumes "prepare_album e a0 = Inr (a, e')"
  shows "album_fields_ok a" "member_ids_ok (ids_of (a_asset_ids a))" "prefix ''pa_'' (a_id a)"
    and "length (a_id a) \<le> 64" "a_parent_id a = a_parent_id a0" "a_parent_set a = a_parent_set a0"
    and "a_asset_ids a = a_asset_ids a0" "a_cover_id a = a_cover_id a0"
    and "a_id a0 = '''' \<Longrightarrow> a_revision a = 1" "a_id a0 \<noteq> '''' \<Longrightarrow> a_id a = a_id a0 \<and> a_revision a = a_revision a0"
    and "a_asset_ids a \<noteq> None \<Longrightarrow> a_cover_id a \<noteq> '''' \<Longrightarrow> a_cover_id a \<in> set (ids_of (a_asset_ids a))"
  using assms unfolding prepare_album_def Let_def
  by (auto simp: res_bind_Inr_iff album_fields_ok_def split: if_splits)

lemma store_album_cases:
  assumes "store_album e creating a c = (r, c')"
  obtains (refused) err where "r = Inl err" "c' = c"
  | (replaced) i g res where "find_index (\<lambda>old. a_id old = a_id a) (c_albums c) = Some i"
      "replace_album a (c_albums c ! i) = Inr g"
      "a_parent_set a \<Longrightarrow> validateCollectionParentLocked (cs_folders (c_collections c)) (a_parent_id a) '''' = None"
      "set (ids_of (a_asset_ids a)) \<subseteq> set (validMembers (c_files c))"
      "save_albums e ((cloneAlbums (c_albums c))[i := cloneAlbum g]) c = (res, c')"
      "r = (case res of Inl err \<Rightarrow> Inl err | Inr u \<Rightarrow> Inr (cloneAlbum g))"
  | (created) res where "creating" "find_index (\<lambda>old. a_id old = a_id a) (c_albums c) = None"
      "validateCollectionParentLocked (cs_folders (c_collections c)) (a_parent_id a) '''' = None"
      "set (ids_of (a_asset_ids a)) \<subseteq> set (validMembers (c_files c))"
      "save_albums e (cloneAlbums (c_albums c) @ [cloneAlbum (a\<lparr>a_parent_set := False\<rparr>)]) c = (res, c')"
      "r = (case res of Inl err \<Rightarrow> Inl err | Inr u \<Rightarrow> Inr (cloneAlbum (a\<lparr>a_parent_set := False\<rparr>)))"
proof (cases "\<not> set (ids_of (a_asset_ids a)) \<subseteq> set (validMembers (c_files c))
    \<or> (a_parent_set a \<or> creating)
       \<and> validateCollectionParentLocked (cs_folders (c_collections c)) (a_parent_id a) '''' \<noteq> None")
  case True
  then have "\<exists>err. r = Inl err \<and> c' = c"
    using assms by (auto simp: store_album_def split: if_splits option.splits)
  with refused show ?thesis by blast
next
  case False
  then have members: "set (ids_of (a_asset_ids a)) \<subseteq> set (validMembers (c_files c))"
    and parent: "a_parent_set a \<or> creating \<Longrightarrow>
        validateCollectionParentLocked (cs_folders (c_collections c)) (a_parent_id a) '''' = None"
    by auto
  show ?thesis
  proof (cases "find_index (\<lambda>old. a_id old = a_id a) (c_albums c)")
    case None
    show ?thesis
    proof (cases creating)
      case True
      with assms None members parent
      have "(case save_albums e (cloneAlbums (c_albums c) @ [cloneAlbum (a\<lparr>a_parent_set := False\<rparr>)]) c of
                (Inl err, c') \<Rightarrow> (Inl err, c') | (Inr u, c') \<Rightarrow> (Inr (cloneAlbum (a\<lparr>a_parent_set := False\<rparr>)), c')) = (r, c')"
        by (simp add: store_album_def Let_def)
      then show ?thesis unfolding value_after_save using created None True members parent by blast
    next
      case nc: False
      with assms None members parent have "r = Inl ErrAlbumNotFound \<and> c' = c"
        by (auto simp: store_album_def split: if_splits)
      with refused show ?thesis by blast
    qed
  next
    case (Some i)
    show ?thesis
    proof (cases "replace_album a (c_albums c ! i)")
      case (Inl err)
      with assms Some members parent have "r = Inl err \<and> c' = c"
        by (auto simp: store_album_def split: if_splits)
      with refused show ?thesis by blast
    next
      case (Inr g)
      with assms Some members parent
      have "(case save_albums e ((cloneAlbums (c_albums c))[i := cloneAlbum g]) c of
                (Inl err, c') \<Rightarrow> (Inl err, c') | (Inr u, c') \<Rightarrow> (Inr (cloneAlbum g), c')) = (r, c')"
        by (auto simp: store_album_def persistAlbumAtLocked_def split: if_splits)
      then show ?thesis unfolding value_after_save using replaced [OF Some Inr] members parent by blast
    qed
  qed
qed

section \<open>What an album satisfies\<close>

definition cover_ok :: "album \<Rightarrow> bool" where
  "cover_ok a \<longleftrightarrow> a_cover_id a = '''' \<or> a_cover_id a \<in> set (ids_of (a_asset_ids a))"

definition album_ok :: "album \<Rightarrow> bool" where
  "album_ok a \<longleftrightarrow> prefix ''pa_'' (a_id a) \<and> member_ids_ok (ids_of (a_asset_ids a)) \<and> cover_ok a
     \<and> a_revision a \<noteq> 0"

definition albums_ok :: "album list \<Rightarrow> bool" where
  "albums_ok as \<longleftrightarrow> distinct (map a_id as) \<and> (\<forall>a \<in> set as. album_ok a)"

lemma album_ok_clone [simp]: "album_ok (cloneAlbum a) \<longleftrightarrow> album_ok a"
  by (simp add: album_ok_def cover_ok_def)

lemma albums_ok_clone [simp]: "albums_ok (cloneAlbums as) \<longleftrightarrow> albums_ok as"
  by (auto simp: albums_ok_def cloneAlbums_def comp_def)

lemma ids_of_Some: "ids_of (Some ids) = ids"
  by (simp add: ids_of_def)

lemma replace_album_Inr:
  assumes "replace_album a old = Inr g"
  shows "a_id g = a_id a" "a_revision a = a_revision old" "a_revision g = a_revision old + 1"
    and "a_revision old \<noteq> max_u64" "cover_ok g"
    and "a_parent_id g = (if a_parent_set a then a_parent_id a else a_parent_id old)"
    and "ids_of (a_asset_ids g) = (case a_asset_ids a of None \<Rightarrow> ids_of (a_asset_ids old) | Some ids \<Rightarrow> ids)"
    and "a_title g = a_title a"
  using assms unfolding replace_album_def Let_def cover_ok_def
  by (cases "a_asset_ids a"; auto split: if_splits simp: ids_of_Some)+

lemma albums_ok_update:
  assumes "albums_ok as" "i < length as" "album_ok g" "a_id g = a_id (as ! i)"
  shows "albums_ok ((cloneAlbums as)[i := cloneAlbum g])"
proof -
  have "map a_id ((cloneAlbums as)[i := cloneAlbum g]) = map a_id as"
    using assms(2,4) by (simp add: map_update_id cloneAlbums_def comp_def)
  with assms show ?thesis
    unfolding albums_ok_def by (auto dest!: in_set_update simp: cloneAlbums_def)
qed

lemma albums_ok_append:
  assumes "albums_ok as" "album_ok g" "find_index (\<lambda>old. a_id old = a_id g) as = None"
  shows "albums_ok (cloneAlbums as @ [cloneAlbum g])"
  using assms by (auto simp: albums_ok_def cloneAlbums_def comp_def find_index_None)

lemma albums_ok_remove: "albums_ok as \<Longrightarrow> albums_ok (cloneAlbums (take k as) @ cloneAlbums (drop (Suc k) as))"
proof -
  assume ok: "albums_ok as"
  have "albums_ok (take k as @ drop (Suc k) as)"
  proof -
    have "distinct (map a_id (take k as @ drop (Suc k) as))"
    proof (cases "k < length as")
      case True
      with ok have "distinct (map a_id (take k as @ as ! k # drop (Suc k) as))"
        by (simp add: id_take_nth_drop [symmetric] albums_ok_def)
      then show ?thesis by simp
    next
      case False
      with ok show ?thesis by (simp add: albums_ok_def)
    qed
    with ok show ?thesis by (auto simp: albums_ok_def dest: in_set_takeD in_set_dropD)
  qed
  then show ?thesis by (metis albums_ok_clone cloneAlbums_def map_append)
qed

section \<open>Adding and removing members\<close>

lemma add_members_Inr:
  assumes "add_members valid members add = Inr out" "member_ids_ok members"
  shows "member_ids_ok out" "set out = set members \<union> set add" "prefix members out"
    and "set out \<subseteq> set members \<union> set valid"
  using assms
proof (induction add arbitrary: members)
  case Nil
  { case 1 then show ?case by simp }
  { case 2 then show ?case by simp }
  { case 3 then show ?case by simp }
  { case 4 then show ?case by simp }
next
  case (Cons i rest)
  have step: "(i \<in> set members \<and> add_members valid members rest = Inr out)
      \<or> (i \<notin> set members \<and> i \<in> set valid \<and> member_ids_ok (members @ [i])
         \<and> add_members valid (members @ [i]) rest = Inr out)"
    if "add_members valid members (i # rest) = Inr out" "member_ids_ok members" for members
    using that by (auto simp: member_ids_ok_def split: if_splits)
  { case 1
    from step [OF 1] Cons.IH(1) [of members] Cons.IH(1) [of "members @ [i]"] 1(2)
    show ?case by (elim disjE) simp_all }
  { case 2
    from step [OF 2] Cons.IH(2) [of members] Cons.IH(2) [of "members @ [i]"] 2(2)
    show ?case by (elim disjE) auto }
  { case 3
    from step [OF 3] Cons.IH(3) [of members] Cons.IH(3) [of "members @ [i]"] 3(2)
    show ?case by (elim disjE) (auto dest: append_prefixD) }
  { case 4
    from step [OF 4] Cons.IH(4) [of members] Cons.IH(4) [of "members @ [i]"] 4(2)
    show ?case by (elim disjE) auto }
qed

lemma ChangeAlbumMembers_cases:
  assumes "ChangeAlbumMembers e i revn add remove c = (r, c')"
  obtains (refused) err where "r = Inl err" "c' = c"
  | (changed) k members g res where "find_index (\<lambda>a. a_id a = i) (c_albums c) = Some k"
      "a_revision (c_albums c ! k) = revn" "revn \<noteq> max_u64"
      "add_members (validMembers (c_files c))
         (filter (\<lambda>x. x \<notin> set remove) (ids_of (a_asset_ids (c_albums c ! k)))) add = Inr members"
      "g = changed_album (c_albums c ! k) members remove"
      "save_albums e ((cloneAlbums (c_albums c))[k := cloneAlbum g]) c = (res, c')"
      "r = (case res of Inl err \<Rightarrow> Inl err | Inr u \<Rightarrow> Inr g)"
proof (cases "find_index (\<lambda>a. a_id a = i) (c_albums c)")
  case None
  with assms have "r = Inl ErrAlbumNotFound" "c' = c" by (simp_all add: ChangeAlbumMembers_def)
  with refused show ?thesis by blast
next
  case (Some k)
  let ?old = "c_albums c ! k"
  let ?am = "add_members (validMembers (c_files c)) (filter (\<lambda>x. x \<notin> set remove) (ids_of (a_asset_ids ?old))) add"
  show ?thesis
  proof (cases "a_revision ?old \<noteq> revn \<or> 100000 < length add + length remove
      \<or> (\<exists>x \<in> set remove. x = '''' \<or> 128 < length x) \<or> (\<exists>err. ?am = Inl err)
      \<or> (\<exists>m. ?am = Inr m \<and> 100000 < length m) \<or> a_revision ?old = max_u64")
    case True
    then have "\<exists>err. r = Inl err \<and> c' = c"
      using assms Some unfolding ChangeAlbumMembers_def Let_def
      by (auto split: sum.splits if_splits)
    with refused show ?thesis by blast
  next
    case False
    then obtain m where m: "?am = Inr m" "length m \<le> 100000" by (cases ?am) auto
    let ?g = "changed_album ?old m remove"
    from False m Some assms
    have "(case save_albums e ((cloneAlbums (c_albums c))[k := cloneAlbum ?g]) c of
             (Inl err, c') \<Rightarrow> (Inl err, c') | (Inr u, c') \<Rightarrow> (Inr ?g, c')) = (r, c')"
      by (simp add: ChangeAlbumMembers_def Let_def persistAlbumAtLocked_def)
    then obtain res where "save_albums e ((cloneAlbums (c_albums c))[k := cloneAlbum ?g]) c = (res, c')"
      "r = (case res of Inl err \<Rightarrow> Inl err | Inr u \<Rightarrow> Inr ?g)" unfolding value_after_save by blast
    with changed [OF Some _ _ m(1) refl this(1)] False show ?thesis by auto
  qed
qed
lemma changed_album_simps [simp]:
  "a_id (changed_album old m rem) = a_id old" "a_revision (changed_album old m rem) = a_revision old + 1"
  "a_asset_ids (changed_album old m rem) = Some m" "a_parent_id (changed_album old m rem) = a_parent_id old"
  by (simp_all add: changed_album_def Let_def)

text \<open>The cover stays a member: a removed one is replaced by the first member.\<close>

lemma changed_album_cover:
  assumes "cover_ok old" "\<forall>x \<in> set (ids_of (a_asset_ids old)). x \<notin> set rem \<longrightarrow> x \<in> set m" "'''' \<notin> set m"
  shows "cover_ok (changed_album old m rem)"
  using assms unfolding cover_ok_def changed_album_def Let_def by (auto simp: ids_of_Some)

text \<open>
  Changing an album's members removes and adds exactly the assets named, in order and without
  duplicates; an asset that becomes a member is a live photo of the catalog; the cover stays a
  member; the revision moves by one and no other album changes.
\<close>

lemma album_members_changed:
  assumes ok: "albums_ok (c_albums c)" and ch: "ChangeAlbumMembers e i revn add remove c = (Inr g, c')"
  shows "\<exists>k < length (c_albums c). let old = c_albums c ! k in
      a_id old = i \<and> a_revision old = revn \<and> a_revision g = revn + 1
      \<and> set (ids_of (a_asset_ids g)) = (set (ids_of (a_asset_ids old)) - set remove) \<union> set add
      \<and> prefix (filter (\<lambda>x. x \<notin> set remove) (ids_of (a_asset_ids old))) (ids_of (a_asset_ids g))
      \<and> set (ids_of (a_asset_ids g)) \<subseteq> set (ids_of (a_asset_ids old)) \<union> set (validMembers (c_files c))
      \<and> album_ok g \<and> c_albums c' = (cloneAlbums (c_albums c))[k := cloneAlbum g]"
  using ch
proof (cases rule: ChangeAlbumMembers_cases)
  case refused
  then show ?thesis by simp
next
  case (changed k m g' res)
  let ?old = "c_albums c ! k" and ?kept = "filter (\<lambda>x. x \<notin> set remove) (ids_of (a_asset_ids (c_albums c ! k)))"
  note k = find_index_Some [OF changed(1)]
  then have old: "album_ok ?old" using ok by (simp add: albums_ok_def)
  then have "member_ids_ok ?kept" by (auto simp: album_ok_def member_ids_ok_def)
  note m = add_members_Inr [OF changed(4) this]
  from changed(7) have g: "g = g'" "res = Inr ()" by (auto split: sum.splits)
  have "cover_ok g'"
    unfolding changed(5)
    by (rule changed_album_cover) (use old m in \<open>auto simp: album_ok_def member_ids_ok_def\<close>)
  then have "album_ok g'"
    using old m(1) changed(2,3) u64_succ_nonzero by (auto simp: album_ok_def changed(5) ids_of_Some)
  moreover from changed(6) have "c_albums c' = (cloneAlbums (c_albums c))[k := cloneAlbum g']"
    by (cases rule: save_albums_cases) (use g in auto)
  ultimately show ?thesis
    using k m changed(2) by (auto simp: g(1) changed(5) ids_of_Some Let_def intro!: exI [of _ k])
qed

text \<open>
  What every operation on albums keeps. The check of the cover is skipped when an album is created
  without a member list, so such a request must not name a cover.
\<close>

definition albums_inv :: "catalog \<Rightarrow> bool" where
  "albums_inv c \<longleftrightarrow> albums_ok (c_albums c) \<and> collections_ok c"

lemma chain_parent: "chain fs p n \<Longrightarrow> p \<in> insert '''' (cf_id ` set fs)"
  by (cases rule: chain.cases) (auto dest: find_folder_Some)

lemma checked_parent:
  "validateCollectionParentLocked fs p self = None \<Longrightarrow> p \<in> insert '''' (cf_id ` set fs)"
  unfolding validateCollectionParentLocked_def using parent_walk_sound chain_parent by blast

lemma saved_albums_inv:
  assumes "albums_inv c" "albums_ok as" "save_albums e as c = (res, c')"
    and "\<forall>a \<in> set as. a_parent_id a \<in> insert '''' (cf_id ` set (cs_folders (c_collections c)))"
  shows "albums_inv c'"
  using assms(3)
proof (cases rule: save_albums_cases)
  case failed
  with assms(1) show ?thesis by (simp add: albums_inv_def collections_ok_def)
next
  case saved
  with assms(1,2,4) show ?thesis by (simp add: albums_inv_def collections_ok_def)
qed

lemma cloned_parents:
  assumes "albums_inv c" "a \<in> set (cloneAlbums (c_albums c))"
  shows "a_parent_id a \<in> insert '''' (cf_id ` set (cs_folders (c_collections c)))"
  using assms by (auto simp: albums_inv_def collections_ok_def cloneAlbums_def)

lemma updated_parents:
  assumes "albums_inv c" "a_parent_id g \<in> insert '''' (cf_id ` set (cs_folders (c_collections c)))"
    and "a \<in> set ((cloneAlbums (c_albums c))[k := cloneAlbum g])"
  shows "a_parent_id a \<in> insert '''' (cf_id ` set (cs_folders (c_collections c)))"
  using in_set_update [OF assms(3)] cloned_parents [OF assms(1)] assms(2) by auto

lemma SaveAlbum_inv:
  assumes inv: "albums_inv c" and save: "SaveAlbum e a0 c = (r, c')"
    and cover: "a_id a0 = '''' \<Longrightarrow> a_asset_ids a0 = None \<Longrightarrow> a_cover_id a0 = ''''"
  shows "albums_inv c'"
proof (cases "prepare_album e a0")
  case (Inl err)
  with inv save show ?thesis by (simp add: SaveAlbum_def)
next
  case (Inr p)
  then obtain a e' where p: "prepare_album e a0 = Inr (a, e')" by (cases p) auto
  note q = prepare_album_Inr [OF p]
  from p save have "store_album e' (a_id a0 = '''') a c = (r, c')" by (simp add: SaveAlbum_def)
  then show ?thesis
  proof (cases rule: store_album_cases)
    case refused
    with inv show ?thesis by simp
  next
    case (replaced i g res)
    note k = find_index_Some [OF replaced(1)]
    then have mem: "c_albums c ! i \<in> set (c_albums c)" by simp
    with inv have old: "album_ok (c_albums c ! i)" by (auto simp: albums_inv_def albums_ok_def)
    note g = replace_album_Inr [OF replaced(2)]
    have "album_ok g"
      using g(1,3-5,7) old q(2,3) u64_succ_nonzero
      by (auto simp: album_ok_def ids_of_Some split: option.splits)
    then have "albums_ok ((cloneAlbums (c_albums c))[i := cloneAlbum g])"
      using inv k g(1) by (intro albums_ok_update) (auto simp: albums_inv_def)
    moreover have "a_parent_id g \<in> insert '''' (cf_id ` set (cs_folders (c_collections c)))"
      using g(6) checked_parent [OF replaced(3)] inv mem
      by (auto simp: albums_inv_def collections_ok_def split: if_splits)
    ultimately show ?thesis
      using saved_albums_inv [OF inv _ replaced(5)] updated_parents [OF inv] by blast
  next
    case (created res)
    let ?g = "a\<lparr>a_parent_set := False\<rparr>"
    have "cover_ok ?g"
      using q(7,8,11) cover created(1) by (cases "a_asset_ids a") (auto simp: cover_ok_def)
    then have "album_ok ?g" using q(2,3,9) created(1) by (auto simp: album_ok_def cover_ok_def)
    moreover have "find_index (\<lambda>old. a_id old = a_id ?g) (c_albums c) = None" using created(2) by simp
    ultimately have ok: "albums_ok (cloneAlbums (c_albums c) @ [cloneAlbum ?g])"
      using inv albums_ok_append unfolding albums_inv_def by blast
    have "\<forall>b \<in> set (cloneAlbums (c_albums c) @ [cloneAlbum ?g]).
        a_parent_id b \<in> insert '''' (cf_id ` set (cs_folders (c_collections c)))"
      using cloned_parents [OF inv] checked_parent [OF created(3)] by auto
    with saved_albums_inv [OF inv ok created(5)] show ?thesis by blast
  qed
qed

lemma DeleteAlbum_inv:
  assumes inv: "albums_inv c" and del: "DeleteAlbum e i revn c = (r, c')"
  shows "albums_inv c'"
proof -
  consider "c' = c" | k where
    "save_albums e (cloneAlbums (take k (c_albums c)) @ cloneAlbums (drop (Suc k) (c_albums c))) c = (r, c')"
    using del by (auto simp: DeleteAlbum_def split: option.splits if_splits)
  then show ?thesis
  proof cases
    case 1
    with inv show ?thesis by simp
  next
    case 2
    have "set (cloneAlbums (take k (c_albums c)) @ cloneAlbums (drop (Suc k) (c_albums c)))
        \<subseteq> set (cloneAlbums (c_albums c))"
      by (auto simp: cloneAlbums_def dest: in_set_takeD in_set_dropD)
    with cloned_parents [OF inv]
    have "\<forall>a \<in> set (cloneAlbums (take k (c_albums c)) @ cloneAlbums (drop (Suc k) (c_albums c))).
        a_parent_id a \<in> insert '''' (cf_id ` set (cs_folders (c_collections c)))" by blast
    moreover have "albums_ok (cloneAlbums (take k (c_albums c)) @ cloneAlbums (drop (Suc k) (c_albums c)))"
      using inv albums_ok_remove by (simp add: albums_inv_def)
    ultimately show ?thesis using saved_albums_inv [OF inv _ 2] by blast
  qed
qed

lemma ChangeAlbumMembers_inv:
  assumes inv: "albums_inv c" and ch: "ChangeAlbumMembers e i revn add remove c = (r, c')"
  shows "albums_inv c'"
  using ch
proof (cases rule: ChangeAlbumMembers_cases)
  case refused
  with inv show ?thesis by simp
next
  case (changed k m g res)
  note k = find_index_Some [OF changed(1)]
  then have mem: "c_albums c ! k \<in> set (c_albums c)" by simp
  with inv have old: "album_ok (c_albums c ! k)" by (auto simp: albums_inv_def albums_ok_def)
  then have "member_ids_ok (filter (\<lambda>x. x \<notin> set remove) (ids_of (a_asset_ids (c_albums c ! k))))"
    by (auto simp: album_ok_def member_ids_ok_def)
  note m = add_members_Inr [OF changed(4) this]
  have "cover_ok g"
    unfolding changed(5)
    by (rule changed_album_cover) (use old m in \<open>auto simp: album_ok_def member_ids_ok_def\<close>)
  then have "album_ok g"
    using old m(1) changed(2,3) u64_succ_nonzero by (auto simp: album_ok_def changed(5) ids_of_Some)
  then have "albums_ok ((cloneAlbums (c_albums c))[k := cloneAlbum g])"
    using inv k by (intro albums_ok_update) (auto simp: albums_inv_def changed(5))
  moreover have "a_parent_id g \<in> insert '''' (cf_id ` set (cs_folders (c_collections c)))"
    using inv mem by (auto simp: changed(5) albums_inv_def collections_ok_def)
  ultimately show ?thesis
    using saved_albums_inv [OF inv _ changed(6)] updated_parents [OF inv] by blast
qed

end
