(* ===== verification/Paths.thy ===== *)
theory Paths
  imports Go_Lib
begin

text \<open>
  The walk from a path to its ancestors with \<open>path.Dir\<close>, as the loops
  \<open>for p := path.Dir(name); p != "."; p = path.Dir(p)\<close> of \<^verbatim>\<open>backup_cas.go\<close> and \<^verbatim>\<open>relocate.go\<close> take it. On
  the paths the catalog stores (relative, no empty, \<open>"."\<close> or \<open>".."\<close> component) the walk ends and
  visits exactly the proper ancestors.
\<close>

abbreviation slash :: char where
  "slash \<equiv> CHR ''/''"

definition plain_part :: "string \<Rightarrow> bool" where
  "plain_part p \<longleftrightarrow> p \<noteq> '''' \<and> p \<noteq> ''.'' \<and> p \<noteq> ''..''"

definition plain_path :: "string \<Rightarrow> bool" where
  "plain_path p \<longleftrightarrow> (\<forall>part \<in> set (split_on slash p). plain_part part)"

lemma split_on_append: "split_on c (a @ c # b) = split_on c a @ split_on c b"
proof (induction a)
  case Nil
  then show ?case by simp
next
  case (Cons x a)
  obtain p ps where "split_on c a = p # ps" by (cases "split_on c a") auto
  with Cons show ?case by simp
qed

lemma split_on_id: "c \<notin> set p \<Longrightarrow> split_on c p = [p]"
  by (induction p) auto

lemma split_join: "ps \<noteq> [] \<Longrightarrow> \<forall>p \<in> set ps. c \<notin> set p \<Longrightarrow> split_on c (join_with c ps) = ps"
proof (induction ps rule: induct_list012)
  case (3 p q ps)
  then show ?case by (simp add: split_on_append split_on_id)
qed (simp_all add: split_on_id)

lemma join_snoc: "ps \<noteq> [] \<Longrightarrow> join_with c (ps @ [p]) = join_with c ps @ c # p"
proof (induction ps)
  case (Cons q ps)
  then show ?case by (cases ps) simp_all
qed simp

text \<open>The ancestors of a path are the joins of the proper prefixes of its components.\<close>

lemma under_split: "under q p \<Longrightarrow> \<exists>rest. rest \<noteq> [] \<and> split_on slash p = split_on slash q @ rest"
proof -
  assume "under q p"
  then obtain s where "p = q @ slash # s" by (auto simp: under_alt)
  then have "split_on slash p = split_on slash q @ split_on slash s" by (simp add: split_on_append)
  then show ?thesis by (intro exI [of _ "split_on slash s"]) simp
qed

lemma plain_dir:
  assumes "plain_path p"
  shows "path_dir p = (if length (split_on slash p) = 1 then ''.'' else join_with slash (butlast (split_on slash p)))"
proof -
  let ?ps = "split_on slash p"
  define ds where "ds = butlast ?ps"
  define l where "l = last ?ps"
  have ps: "?ps = ds @ [l]" by (simp add: ds_def l_def)
  have parts: "\<forall>x \<in> set ?ps. slash \<notin> set x \<and> plain_part x"
    using assms split_on_no_sep by (auto simp: plain_path_def)
  have p: "p = join_with slash (ds @ [l])" by (metis join_split ps)
  have l: "slash \<notin> set l" using parts ps by auto
  have strip: "rev (dropWhile (\<lambda>c. c \<noteq> slash) (rev p)) = (if ds = [] then '''' else join_with slash ds @ [slash])"
  proof (cases "ds = []")
    case True
    with p l show ?thesis by (auto simp: dropWhile_eq_Nil_conv)
  next
    case False
    then have "rev p = rev l @ slash # rev (join_with slash ds)" by (simp add: p join_snoc)
    moreover have "dropWhile (\<lambda>c. c \<noteq> slash) (rev l @ slash # rev (join_with slash ds))
        = slash # rev (join_with slash ds)"
      using l by (subst dropWhile_append3) (auto simp: dropWhile_append)
    ultimately show ?thesis using False by simp
  qed
  have fold: "foldl (clean_step r) out ds = rev ds @ out" for r out
    using parts unfolding ps
  proof (induction ds arbitrary: out)
    case (Cons d ds)
    then have "clean_step r out d = d # out" by (simp add: plain_part_def)
    with Cons show ?case by simp
  qed simp
  show ?thesis
  proof (cases "ds = []")
    case True
    have "path_dir p = path_clean ''''" by (simp add: path_dir_def strip True)
    then show ?thesis using ps True by (simp add: path_clean_def path_is_abs_def Let_def)
  next
    case False
    then obtain d ds' where d: "ds = d # ds'" by (cases ds) auto
    with parts ps have "plain_part d" "slash \<notin> set d" by auto
    then obtain x xs where x: "d = x # xs" "x \<noteq> slash" by (cases d) (auto simp: plain_part_def)
    have ne: "\<not> path_is_abs (join_with slash ds @ [slash])"
      using x d by (cases ds') (simp_all add: path_is_abs_def)
    have "split_on slash (join_with slash ds @ [slash]) = ds @ [[]]"
      using split_on_append [of slash "join_with slash ds" "[]"] split_join [OF False] parts ps by auto
    then have f: "foldl (clean_step r) [] (split_on slash (join_with slash ds @ [slash])) = rev ds" for r
      by (simp add: fold)
    have jn: "join_with slash ds \<noteq> ''''" using d x by (cases ds') auto
    have dir: "path_dir p = path_clean (join_with slash ds @ [slash])"
      unfolding path_dir_def strip using False by simp
    have "path_dir p = join_with slash ds"
      unfolding dir path_clean_def Let_def f rev_rev_ident using ne jn by simp
    moreover have "length ?ps \<noteq> 1" using False by (simp add: ps)
    ultimately show ?thesis by (simp add: ds_def)
  qed
qed

section \<open>The walk\<close>

text \<open>
  \<open>None\<close>: the fuel ran out; \<open>Some None\<close>: every ancestor passed the test; \<open>Some (Some p)\<close>: the
  first ancestor that failed it.
\<close>

fun parents_walk :: "(string \<Rightarrow> bool) \<Rightarrow> nat \<Rightarrow> string \<Rightarrow> string option option" where
  "parents_walk test 0 p = None"
| "parents_walk test (Suc fuel) p =
     (if p = ''.'' then Some None
      else if \<not> test p then Some (Some p)
      else parents_walk test fuel (path_dir p))"

definition check_ancestors :: "(string \<Rightarrow> bool) \<Rightarrow> string \<Rightarrow> string option option" where
  "check_ancestors test p = parents_walk test (length p + 2) (path_dir p)"

lemma split_length: "length (split_on c p) \<le> Suc (length p)"
proof (induction p)
  case Nil
  then show ?case by simp
next
  case (Cons x p)
  obtain q qs where "split_on c p = q # qs" by (cases "split_on c p") auto
  with Cons show ?case by simp
qed

lemma plain_not_dot: "plain_path p \<Longrightarrow> p \<noteq> ''.''"
proof
  assume "plain_path p" "p = ''.''"
  moreover have "split_on slash ''.'' = [''.'']" by (rule split_on_id) simp
  ultimately show False by (simp add: plain_path_def plain_part_def)
qed

lemma plain_prefix:
  assumes "plain_path p" "split_on slash p = as @ bs" "as \<noteq> []"
  shows "plain_path (join_with slash as)" "split_on slash (join_with slash as) = as"
proof -
  have "\<forall>x \<in> set as. slash \<notin> set x" using assms(2) split_on_no_sep [of _ slash p] by auto
  from split_join [OF assms(3) this] show s: "split_on slash (join_with slash as) = as" .
  show "plain_path (join_with slash as)" using assms(1,2) by (auto simp: plain_path_def s)
qed

lemma parents_walk_plain:
  assumes "plain_path p" "length (split_on slash p) < fuel"
  shows "\<exists>r. parents_walk test fuel p = Some r
     \<and> (r = None \<longleftrightarrow> (\<forall>k. 0 < k \<and> k \<le> length (split_on slash p) \<longrightarrow> test (join_with slash (take k (split_on slash p)))))"
  using assms
proof (induction fuel arbitrary: p)
  case 0
  then show ?case by simp
next
  case (Suc fuel)
  let ?ps = "split_on slash p"
  have nd: "p \<noteq> ''.''" by (rule plain_not_dot [OF Suc.prems(1)])
  have all: "join_with slash (take (length ?ps) ?ps) = p" by simp
  show ?case
  proof (cases "test p")
    case False
    then have "\<exists>k. 0 < k \<and> k \<le> length ?ps \<and> \<not> test (join_with slash (take k ?ps))"
      using all by (intro exI [of _ "length ?ps"]) auto
    with nd False show ?thesis by auto
  next
    case True
    show ?thesis
    proof (cases "length ?ps = 1")
      case one: True
      with Suc.prems obtain n where n: "fuel = Suc n" by (cases fuel) auto
      have "path_dir p = ''.''" using plain_dir [OF Suc.prems(1)] one by simp
      moreover have "\<forall>k. 0 < k \<and> k \<le> length ?ps \<longrightarrow> test (join_with slash (take k ?ps))"
        using one True all by (auto simp: le_Suc_eq)
      ultimately show ?thesis using nd True n by simp
    next
      case False
      then have "1 < length ?ps" by (cases ?ps) auto
      then have ne: "butlast ?ps \<noteq> []" by (cases ?ps) (auto split: if_splits)
      let ?q = "join_with slash (butlast ?ps)"
      have sp: "?ps = butlast ?ps @ [last ?ps]" by simp
      note q = plain_prefix [OF Suc.prems(1) sp ne]
      have "length (split_on slash ?q) = length ?ps - 1" by (simp only: q(2) length_butlast)
      then have "length (split_on slash ?q) < fuel" using Suc.prems(2) \<open>1 < length ?ps\<close> by linarith
      from Suc.IH [OF q(1) this] obtain r where
        r: "parents_walk test fuel ?q = Some r"
        "r = None \<longleftrightarrow> (\<forall>k. 0 < k \<and> k \<le> length ?ps - 1 \<longrightarrow> test (join_with slash (take k (butlast ?ps))))"
        by (auto simp: q(2))
      have take_eq: "take k (butlast ?ps) = take k ?ps" if "k \<le> length ?ps - 1" for k
        using that by (simp add: butlast_conv_take min_def)
      have "r = None \<longleftrightarrow> (\<forall>k. 0 < k \<and> k \<le> length ?ps - 1 \<longrightarrow> test (join_with slash (take k ?ps)))"
        unfolding r(2) using take_eq by simp
      moreover have "(\<forall>k. 0 < k \<and> k \<le> length ?ps \<longrightarrow> Q k)
          \<longleftrightarrow> (\<forall>k. 0 < k \<and> k \<le> length ?ps - 1 \<longrightarrow> Q k) \<and> Q (length ?ps)" for Q
      proof -
        obtain n where n: "length ?ps = Suc n" using \<open>1 < length ?ps\<close> by (cases "length ?ps") auto
        show ?thesis unfolding n by (auto simp: le_Suc_eq)
      qed
      ultimately have "r = None \<longleftrightarrow> (\<forall>k. 0 < k \<and> k \<le> length ?ps \<longrightarrow> test (join_with slash (take k ?ps)))"
        using True all by simp
      with nd True r(1) plain_dir [OF Suc.prems(1)] False show ?thesis by simp
    qed
  qed
qed

text \<open>The walk ends, and accepts when and only when every proper ancestor passes the test.\<close>

lemma check_ancestors_plain:
  assumes "plain_path p"
  shows "\<exists>r. check_ancestors test p = Some r \<and> (r = None \<longleftrightarrow> (\<forall>q. under q p \<longrightarrow> test q))"
proof (cases "length (split_on slash p) = 1")
  case True
  have "\<not> under q p" for q
  proof
    assume "under q p"
    from under_split [OF this] True show False
      by (metis append_is_Nil_conv length_append length_greater_0_conv less_one
          nat_less_le not_less not_one_le_zero add_eq_self_zero split_on_neq le_add1 One_nat_def add_is_1)
  qed
  with True plain_dir [OF assms] show ?thesis by (simp add: check_ancestors_def)
next
  case False
  let ?ps = "split_on slash p"
  have "1 < length ?ps" using False by (cases ?ps) auto
  then have ne: "butlast ?ps \<noteq> []" by (cases ?ps) (auto split: if_splits)
  let ?q = "join_with slash (butlast ?ps)"
  have sp: "?ps = butlast ?ps @ [last ?ps]" by simp
  note q = plain_prefix [OF assms sp ne]
  have "length (split_on slash ?q) < length p + 2"
    using split_length [of slash p] q(2) by simp
  from parents_walk_plain [OF q(1) this, of test] obtain r where
    r: "parents_walk test (length p + 2) ?q = Some r"
    "r = None \<longleftrightarrow> (\<forall>k. 0 < k \<and> k \<le> length ?ps - 1 \<longrightarrow> test (join_with slash (take k (butlast ?ps))))"
    by (auto simp: q(2))
  have anc: "under q' p \<longleftrightarrow> (\<exists>k. 0 < k \<and> k \<le> length ?ps - 1 \<and> q' = join_with slash (take k (butlast ?ps)))" for q'
  proof
    assume "under q' p"
    from under_split [OF this] obtain rest where rest: "rest \<noteq> []" "?ps = split_on slash q' @ rest" by blast
    let ?k = "length (split_on slash q')"
    have k: "?k \<le> length ?ps - 1" using rest by (cases rest) auto
    then have "take ?k (butlast ?ps) = split_on slash q'"
      using rest by (simp add: butlast_conv_take min_def)
    then have "q' = join_with slash (take ?k (butlast ?ps))" by simp
    with k show "\<exists>k. 0 < k \<and> k \<le> length ?ps - 1 \<and> q' = join_with slash (take k (butlast ?ps))"
      by (intro exI [of _ ?k]) simp
  next
    assume "\<exists>k. 0 < k \<and> k \<le> length ?ps - 1 \<and> q' = join_with slash (take k (butlast ?ps))"
    then obtain k where k: "0 < k" "k \<le> length ?ps - 1" "q' = join_with slash (take k ?ps)"
      by (auto simp: butlast_conv_take min_def)
    have "drop k ?ps \<noteq> []" using k \<open>1 < length ?ps\<close> by simp
    moreover have "take k ?ps \<noteq> []" using k by simp
    moreover have "join_with slash (as @ bs) = join_with slash as @ slash # join_with slash bs"
      if "as \<noteq> []" "bs \<noteq> []" for as bs
      using that(1)
    proof (induction as)
      case (Cons a as)
      then show ?case using that(2) by (cases as) (auto simp: join_with_Cons)
    qed simp
    ultimately have "p = q' @ slash # join_with slash (drop k ?ps)"
      unfolding k(3) by (metis append_take_drop_id join_split)
    then show "under q' p" unfolding under_alt by (intro exI [of _ "join_with slash (drop k ?ps)"]) simp
  qed
  have "r = None \<longleftrightarrow> (\<forall>q. under q p \<longrightarrow> test q)"
    unfolding r(2) anc by blast
  with r(1) plain_dir [OF assms] False show ?thesis by (simp add: check_ancestors_def)
qed

section \<open>Clean relative paths are plain\<close>

lemma clean_fold:
  assumes "\<forall>x \<in> set xs. slash \<notin> set x" "\<forall>p \<in> set ps0. plain_part p"
  shows "\<exists>ps k. foldl (clean_step False) (rev ps0 @ replicate k0 ''..'') xs = rev ps @ replicate k ''..''
     \<and> (\<forall>p \<in> set ps. plain_part p \<and> (slash \<notin> set p \<or> p \<in> set ps0))"
  using assms
proof (induction xs arbitrary: ps0 k0)
  case Nil
  then show ?case by (intro exI [of _ ps0] exI [of _ k0]) auto
next
  case (Cons x xs)
  have "\<exists>ps1 k1. clean_step False (rev ps0 @ replicate k0 ''..'') x = rev ps1 @ replicate k1 ''..''
      \<and> (\<forall>p \<in> set ps1. plain_part p \<and> (slash \<notin> set p \<or> p \<in> set ps0))"
  proof (cases "x = '''' \<or> x = ''.''")
    case True
    with Cons.prems show ?thesis by (intro exI [of _ ps0] exI [of _ k0]) auto
  next
    case ndot: False
    show ?thesis
    proof (cases "x = ''..''")
      case False
      with ndot Cons.prems show ?thesis
        by (intro exI [of _ "ps0 @ [x]"] exI [of _ k0]) (auto simp: plain_part_def)
    next
      case True
      show ?thesis
      proof (cases "ps0 = []")
        case True
        with \<open>x = ''..''\<close> show ?thesis
          by (intro exI [of _ "[]"] exI [of _ "Suc k0"]) (cases k0; simp)
      next
        case False
        then obtain qs q where q: "ps0 = qs @ [q]" by (cases ps0 rule: rev_cases) auto
        with Cons.prems(2) have "q \<noteq> ''..''" by (auto simp: plain_part_def)
        with \<open>x = ''..''\<close> q Cons.prems show ?thesis
          by (intro exI [of _ qs] exI [of _ k0]) auto
      qed
    qed
  qed
  then obtain ps1 k1 where s: "clean_step False (rev ps0 @ replicate k0 ''..'') x = rev ps1 @ replicate k1 ''..''"
    "\<forall>p \<in> set ps1. plain_part p \<and> (slash \<notin> set p \<or> p \<in> set ps0)" by blast
  have "\<forall>x \<in> set xs. slash \<notin> set x" "\<forall>p \<in> set ps1. plain_part p" using Cons.prems(1) s(2) by auto
  from Cons.IH [OF this, of k1] obtain ps k where
    f: "foldl (clean_step False) (rev ps1 @ replicate k1 ''..'') xs = rev ps @ replicate k ''..''"
    "\<forall>p \<in> set ps. plain_part p \<and> (slash \<notin> set p \<or> p \<in> set ps1)" by blast
  have "foldl (clean_step False) (rev ps0 @ replicate k0 ''..'') (x # xs) = rev ps @ replicate k ''..''"
    unfolding foldl_Cons s(1) by (rule f(1))
  moreover have "\<forall>p \<in> set ps. plain_part p \<and> (slash \<notin> set p \<or> p \<in> set ps0)"
    using f(2) s(2) by blast
  ultimately show ?case by blast
qed

lemma clean_relative_plain:
  assumes clean: "path_clean t = t" and rel: "\<not> path_is_abs t"
    and t: "t \<noteq> ''''" "t \<noteq> ''.''" "t \<noteq> ''..''" "\<not> prefix ''../'' t"
  shows "plain_path t"
proof -
  have "\<forall>x \<in> set (split_on slash t). slash \<notin> set x" using split_on_no_sep by blast
  from clean_fold [OF this, of "[]" 0] obtain ps k where
    f: "foldl (clean_step False) [] (split_on slash t) = rev ps @ replicate k ''..''"
    and ps: "\<forall>p \<in> set ps. plain_part p \<and> slash \<notin> set p" by auto
  let ?parts = "replicate k ''..'' @ ps"
  have "t = (if join_with slash ?parts = '''' then ''.'' else join_with slash ?parts)"
    using clean unfolding path_clean_def Let_def by (simp only: rel if_False f rev_append rev_replicate rev_rev_ident)
  with t(2) have tj: "t = join_with slash ?parts" by (auto split: if_splits)
  have "k = 0"
  proof (rule ccontr)
    assume "k \<noteq> 0"
    then obtain n where "k = Suc n" by (cases k) auto
    then have "t = ''..'' \<or> prefix ''../'' t"
      unfolding tj by (cases "replicate n ''..'' @ ps") auto
    with t show False by blast
  qed
  with tj have "t = join_with slash ps" by simp
  moreover have "ps \<noteq> []" using t(1) calculation by auto
  ultimately have "split_on slash t = ps" using split_join ps by simp
  with ps show ?thesis by (simp add: plain_path_def)
qed

end
