(* ===== verification/Publishing.thy ===== *)
theory Publishing
  imports Metadata Albums Paths
begin

text \<open>
  Operations that publish a whole plan or collection in one save: \<^verbatim>\<open>backup_cas.go\<close> (a compare and
  swap over folders and files), \<^verbatim>\<open>relocate.go\<close> (offline renaming by a mapping), \<^verbatim>\<open>reset_photos.go\<close>
  (a new epoch without photos), \<^verbatim>\<open>photo_duplicates.go\<close> (the preferred copy), and the streaming
  snapshot of \<^verbatim>\<open>mobile_files.go\<close>.
\<close>

section \<open>Backup plans\<close>

record backup_mutation =
  bm_guards :: "file_row list"
  bm_absent :: "string list"
  bm_files :: "file_row list"

definition guard_holds :: "file_row list \<Rightarrow> file_row \<Rightarrow> bool" where
  "guard_holds fs guard \<longleftrightarrow> (\<exists>f \<in> set fs. f_entry_id f = f_entry_id guard \<and> f_present f
     \<and> f_revision f = f_revision guard \<and> f_path f = f_path guard \<and> f_folder f = f_folder guard)"

definition checkBackupLocked :: "backup_mutation \<Rightarrow> file_row list \<Rightarrow> catalog_error option" where
  "checkBackupLocked plan fs =
     (if \<exists>g \<in> set (bm_guards plan). \<not> guard_holds fs g then Some ErrRevisionMismatch
      else if \<exists>p \<in> set (bm_absent plan). \<exists>f \<in> set fs. f_present f \<and> f_path f = p then Some ErrConflict
      else None)"

definition CheckBackup :: "backup_mutation \<Rightarrow> catalog \<Rightarrow> catalog_error option" where
  "CheckBackup plan c = checkBackupLocked plan (c_files c)"

text \<open>\<open>guarded[id]\<close>: the last guard with the identity.\<close>

definition guarded :: "backup_mutation \<Rightarrow> (string \<rightharpoonup> file_row)" where
  "guarded plan = index_by f_entry_id (bm_guards plan)"

definition backup_file :: "backup_mutation \<Rightarrow> file_row \<Rightarrow> file_row list \<Rightarrow> catalog_error + file_row list" where
  "backup_file plan f next =
     (if f_entry_id f = '''' \<or> \<not> f_present f \<or> f_deleted_at f \<noteq> None \<or> f_revision f = 0
      then Inl ErrRevisionMismatch
      else case validateReference f of
        Some err \<Rightarrow> Inl err
      | None \<Rightarrow>
          (case find_index (\<lambda>old. f_entry_id old = f_entry_id f) next of
             Some i \<Rightarrow>
               (case guarded plan (f_entry_id f) of
                  None \<Rightarrow> Inl ErrRevisionMismatch
                | Some old \<Rightarrow>
                    if f_revision old = max_u64 \<or> f_revision f \<noteq> f_revision old + 1
                       \<or> f_folder f \<noteq> f_folder old
                    then Inl ErrRevisionMismatch else Inr (next[i := f]))
           | None \<Rightarrow>
               if f_revision f \<noteq> 1 \<or> f_path f \<notin> set (bm_absent plan) then Inl ErrRevisionMismatch
               else Inr (next @ [f])))"

fun backup_files :: "backup_mutation \<Rightarrow> file_row list \<Rightarrow> file_row list \<Rightarrow> catalog_error + file_row list" where
  "backup_files plan [] next = Inr next"
| "backup_files plan (f # fs) next = res_bind (backup_file plan f next) (backup_files plan fs)"

text \<open>
  The parent loop over every published file: \<open>None\<close> when one of the walks does not end, else whether
  all parents are live folders.
\<close>

fun backup_parents :: "(string \<Rightarrow> bool) \<Rightarrow> file_row list \<Rightarrow> bool option" where
  "backup_parents isf [] = Some True"
| "backup_parents isf (f # fs) =
     (case check_ancestors isf (f_path f) of
        None \<Rightarrow> None
      | Some (Some p) \<Rightarrow> Some False
      | Some None \<Rightarrow> backup_parents isf fs)"

definition moves_unguarded :: "backup_mutation \<Rightarrow> file_row list \<Rightarrow> bool" where
  "moves_unguarded plan fs \<longleftrightarrow>
     (\<exists>old \<in> set (bm_guards plan). f_folder old \<and>
        (\<exists>f \<in> set (bm_files plan). f_entry_id f = f_entry_id old \<and> f_path f \<noteq> f_path old \<and>
           (\<exists>child \<in> set fs. f_present child \<and> under (f_path old) (f_path child)
              \<and> guarded plan (f_entry_id child) = None)))"

definition live_folder :: "file_row list \<Rightarrow> string \<Rightarrow> bool" where
  "live_folder fs p \<longleftrightarrow> (case indexPaths fs p of Some f \<Rightarrow> f_folder f | None \<Rightarrow> False)"

text \<open>Every check of \<open>PublishBackup\<close>; \<open>None\<close>: a parent walk does not end.\<close>

definition backup_rows :: "backup_mutation \<Rightarrow> file_row list \<Rightarrow> (catalog_error + file_row list) option" where
  "backup_rows plan fs =
     (case checkBackupLocked plan fs of
        Some err \<Rightarrow> Some (Inl err)
      | None \<Rightarrow>
          (case backup_files plan (bm_files plan) fs of
             Inl err \<Rightarrow> Some (Inl err)
           | Inr next \<Rightarrow>
               if \<not> unique_live_paths next then Some (Inl ErrConflict)
               else case backup_parents (live_folder next) (bm_files plan) of
                 None \<Rightarrow> None
               | Some False \<Rightarrow> Some (Inl ErrConflict)
               | Some True \<Rightarrow>
                   if moves_unguarded plan fs then Some (Inl ErrRevisionMismatch) else Some (Inr next)))"

text \<open>
  \<open>dir_sync\<close> is the failure, if any, of syncing the catalog's directory once more after the save:
  the rows are already published then.
\<close>

definition PublishBackup ::
  "env \<Rightarrow> catalog_error option \<Rightarrow> backup_mutation \<Rightarrow> catalog \<Rightarrow> ((catalog_error + unit) \<times> catalog) option" where
  "PublishBackup e dir_sync plan c =
     map_option (\<lambda>r. case publish e r c of
         (Inl err, c') \<Rightarrow> (Inl err, c')
       | (Inr u, c') \<Rightarrow> (case dir_sync of Some err \<Rightarrow> (Inl err, c') | None \<Rightarrow> (Inr (), c')))
       (backup_rows plan (c_files c))"

definition BackupPublished :: "file_row list \<Rightarrow> catalog \<Rightarrow> bool" where
  "BackupPublished files c \<longleftrightarrow> files \<noteq> [] \<and>
     (\<forall>wanted \<in> set files. wanted \<in> set (c_files c)
        \<or> (\<exists>r \<in> set (j_records (c_journal c)). cr_file r = Some wanted))"

section \<open>Relocation\<close>

definition bad_target :: "string \<Rightarrow> bool" where
  "bad_target t \<longleftrightarrow> path_clean t \<noteq> t \<or> path_is_abs t \<or> t = ''.'' \<or> t = ''..'' \<or> prefix ''../'' t
     \<or> CHR 0x5C \<in> set t \<or> CHR 0x00 \<in> set t"

text \<open>
  One pass over the rows: the kept rows and the live rows already placed, by target. The text of an
  error is its first words.
\<close>

fun relocate_rows ::
  "(string \<rightharpoonup> string) \<Rightarrow> (string \<times> file_row) list \<Rightarrow> file_row list
   \<Rightarrow> catalog_error + file_row list \<times> (string \<times> file_row) list" where
  "relocate_rows m seen [] = Inr ([], seen)"
| "relocate_rows m seen (f # fs) =
     (let target = (case m (f_path f) of Some t \<Rightarrow> t | None \<Rightarrow> f_path f)
      in if target = '''' then
           (if \<not> f_folder f then Inl (ErrOther ''cannot remove file'') else relocate_rows m seen fs)
         else if bad_target target then Inl (ErrOther ''invalid destination'')
         else if f_present f \<and> map_of seen target \<noteq> None then Inl ErrConflict
         else
           (let seen' = (if f_present f then (target, f) # seen else seen)
            in if f_path f \<noteq> target \<and> f_revision f = max_u64 then Inl ErrRevisionOverflow
               else
                 (let g = (if f_path f \<noteq> target
                           then f\<lparr>f_path := target, f_revision := f_revision f + 1\<rparr> else f)
                  in res_bind (relocate_rows m seen' fs) (\<lambda>(next, seen''). Inr (g # next, seen'')))))"

fun relocate_parents :: "(string \<Rightarrow> bool) \<Rightarrow> string list \<Rightarrow> string option option" where
  "relocate_parents isf [] = Some None"
| "relocate_parents isf (n # ns) =
     (case check_ancestors isf n of
        None \<Rightarrow> None
      | Some (Some p) \<Rightarrow> Some (Some p)
      | Some None \<Rightarrow> relocate_parents isf ns)"

definition Relocate ::
  "env \<Rightarrow> (string \<rightharpoonup> string) \<Rightarrow> bool \<Rightarrow> catalog \<Rightarrow> ((catalog_error + unit) \<times> catalog) option" where
  "Relocate e m apply_it c =
     (case relocate_rows m [] (c_files c) of
        Inl err \<Rightarrow> Some (Inl err, c)
      | Inr (next, seen) \<Rightarrow>
          (case relocate_parents (\<lambda>p. case map_of seen p of Some f \<Rightarrow> f_folder f | None \<Rightarrow> False)
                  (map_order e (map fst seen)) of
             None \<Rightarrow> None
           | Some (Some p) \<Rightarrow> Some (Inl (ErrOther ''missing or nonfolder parent''), c)
           | Some None \<Rightarrow>
               if \<not> apply_it then Some (Inr (), c) else Some (commit_files e next c)))"

section \<open>Preferred duplicates\<close>

definition prefer_row :: "string \<Rightarrow> string list \<Rightarrow> file_row \<Rightarrow> file_row \<Rightarrow> catalog_error + file_row" where
  "prefer_row entry ids target f =
     (if f_entry_id f \<notin> set ids then Inr f
      else if \<not> f_present f \<or> f_folder f \<or> f_hash f = '''' \<or> f_hash f \<noteq> f_hash target then Inl ErrNotFound
      else if f_preferred f = (f_entry_id f = entry) then Inr f
      else if f_revision f = max_u64 then Inl ErrRevisionOverflow
      else Inr (f\<lparr>f_preferred := (f_entry_id f = entry), f_revision := f_revision f + 1\<rparr>))"

definition PreferPhoto ::
  "env \<Rightarrow> string \<Rightarrow> u64 \<Rightarrow> string list \<Rightarrow> catalog \<Rightarrow> (catalog_error + file_row list) \<times> catalog" where
  "PreferPhoto e entry revn ids c =
     (case List.find (\<lambda>f. f_entry_id f = entry \<and> f_present f \<and> \<not> f_folder f) (c_files c) of
        None \<Rightarrow> (Inl ErrNotFound, c)
      | Some target \<Rightarrow>
          if f_entry_id target = '''' \<or> entry \<notin> set ids then (Inl ErrNotFound, c)
          else if f_revision target \<noteq> revn then (Inl ErrRevisionMismatch, c)
          else case map_res (prefer_row entry ids target) (c_files c) of
            Inl err \<Rightarrow> (Inl err, c)
          | Inr next \<Rightarrow>
              (let changed = map snd (filter (\<lambda>(f, g). f_revision g \<noteq> f_revision f) (zip (c_files c) next))
               in if changed = [] then (Inr [], c)
                  else (case commit_files e next c of
                          (Inl err, c') \<Rightarrow> (Inl err, c')
                        | (Inr u, c') \<Rightarrow> (Inr changed, c'))))"

section \<open>Starting photos over\<close>

definition PhotoResetPath :: "string \<Rightarrow> bool" where
  "PhotoResetPath name \<longleftrightarrow> syncPhotoPath name \<or> name = ''.weazl-mobile-pending''
     \<or> prefix ''.weazl-mobile-pending/'' name"

text \<open>On a failed save every field that was replaced gets its old value back.\<close>

definition ResetPhotos :: "env \<Rightarrow> catalog \<Rightarrow> (catalog_error + file_row list) \<times> catalog" where
  "ResetPhotos e c =
     (let removed = filter (\<lambda>f. PhotoResetPath (f_path f)) (c_files c);
          kept = filter (\<lambda>f. \<not> PhotoResetPath (f_path f)) (c_files c);
          gone = map f_entry_id removed
      in if \<exists>f \<in> set kept. f_parent_id f \<in> set gone
             \<or> (\<exists>part \<in> set (f_components f). pc_asset_id part \<in> set gone)
         then (Inl ErrConflict, c)
         else
           (let c0 = c\<lparr>c_files := kept, c_albums := [], c_saved_albums := [],
                       c_collections := empty_collections, c_saved_collections := empty_collections,
                       c_journal := zero_journal, c_checkpoints := []\<rparr>
            in case saveFilesLocked e kept c0 of
                 (Inl err, c') \<Rightarrow>
                   (Inl err, c'\<lparr>c_files := c_files c, c_albums := c_albums c,
                      c_saved_albums := c_saved_albums c, c_collections := c_collections c,
                      c_saved_collections := c_saved_collections c, c_journal := c_journal c,
                      c_checkpoints := c_checkpoints c\<rparr>)
               | (Inr u, c') \<Rightarrow> (Inr removed, c')))"

section \<open>The snapshot of files for a device\<close>

definition MobileFilesMatch :: "string \<Rightarrow> string \<Rightarrow> bool" where
  "MobileFilesMatch name pre =
     (if prefix ''.weazl-'' name then False
      else pre = '''' \<or> name = pre \<or> under pre name)"

definition MobileFile :: "string \<Rightarrow> catalog \<Rightarrow> catalog_error + file_row" where
  "MobileFile entry c =
     (case List.find (\<lambda>f. f_entry_id f = entry \<and> f_present f \<and> MobileFilesMatch (f_path f) '''') (c_files c) of
        Some f \<Rightarrow> Inr f
      | None \<Rightarrow> Inl ErrNotFound)"

definition snapshot_step :: "string \<Rightarrow> string \<Rightarrow> nat \<Rightarrow> file_row list \<Rightarrow> file_row \<Rightarrow> file_row list" where
  "snapshot_step after pre limit rows f =
     (if \<not> f_present f \<or> f_entry_id f \<le> after \<or> \<not> MobileFilesMatch (f_path f) pre then rows
      else
        (let i = length (takeWhile (\<lambda>r. \<not> f_entry_id f < f_entry_id r) rows)
         in if limit < i then rows else take (Suc limit) (take i rows @ f # drop i rows)))"

definition MobileFilesSnapshot :: "string \<Rightarrow> string \<Rightarrow> int \<Rightarrow> catalog \<Rightarrow> file_row list \<times> bool" where
  "MobileFilesSnapshot after pre limit c =
     (let n = page_size limit; rows = foldl (snapshot_step after pre n) [] (c_files c)
      in if n < length rows then (take n rows, True) else (rows, False))"

section \<open>What a published plan satisfies\<close>

lemma backup_file_Inr:
  assumes "backup_file plan f next = Inr out"
  shows "f \<in> set out" "f_present f"
    and "g \<in> set next \<Longrightarrow> f_entry_id g \<noteq> f_entry_id f \<Longrightarrow> g \<in> set out"
    and "g \<in> set out \<Longrightarrow> g = f \<or> g \<in> set next"
proof -
  from assms have p: "f_present f" by (auto simp: backup_file_def split: if_splits)
  from assms p consider (new) "out = next @ [f]"
    | (old) i where "find_index (\<lambda>old. f_entry_id old = f_entry_id f) next = Some i" "out = next[i := f]"
    by (auto simp: backup_file_def split: if_splits option.splits)
  then have "f \<in> set out \<and> (g \<in> set next \<longrightarrow> f_entry_id g \<noteq> f_entry_id f \<longrightarrow> g \<in> set out)
      \<and> (g \<in> set out \<longrightarrow> g = f \<or> g \<in> set next)"
  proof cases
    case new
    then show ?thesis by auto
  next
    case old
    note i = find_index_Some [OF old(1)]
    have "g \<in> set out" if "g \<in> set next" "f_entry_id g \<noteq> f_entry_id f"
    proof -
      from that(1) obtain j where "j < length next" "next ! j = g" by (auto simp: in_set_conv_nth)
      moreover have "j \<noteq> i" using that(2) i \<open>next ! j = g\<close> by auto
      ultimately have "out ! j = g" "j < length out" by (simp_all add: old(2))
      then show ?thesis by (auto simp: in_set_conv_nth)
    qed
    with i old(2) show ?thesis by (auto simp: set_update_memI dest: in_set_update)
  qed
  with p show "f \<in> set out" "f_present f"
    "g \<in> set next \<Longrightarrow> f_entry_id g \<noteq> f_entry_id f \<Longrightarrow> g \<in> set out"
    "g \<in> set out \<Longrightarrow> g = f \<or> g \<in> set next" by blast+
qed

lemma backup_files_Inr:
  assumes "backup_files plan fs next = Inr out"
  shows "\<forall>g \<in> set next. f_entry_id g \<notin> f_entry_id ` set fs \<longrightarrow> g \<in> set out"
    and "distinct (map f_entry_id fs) \<longrightarrow> set fs \<subseteq> set out" and "\<forall>f \<in> set fs. f_present f"
  using assms
proof (induction fs arbitrary: "next")
  case Nil
  { case 1 then show ?case by simp }
  { case 2 then show ?case by simp }
  { case 3 then show ?case by simp }
next
  case (Cons f fs)
  have step: "\<exists>n1. backup_file plan f nx = Inr n1 \<and> backup_files plan fs n1 = Inr out"
    if "backup_files plan (f # fs) nx = Inr out" for nx
    using that by (auto simp: res_bind_Inr_iff)
  { case 1
    from step [OF 1] obtain n1 where n: "backup_file plan f next = Inr n1" "backup_files plan fs n1 = Inr out" by blast
    from Cons.IH(1) [OF n(2)] backup_file_Inr(3) [OF n(1)] show ?case by auto }
  { case 2
    from step [OF 2] obtain n1 where n: "backup_file plan f next = Inr n1" "backup_files plan fs n1 = Inr out" by blast
    from Cons.IH(1,2) [OF n(2)] backup_file_Inr(1) [OF n(1)] show ?case by auto }
  { case 3
    from step [OF 3] obtain n1 where n: "backup_file plan f next = Inr n1" "backup_files plan fs n1 = Inr out" by blast
    from Cons.IH(3) [OF n(2)] backup_file_Inr(2) [OF n(1)] show ?case by auto }
qed

lemma backup_parents_plain:
  assumes "\<forall>f \<in> set fs. plain_path (f_path f)"
  shows "\<exists>b. backup_parents isf fs = Some b
     \<and> (b \<longleftrightarrow> (\<forall>f \<in> set fs. \<forall>q. under q (f_path f) \<longrightarrow> isf q))"
  using assms
proof (induction fs)
  case Nil
  then show ?case by (intro exI [of _ True]) simp
next
  case (Cons f fs)
  then obtain b where b: "backup_parents isf fs = Some b"
    "b \<longleftrightarrow> (\<forall>f \<in> set fs. \<forall>q. under q (f_path f) \<longrightarrow> isf q)" by auto
  from check_ancestors_plain [of "f_path f" isf] Cons.prems obtain r where
    "check_ancestors isf (f_path f) = Some r" "r = None \<longleftrightarrow> (\<forall>q. under q (f_path f) \<longrightarrow> isf q)" by auto
  with b show ?case by (cases r) auto
qed

lemma backup_rows_Inr:
  assumes "backup_rows plan fs = Some (Inr nxt)"
  shows "checkBackupLocked plan fs = None" "backup_files plan (bm_files plan) fs = Inr nxt"
    and "unique_live_paths nxt" "backup_parents (live_folder nxt) (bm_files plan) = Some True"
    and "\<not> moves_unguarded plan fs"
  using assms by (auto simp: backup_rows_def split: option.splits sum.splits if_splits bool.splits)


section \<open>Relocation gives a proper tree\<close>

lemma relocate_rows_Inr:
  assumes "relocate_rows m seen fs = Inr (gs, seen')" "distinct (map fst seen)"
  shows "\<exists>new. seen' = rev new @ seen \<and> distinct (map fst seen')
     \<and> map fst new = map f_path (filter f_present gs) \<and> map (f_folder \<circ> snd) new = map f_folder (filter f_present gs)
     \<and> (\<forall>g \<in> set gs. plain_path (f_path g))
     \<and> (\<forall>g \<in> set gs. \<exists>f \<in> set fs. g = f \<or> (f_revision f \<noteq> max_u64
           \<and> g = f\<lparr>f_path := f_path g, f_revision := f_revision f + 1\<rparr>))"
  using assms
proof (induction fs arbitrary: seen gs)
  case Nil
  then show ?case by simp
next
  case (Cons f fs)
  define t where "t = (case m (f_path f) of Some t \<Rightarrow> t | None \<Rightarrow> f_path f)"
  show ?case
  proof (cases "t = ''''")
    case True
    with Cons.prems(1) have "relocate_rows m seen fs = Inr (gs, seen')"
      by (simp add: Let_def t_def [symmetric] split: if_splits)
    from Cons.IH [OF this Cons.prems(2)] show ?thesis by (auto 0 4)
  next
    case ne: False
    let ?seen = "if f_present f then (t, f) # seen else seen"
    let ?g = "if f_path f \<noteq> t then f\<lparr>f_path := t, f_revision := f_revision f + 1\<rparr> else f"
    from Cons.prems(1) ne obtain gs' where r: "\<not> bad_target t" "f_present f \<longrightarrow> map_of seen t = None"
      "f_path f \<noteq> t \<longrightarrow> f_revision f \<noteq> max_u64"
      "relocate_rows m ?seen fs = Inr (gs', seen')" "gs = ?g # gs'"
      unfolding relocate_rows.simps(2) t_def [symmetric] Let_def
      by (simp only: if_False) (auto simp: res_bind_Inr_iff split: if_splits)
    have d: "distinct (map fst ?seen)"
      using Cons.prems(2) r(2) by (auto simp: map_of_eq_None_iff)
    from Cons.IH [OF r(4) d] obtain new where new: "seen' = rev new @ ?seen" "distinct (map fst seen')"
      "map fst new = map f_path (filter f_present gs')"
      "map (f_folder \<circ> snd) new = map f_folder (filter f_present gs')"
      "\<forall>g \<in> set gs'. plain_path (f_path g)"
      "\<forall>g \<in> set gs'. \<exists>f \<in> set fs. g = f \<or> (f_revision f \<noteq> max_u64
           \<and> g = f\<lparr>f_path := f_path g, f_revision := f_revision f + 1\<rparr>)" by blast
    have g: "f_path ?g = t" "f_present ?g = f_present f" "f_folder ?g = f_folder f" by auto
    have pl: "plain_path t"
      using r(1) ne by (intro clean_relative_plain) (auto simp: bad_target_def)
    have gf: "?g = f \<or> (f_revision f \<noteq> max_u64 \<and> ?g = f\<lparr>f_path := f_path ?g, f_revision := f_revision f + 1\<rparr>)"
      using r(3) by auto
    let ?new = "if f_present f then (t, f) # new else new"
    have "seen' = rev ?new @ seen" using new(1) by simp
    moreover have "map fst ?new = map f_path (filter f_present gs)"
      using new(3) g r(5) by (cases "f_present f") simp_all
    moreover have "map (f_folder \<circ> snd) ?new = map f_folder (filter f_present gs)"
      using new(4) g r(5) by (cases "f_present f") simp_all
    moreover have "\<forall>g \<in> set gs. plain_path (f_path g)" using new(5) pl g(1) r(5) by auto
    moreover have "\<forall>g \<in> set gs. \<exists>f \<in> set (f # fs). g = f \<or> (f_revision f \<noteq> max_u64
           \<and> g = f\<lparr>f_path := f_path g, f_revision := f_revision f + 1\<rparr>)"
      unfolding r(5) using new(6) gf by (simp only: list.set ball_simps bex_simps) blast
    ultimately show ?thesis using new(2) by blast
  qed
qed

lemma relocate_parents_plain:
  assumes "\<forall>n \<in> set ns. plain_path n"
  shows "\<exists>r. relocate_parents isf ns = Some r \<and> (r = None \<longleftrightarrow> (\<forall>n \<in> set ns. \<forall>q. under q n \<longrightarrow> isf q))"
  using assms
proof (induction ns)
  case Nil
  then show ?case by simp
next
  case (Cons n ns)
  then obtain r where r: "relocate_parents isf ns = Some r"
    "r = None \<longleftrightarrow> (\<forall>n \<in> set ns. \<forall>q. under q n \<longrightarrow> isf q)" by auto
  from check_ancestors_plain [of n isf] Cons.prems obtain r' where
    "check_ancestors isf n = Some r'" "r' = None \<longleftrightarrow> (\<forall>q. under q n \<longrightarrow> isf q)" by auto
  with r show ?case by (cases r') auto
qed

text \<open>C24
  \<open>Relocate\<close> always returns, a dry run changes nothing, and an applied relocation leaves live paths
  unique, relative and clean, with every ancestor of a live path a live folder; rows keep everything
  but their path, and their revision moves when the path does.
\<close>

theorem relocation_tree:
  assumes fair: "fair_order e"
  shows "\<exists>r c'. Relocate e m apply_it c = Some (r, c') \<and> (\<not> apply_it \<longrightarrow> c' = c) \<and>
    (r = Inr () \<and> apply_it \<longrightarrow>
       unique_live_paths (c_files c')
       \<and> (\<forall>g \<in> set (c_files c'). plain_path (f_path g))
       \<and> (\<forall>g \<in> set (c_files c'). f_present g \<longrightarrow> (\<forall>q. under q (f_path g) \<longrightarrow> live_folder (c_files c') q))
       \<and> (\<forall>g \<in> set (c_files c'). \<exists>f \<in> set (c_files c). g = f \<or> (f_revision f \<noteq> max_u64
             \<and> g = f\<lparr>f_path := f_path g, f_revision := f_revision f + 1\<rparr>)))"
proof (cases "relocate_rows m [] (c_files c)")
  case (Inl err)
  then show ?thesis by (simp add: Relocate_def)
next
  case (Inr p)
  obtain gs seen where p: "relocate_rows m [] (c_files c) = Inr (gs, seen)" using Inr by (cases p) auto
  from relocate_rows_Inr [OF p] obtain new where new: "seen = rev new" "distinct (map fst seen)"
    "map fst new = map f_path (filter f_present gs)"
    "map (f_folder \<circ> snd) new = map f_folder (filter f_present gs)"
    "\<forall>g \<in> set gs. plain_path (f_path g)"
    "\<forall>g \<in> set gs. \<exists>f \<in> set (c_files c). g = f \<or> (f_revision f \<noteq> max_u64
         \<and> g = f\<lparr>f_path := f_path g, f_revision := f_revision f + 1\<rparr>)" by auto
  have u: "unique_live_paths gs"
    using new(1-3) by (simp add: unique_live_paths_def rev_map [symmetric])
  have ord: "set (map_order e (map fst seen)) = f_path ` {g \<in> set gs. f_present g}"
    using fair new(2) unfolding fair_order_def by (simp add: new(1,3) rev_map [symmetric])
  let ?isf = "\<lambda>p. case map_of seen p of Some f \<Rightarrow> f_folder f | None \<Rightarrow> False"
  have isf: "?isf q \<longleftrightarrow> live_folder gs q" for q
  proof -
    have len: "length new = length (filter f_present gs)" using new(3) by (metis length_map)
    have "map_of (rev new) = map_of new"
      using new(1,2) by (intro map_of_inject_set [THEN iffD2]) (auto simp: rev_map [symmetric])
    moreover have "(case map_of new q of Some f \<Rightarrow> f_folder f | None \<Rightarrow> False)
        \<longleftrightarrow> (\<exists>i < length new. fst (new ! i) = q \<and> f_folder (snd (new ! i)))"
    proof -
      have d: "distinct (map fst new)" using new(1,2) by (simp add: rev_map [symmetric])
      show ?thesis
      proof (cases "map_of new q")
        case None
        then have "q \<notin> fst ` set new" by (simp add: map_of_eq_None_iff)
        then have "\<not> (\<exists>i < length new. fst (new ! i) = q \<and> f_folder (snd (new ! i)))"
          by (metis image_eqI nth_mem)
        with None show ?thesis by simp
      next
        case (Some f)
        then have mem: "(q, f) \<in> set new" by (rule map_of_SomeD)
        have "snd (new ! i) = f" if "i < length new" "fst (new ! i) = q" for i
        proof -
          have "(q, snd (new ! i)) \<in> set new" using that by (metis nth_mem prod.collapse)
          with mem d show ?thesis by (metis eq_key_imp_eq_value)
        qed
        with Some mem show ?thesis by (auto simp: in_set_conv_nth)
      qed
    qed
    moreover have "(\<exists>i < length new. fst (new ! i) = q \<and> f_folder (snd (new ! i))) \<longleftrightarrow> live_folder gs q"
    proof -
      have n: "fst (new ! i) = f_path (filter f_present gs ! i)"
        "f_folder (snd (new ! i)) = f_folder (filter f_present gs ! i)" if "i < length new" for i
        using arg_cong [OF new(3), of "\<lambda>xs. xs ! i"] arg_cong [OF new(4), of "\<lambda>xs. xs ! i"] that len by auto
      have "(\<exists>i < length new. fst (new ! i) = q \<and> f_folder (snd (new ! i)))
          \<longleftrightarrow> (\<exists>i < length (filter f_present gs). f_path (filter f_present gs ! i) = q
                \<and> f_folder (filter f_present gs ! i))"
        unfolding len [symmetric] using n by (metis (no_types, lifting))
      also have "\<dots> \<longleftrightarrow> (\<exists>g \<in> set (filter f_present gs). f_path g = q \<and> f_folder g)"
        by (metis in_set_conv_nth)
      also have "\<dots> \<longleftrightarrow> live_folder gs q"
        using indexPaths_iff [OF u, of q]
        by (auto simp: live_folder_def indexPaths_None split: option.splits dest: unique_live_paths_D [OF u])
      finally show ?thesis .
    qed
    ultimately show ?thesis by (simp add: new(1))
  qed
  have plain: "\<forall>n \<in> set (map_order e (map fst seen)). plain_path n" using new(5) by (auto simp: ord)
  from relocate_parents_plain [OF plain, of ?isf] obtain r where
    r: "relocate_parents ?isf (map_order e (map fst seen)) = Some r"
    "r = None \<longleftrightarrow> (\<forall>g \<in> set gs. f_present g \<longrightarrow> (\<forall>q. under q (f_path g) \<longrightarrow> live_folder gs q))"
    by (auto simp: ord isf)
  show ?thesis
  proof (cases "r \<noteq> None \<or> \<not> apply_it")
    case True
    with p r(1) show ?thesis by (auto simp: Relocate_def split: option.splits)
  next
    case False
    obtain res c' where com: "commit_files e gs c = (res, c')" by fastforce
    with False p r(1) have "Relocate e m apply_it c = Some (res, c')" by (auto simp: Relocate_def)
    moreover have "c_files c' = gs" if "res = Inr ()" using com that commit_files_ok(1) by blast
    ultimately show ?thesis using u new(5,6) r(2) False by auto
  qed
qed

section \<open>The snapshot is the reference page\<close>

definition snapshot_rows :: "catalog \<times> string \<Rightarrow> file_row list" where
  "snapshot_rows s = sort_key f_entry_id
     (filter (\<lambda>f. f_present f \<and> MobileFilesMatch (f_path f) (snd s)) (c_files (fst s)))"

definition snapshot_ok :: "catalog \<times> string \<Rightarrow> bool" where
  "snapshot_ok s \<longleftrightarrow> distinct_ids (c_files (fst s))"

lemma takeWhile_take_drop: "take (length (takeWhile P xs)) xs = takeWhile P xs"
  "drop (length (takeWhile P xs)) xs = dropWhile P xs"
  by (simp_all add: takeWhile_eq_take [symmetric] dropWhile_eq_drop [symmetric])

lemma snapshot_selected:
  assumes "distinct_ids (c_files c)"
  shows "foldl (snapshot_step after pre n) [] (c_files c) =
    smallest f_entry_id (Suc n)
      (filter (\<lambda>f. f_present f \<and> after < f_entry_id f \<and> MobileFilesMatch (f_path f) pre) (c_files c))"
proof -
  let ?p = "\<lambda>f. f_present f \<and> after < f_entry_id f \<and> MobileFilesMatch (f_path f) pre"
  have "foldl (snapshot_step after pre n) rows fs = foldl (snapshot_step after pre n) rows (filter ?p fs)" for rows fs
    by (induction fs arbitrary: rows) (auto simp: snapshot_step_def not_le)
  moreover have "foldl (snapshot_step after pre n) [] (filter ?p (c_files c))
      = smallest f_entry_id (Suc n) (filter ?p (c_files c))"
  proof (rule smallest_stream)
    show "distinct (map f_entry_id (filter ?p (c_files c)))"
      using assms distinct_map_filterI by (auto simp: distinct_ids_def)
    fix seen x assume d: "distinct (map f_entry_id (x # seen))" and x: "x \<in> set (filter ?p (c_files c))"
    let ?rows = "smallest f_entry_id (Suc n) seen"
    have s: "sorted_wrt (\<lambda>x y. f_entry_id x < f_entry_id y) ?rows"
      using sort_key_strict [of f_entry_id seen] d by (simp add: smallest_def sorted_wrt_take)
    have nin: "f_entry_id x \<notin> f_entry_id ` set ?rows"
      using d by (auto simp: smallest_def dest: in_set_takeD)
    have len: "length ?rows \<le> Suc n" by (simp add: smallest_def)
    let ?tw = "takeWhile (\<lambda>y. \<not> f_entry_id x < f_entry_id y) ?rows"
    note ins = insort_at [OF s nin]
    have "snapshot_step after pre n ?rows x =
        (if n < length ?tw then ?rows else take (Suc n) (?tw @ x # dropWhile (\<lambda>y. \<not> f_entry_id x < f_entry_id y) ?rows))"
      using x by (auto simp: snapshot_step_def not_le takeWhile_take_drop Let_def)
    also have "\<dots> = take (Suc n) (insort_key f_entry_id x ?rows)"
    proof (cases "n < length ?tw")
      case True
      then have "length ?tw = length ?rows" using len length_takeWhile_le [of _ ?rows] by (metis Suc_leI le_antisym le_trans)
      then have "?tw = ?rows" by (metis take_all order_refl takeWhile_eq_take)
      then have "take (Suc n) (?tw @ x # dropWhile (\<lambda>y. \<not> f_entry_id x < f_entry_id y) ?rows) = ?rows"
      proof -
        have "take (Suc n) (as @ bs) = cs" if "as = cs" "n < length as" "length cs \<le> Suc n" for as bs cs :: "file_row list"
          using that by simp
        from this [OF \<open>?tw = ?rows\<close> True len] show ?thesis .
      qed
      with True show ?thesis unfolding ins by (simp only: if_True)
    next
      case False
      then show ?thesis unfolding ins by (simp only: if_False)
    qed
    finally show "snapshot_step after pre n ?rows x = take (Suc n) (insort_key f_entry_id x ?rows)" .
  qed
  ultimately show ?thesis by simp
qed

lemma filter_sort_key_above:
  "filter (\<lambda>f. after < f_entry_id f) (sort_key f_entry_id xs) = sort_key f_entry_id (filter (\<lambda>f. after < f_entry_id f) xs)"
  by (simp add: filter_sort)

interpretation mobile_snapshot: keyset_cursor snapshot_rows f_entry_id
  "\<lambda>s limit after. MobileFilesSnapshot after (snd s) limit (fst s)" snapshot_ok
proof
  show "sorted_wrt (\<lambda>x y. f_entry_id x < f_entry_id y) (snapshot_rows s)" if "snapshot_ok s" for s
    using that distinct_map_filterI unfolding snapshot_rows_def snapshot_ok_def distinct_ids_def
    by (intro sort_key_strict) blast
  show "MobileFilesSnapshot after (snd s) limit (fst s) =
      (take (page_size limit) (filter (\<lambda>x. after < f_entry_id x) (snapshot_rows s)),
       page_size limit < length (filter (\<lambda>x. after < f_entry_id x) (snapshot_rows s)))"
    if "snapshot_ok s" for s limit after
  proof -
    let ?xs = "filter (\<lambda>f. f_present f \<and> after < f_entry_id f \<and> MobileFilesMatch (f_path f) (snd s)) (c_files (fst s))"
    have "filter (\<lambda>x. after < f_entry_id x) (snapshot_rows s) = sort_key f_entry_id ?xs"
      unfolding snapshot_rows_def filter_sort_key_above filter_filter
      by (rule arg_cong [of _ _ "sort_key f_entry_id"]) (auto intro: filter_cong)
    moreover have "foldl (snapshot_step after (snd s) (page_size limit)) [] (c_files (fst s))
        = take (Suc (page_size limit)) (sort_key f_entry_id ?xs)"
      using snapshot_selected that by (simp add: snapshot_ok_def smallest_def)
    ultimately show ?thesis
      by (auto simp: MobileFilesSnapshot_def Let_def min_def)
  qed
qed

text \<open>
  The bounded insertion of \<open>MobileFilesSnapshot\<close> is the reference page: a device that follows its
  cursor receives every live file below the prefix exactly once, in identity order, whatever the page
  size, and no page holds more than 200 rows.
\<close>

lemma snapshot_complete:
  assumes "distinct_ids (c_files c)" "\<forall>f \<in> set (c_files c). f_entry_id f \<noteq> ''''"
    and "length (c_files c) < fuel"
  shows "read_pages fuel (\<lambda>after. MobileFilesSnapshot after pre limit c) f_entry_id ''''
      = sort_key f_entry_id (filter (\<lambda>f. f_present f \<and> MobileFilesMatch (f_path f) pre) (c_files c))
    \<and> length (fst (MobileFilesSnapshot after pre limit c)) \<le> 200"
proof -
  have ok: "snapshot_ok (c, pre)" using assms(1) by (simp add: snapshot_ok_def)
  have all: "filter (\<lambda>f. '''' < f_entry_id f) (snapshot_rows (c, pre)) = snapshot_rows (c, pre)"
    using assms(2) by (auto simp: snapshot_rows_def filter_id_conv neq_Nil_conv)
  have "length (snapshot_rows (c, pre)) \<le> length (c_files c)"
    by (simp add: snapshot_rows_def)
  then have "length (filter (\<lambda>f. '''' < f_entry_id f) (snapshot_rows (c, pre))) < fuel"
    using assms(3) by (simp add: all)
  from mobile_snapshot.read_all [OF ok this, where limit = limit]
    mobile_snapshot.page_bounded [OF ok, where limit = limit and after = after]
  show ?thesis by (simp add: all) (simp add: snapshot_rows_def)
qed

section \<open>One preferred copy\<close>

text \<open>
  \<open>PreferPhoto\<close> leaves exactly the chosen row preferred in the group it was given, touches no row
  outside the group, and every member of the group is a live file with the chosen row's contents.
\<close>

lemma preferred_unique:
  assumes "PreferPhoto e entry revn ids c = (Inr changed, c')"
  shows "\<exists>target \<in> set (c_files c). f_entry_id target = entry \<and> f_revision target = revn
     \<and> (\<forall>g \<in> set (c_files c'). f_entry_id g \<in> set ids \<longrightarrow>
          f_present g \<and> \<not> f_folder g \<and> f_hash g = f_hash target \<and> (f_preferred g \<longleftrightarrow> f_entry_id g = entry))
     \<and> list_all2 (\<lambda>f g. if f_entry_id f \<in> set ids then f_entry_id g = f_entry_id f \<and> f_path g = f_path f else g = f)
          (c_files c) (c_files c')"
proof -
  from assms obtain target where
    t: "List.find (\<lambda>f. f_entry_id f = entry \<and> f_present f \<and> \<not> f_folder f) (c_files c) = Some target"
    by (auto simp: PreferPhoto_def split: option.splits)
  have tm: "target \<in> set (c_files c)" "f_entry_id target = entry"
    using t by (auto simp: find_Some_iff)
  from assms t obtain nxt where n: "f_revision target = revn"
    "map_res (prefer_row entry ids target) (c_files c) = Inr nxt"
    by (auto simp: PreferPhoto_def split: if_splits sum.splits)
  define ch where "ch = map snd (filter (\<lambda>(f, g). f_revision g \<noteq> f_revision f) (zip (c_files c) nxt))"
  from assms t n have c: "(if ch = [] then (Inr [], c) else (case commit_files e nxt c of
        (Inl err, c') \<Rightarrow> (Inl err, c') | (Inr u, c') \<Rightarrow> (Inr ch, c'))) = (Inr changed, c')"
    unfolding ch_def by (simp add: PreferPhoto_def Let_def split: if_splits)
  have l: "list_all2 (\<lambda>f g. prefer_row entry ids target f = Inr g) (c_files c) nxt"
    using n(2) by (simp add: map_res_Inr_iff)
  have row: "if f_entry_id f \<in> set ids then f_entry_id g = f_entry_id f \<and> f_path g = f_path f
        \<and> f_present g \<and> \<not> f_folder g \<and> f_hash g = f_hash target \<and> (f_preferred g \<longleftrightarrow> f_entry_id g = entry)
        \<and> (f_revision g = f_revision f \<longrightarrow> g = f)
      else g = f" if "prefer_row entry ids target f = Inr g" for f g
    using that by (auto simp: prefer_row_def split: if_splits)
  have "c_files c' = nxt"
  proof (cases "ch = []")
    case True
    have "g = f" if "(f, g) \<in> set (zip (c_files c) nxt)" for f g
    proof -
      have "prefer_row entry ids target f = Inr g"
        using l that by (auto simp: list_all2_iff)
      from row [OF this] True that show ?thesis
        by (auto simp: ch_def filter_empty_conv split: if_splits)
    qed
    moreover have len: "length nxt = length (c_files c)" using l by (simp add: list_all2_lengthD)
    ultimately have "nxt ! k = c_files c ! k" if "k < length nxt" for k
      using that by (metis in_set_zip fst_conv snd_conv)
    then have "nxt = c_files c" by (intro nth_equalityI) (simp_all add: len)
    with True c show ?thesis by simp
  next
    case False
    with c have "commit_files e nxt c = (Inr (), c')" by (simp add: commit_value_Inr)
    then show ?thesis by (rule commit_files_ok(1))
  qed
  moreover have "f_entry_id g \<in> set ids \<longrightarrow>
          f_present g \<and> \<not> f_folder g \<and> f_hash g = f_hash target \<and> (f_preferred g \<longleftrightarrow> f_entry_id g = entry)"
    if "g \<in> set nxt" for g
  proof -
    from map_res_source [OF n(2) that] obtain f where "prefer_row entry ids target f = Inr g" by blast
    from row [OF this] show ?thesis by (auto split: if_splits)
  qed
  moreover have "list_all2 (\<lambda>f g. if f_entry_id f \<in> set ids then f_entry_id g = f_entry_id f \<and> f_path g = f_path f
      else g = f) (c_files c) nxt"
    by (rule list_all2_mono [OF l]) (use row in \<open>auto split: if_splits\<close>)
  ultimately show ?thesis using tm n(1) by (intro bexI [of _ target]) auto
qed

section \<open>A new epoch\<close>

lemma append_all_epoch: "append_all e j rs = Inr j' \<Longrightarrow> j_epoch j' = j_epoch j"
  by (induction rs arbitrary: j) (auto simp: res_bind_Inr_iff journal_append_def Let_def split: if_splits)

lemma epoch_drawn:
  assumes "nextJournalLocked e files c = Inr j" "j_epoch (c_journal c) = ''''"
  shows "\<exists>rest. draws e = j_epoch j # rest"
proof -
  from assms obtain i e' j1 where i: "newEntryID e = Inr (i, e')"
    and j1: "append_all e' ((c_journal c)\<lparr>j_epoch := i\<rparr>) (journal_changes e' files c) = Inr j1"
    and j: "j = trim_journal j1"
    by (auto simp: nextJournalLocked_def start_epoch_def res_bind_Inr_iff)
  have "j_epoch j = i" using append_all_epoch [OF j1] j by (simp add: trim_journal_def)
  with newEntryID_Inr [OF i] show ?thesis by simp
qed

text \<open>
  \<open>ResetPhotos\<close> either changes nothing in memory, or leaves no photo row, no album, no collection and
  no device checkpoint, and starts a journal in which no position of another epoch is valid.
\<close>

lemma reset_starts_over:
  assumes "ResetPhotos e c = (r, c')" "\<not> c_batch_only c"
  shows "case r of
      Inl err \<Rightarrow> \<exists>d. c' = c\<lparr>c_disk := d\<rparr>
    | Inr removed \<Rightarrow>
        removed = filter (\<lambda>f. PhotoResetPath (f_path f)) (c_files c)
        \<and> c_files c' = filter (\<lambda>f. \<not> PhotoResetPath (f_path f)) (c_files c)
        \<and> c_albums c' = [] \<and> c_collections c' = empty_collections \<and> c_checkpoints c' = []
        \<and> (\<exists>rest. draws e = j_epoch (c_journal c') # rest)
        \<and> (\<forall>p. sp_epoch p \<noteq> j_epoch (c_journal c') \<longrightarrow>
              validateSyncLocked p (c_journal c') = Some ErrSyncExpired)"
proof -
  let ?kept = "filter (\<lambda>f. \<not> PhotoResetPath (f_path f)) (c_files c)"
  let ?c0 = "c\<lparr>c_files := ?kept, c_albums := [], c_saved_albums := [],
                c_collections := empty_collections, c_saved_collections := empty_collections,
                c_journal := zero_journal, c_checkpoints := []\<rparr>"
  obtain res c1 where s: "saveFilesLocked e ?kept ?c0 = (res, c1)" by fastforce
  show ?thesis
  proof (cases res)
    case (Inl err)
    with saveFilesLocked_error s obtain d where "c1 = ?c0\<lparr>c_disk := d\<rparr>" by blast
    then have undone: "c1\<lparr>c_files := c_files c, c_albums := c_albums c,
        c_saved_albums := c_saved_albums c, c_collections := c_collections c,
        c_saved_collections := c_saved_collections c, c_journal := c_journal c,
        c_checkpoints := c_checkpoints c\<rparr> = c\<lparr>c_disk := d\<rparr>" by simp
    from assms(1) have "(r = Inl ErrConflict \<and> c' = c) \<or> (r = Inl err \<and> c' = c\<lparr>c_disk := d\<rparr>)"
      unfolding ResetPhotos_def Let_def s Inl by (simp add: undone split: if_splits)
    then show ?thesis
    proof
      assume "r = Inl ErrConflict \<and> c' = c"
      then show ?thesis by (auto intro: exI [of _ "c_disk c"])
    qed auto
  next
    case (Inr u)
    have nb: "\<not> c_batch_only ?c0" using assms(2) by simp
    from saveFilesLocked_ok [OF s [unfolded Inr] nb] obtain j where
      j: "nextJournalLocked e ?kept ?c0 = Inr j" and c1: "c_files c1 = ?kept" "c_albums c1 = []"
      "c_collections c1 = empty_collections" "c_checkpoints c1 = []" "c_journal c1 = j" by auto
    have "\<exists>rest. draws e = j_epoch j # rest" using epoch_drawn [OF j] by (simp add: zero_journal_def)
    then have fresh: "\<exists>rest. draws e = j_epoch (c_journal c1) # rest" by (simp add: c1)
    have expired: "\<forall>p. sp_epoch p \<noteq> j_epoch (c_journal c1) \<longrightarrow> validateSyncLocked p (c_journal c1) = Some ErrSyncExpired"
      by (simp add: validateSyncLocked_def)
    consider (conflict) "r = Inl ErrConflict" "c' = c"
      | (started) "r = Inr (filter (\<lambda>f. PhotoResetPath (f_path f)) (c_files c))" "c' = c1"
      using assms(1) s Inr unfolding ResetPhotos_def Let_def by (auto split: if_splits)
    then show ?thesis
    proof cases
      case conflict
      then show ?thesis by (auto intro: exI [of _ "c_disk c"])
    next
      case started
      with c1 fresh expired show ?thesis by simp
    qed
  qed
qed

end
