(* ===== verification/Ingest.thy ===== *)
theory Ingest
  imports Publishing
begin

text \<open>
  Photos that arrive from a device: the identity of an original at its source
  (\<^verbatim>\<open>photo_sources.go\<close>: \<open>SafeSourceKey\<close>), the publication of an uploaded pair with its outbox flag,
  source mapping and albums in one save (\<^verbatim>\<open>photo_ingest.go\<close>, \<^verbatim>\<open>photo_source_mapping.go\<close>), batches
  built on a private shadow (\<^verbatim>\<open>photo_batch.go\<close>), cancelled uploads (\<^verbatim>\<open>photo_ingest_cancel.go\<close>) and
  live pairs (\<^verbatim>\<open>live_pairs.go\<close>).
\<close>

section \<open>Source keys\<close>

text \<open>\<open>binary.BigEndian.PutUint64\<close> of a length.\<close>

definition be64 :: "nat \<Rightarrow> string" where
  "be64 n = map (\<lambda>i. char_of (n div 256 ^ (7 - i))) [0..<8]"

definition key_bytes :: "string \<Rightarrow> string \<Rightarrow> string" where
  "key_bytes namespace opaque = be64 (length namespace) @ namespace @ be64 (length opaque) @ opaque"

text \<open>\<open>H\<close> is the base64 text of the SHA-256 of its argument.\<close>

definition SafeSourceKey :: "(string \<Rightarrow> string) \<Rightarrow> string \<Rightarrow> string \<Rightarrow> string" where
  "SafeSourceKey H namespace opaque = H (key_bytes namespace opaque)"

definition sourceKey :: "(string \<Rightarrow> string) \<Rightarrow> string \<Rightarrow> string \<Rightarrow> string \<Rightarrow> string" where
  "sourceKey H device namespace i = SafeSourceKey H device (SafeSourceKey H namespace i)"

definition SourceMapping ::
  "(string \<Rightarrow> string) \<Rightarrow> string \<Rightarrow> string \<Rightarrow> string \<Rightarrow> catalog \<Rightarrow> catalog_error + source_mapping" where
  "SourceMapping H device namespace i c =
     (case map_of (cs_sources (c_collections c)) (sourceKey H device namespace i) of
        None \<Rightarrow> Inl ErrNotFound
      | Some m \<Rightarrow> Inr m)"

lemma length_be64 [simp]: "length (be64 n) = 8"
  by (simp add: be64_def)

lemma be64_inj:
  assumes "n < 2 ^ 64" "m < 2 ^ 64" "be64 n = be64 m"
  shows "n = m"
proof -
  have digit: "n div 256 ^ k mod 256 = m div 256 ^ k mod 256" if "k < 8" for k
  proof -
    have "be64 n ! (7 - k) = be64 m ! (7 - k)" using assms(3) by simp
    moreover have "be64 x ! (7 - k) = char_of (x div 256 ^ k)" for x
    proof -
      have "[0..<8] ! (7 - k) = 7 - k" by (subst nth_upt) auto
      then show ?thesis using that by (simp add: be64_def)
    qed
    ultimately have "char_of (n div 256 ^ k) = (char_of (m div 256 ^ k) :: char)" by simp
    then show ?thesis by (simp add: char_of_eq_iff take_bit_eq_mod)
  qed
  have ext: "x div 256 ^ k = (x div 256 ^ Suc k) * 256 + x div 256 ^ k mod 256" for x k :: nat
  proof -
    have "x div 256 ^ Suc k = x div 256 ^ k div 256" by (metis div_mult2_eq mult.commute power_Suc)
    then show ?thesis by simp
  qed
  have up: "n div 256 ^ (8 - j) = m div 256 ^ (8 - j)" if "j \<le> 8" for j
    using that
  proof (induction j)
    case 0
    then show ?case using assms(1,2) by simp
  next
    case (Suc j)
    then have "8 - j = Suc (8 - Suc j)" by simp
    with Suc ext [of n "8 - Suc j"] ext [of m "8 - Suc j"] digit [of "8 - Suc j"] show ?case by simp
  qed
  from up [of 8] show ?thesis by simp
qed

text \<open>The lengths make the encoding of a pair unambiguous.\<close>

lemma key_bytes_inj:
  assumes "length a < 2 ^ 64" "length b < 2 ^ 64" "length a' < 2 ^ 64" "length b' < 2 ^ 64"
    and "key_bytes a b = key_bytes a' b'"
  shows "a = a' \<and> b = b'"
proof -
  from assms(5) have "be64 (length a) = be64 (length a')"
    and rest: "a @ be64 (length b) @ b = a' @ be64 (length b') @ b'"
    by (simp_all add: key_bytes_def)
  then have "length a = length a'" using assms be64_inj by blast
  with rest have "a = a'" "be64 (length b) @ b = be64 (length b') @ b'" by simp_all
  then show ?thesis by simp
qed

section \<open>Committing an upload\<close>

record photo_ingest_file =
  pi_id :: string
  pi_from :: string
  pi_to :: string
  pi_hash :: string
  pi_media :: string
  pi_size :: int

record photo_ingest_commit =
  pic_namespace :: string
  pic_source_asset :: string
  pic_mapping_revision :: u64
  pic_device :: string
  pic_device_asset :: string
  pic_source_revision :: string
  pic_hidden :: bool
  pic_opaque_original :: bool
  pic_files :: "photo_ingest_file list"
  pic_album_ids :: "string list"
  pic_capture :: "capture_metadata option"

text \<open>The row one uploaded part will become: already in place or still at its private path.\<close>

fun ingest_scan ::
  "photo_ingest_commit \<Rightarrow> photo_ingest_file \<Rightarrow> nat \<Rightarrow> nat option \<Rightarrow> file_row list
   \<Rightarrow> catalog_error + nat option" where
  "ingest_scan commit part j index [] = Inr index"
| "ingest_scan commit part j index (f # fs) =
     (if \<not> f_present f then ingest_scan commit part (Suc j) index fs
      else if f_path f = pi_to part
              \<and> (f_device_id f \<noteq> pic_device commit \<or> f_device_asset_id f \<noteq> pic_device_asset commit
                 \<or> f_source_revision f \<noteq> pic_source_revision commit)
      then Inl ErrConflict
      else
        (let index1 = (if f_path f = pi_to part then Some j else index)
         in if f_path f = pi_from part \<and> index1 \<noteq> None then Inl ErrConflict
            else
              (let index2 = (if f_path f = pi_from part then Some j else index1)
               in if \<not> f_folder f \<and> under (f_path f) (pi_to part) then Inl ErrConflict
                  else ingest_scan commit part (Suc j) index2 fs)))"

definition ingest_row :: "photo_ingest_commit \<Rightarrow> photo_ingest_file \<Rightarrow> file_row \<Rightarrow> file_row" where
  "ingest_row commit part f =
     (let f1 = f\<lparr>f_path := pi_to part, f_device_id := pic_device commit,
                 f_device_asset_id := pic_device_asset commit,
                 f_source_revision := pic_source_revision commit,
                 f_components := [], f_hidden := pic_hidden commit\<rparr>;
          f2 = (if pic_opaque_original commit \<and> pi_id part = ''original'' \<or> pi_media part = ''image/dng''
                then f1\<lparr>f_preview_unsupported := True\<rparr> else f1);
          f3 = (case pic_capture commit of
                  Some m \<Rightarrow>
                    if \<not> f_capture_user_corrected f2
                       \<and> (f_capture_source f2 = '''' \<or> f_capture_source f2 = ''client'')
                    then f2\<lparr>f_capture_time := cm_time m, f_capture_offset := cm_offset m,
                            f_capture_source := cm_source m\<rparr>
                    else f2
                | None \<Rightarrow> f2)
      in f3\<lparr>f_revision := f_revision f3 + 1\<rparr>)"

definition bad_part :: "nat \<Rightarrow> photo_ingest_file list \<Rightarrow> photo_ingest_file \<Rightarrow> bool" where
  "bad_part i seen part \<longleftrightarrow> \<not> prefix ''Photos/'' (pi_to part) \<or> pi_from part = ''''
     \<or> path_clean (pi_to part) \<noteq> pi_to part \<or> path_clean (pi_from part) \<noteq> pi_from part
     \<or> CHR 0x5C \<in> set (pi_to part @ pi_from part) \<or> CHR 0x00 \<in> set (pi_to part @ pi_from part)
     \<or> pi_id part \<in> pi_id ` set seen \<or> pi_from part \<in> pi_from ` set seen
     \<or> pi_to part \<in> pi_to ` set seen \<or> (i = 1 \<and> pi_id part \<noteq> ''motion'')"

text \<open>The loop over the parts: candidate rows, whether all were in place, and their indices.\<close>

fun ingest_parts ::
  "photo_ingest_commit \<Rightarrow> nat \<Rightarrow> photo_ingest_file list \<Rightarrow> photo_ingest_file list \<Rightarrow> file_row list
   \<Rightarrow> catalog_error + file_row list \<times> bool \<times> nat list" where
  "ingest_parts commit i seen [] next = Inr (next, True, [])"
| "ingest_parts commit i seen (part # parts) next =
     (if bad_part i seen part then Inl ErrConflict
      else res_bind (ingest_scan commit part 0 None next) (\<lambda>index.
        case index of
          None \<Rightarrow> Inl ErrNotFound
        | Some k \<Rightarrow>
            (let f = next ! k
             in if f_folder f \<or> f_hash f \<noteq> pi_hash part \<or> f_size f \<noteq> pi_size part
                then Inl ErrRevisionMismatch
                else if f_revision f = max_u64 then Inl ErrRevisionOverflow
                else res_bind (ingest_parts commit (Suc i) (part # seen) parts
                                 (next[k := ingest_row commit part f]))
                       (\<lambda>(next', already, ks). Inr (next', f_path f = pi_to part \<and> already, k # ks)))))"

definition ingest_components ::
  "photo_ingest_file list \<Rightarrow> nat list \<Rightarrow> file_row list \<Rightarrow> photo_component list" where
  "ingest_components parts ks next =
     map (\<lambda>(part, k). \<lparr>pc_id = pi_id part, pc_asset_id = f_entry_id (next ! k), pc_media_type = pi_media part\<rparr>)
       (zip parts ks)"

definition attach_components ::
  "photo_component list \<Rightarrow> nat list \<Rightarrow> file_row list \<Rightarrow> file_row list" where
  "attach_components components ks next =
     (case ks of
        [] \<Rightarrow> next
      | k # rest \<Rightarrow>
          (let primary = f_entry_id (next ! k)
           in foldl (\<lambda>fs j. fs[j := (fs ! j)\<lparr>f_parent_id := primary\<rparr>])
                (next[k := (next ! k)\<lparr>f_components := components, f_processing_pending := True\<rparr>]) rest))"

text \<open>\<open>mapPhotoSourceLocked\<close>: the collections with the original's mapping.\<close>

definition mapPhotoSourceLocked ::
  "(string \<Rightarrow> string) \<Rightarrow> photo_ingest_commit \<Rightarrow> file_row \<Rightarrow> catalog \<Rightarrow> catalog_error + collection_state" where
  "mapPhotoSourceLocked H commit f c =
     (if pic_namespace commit = '''' \<and> pic_source_asset commit = '''' then Inr (c_collections c)
      else if pic_namespace commit = '''' \<or> pic_source_asset commit = ''''
              \<or> 200 < length (pic_namespace commit) \<or> 4096 < length (pic_source_asset commit)
              \<or> SafeSourceKey H (pic_namespace commit) (pic_source_asset commit) \<noteq> pic_device_asset commit
      then Inl ErrConflict
      else
        (let key = sourceKey H (pic_device commit) (pic_namespace commit) (pic_source_asset commit);
             m = \<lparr>m_device_id = pic_device commit, m_namespace = pic_namespace commit,
                  m_source_id = pic_source_asset commit, m_kind = ''asset'', m_server_id = f_entry_id f,
                  m_source_revision = pic_source_revision commit, m_server_revision = f_revision f\<rparr>;
             mapped = (c_collections c)\<lparr>cs_sources := AList.update key m (cs_sources (c_collections c))\<rparr>
         in case map_of (cs_sources (c_collections c)) key of
              Some old \<Rightarrow>
                if m_kind old \<noteq> ''asset'' \<or> m_server_revision old \<noteq> pic_mapping_revision commit
                then Inl ErrRevisionMismatch
                else if \<not> (\<exists>g \<in> set (c_files c). f_entry_id g = m_server_id old \<and> f_present g
                             \<and> f_revision g = m_server_revision old)
                then Inl ErrRevisionMismatch
                else Inr mapped
            | None \<Rightarrow>
                if pic_mapping_revision commit \<noteq> 0 then Inl ErrRevisionMismatch else Inr mapped))"

definition ingest_album :: "string \<Rightarrow> string \<Rightarrow> album \<Rightarrow> catalog_error + album" where
  "ingest_album primary i a =
     (if a_id a \<noteq> i \<or> primary \<in> set (ids_of (a_asset_ids a)) then Inr a
      else if 100000 \<le> length (ids_of (a_asset_ids a)) \<or> a_revision a = max_u64 then Inl ErrAlbumInvalid
      else Inr (a\<lparr>a_asset_ids := Some (ids_of (a_asset_ids a) @ [primary]), a_revision := a_revision a + 1\<rparr>))"

fun ingest_albums :: "string \<Rightarrow> string list \<Rightarrow> album list \<Rightarrow> catalog_error + album list" where
  "ingest_albums primary [] albums = Inr albums"
| "ingest_albums primary (i # ids) albums =
     res_bind (map_res (ingest_album primary i) albums) (\<lambda>albums'.
       if \<not> (\<exists>a \<in> set albums. a_id a = i) then Inl ErrAlbumNotFound
       else ingest_albums primary ids albums')"

definition CommitPhotoIngest ::
  "env \<Rightarrow> (string \<Rightarrow> string) \<Rightarrow> photo_ingest_commit \<Rightarrow> catalog \<Rightarrow> (catalog_error + file_row) \<times> catalog" where
  "CommitPhotoIngest e H commit c =
     (let parts = pic_files commit
      in if length parts < 1 \<or> 2 < length parts \<or> pi_id (hd parts) \<noteq> ''original'' then (Inl ErrConflict, c)
         else case ingest_parts commit 0 [] parts (c_files c) of
           Inl err \<Rightarrow> (Inl err, c)
         | Inr (next, already, ks) \<Rightarrow>
             if already \<and> length (f_components (c_files c ! hd ks)) = length parts
             then (Inr (c_files c ! hd ks), c)
             else
               (let rows = attach_components (ingest_components parts ks next) ks next
                in case mapPhotoSourceLocked H commit (rows ! hd ks) c of
                     Inl err \<Rightarrow> (Inl err, c)
                   | Inr cs \<Rightarrow>
                       (case ingest_albums (f_entry_id (rows ! hd ks)) (pic_album_ids commit) (cloneAlbums (c_albums c)) of
                          Inl err \<Rightarrow> (Inl err, c)
                        | Inr albums \<Rightarrow>
                            (case saveFilesLocked e rows (c\<lparr>c_collections := cs, c_albums := albums\<rparr>) of
                               (Inl err, c') \<Rightarrow>
                                 (Inl err, c'\<lparr>c_collections := c_collections c, c_albums := c_albums c\<rparr>)
                             | (Inr u, c') \<Rightarrow> (Inr (rows ! hd ks), c'\<lparr>c_files := rows\<rparr>)))))"

section \<open>Cancelling an upload\<close>

definition DiscardPhotoPending ::
  "env \<Rightarrow> photo_ingest_file list \<Rightarrow> catalog \<Rightarrow> (catalog_error + unit) \<times> catalog" where
  "DiscardPhotoPending e parts c =
     (if \<exists>p \<in> set parts. \<not> prefix ''.weazl-mobile-pending/'' (pi_from p) then (Inl ErrConflict, c)
      else
        (let want = index_by pi_from parts
         in if \<exists>f \<in> set (c_files c). \<exists>p. want (f_path f) = Some p
                 \<and> (f_folder f \<or> f_device_id f \<noteq> '''' \<or> f_parent_id f \<noteq> '''' \<or> f_components f \<noteq> []
                    \<or> f_size f \<noteq> pi_size p \<or> f_hash f \<noteq> pi_hash p)
            then (Inl ErrConflict, c)
            else
              (let next = filter (\<lambda>f. want (f_path f) = None) (c_files c)
               in if length next = length (c_files c) then (Inr (), c) else commit_files e next c)))"

section \<open>Batches over a shadow\<close>

text \<open>
  The shadow validates and stores without saving; \<open>es\<close> are the surroundings of the members' calls,
  \<open>e\<close> those of the one real save. A result is the stored row or the member's error.
\<close>

definition photoShadowLocked :: "catalog \<Rightarrow> catalog" where
  "photoShadowLocked c = new_catalog\<lparr>c_files := c_files c, c_albums := c_albums c,
     c_collections := c_collections c, c_batch_only := True\<rparr>"

definition finishPhotoBatchLocked ::
  "env \<Rightarrow> catalog \<Rightarrow> (catalog_error + 'r) list \<Rightarrow> bool \<Rightarrow> catalog \<Rightarrow> (catalog_error + 'r) list \<times> catalog" where
  "finishPhotoBatchLocked e shadow results changed c =
     (if \<not> changed then (results, c)
      else case saveFilesLocked e (c_files shadow)
                  (c\<lparr>c_albums := c_albums shadow, c_collections := c_collections shadow\<rparr>) of
        (Inl err, c') \<Rightarrow>
          (map (\<lambda>r. case r of Inl x \<Rightarrow> Inl x | Inr y \<Rightarrow> Inl err) results,
           c'\<lparr>c_albums := c_albums c, c_collections := c_collections c\<rparr>)
      | (Inr u, c') \<Rightarrow> (results, c'\<lparr>c_files := c_files shadow\<rparr>))"

text \<open>One member after another on the shadow.\<close>

fun shadow_run ::
  "(env \<Rightarrow> 'a \<Rightarrow> catalog \<Rightarrow> (catalog_error + 'r) \<times> catalog) \<Rightarrow> (env \<times> 'a) list \<Rightarrow> catalog
   \<Rightarrow> (catalog_error + 'r) list \<times> catalog" where
  "shadow_run op [] s = ([], s)"
| "shadow_run op ((e, x) # xs) s =
     (let (r, s1) = op e x s; (rs, s2) = shadow_run op xs s1 in (r # rs, s2))"

definition put_component :: "env \<Rightarrow> file_row \<Rightarrow> catalog \<Rightarrow> (catalog_error + file_row option) \<times> catalog" where
  "put_component e f s =
     (if \<not> prefix ''.weazl-mobile-pending/'' (f_path f) \<or> f_folder f then (Inl ErrConflict, s)
      else case Put e f s of
        (Inl err, s') \<Rightarrow> (Inl err, s')
      | (Inr u, s') \<Rightarrow> (Inr (List.find (\<lambda>g. f_path g = f_path f \<and> f_present g) (c_files s')), s'))"

definition is_ok :: "'e + 'a \<Rightarrow> bool" where
  "is_ok r \<longleftrightarrow> (case r of Inl err \<Rightarrow> False | Inr v \<Rightarrow> True)"

definition PutPhotoComponents ::
  "env \<Rightarrow> (env \<times> file_row) list \<Rightarrow> catalog \<Rightarrow> (catalog_error + file_row option) list \<times> catalog" where
  "PutPhotoComponents e files c =
     (let (results, shadow) = shadow_run put_component files (photoShadowLocked c)
      in finishPhotoBatchLocked e shadow results (\<exists>r \<in> set results. is_ok r) c)"

definition CommitPhotoIngestBatch ::
  "env \<Rightarrow> (string \<Rightarrow> string) \<Rightarrow> (env \<times> photo_ingest_commit) list \<Rightarrow> catalog
   \<Rightarrow> (catalog_error + file_row) list \<times> catalog" where
  "CommitPhotoIngestBatch e H commits c =
     (let (results, shadow) = shadow_run (\<lambda>e commit s. CommitPhotoIngest e H commit s) commits (photoShadowLocked c)
      in finishPhotoBatchLocked e shadow results (\<exists>r \<in> set results. is_ok r) c)"

section \<open>Live pairs\<close>

definition has_suffix :: "string \<Rightarrow> string \<Rightarrow> bool" where
  "has_suffix s x \<longleftrightarrow> suffix x s"

definition pairMediaType :: "string \<Rightarrow> string" where
  "pairMediaType name =
     (let lower = to_lower name
      in if has_suffix lower ''.heic'' \<or> has_suffix lower ''.heif'' then ''image/heic''
         else if has_suffix lower ''.jpg'' \<or> has_suffix lower ''.jpeg'' then ''image/jpeg''
         else if has_suffix lower ''.mov'' then ''video/quicktime''
         else if has_suffix lower ''.mp4'' then ''video/mp4''
         else ''application/octet-stream'')"

text \<open>The last live row of an identity.\<close>

definition last_live :: "string \<Rightarrow> file_row list \<Rightarrow> nat option" where
  "last_live i fs =
     map_option (\<lambda>k. length fs - Suc k) (find_index (\<lambda>f. f_entry_id f = i \<and> f_present f) (rev fs))"

definition unlink_album :: "string \<Rightarrow> string list \<Rightarrow> album \<Rightarrow> catalog_error + album" where
  "unlink_album motion pair_albums a =
     (if a_id a \<in> set pair_albums \<and> motion \<notin> set (ids_of (a_asset_ids a)) then
        (if a_revision a = max_u64 then Inl ErrRevisionOverflow
         else Inr (a\<lparr>a_asset_ids := Some (ids_of (a_asset_ids a) @ [motion]), a_revision := a_revision a + 1\<rparr>))
      else Inr a)"

definition link_album :: "string \<Rightarrow> string \<Rightarrow> album \<Rightarrow> catalog_error + album" where
  "link_album still motion a =
     (if motion \<notin> set (ids_of (a_asset_ids a)) then Inr a
      else if a_revision a = max_u64 then Inl ErrRevisionOverflow
      else
        (let ids = filter (\<lambda>i. i \<noteq> motion) (ids_of (a_asset_ids a))
         in Inr (a\<lparr>a_asset_ids := Some (if still \<in> set ids then ids else ids @ [still]),
                   a_revision := a_revision a + 1\<rparr>)))"

text \<open>The still, the motion and the albums after the change; \<open>None\<close> when nothing is to be done.\<close>

definition pair_change ::
  "bool \<Rightarrow> file_row \<Rightarrow> file_row \<Rightarrow> album list \<Rightarrow> catalog_error + (file_row \<times> file_row \<times> album list) option" where
  "pair_change unlink still motion albums =
     (let s = f_entry_id still; m = f_entry_id motion
      in if unlink then
           (if f_parent_id motion \<noteq> s then Inl ErrConflict
            else res_bind (map_res (unlink_album m (f_pair_albums motion)) albums) (\<lambda>albums'.
              Inr (Some (still\<lparr>f_components := []\<rparr>, motion\<lparr>f_parent_id := '''', f_pair_albums := []\<rparr>, albums'))))
         else if f_parent_id motion = s \<and> length (f_components still) = 2 then Inr None
         else if f_parent_id motion \<noteq> '''' \<or> 1 < length (f_components still) \<or> 1 < length (f_components motion)
                 \<or> f_hidden still \<noteq> f_hidden motion \<or> f_archived still \<noteq> f_archived motion
                 \<or> f_favorite still \<noteq> f_favorite motion
         then Inl ErrConflict
         else res_bind (map_res (link_album s m) albums) (\<lambda>albums'.
           Inr (Some
             (still\<lparr>f_components :=
                [\<lparr>pc_id = ''original'', pc_asset_id = s, pc_media_type = pairMediaType (f_path still)\<rparr>,
                 \<lparr>pc_id = ''motion'', pc_asset_id = m, pc_media_type = pairMediaType (f_path motion)\<rparr>]\<rparr>,
              motion\<lparr>f_parent_id := s,
                f_pair_albums := f_pair_albums motion
                  @ map a_id (filter (\<lambda>a. m \<in> set (ids_of (a_asset_ids a))) albums)\<rparr>,
              albums'))))"

definition SetLivePhotoPair ::
  "env \<Rightarrow> string \<Rightarrow> string \<Rightarrow> u64 \<Rightarrow> u64 \<Rightarrow> bool \<Rightarrow> catalog \<Rightarrow> (catalog_error + file_row) \<times> catalog" where
  "SetLivePhotoPair e stillID motionID stillRev motionRev unlink c =
     (case (last_live stillID (c_files c), last_live motionID (c_files c)) of
        (Some a, Some b) \<Rightarrow>
          if a = b then (Inl ErrNotFound, c)
          else
            (let still = c_files c ! a; motion = c_files c ! b
             in if f_revision still \<noteq> stillRev \<or> f_revision motion \<noteq> motionRev
                then (Inl ErrRevisionMismatch, c)
                else if f_revision still = max_u64 \<or> f_revision motion = max_u64
                then (Inl ErrRevisionOverflow, c)
                else if f_folder still \<or> f_folder motion \<or> f_parent_id still \<noteq> ''''
                then (Inl ErrConflict, c)
                else case pair_change unlink still motion (cloneAlbums (c_albums c)) of
                  Inl err \<Rightarrow> (Inl err, c)
                | Inr None \<Rightarrow> (Inr still, c)
                | Inr (Some (still', motion', albums)) \<Rightarrow>
                    (let s = still'\<lparr>f_revision := f_revision still' + 1\<rparr>;
                         m = motion'\<lparr>f_revision := f_revision motion' + 1\<rparr>;
                         rows = (c_files c)[a := s, b := m]
                     in case saveFilesLocked e rows (c\<lparr>c_albums := albums\<rparr>) of
                          (Inl err, c') \<Rightarrow> (Inl err, c'\<lparr>c_albums := c_albums c\<rparr>)
                        | (Inr u, c') \<Rightarrow> (Inr s, c'\<lparr>c_files := rows\<rparr>)))
      | _ \<Rightarrow> (Inl ErrNotFound, c))"

section \<open>Properties\<close>

text \<open>
  Two originals have the same source key only when device, namespace and identifier agree, as long as
  the hash does not collide on the byte strings the keys are made of: the length prefixes keep a
  namespace and an identifier from running into each other.
\<close>

lemma source_key_unique:
  assumes "length d < 2 ^ 64" "length n < 2 ^ 64" "length i < 2 ^ 64"
    and "length d' < 2 ^ 64" "length n' < 2 ^ 64" "length i' < 2 ^ 64"
    and "length (SafeSourceKey H n i) < 2 ^ 64" "length (SafeSourceKey H n' i') < 2 ^ 64"
    and "inj_on H {key_bytes n i, key_bytes n' i',
                   key_bytes d (SafeSourceKey H n i), key_bytes d' (SafeSourceKey H n' i')}"
  shows "sourceKey H d n i = sourceKey H d' n' i' \<longleftrightarrow> d = d' \<and> n = n' \<and> i = i'"
proof (intro iffI)
  assume "sourceKey H d n i = sourceKey H d' n' i'"
  then have "key_bytes d (SafeSourceKey H n i) = key_bytes d' (SafeSourceKey H n' i')"
    using assms(9) by (auto simp: sourceKey_def SafeSourceKey_def dest: inj_onD)
  from key_bytes_inj [OF assms(1,7,4,8) this] have d: "d = d'" "SafeSourceKey H n i = SafeSourceKey H n' i'"
    by auto
  then have "key_bytes n i = key_bytes n' i'"
    using assms(9) by (auto simp: SafeSourceKey_def dest: inj_onD)
  from key_bytes_inj [OF assms(2,3,5,6) this] d show "d = d' \<and> n = n' \<and> i = i'" by simp
qed simp

lemma source_key_unique_witness:
  "sourceKey (\<lambda>s. s) ''dev'' ''ab'' ''c'' \<noteq> sourceKey (\<lambda>s. s) ''dev'' ''a'' ''bc''"
proof -
  have "length (SafeSourceKey (\<lambda>s. s) ''ab'' ''c'') < 2 ^ 64" "length (SafeSourceKey (\<lambda>s. s) ''a'' ''bc'') < 2 ^ 64"
    by (simp_all add: SafeSourceKey_def key_bytes_def)
  then show ?thesis
    using source_key_unique [of "''dev''" "''ab''" "''c''" "''dev''" "''a''" "''bc''" "\<lambda>s. s"] by simp
qed

definition part_row :: "photo_ingest_commit \<Rightarrow> photo_ingest_file \<Rightarrow> file_row \<Rightarrow> bool" where
  "part_row commit part f \<longleftrightarrow> f_present f \<and> (f_path f = pi_from part \<or> (f_path f = pi_to part
     \<and> f_device_id f = pic_device commit \<and> f_device_asset_id f = pic_device_asset commit
     \<and> f_source_revision f = pic_source_revision commit))"

lemma ingest_scan_Some:
  assumes "ingest_scan commit part j index fs = Inr (Some k)"
  shows "index = Some k \<or> (j \<le> k \<and> k < j + length fs \<and> part_row commit part (fs ! (k - j)))"
  using assms
proof (induction fs arbitrary: j index)
  case Nil
  then show ?case by simp
next
  case (Cons f fs)
  let ?i1 = "if f_path f = pi_to part then Some j else index"
  let ?i2 = "if f_path f = pi_from part then Some j else ?i1"
  have later: ?case if "Suc j \<le> k \<and> k < Suc j + length fs \<and> part_row commit part (fs ! (k - Suc j))"
  proof -
    have "k - j = Suc (k - Suc j)" using that by linarith
    with that show ?thesis by simp
  qed
  show ?case
  proof (cases "f_present f")
    case False
    with Cons.prems have "ingest_scan commit part (Suc j) index fs = Inr (Some k)" by simp
    from Cons.IH [OF this] later show ?thesis by blast
  next
    case True
    with Cons.prems have c: "ingest_scan commit part (Suc j) ?i2 fs = Inr (Some k)"
      "f_path f = pi_to part \<Longrightarrow> f_device_id f = pic_device commit
         \<and> f_device_asset_id f = pic_device_asset commit \<and> f_source_revision f = pic_source_revision commit"
      by (auto simp: Let_def split: if_splits)
    from Cons.IH [OF c(1)] show ?thesis
    proof
      assume "?i2 = Some k"
      with True c(2) show ?thesis by (auto simp: part_row_def split: if_splits)
    qed (rule later)
  qed
qed

lemma ingest_row_simps [simp]:
  "f_path (ingest_row commit part f) = pi_to part" "f_present (ingest_row commit part f) = f_present f"
  "f_hash (ingest_row commit part f) = f_hash f" "f_size (ingest_row commit part f) = f_size f"
  "f_entry_id (ingest_row commit part f) = f_entry_id f" "f_folder (ingest_row commit part f) = f_folder f"
  "f_device_id (ingest_row commit part f) = pic_device commit"
  "f_device_asset_id (ingest_row commit part f) = pic_device_asset commit"
  "f_source_revision (ingest_row commit part f) = pic_source_revision commit"
  by (simp_all add: ingest_row_def Let_def split: option.split)

lemma ingest_parts_Cons:
  assumes "ingest_parts commit i seen (part # parts) next = Inr (out, already, ks)"
  obtains k rest already' where "ks = k # rest" "k < length next" "part_row commit part (next ! k)"
    "f_folder (next ! k) = False" "f_hash (next ! k) = pi_hash part" "f_size (next ! k) = pi_size part"
    "\<not> bad_part i seen part" "already \<longleftrightarrow> f_path (next ! k) = pi_to part \<and> already'"
    "ingest_parts commit (Suc i) (part # seen) parts (next[k := ingest_row commit part (next ! k)])
       = Inr (out, already', rest)"
proof -
  from assms obtain k where k: "ingest_scan commit part 0 None next = Inr (Some k)"
    by (auto simp: res_bind_Inr_iff split: if_splits option.splits)
  from ingest_scan_Some [OF k] have "k < length next" "part_row commit part (next ! k)" by auto
  with assms k that show thesis
    by (auto simp: res_bind_Inr_iff Let_def split: if_splits)
qed

text \<open>The parts a client names are private uploads going to published places.\<close>

definition private_parts :: "photo_ingest_commit \<Rightarrow> bool" where
  "private_parts commit \<longleftrightarrow> (\<forall>p \<in> set (pic_files commit). prefix ''.weazl-mobile-pending/'' (pi_from p))"

lemma ingest_albums_Inr:
  assumes "ingest_albums primary ids albums = Inr out"
  shows "list_all2 (\<lambda>a b. a_id b = a_id a
      \<and> set (ids_of (a_asset_ids b)) = set (ids_of (a_asset_ids a)) \<union> (if a_id a \<in> set ids then {primary} else {})
      \<and> (distinct (ids_of (a_asset_ids a)) \<longrightarrow> distinct (ids_of (a_asset_ids b)))) albums out
    \<and> (\<forall>i \<in> set ids. \<exists>a \<in> set albums. a_id a = i)"
  using assms
proof (induction ids arbitrary: albums)
  case Nil
  then show ?case by (simp add: list_all2_refl)
next
  case (Cons i ids)
  from Cons.prems obtain mid where mid: "map_res (ingest_album primary i) albums = Inr mid"
    "\<exists>a \<in> set albums. a_id a = i" "ingest_albums primary ids mid = Inr out"
    by (auto simp: res_bind_Inr_iff split: if_splits)
  have 1: "list_all2 (\<lambda>a b. a_id b = a_id a
      \<and> set (ids_of (a_asset_ids b)) = set (ids_of (a_asset_ids a)) \<union> (if a_id a = i then {primary} else {})
      \<and> (distinct (ids_of (a_asset_ids a)) \<longrightarrow> distinct (ids_of (a_asset_ids b)))) albums mid"
    using mid(1) unfolding map_res_Inr_iff
    by (elim list_all2_mono) (auto simp: ingest_album_def ids_of_Some split: if_splits)
  note IH = Cons.IH [OF mid(3)]
  have "list_all2 (\<lambda>a b. a_id b = a_id a
      \<and> set (ids_of (a_asset_ids b)) = set (ids_of (a_asset_ids a)) \<union> (if a_id a \<in> set (i # ids) then {primary} else {})
      \<and> (distinct (ids_of (a_asset_ids a)) \<longrightarrow> distinct (ids_of (a_asset_ids b)))) albums out"
    by (rule list_all2_trans [OF _ 1 IH [THEN conjunct1]]) (auto split: if_splits)
  moreover have "map a_id mid = map a_id albums"
    using 1 by (induction rule: list_all2_induct) auto
  then have "a_id ` set mid = a_id ` set albums" by (metis list.set_map)
  then have "\<forall>j \<in> set (i # ids). \<exists>a \<in> set albums. a_id a = j"
    using IH [THEN conjunct2] mid(2) by (metis image_iff set_ConsD)
  ultimately show ?case by blast
qed
lemma CommitPhotoIngest_cases:
  assumes "CommitPhotoIngest e H commit c = (r, c')"
  obtains (refused) err where "r = Inl err" "c' = c"
  | (replayed) nxt ks where "ingest_parts commit 0 [] (pic_files commit) (c_files c) = Inr (nxt, True, ks)"
      "pic_files commit \<noteq> []" "r = Inr (c_files c ! hd ks)" "c' = c"
  | (failed) err d where "r = Inl err" "c' = c\<lparr>c_disk := d\<rparr>"
  | (committed) nxt already ks rows cs albums u c1 where
      "ingest_parts commit 0 [] (pic_files commit) (c_files c) = Inr (nxt, already, ks)"
      "pic_files commit \<noteq> []" "length (pic_files commit) \<le> 2"
      "rows = attach_components (ingest_components (pic_files commit) ks nxt) ks nxt"
      "mapPhotoSourceLocked H commit (rows ! hd ks) c = Inr cs"
      "ingest_albums (f_entry_id (rows ! hd ks)) (pic_album_ids commit) (cloneAlbums (c_albums c)) = Inr albums"
      "saveFilesLocked e rows (c\<lparr>c_collections := cs, c_albums := albums\<rparr>) = (Inr u, c1)"
      "r = Inr (rows ! hd ks)" "c' = c1\<lparr>c_files := rows\<rparr>"
proof (cases "length (pic_files commit) < 1 \<or> 2 < length (pic_files commit) \<or> pi_id (hd (pic_files commit)) \<noteq> ''original''")
  case True
  with assms have "r = Inl ErrConflict" "c' = c" by (simp_all add: CommitPhotoIngest_def Let_def)
  with refused show ?thesis by blast
next
  case False
  then have ne: "pic_files commit \<noteq> []" "length (pic_files commit) \<le> 2" by auto
  show ?thesis
  proof (cases "ingest_parts commit 0 [] (pic_files commit) (c_files c)")
    case (Inl err)
    with assms False have "r = Inl err" "c' = c" by (simp_all add: CommitPhotoIngest_def Let_def)
    with refused show ?thesis by blast
  next
    case (Inr p)
    obtain nxt already ks where p: "ingest_parts commit 0 [] (pic_files commit) (c_files c) = Inr (nxt, already, ks)"
      using Inr by (cases p) auto
    show ?thesis
    proof (cases "already \<and> length (f_components (c_files c ! hd ks)) = length (pic_files commit)")
      case True
      with assms False p have "r = Inr (c_files c ! hd ks)" "c' = c"
        by (auto simp: CommitPhotoIngest_def Let_def)
      with replayed [of nxt ks] p ne True show ?thesis by simp
    next
      case nr: False
      define rows where "rows = attach_components (ingest_components (pic_files commit) ks nxt) ks nxt"
      show ?thesis
      proof (cases "mapPhotoSourceLocked H commit (rows ! hd ks) c")
        case (Inl err)
        with assms False p nr have "r = Inl err" "c' = c"
          by (auto simp: CommitPhotoIngest_def Let_def rows_def split: if_splits)
        with refused show ?thesis by blast
      next
        case (Inr cs)
        note cs = Inr
        show ?thesis
        proof (cases "ingest_albums (f_entry_id (rows ! hd ks)) (pic_album_ids commit) (cloneAlbums (c_albums c))")
          case (Inl err)
          with assms False p nr cs have "r = Inl err" "c' = c"
            by (auto simp: CommitPhotoIngest_def Let_def rows_def split: if_splits)
          with refused show ?thesis by blast
        next
          case (Inr albums)
          obtain res c1 where s: "saveFilesLocked e rows (c\<lparr>c_collections := cs, c_albums := albums\<rparr>) = (res, c1)"
            by fastforce
          have eq: "(r, c') = (case res of
              Inl err \<Rightarrow> (Inl err, c1\<lparr>c_collections := c_collections c, c_albums := c_albums c\<rparr>)
            | Inr u \<Rightarrow> (Inr (rows ! hd ks), c1\<lparr>c_files := rows\<rparr>))"
            using assms False p nr cs Inr s
            unfolding CommitPhotoIngest_def Let_def rows_def [symmetric]
            by (auto simp: rows_def [symmetric] split: if_splits sum.splits)
          show ?thesis
          proof (cases res)
            case (Inl err)
            with s saveFilesLocked_error obtain d where
              "c1 = c\<lparr>c_collections := cs, c_albums := albums\<rparr>\<lparr>c_disk := d\<rparr>" by blast
            with eq Inl have "r = Inl err" "c' = c\<lparr>c_disk := d\<rparr>" by simp_all
            with failed show ?thesis by blast
          next
            case (Inr u)
            with eq s committed [OF p ne rows_def cs \<open>ingest_albums _ _ _ = Inr albums\<close>]
            show ?thesis by simp
          qed
        qed
      qed
    qed
  qed
qed

lemma attach_head:
  assumes "ks \<noteq> []" "hd ks < length next" "hd ks \<notin> set (tl ks)"
  shows "attach_components comps ks next ! hd ks
    = (next ! hd ks)\<lparr>f_components := comps, f_processing_pending := True\<rparr>"
proof -
  obtain k rest where ks: "ks = k # rest" using assms(1) by (cases ks) auto
  have "foldl (\<lambda>fs j. fs[j := (fs ! j)\<lparr>f_parent_id := p\<rparr>]) fs rest ! k = fs ! k" if "k \<notin> set rest" for p and fs :: "file_row list"
    using that
  proof (induction rest arbitrary: fs)
    case (Cons j rest)
    from Cons.IH [of "fs[j := (fs ! j)\<lparr>f_parent_id := p\<rparr>]"] Cons.prems show ?case by simp
  qed simp
  with assms show ?thesis by (simp add: attach_components_def ks Let_def)
qed

lemma attach_length [simp]: "length (attach_components comps ks next) = length next"
proof -
  have "length (foldl (\<lambda>fs j. fs[j := (fs ! j)\<lparr>f_parent_id := p\<rparr>]) fs rest) = length fs" for p rest and fs :: "file_row list"
    by (induction rest arbitrary: fs) auto
  then show ?thesis by (simp add: attach_components_def Let_def split: list.split)
qed

lemma ingest_parts_length:
  "ingest_parts commit i seen parts next = Inr (out, already, ks) \<Longrightarrow> length out = length next"
proof (induction parts arbitrary: i seen "next" out already ks)
  case (Cons part parts)
  from Cons.prems show ?case by (rule ingest_parts_Cons) (auto dest: Cons.IH)
qed simp

text \<open>
  With private sources the second part is another row than the first: nothing at a published place
  is taken for an upload.
\<close>

lemma ingest_two_parts:
  assumes "ingest_parts commit 0 [] (pic_files commit) fs = Inr (out, already, ks)"
    and "private_parts commit" "pic_files commit \<noteq> []" "length (pic_files commit) \<le> 2"
  shows "ks \<noteq> [] \<and> hd ks < length out \<and> hd ks \<notin> set (tl ks)
    \<and> f_path (out ! hd ks) = pi_to (hd (pic_files commit))
    \<and> f_present (out ! hd ks) \<and> f_hash (out ! hd ks) = pi_hash (hd (pic_files commit))
    \<and> f_size (out ! hd ks) = pi_size (hd (pic_files commit))
    \<and> f_device_id (out ! hd ks) = pic_device commit
    \<and> f_device_asset_id (out ! hd ks) = pic_device_asset commit
    \<and> f_entry_id (out ! hd ks) = f_entry_id (fs ! hd ks)"
proof -
  obtain p ps where ps: "pic_files commit = p # ps" using assms(3) by (cases "pic_files commit") auto
  from assms(1) ps have "ingest_parts commit 0 [] (p # ps) fs = Inr (out, already, ks)" by simp
  then show ?thesis
  proof (rule ingest_parts_Cons)
    fix k rest already'
    assume k: "ks = k # rest" "k < length fs" "part_row commit p (fs ! k)" "f_hash (fs ! k) = pi_hash p"
      "f_size (fs ! k) = pi_size p" "\<not> bad_part 0 [] p"
      and rest: "ingest_parts commit (Suc 0) [p] ps (fs[k := ingest_row commit p (fs ! k)]) = Inr (out, already', rest)"
    let ?fs = "fs[k := ingest_row commit p (fs ! k)]"
    have head: "?fs ! k = ingest_row commit p (fs ! k)" using k(2) by simp
    have fin: "rest = [] \<and> out = ?fs \<or> (\<exists>j. rest = [j] \<and> j \<noteq> k \<and> out ! k = ?fs ! k \<and> length out = length ?fs)"
    proof (cases ps)
      case Nil
      with rest show ?thesis by simp
    next
      case (Cons q qs)
      with assms(4) ps have "qs = []" by simp
      with Cons rest have "ingest_parts commit (Suc 0) [p] (q # []) ?fs = Inr (out, already', rest)" by simp
      then show ?thesis
      proof (rule ingest_parts_Cons)
        fix j rest' already''
        assume j: "rest = j # rest'" "j < length ?fs" "part_row commit q (?fs ! j)" "\<not> bad_part (Suc 0) [p] q"
          and out: "ingest_parts commit (Suc (Suc 0)) [q, p] [] (?fs[j := ingest_row commit q (?fs ! j)])
              = Inr (out, already'', rest')"
        have to: "pi_to q \<noteq> pi_to p" "prefix ''Photos/'' (pi_to p)"
          using j(4) k(6) by (auto simp: bad_part_def)
        have "prefix ''.weazl-mobile-pending/'' (pi_from q)"
          using assms(2) Cons ps by (simp add: private_parts_def)
        with to(2) have "pi_from q \<noteq> pi_to p" by (auto simp: prefix_def)
        then have "j \<noteq> k" using j(3) to(1) head by (auto simp: part_row_def)
        with j out show ?thesis by auto
      qed
    qed
    have "out ! k = ingest_row commit p (fs ! k)" "k < length out" "k \<notin> set rest"
      using fin head k(2) by auto
    with k(1,3-5) show ?thesis by (auto simp: ps part_row_def)
  qed
qed


section \<open>Batches are atomic\<close>

lemma shadow_run_length: "length (fst (shadow_run op xs s)) = length xs"
  by (induction xs arbitrary: s) (auto simp: Let_def split_def)

text \<open>C22
  A batch publishes in one write: either every member that was accepted is published together, or the
  write failed, every member reports an error and the catalog in memory is as it was.
\<close>

theorem batch_atomic:
  assumes "CommitPhotoIngestBatch e H commits c = (results, c')" "\<not> c_batch_only c"
  shows "length results = length commits \<and>
    ((\<forall>r \<in> set results. \<not> is_ok r) \<and> (\<exists>d. c' = c\<lparr>c_disk := d\<rparr>)
     \<or> (let (rs, shadow) = shadow_run (\<lambda>e commit s. CommitPhotoIngest e H commit s) commits (photoShadowLocked c)
        in results = rs \<and> c_files c' = c_files shadow \<and> c_albums c' = c_albums shadow
           \<and> c_collections c' = c_collections shadow
           \<and> map_option snd (c_disk c') = Some (memory_tree c')))"
proof -
  obtain rs shadow where run: "shadow_run (\<lambda>e commit s. CommitPhotoIngest e H commit s) commits (photoShadowLocked c)
      = (rs, shadow)" by fastforce
  have len: "length rs = length commits" using shadow_run_length run by (metis fst_conv)
  let ?ok = "\<exists>r \<in> set rs. is_ok r"
  from assms(1) run have f: "finishPhotoBatchLocked e shadow rs ?ok c = (results, c')"
    by (simp add: CommitPhotoIngestBatch_def)
  show ?thesis
  proof (cases ?ok)
    case False
    with f have "results = rs" "c' = c" by (simp_all add: finishPhotoBatchLocked_def)
    with len False show ?thesis by (auto intro: exI [of _ "c_disk c"])
  next
    case True
    let ?c = "c\<lparr>c_albums := c_albums shadow, c_collections := c_collections shadow\<rparr>"
    obtain res c1 where s: "saveFilesLocked e (c_files shadow) ?c = (res, c1)" by fastforce
    show ?thesis
    proof (cases res)
      case (Inl err)
      with s saveFilesLocked_error obtain d where "c1 = ?c\<lparr>c_disk := d\<rparr>" by blast
      with f True s Inl have "c' = c\<lparr>c_disk := d\<rparr>"
        "results = map (\<lambda>r. case r of Inl x \<Rightarrow> Inl x | Inr y \<Rightarrow> Inl err) rs"
        by (auto simp: finishPhotoBatchLocked_def)
      with len show ?thesis by (auto simp: is_ok_def split: sum.splits)
    next
      case (Inr u)
      have "\<not> c_batch_only ?c" using assms(2) by simp
      from saveFilesLocked_ok [OF s [unfolded Inr] this] f True s Inr len run show ?thesis
        by (auto simp: finishPhotoBatchLocked_def memory_tree_def stored_tree_def)
    qed
  qed
qed

section \<open>Linking and unlinking a live pair\<close>

lemma map_res_fun: "map_res f xs = Inr ys \<Longrightarrow> (\<And>x y. f x = Inr y \<Longrightarrow> y = g x) \<Longrightarrow> ys = map g xs"
  by (induction xs arbitrary: ys) (auto simp: res_bind_Inr_iff)

definition linked :: "string \<Rightarrow> string \<Rightarrow> album \<Rightarrow> album" where
  "linked s m a = (if m \<notin> set (ids_of (a_asset_ids a)) then a
     else (let ids = filter (\<lambda>i. i \<noteq> m) (ids_of (a_asset_ids a))
           in a\<lparr>a_asset_ids := Some (if s \<in> set ids then ids else ids @ [s]), a_revision := a_revision a + 1\<rparr>))"

definition unlinked :: "string list \<Rightarrow> string \<Rightarrow> album \<Rightarrow> album" where
  "unlinked pair_albums m a = (if a_id a \<in> set pair_albums \<and> m \<notin> set (ids_of (a_asset_ids a))
     then a\<lparr>a_asset_ids := Some (ids_of (a_asset_ids a) @ [m]), a_revision := a_revision a + 1\<rparr> else a)"

lemma unlinked_simps [simp]:
  "a_id (unlinked pa m a) = a_id a"
  "set (ids_of (a_asset_ids (unlinked pa m a)))
     = set (ids_of (a_asset_ids a)) \<union> (if a_id a \<in> set pa then {m} else {})"
  by (auto simp: unlinked_def ids_of_Some)

lemma unlink_album_room:
  "a_revision a \<noteq> max_u64 \<or> a_id a \<notin> set pa \<Longrightarrow> unlink_album m pa a = Inr (unlinked pa m a)"
  by (auto simp: unlink_album_def unlinked_def)

lemma linked_members:
  "s \<noteq> m \<Longrightarrow> set (ids_of (a_asset_ids (linked s m a)))
     = (if m \<in> set (ids_of (a_asset_ids a)) then insert s (set (ids_of (a_asset_ids a)) - {m})
        else set (ids_of (a_asset_ids a)))"
  by (auto simp: linked_def Let_def ids_of_Some)

lemma linked_simps [simp]:
  "a_id (linked s m a) = a_id a"
  "m \<in> set (ids_of (a_asset_ids (linked s m a))) \<longleftrightarrow> m \<in> set (ids_of (a_asset_ids a)) \<and> m = s"
  by (auto simp: linked_def Let_def ids_of_Some)

text \<open>C30
  Linking a still and a motion takes the motion out of every album and remembers where it was;
  unlinking puts it back into exactly those albums and leaves both rows separate again.
\<close>

theorem live_pair_round_trip:
  assumes link: "pair_change False still motion albums = Inr (Some (s, m, linked_albums))"
    and ids: "distinct (map a_id albums)" "f_entry_id still \<noteq> f_entry_id motion" "f_entry_id still \<noteq> ''''"
    and fresh: "f_pair_albums motion = []"
    and room: "\<forall>a \<in> set albums. a_revision a + 1 \<noteq> max_u64"
  shows "(\<forall>a \<in> set linked_albums. f_entry_id motion \<notin> set (ids_of (a_asset_ids a)))
    \<and> f_parent_id m = f_entry_id still
    \<and> (\<exists>s2 m2 back_albums. pair_change True s m linked_albums = Inr (Some (s2, m2, back_albums))
        \<and> f_parent_id m2 = '''' \<and> f_pair_albums m2 = [] \<and> f_components s2 = []
        \<and> list_all2 (\<lambda>a b. a_id b = a_id a \<and>
             set (ids_of (a_asset_ids b)) = set (ids_of (a_asset_ids a))
               \<union> (if f_entry_id motion \<in> set (ids_of (a_asset_ids a)) then {f_entry_id still} else {}))
            albums back_albums)"
proof -
  let ?S = "f_entry_id still" and ?M = "f_entry_id motion"
  from link have par: "f_parent_id motion = ''''"
    and l: "map_res (link_album ?S ?M) albums = Inr linked_albums"
    and s: "f_entry_id s = ?S" and m: "f_entry_id m = ?M" "f_parent_id m = ?S"
      "f_pair_albums m = map a_id (filter (\<lambda>a. ?M \<in> set (ids_of (a_asset_ids a))) albums)"
    using ids(3) fresh by (auto simp: pair_change_def Let_def res_bind_Inr_iff split: if_splits)
  have la: "linked_albums = map (linked ?S ?M) albums"
    by (rule map_res_fun [OF l]) (auto simp: link_album_def linked_def Let_def split: if_splits)
  have gone: "\<forall>a \<in> set linked_albums. ?M \<notin> set (ids_of (a_asset_ids a))"
    using ids(2) by (auto simp: la)
  let ?un = "unlinked (f_pair_albums m) ?M"
  have pair: "a_id a \<in> set (f_pair_albums m) \<longleftrightarrow> ?M \<in> set (ids_of (a_asset_ids a))" if "a \<in> set albums" for a
    using that distinct_map_inj [OF ids(1)] by (auto simp: m(3))
  have ok: "unlink_album ?M (f_pair_albums m) (linked ?S ?M a) = Inr (?un (linked ?S ?M a))"
    if "a \<in> set albums" for a
  proof (cases "?M \<in> set (ids_of (a_asset_ids a))")
    case True
    then have "a_revision (linked ?S ?M a) = a_revision a + 1" by (simp add: linked_def Let_def)
    with room that show ?thesis by (intro unlink_album_room) simp
  next
    case False
    with pair [OF that] show ?thesis by (intro unlink_album_room) simp
  qed
  have "map_res (unlink_album ?M (f_pair_albums m)) (map (linked ?S ?M) albums)
      = Inr (map (\<lambda>a. ?un (linked ?S ?M a)) albums)"
    by (rule map_res_over) (rule ok)
  then have un: "map_res (unlink_album ?M (f_pair_albums m)) linked_albums
      = Inr (map (\<lambda>a. ?un (linked ?S ?M a)) albums)" by (simp only: la)
  have "pair_change True s m linked_albums = Inr (Some (s\<lparr>f_components := []\<rparr>,
      m\<lparr>f_parent_id := '''', f_pair_albums := []\<rparr>, map (\<lambda>a. ?un (linked ?S ?M a)) albums))"
    using un by (simp add: pair_change_def Let_def s m(1,2))
  moreover have "list_all2 (\<lambda>a b. a_id b = a_id a \<and>
             set (ids_of (a_asset_ids b)) = set (ids_of (a_asset_ids a))
               \<union> (if ?M \<in> set (ids_of (a_asset_ids a)) then {?S} else {}))
            albums (map (\<lambda>a. ?un (linked ?S ?M a)) albums)"
  proof (unfold list_all2_map2, rule list.rel_refl_strong)
    fix a assume a: "a \<in> set albums"
    show "a_id (?un (linked ?S ?M a)) = a_id a \<and>
             set (ids_of (a_asset_ids (?un (linked ?S ?M a)))) = set (ids_of (a_asset_ids a))
               \<union> (if ?M \<in> set (ids_of (a_asset_ids a)) then {?S} else {})"
      using pair [OF a] linked_members [OF ids(2), of a] by auto
  qed
  ultimately show ?thesis using gone m(2) by (auto intro!: exI)
qed

end
