(* ===== verification/Text_Utf8.thy ===== *)
theory Text_Utf8
  imports Go_Lib
begin

text \<open>
  Texts in UTF-8, as \<^verbatim>\<open>unicode/utf8\<close> and \<^verbatim>\<open>strings\<close> read them: valid texts, the number of runes, words
  separated by white space, and equality under case folding for names in ASCII.
\<close>

text \<open>The ranges of the bytes that may follow the first byte of a character.\<close>

definition utf8_tail :: "nat \<Rightarrow> (nat \<times> nat) list option" where
  "utf8_tail b =
     (let cont = (0x80, 0xBF)
      in if b < 0x80 then Some []
         else if b < 0xC2 then None
         else if b < 0xE0 then Some [cont]
         else if b = 0xE0 then Some [(0xA0, 0xBF), cont]
         else if b = 0xED then Some [(0x80, 0x9F), cont]
         else if b < 0xF0 then Some [cont, cont]
         else if b = 0xF0 then Some [(0x90, 0xBF), cont, cont]
         else if b < 0xF4 then Some [cont, cont, cont]
         else if b = 0xF4 then Some [(0x80, 0x8F), cont, cont]
         else None)"

fun utf8_from :: "(nat \<times> nat) list \<Rightarrow> string \<Rightarrow> bool" where
  "utf8_from rs [] = (rs = [])"
| "utf8_from (r # rs) (b # s) = (fst r \<le> of_char b \<and> of_char b \<le> snd r \<and> utf8_from rs s)"
| "utf8_from [] (b # s) = (case utf8_tail (of_char b) of None \<Rightarrow> False | Some rs \<Rightarrow> utf8_from rs s)"

text \<open>\<open>utf8.ValidString(s)\<close> and no NUL in \<open>s\<close>.\<close>

definition valid_text :: "string \<Rightarrow> bool" where
  "valid_text s \<longleftrightarrow> utf8_from [] s \<and> CHR 0x00 \<notin> set s"

text \<open>\<open>len([]rune(s))\<close>: a byte that starts no character counts as one.\<close>

definition rune_width :: "string \<Rightarrow> nat" where
  "rune_width s =
     (case s of [] \<Rightarrow> 1
      | b # t \<Rightarrow>
          (case utf8_tail (of_char b) of
             None \<Rightarrow> 1
           | Some rs \<Rightarrow>
               if length rs \<le> length t \<and> list_all2 (\<lambda>r c. fst r \<le> of_char c \<and> of_char c \<le> snd r) rs (take (length rs) t)
               then Suc (length rs) else 1))"

lemma rune_width_pos: "0 < rune_width s"
  by (auto simp: rune_width_def split: list.splits option.splits)

function rune_count :: "string \<Rightarrow> nat" where
  "rune_count s = (if s = [] then 0 else Suc (rune_count (drop (rune_width s) s)))"
  by pat_completeness auto
termination
  by (relation "measure length") (auto intro!: diff_less rune_width_pos)

declare rune_count.simps [simp del]

text \<open>\<open>strings.Fields\<close>\<close>

fun fields_from :: "nat \<Rightarrow> string \<Rightarrow> string \<Rightarrow> string list" where
  "fields_from 0 word s = (if word = [] then [] else [rev word])"
| "fields_from (Suc n) word s =
     (case List.find (\<lambda>w. prefix w s) space_codes of
        Some w \<Rightarrow> (if word = [] then [] else [rev word]) @ fields_from n [] (drop (length w) s)
      | None \<Rightarrow>
          (case s of [] \<Rightarrow> (if word = [] then [] else [rev word])
           | c # t \<Rightarrow> fields_from n (c # word) t))"

definition go_fields :: "string \<Rightarrow> string list" where
  "go_fields s = fields_from (Suc (length s)) [] s"

text \<open>
  \<open>strings.EqualFold\<close> when one of the texts is ASCII: letters by their lower case, and the two characters
  outside ASCII that fold to an ASCII letter, the Kelvin sign (E2 84 AA) and the long s (C5 BF).
\<close>

fun fold_ascii :: "string \<Rightarrow> string" where
  "fold_ascii [] = []"
| "fold_ascii (c # s) =
     (if c = CHR 0xE2 \<and> take 2 s = [CHR 0x84, CHR 0xAA] then CHR ''k'' # fold_ascii (drop 2 s)
      else if c = CHR 0xC5 \<and> take 1 s = [CHR 0xBF] then CHR ''s'' # fold_ascii (drop 1 s)
      else lower_char c # fold_ascii s)"

definition equal_fold :: "string \<Rightarrow> string \<Rightarrow> bool" where
  "equal_fold s t \<longleftrightarrow> fold_ascii s = fold_ascii t"

lemma equal_fold_refl [simp]: "equal_fold s s"
  by (simp add: equal_fold_def)

lemma equal_fold_sym: "equal_fold s t \<Longrightarrow> equal_fold t s"
  by (simp add: equal_fold_def)

lemma equal_fold_trans: "equal_fold s t \<Longrightarrow> equal_fold t u \<Longrightarrow> equal_fold s u"
  by (simp add: equal_fold_def)

end
