(* ===== verification/Sources.thy ===== *)
theory Sources
  imports Ingest Text_Utf8
begin

text \<open>
  Collections that a device mirrors from a photo source (\<^verbatim>\<open>internal/catalog/photo_sources.go\<close>): pages of
  operations on folders and albums, each atomic and identified, applied in rounds until the rest waits for
  parents that are not imported; the lookup of mappings after a device was lost (\<^verbatim>\<open>source_recovery.go\<close>) and
  the adoption of a collection by a new source identity (\<^verbatim>\<open>source_recovery_write.go\<close>).
\<close>

section \<open>Operations\<close>

record source_operation =
  so_operation_id :: string
  so_namespace :: string
  so_source_id :: string
  so_source_revision :: string
  so_kind :: string
  so_parent_source_id :: string
  so_title :: string
  so_position :: int
  so_expected_revision :: u64
  so_deleted :: bool
  so_add_ids :: "string list"

record source_outcome =
  out_operation_id :: string
  out_status :: string
  out_code :: string
  out_server_id :: string
  out_revision :: u64

record source_recovery_adoption =
  ra_operation_id :: string
  ra_from_device :: string
  ra_from_namespace :: string
  ra_from_source_id :: string
  ra_from_source_revision :: string
  ra_from_server_revision :: u64
  ra_namespace :: string
  ra_source_id :: string
  ra_server_id :: string
  ra_expected_revision :: u64

text \<open>
  The hashes: the key of a mapping (base64 of SHA-256), the hexadecimal SHA-256 of the JSON of an operation
  with its kind of page, and of the JSON of an adoption with its device.
\<close>

record source_hashes =
  h_key :: "string \<Rightarrow> string"
  h_operation :: "source_operation \<Rightarrow> bool \<Rightarrow> string"
  h_adoption :: "string \<Rightarrow> source_recovery_adoption \<Rightarrow> string"

definition no_mapping :: source_mapping where
  "no_mapping = \<lparr>m_device_id = '''', m_namespace = '''', m_source_id = '''', m_kind = '''',
     m_server_id = '''', m_source_revision = '''', m_server_revision = 0\<rparr>"

definition zero_receipt :: source_receipt where
  "zero_receipt = \<lparr>sr_digest = '''', sr_server_id = '''', sr_revision = 0\<rparr>"

definition zero_outcome :: source_outcome where
  "zero_outcome = \<lparr>out_operation_id = '''', out_status = '''', out_code = '''', out_server_id = '''', out_revision = 0\<rparr>"

definition source_fields_ok :: "source_operation \<Rightarrow> bool" where
  "source_fields_ok op \<longleftrightarrow> so_operation_id op \<noteq> '''' \<and> length (so_operation_id op) \<le> 200
     \<and> so_namespace op \<noteq> '''' \<and> length (so_namespace op) \<le> 200
     \<and> so_source_id op \<noteq> '''' \<and> length (so_source_id op) \<le> 4096
     \<and> so_source_revision op \<noteq> '''' \<and> length (so_source_revision op) \<le> 200
     \<and> length (so_parent_source_id op) \<le> 4096 \<and> length (so_add_ids op) \<le> 200"

text \<open>The server's folder for the parent named by an operation; the empty name is the root.\<close>

definition source_parent ::
  "(string \<Rightarrow> string) \<Rightarrow> string \<Rightarrow> source_operation \<Rightarrow> (string \<times> source_mapping) list \<Rightarrow> catalog_error + string" where
  "source_parent H device op sources =
     (if so_parent_source_id op = '''' then Inr ''''
      else case map_of sources (sourceKey H device (so_namespace op) (so_parent_source_id op)) of
        None \<Rightarrow> Inl ErrSourceDependency
      | Some p \<Rightarrow> if m_kind p \<noteq> ''folder'' then Inl ErrAlbumInvalid else Inr (m_server_id p))"

definition checkSourceRevisionLocked :: "source_mapping \<Rightarrow> catalog \<Rightarrow> catalog_error option" where
  "checkSourceRevisionLocked m c =
     (if (\<exists>f \<in> set (cs_folders (c_collections c)). cf_id f = m_server_id m \<and> cf_revision f = m_server_revision m)
         \<or> (\<exists>a \<in> set (c_albums c). a_id a = m_server_id m \<and> a_revision a = m_server_revision m)
      then None else Some ErrRevisionMismatch)"

text \<open>Both album changes work on the copy of the albums and return the mapping's new target and revision.\<close>

definition importSourceAlbumLocked ::
  "env \<Rightarrow> source_mapping \<Rightarrow> source_operation \<Rightarrow> string \<Rightarrow> collection_folder list \<Rightarrow> album list
   \<Rightarrow> catalog_error + source_mapping \<times> album list \<times> env" where
  "importSourceAlbumLocked e m op parent folders albums =
     (let title = trim_space (so_title op)
      in if title = '''' \<or> 200 < length title \<or> so_position op < 0 \<or> 100000 < so_position op then Inl ErrAlbumInvalid
         else case validateCollectionParentLocked folders parent '''' of
           Some err \<Rightarrow> Inl err
         | None \<Rightarrow>
             (case find_index (\<lambda>a. a_id a = m_server_id m) albums of
                Some i \<Rightarrow>
                  if a_revision (albums ! i) \<noteq> so_expected_revision op then Inl ErrRevisionMismatch
                  else if a_revision (albums ! i) = max_u64 then Inl ErrRevisionOverflow
                  else
                    (let a = (albums ! i)\<lparr>a_title := title, a_parent_id := parent, a_position := so_position op,
                               a_revision := a_revision (albums ! i) + 1\<rparr>
                     in Inr (m\<lparr>m_server_revision := a_revision a\<rparr>, albums[i := a], e))
              | None \<Rightarrow>
                  if m_server_id m \<noteq> '''' then Inl ErrRevisionMismatch
                  else res_bind (newEntryID e) (\<lambda>(i, e').
                    let a = \<lparr>a_parent_id = parent, a_parent_set = False, a_id = ''pa_'' @ i, a_revision = 1,
                             a_title = title, a_description = '''', a_cover_id = '''',
                             a_position = so_position op, a_asset_ids = Some []\<rparr>
                    in Inr (m\<lparr>m_server_id := a_id a, m_server_revision := 1\<rparr>, albums @ [a], e'))))"

fun import_members :: "string list \<Rightarrow> string list \<Rightarrow> string list \<Rightarrow> catalog_error + string list" where
  "import_members valid members [] = Inr members"
| "import_members valid members (i # rest) =
     (if i \<notin> set valid then Inl ErrNotFound
      else import_members valid (if i \<in> set members then members else members @ [i]) rest)"

definition importSourceMembersLocked ::
  "file_row list \<Rightarrow> source_mapping \<Rightarrow> source_operation \<Rightarrow> album list \<Rightarrow> catalog_error + source_mapping \<times> album list" where
  "importSourceMembersLocked files m op albums =
     (case find_index (\<lambda>a. a_id a = m_server_id m) albums of
        None \<Rightarrow> Inl ErrRevisionMismatch
      | Some i \<Rightarrow>
          if a_revision (albums ! i) \<noteq> so_expected_revision op then Inl ErrRevisionMismatch
          else if a_revision (albums ! i) = max_u64 then Inl ErrRevisionOverflow
          else res_bind (import_members (validMembers files) (ids_of (a_asset_ids (albums ! i))) (so_add_ids op))
            (\<lambda>members.
               if 100000 < length members then Inl ErrAlbumInvalid
               else
                 (let a = (albums ! i)\<lparr>a_asset_ids := clone_ids (Some members), a_revision := a_revision (albums ! i) + 1\<rparr>
                  in Inr (m\<lparr>m_server_revision := a_revision a\<rparr>, albums[i := a]))))"

text \<open>
  The change of one operation: the mapping with its target, the folders and albums to store. A deletion at
  the source only checks the revision: the backup keeps collection and photos.
\<close>

definition source_change ::
  "env \<Rightarrow> source_operation \<Rightarrow> bool \<Rightarrow> string \<Rightarrow> source_mapping option \<Rightarrow> catalog
   \<Rightarrow> catalog_error + source_mapping \<times> collection_folder list \<times> album list \<times> env" where
  "source_change e op memberships parent existing c =
     (let folders = cs_folders (c_collections c); albums = cloneAlbums (c_albums c);
          m = (case existing of None \<Rightarrow> no_mapping | Some m \<Rightarrow> m)
      in if so_deleted op then
           (if existing = None then Inl ErrNotFound
            else case checkSourceRevisionLocked m c of Some err \<Rightarrow> Inl err | None \<Rightarrow> Inr (m, folders, albums, e))
         else if memberships then
           (if existing = None \<or> so_kind op \<noteq> ''album'' then Inl ErrNotFound
            else res_bind (importSourceMembersLocked (c_files c) m op albums) (\<lambda>(m', albums'). Inr (m', folders, albums', e)))
         else if so_kind op = ''folder'' then
           res_bind (mutateCollectionFolderLocked e
               \<lparr>cf_id = m_server_id m, cf_parent_id = parent, cf_title = so_title op, cf_position = so_position op,
                cf_revision = so_expected_revision op\<rparr> folders)
             (\<lambda>(f, folders', e'). Inr (m\<lparr>m_server_id := cf_id f, m_server_revision := cf_revision f\<rparr>, folders', albums, e'))
         else if so_kind op = ''album'' then
           res_bind (importSourceAlbumLocked e m op parent folders albums) (\<lambda>(m', albums', e'). Inr (m', folders, albums', e'))
         else Inl ErrAlbumInvalid)"

text \<open>A save of candidate collections and albums; a failed one puts the previous ones back.\<close>

definition save_sources ::
  "env \<Rightarrow> collection_state \<Rightarrow> album list \<Rightarrow> catalog \<Rightarrow> (catalog_error + unit) \<times> catalog" where
  "save_sources e cs albums c =
     (case saveFilesLocked e (c_files c) (c\<lparr>c_collections := cs, c_albums := albums\<rparr>) of
        (Inl err, c') \<Rightarrow> (Inl err, c'\<lparr>c_collections := c_collections c, c_albums := c_albums c\<rparr>)
      | (Inr u, c') \<Rightarrow> (Inr (), c'))"

definition applySourceOperationLocked ::
  "env \<Rightarrow> source_hashes \<Rightarrow> string \<Rightarrow> source_operation \<Rightarrow> bool \<Rightarrow> catalog
   \<Rightarrow> (source_receipt \<times> catalog_error option) \<times> catalog" where
  "applySourceOperationLocked e H device op memberships c =
     (let fail = (\<lambda>err. ((zero_receipt, Some err), c));
          digest = h_operation H op memberships;
          key = sourceKey (h_key H) device (so_namespace op) (so_source_id op);
          operation_key = sourceKey (h_key H) device (so_namespace op) (so_operation_id op);
          cs = c_collections c; existing = map_of (cs_sources cs) key
      in if \<not> source_fields_ok op then fail ErrAlbumInvalid
         else case map_of (cs_operations cs) operation_key of
           Some old \<Rightarrow> ((old, if sr_digest old \<noteq> digest then Some ErrSourceConflict else None), c)
         | None \<Rightarrow>
             if (case existing of None \<Rightarrow> so_expected_revision op \<noteq> 0
                 | Some m \<Rightarrow> m_kind m \<noteq> so_kind op \<or> m_server_revision m \<noteq> so_expected_revision op)
             then fail ErrRevisionMismatch
             else case source_parent (h_key H) device op (cs_sources cs) of
               Inl err \<Rightarrow> fail err
             | Inr parent \<Rightarrow>
                 (case source_change e op memberships parent existing c of
                    Inl err \<Rightarrow> fail err
                  | Inr (m, folders, albums, e') \<Rightarrow>
                      (let m' = m\<lparr>m_device_id := device, m_namespace := so_namespace op, m_source_id := so_source_id op,
                                  m_kind := so_kind op, m_source_revision := so_source_revision op\<rparr>;
                           receipt = \<lparr>sr_digest = digest, sr_server_id = m_server_id m', sr_revision = m_server_revision m'\<rparr>
                       in case save_sources e' \<lparr>cs_folders = folders, cs_sources = AList.update key m' (cs_sources cs),
                                  cs_operations = AList.update operation_key receipt (cs_operations cs)\<rparr> albums c of
                            (Inl err, c') \<Rightarrow> ((zero_receipt, Some err), c')
                          | (Inr u, c') \<Rightarrow> ((receipt, None), c'))))"

section \<open>Pages of operations\<close>

definition source_outcome_of :: "source_operation \<Rightarrow> source_receipt \<Rightarrow> catalog_error option \<Rightarrow> source_outcome" where
  "source_outcome_of op receipt err =
     (let outcome = \<lparr>out_operation_id = so_operation_id op, out_status = ''applied'', out_code = '''',
                     out_server_id = sr_server_id receipt, out_revision = sr_revision receipt\<rparr>
      in case err of
           None \<Rightarrow> outcome
         | Some x \<Rightarrow>
             if x = ErrRevisionMismatch then outcome\<lparr>out_status := ''conflict'', out_code := ''stale_revision''\<rparr>
             else if x = ErrSourceConflict then outcome\<lparr>out_status := ''conflict'', out_code := ''idempotency_conflict''\<rparr>
             else if x \<in> {ErrAlbumInvalid, ErrNotFound, ErrDescendant, ErrRevisionOverflow}
             then outcome\<lparr>out_status := ''invalid'', out_code := ''invalid_specification''\<rparr>
             else outcome\<lparr>out_status := ''retryable'', out_code := ''service_unavailable''\<rparr>)"

definition blocked_outcome :: "source_operation \<Rightarrow> source_outcome" where
  "blocked_outcome op = \<lparr>out_operation_id = so_operation_id op, out_status = ''dependency-blocked'',
     out_code = ''missing_parent'', out_server_id = '''', out_revision = 0\<rparr>"

text \<open>
  One pass over the operations still pending, in the order of the page: those that wait for a parent stay
  pending. \<open>es i\<close> are the surroundings in which the \<open>i\<close>-th operation is settled; an attempt that finds no
  parent asks nothing of them.
\<close>

fun source_round ::
  "(nat \<Rightarrow> env) \<Rightarrow> source_hashes \<Rightarrow> string \<Rightarrow> source_operation list \<Rightarrow> bool \<Rightarrow> nat list \<Rightarrow> source_outcome list
   \<Rightarrow> catalog \<Rightarrow> nat list \<times> source_outcome list \<times> catalog" where
  "source_round es H device ops members [] result c = ([], result, c)"
| "source_round es H device ops members (i # pending) result c =
     (case applySourceOperationLocked (es i) H device (ops ! i) members c of
        ((receipt, err), c') \<Rightarrow>
          if err = Some ErrSourceDependency
          then (let (left, result', c'') = source_round es H device ops members pending result c'
                in (i # left, result', c''))
          else source_round es H device ops members pending
                 (result[i := source_outcome_of (ops ! i) receipt err]) c')"

lemma source_round_Cons:
  assumes "applySourceOperationLocked (es i) H device (ops ! i) members c = ((receipt, err), c')"
  shows "source_round es H device ops members (i # pending) result c =
    (if err = Some ErrSourceDependency
     then (i # fst (source_round es H device ops members pending result c'),
           snd (source_round es H device ops members pending result c'))
     else source_round es H device ops members pending (result[i := source_outcome_of (ops ! i) receipt err]) c')"
  using assms by (simp add: Let_def split: prod.split)

lemma source_round_shrinks:
  "length (fst (source_round es H device ops members pending result c)) \<le> length pending"
proof (induction pending arbitrary: result c)
  case (Cons i pending)
  obtain receipt err c' where "applySourceOperationLocked (es i) H device (ops ! i) members c = ((receipt, err), c')"
    by (cases "applySourceOperationLocked (es i) H device (ops ! i) members c") auto
  from source_round_Cons [where es = es and ops = ops and i = i, OF this] Cons.IH show ?case by (simp add: le_SucI)
qed simp

text \<open>
  Rounds until nothing is pending or a round settles nothing; then what is left waits for its parent. A
  round that settles something leaves fewer operations pending, so the loop ends.
\<close>

function source_rounds ::
  "(nat \<Rightarrow> env) \<Rightarrow> source_hashes \<Rightarrow> string \<Rightarrow> source_operation list \<Rightarrow> bool \<Rightarrow> nat list \<Rightarrow> source_outcome list
   \<Rightarrow> catalog \<Rightarrow> source_outcome list \<times> catalog" where
  "source_rounds es H device ops members pending result c =
     (if pending = [] then (result, c)
      else let step = source_round es H device ops members pending result c;
               left = fst step; result' = fst (snd step); c' = snd (snd step)
           in if length left = length pending
              then (foldl (\<lambda>r i. r[i := blocked_outcome (ops ! i)]) result' left, c')
              else source_rounds es H device ops members left result' c')"
  by pat_completeness auto
termination
  by (relation "measure (\<lambda>(es, H, device, ops, members, pending, result, c). length pending)")
     (simp_all add: prod.case_eq_if source_round_shrinks le_neq_implies_less)

declare source_rounds.simps [simp del]

definition ImportSourceOperations ::
  "(nat \<Rightarrow> env) \<Rightarrow> source_hashes \<Rightarrow> string \<Rightarrow> source_operation list \<Rightarrow> bool \<Rightarrow> catalog
   \<Rightarrow> (catalog_error + source_outcome list) \<times> catalog" where
  "ImportSourceOperations es H device ops memberships c =
     (if device = '''' \<or> 100 < length device \<or> 200 < length ops \<or> ops = [] then (Inl ErrAlbumInvalid, c)
      else case source_rounds es H device ops memberships [0..<length ops] (replicate (length ops) zero_outcome) c of
        (result, c') \<Rightarrow> (Inr result, c'))"

section \<open>Lookup of mappings\<close>

record source_recovery_match =
  rm_mapping :: source_mapping
  rm_current_revision :: "u64 option"
  rm_target_exists :: bool

record source_recovery_page =
  rp_matches :: "source_recovery_match list"
  rp_has_more :: bool
  rp_after :: string

definition SourceRecoveryMaximum :: int where
  "SourceRecoveryMaximum = 200"

definition ValidateSourceRecovery :: "string list \<Rightarrow> string \<Rightarrow> int \<Rightarrow> catalog_error option" where
  "ValidateSourceRecovery ids namespace limit =
     (if length ids < 1 \<or> int (length ids) > SourceRecoveryMaximum \<or> limit < 1 \<or> limit > SourceRecoveryMaximum
         \<or> 200 < length namespace \<or> \<not> valid_text namespace
         \<or> \<not> distinct ids \<or> (\<exists>i \<in> set ids. i = '''' \<or> 4096 < length i \<or> \<not> valid_text i)
      then Some (ErrOther ''invalid source collection lookup'') else None)"

definition recovery_wanted :: "string list \<Rightarrow> string \<Rightarrow> string \<Rightarrow> string \<times> source_mapping \<Rightarrow> bool" where
  "recovery_wanted ids namespace after km \<longleftrightarrow> after < fst km \<and> m_source_id (snd km) \<in> set ids
     \<and> (namespace = '''' \<or> m_namespace (snd km) = namespace) \<and> m_kind (snd km) \<in> {''album'', ''folder''}"

text \<open>
  The bounded heap of \<open>container/heap\<close> as its sorted contents: the largest key is the root. A push inserts, a
  key smaller than the root of a full heap takes its place.
\<close>

definition heap_offer :: "nat \<Rightarrow> string list \<Rightarrow> string \<Rightarrow> string list" where
  "heap_offer room keys key =
     (if length keys < room then insort key keys
      else if key < last keys then insort key (butlast keys)
      else keys)"

text \<open>The scan over the map; \<open>alive k\<close>: the context is not cancelled before the \<open>k\<close>-th key.\<close>

fun recovery_scan ::
  "(nat \<Rightarrow> bool) \<Rightarrow> (string \<times> source_mapping \<Rightarrow> bool) \<Rightarrow> nat \<Rightarrow> nat \<Rightarrow> string list \<Rightarrow> (string \<times> source_mapping) list
   \<Rightarrow> string list option" where
  "recovery_scan alive wanted room k keys [] = Some keys"
| "recovery_scan alive wanted room k keys (km # rest) =
     (if \<not> alive k then None
      else recovery_scan alive wanted room (Suc k) (if wanted km then heap_offer room keys (fst km) else keys) rest)"

text \<open>The revision of the last album or folder with the target's identity, if there is one.\<close>

definition target_revision :: "catalog \<Rightarrow> source_mapping \<Rightarrow> u64 option" where
  "target_revision c m =
     (if m_kind m = ''album''
      then map_option a_revision (List.find (\<lambda>a. a_id a = m_server_id m) (rev (c_albums c)))
      else map_option cf_revision (List.find (\<lambda>f. cf_id f = m_server_id m) (rev (cs_folders (c_collections c)))))"

definition recovery_match :: "catalog \<Rightarrow> string \<Rightarrow> source_recovery_match" where
  "recovery_match c key =
     (let m = (case map_of (cs_sources (c_collections c)) key of None \<Rightarrow> no_mapping | Some m \<Rightarrow> m)
      in \<lparr>rm_mapping = m, rm_current_revision = target_revision c m, rm_target_exists = target_revision c m \<noteq> None\<rparr>)"

definition empty_recovery_page :: source_recovery_page where
  "empty_recovery_page = \<lparr>rp_matches = [], rp_has_more = False, rp_after = ''''\<rparr>"

definition LookupSourceCollections ::
  "env \<Rightarrow> (nat \<Rightarrow> bool) \<Rightarrow> string list \<Rightarrow> string \<Rightarrow> string \<Rightarrow> int \<Rightarrow> catalog
   \<Rightarrow> source_recovery_page \<times> catalog_error option" where
  "LookupSourceCollections e alive ids namespace after limit c =
     (let sources = cs_sources (c_collections c); canceled = ErrOther ''context canceled''
      in case ValidateSourceRecovery ids namespace limit of
           Some err \<Rightarrow> (empty_recovery_page, Some err)
         | None \<Rightarrow>
             (case recovery_scan alive (recovery_wanted ids namespace after) (nat limit + 1) 0 []
                     (map (\<lambda>k. (k, the (map_of sources k))) (map_order e (map fst sources))) of
                None \<Rightarrow> (empty_recovery_page, Some canceled)
              | Some found \<Rightarrow>
                  (let has_more = nat limit < length found; keys = take (nat limit) found
                   in (\<lparr>rp_matches = map (recovery_match c) keys, rp_has_more = has_more,
                        rp_after = (if has_more then last keys else '''')\<rparr>,
                       if alive (length sources) then None else Some canceled))))"

section \<open>Adoption\<close>

definition sourceCollectionRevisionLocked :: "string \<Rightarrow> string \<Rightarrow> catalog \<Rightarrow> u64 option" where
  "sourceCollectionRevisionLocked kind i c =
     (if kind = ''album'' then map_option a_revision (List.find (\<lambda>a. a_id a = i) (c_albums c))
      else if kind = ''folder'' then map_option cf_revision (find_folder (cs_folders (c_collections c)) i)
      else None)"

definition bounded_text :: "nat \<Rightarrow> string \<Rightarrow> bool" where
  "bounded_text n s \<longleftrightarrow> s \<noteq> '''' \<and> length s \<le> n \<and> valid_text s"

definition validSourceRecoveryAdoption :: "string \<Rightarrow> source_recovery_adoption \<Rightarrow> bool" where
  "validSourceRecoveryAdoption device a \<longleftrightarrow> device \<noteq> '''' \<and> length device \<le> 100
     \<and> bounded_text 200 (ra_operation_id a) \<and> bounded_text 100 (ra_from_device a)
     \<and> bounded_text 200 (ra_from_namespace a) \<and> bounded_text 4096 (ra_from_source_id a)
     \<and> bounded_text 200 (ra_from_source_revision a) \<and> bounded_text 200 (ra_namespace a)
     \<and> bounded_text 4096 (ra_source_id a) \<and> bounded_text 128 (ra_server_id a)
     \<and> ra_from_server_revision a \<noteq> 0 \<and> ra_expected_revision a \<noteq> 0"

definition AdoptSourceCollection ::
  "env \<Rightarrow> source_hashes \<Rightarrow> string \<Rightarrow> source_recovery_adoption \<Rightarrow> catalog
   \<Rightarrow> (catalog_error + source_mapping) \<times> catalog" where
  "AdoptSourceCollection e H device a c =
     (let cs = c_collections c;
          from_key = sourceKey (h_key H) (ra_from_device a) (ra_from_namespace a) (ra_from_source_id a);
          to_key = sourceKey (h_key H) device (ra_namespace a) (ra_source_id a);
          op_key = sourceKey (h_key H) device (ra_namespace a) (ra_operation_id a);
          digest = h_adoption H device a
      in if \<not> validSourceRecoveryAdoption device a then (Inl ErrAlbumInvalid, c)
         else case map_of (cs_operations cs) op_key of
           Some receipt \<Rightarrow>
             if sr_digest receipt \<noteq> digest then (Inl ErrSourceConflict, c)
             else (case map_of (cs_sources cs) to_key of
                     None \<Rightarrow> (Inl ErrSourceConflict, c)
                   | Some m \<Rightarrow>
                       if m_server_id m \<noteq> sr_server_id receipt then (Inl ErrSourceConflict, c)
                       else if sourceCollectionRevisionLocked (m_kind m) (m_server_id m) c = None
                       then (Inl ErrRevisionMismatch, c)
                       else (Inr m, c))
         | None \<Rightarrow>
             (case map_of (cs_sources cs) from_key of
                None \<Rightarrow> (Inl ErrNotFound, c)
              | Some old \<Rightarrow>
                  if m_kind old \<noteq> ''album'' \<and> m_kind old \<noteq> ''folder'' then (Inl ErrNotFound, c)
                  else if m_server_id old \<noteq> ra_server_id a \<or> m_server_revision old \<noteq> ra_from_server_revision a
                          \<or> m_source_revision old \<noteq> ra_from_source_revision a
                  then (Inl ErrRevisionMismatch, c)
                  else if sourceCollectionRevisionLocked (m_kind old) (m_server_id old) c \<noteq> Some (ra_expected_revision a)
                  then (Inl ErrRevisionMismatch, c)
                  else if map_of (cs_sources cs) to_key \<noteq> None then (Inl ErrSourceConflict, c)
                  else
                    (let m = \<lparr>m_device_id = device, m_namespace = ra_namespace a, m_source_id = ra_source_id a,
                              m_kind = m_kind old, m_server_id = m_server_id old,
                              m_source_revision = m_source_revision old, m_server_revision = ra_expected_revision a\<rparr>;
                         receipt = \<lparr>sr_digest = digest, sr_server_id = m_server_id m, sr_revision = m_server_revision m\<rparr>
                     in case save_collections e (cs\<lparr>cs_sources := AList.update to_key m (cs_sources cs),
                               cs_operations := AList.update op_key receipt (cs_operations cs)\<rparr>) c of
                          (Inl err, c') \<Rightarrow> (Inl err, c')
                        | (Inr u, c') \<Rightarrow> (Inr m, c'))))"

end
