(* ===== verification/Catalog_Machine.thy ===== *)
theory Catalog_Machine
  imports Sources
begin

text \<open>
  The catalog as a state machine: every operation that changes the state, in any order, with any
  surroundings. Each either leaves the catalog alone, or attempts one save: a failed save changes
  nothing the process holds, a successful one installs rows, indexes, journal and file together. The
  invariants of the process's state follow for every reachable state.
\<close>

section \<open>One attempt to save\<close>

text \<open>
  \<open>c0\<close> is the state the operation hands to \<open>saveFilesLocked\<close>: the caller's, with the albums,
  collections, checkpoints or journal it wants stored. If the save fails the caller's state is put back.
\<close>

definition saved :: "(string \<Rightarrow> change_record \<Rightarrow> string) \<Rightarrow> catalog \<Rightarrow> catalog \<Rightarrow> bool" where
  "saved D c c' \<longleftrightarrow>
     (\<exists>e files c0 r c1. digest e = D \<and> \<not> c_batch_only c0 \<and> journal_inv D (c_journal c0)
        \<and> c_disk c0 = c_disk c \<and> saveFilesLocked e files c0 = (r, c1)
        \<and> c' = (case r of Inl err \<Rightarrow> c\<lparr>c_disk := c_disk c1\<rparr> | Inr u \<Rightarrow> c1\<lparr>c_files := files\<rparr>))"

definition evolves :: "(string \<Rightarrow> change_record \<Rightarrow> string) \<Rightarrow> catalog \<Rightarrow> catalog \<Rightarrow> bool" where
  "evolves D c c' \<longleftrightarrow> c' = c \<or> saved D c c'"

text \<open>What holds of the process's state between any two operations.\<close>

definition coherent :: "(string \<Rightarrow> change_record \<Rightarrow> string) \<Rightarrow> catalog \<Rightarrow> bool" where
  "coherent D c \<longleftrightarrow> \<not> c_batch_only c \<and> journal_inv D (c_journal c) \<and> disk_faithful c
     \<and> c_by_path c = indexPaths (c_files c) \<and> c_children c = indexChildren (c_files c)
     \<and> c_saved_albums c = cloneAlbums (c_albums c) \<and> c_saved_collections c = c_collections c
     \<and> (\<forall>s. c_summary c = Some s \<longrightarrow> s = summarize [] zero_summary (c_files c))"

lemma evolves_same [simp, intro]: "evolves D c c"
  by (simp add: evolves_def)

lemma coherent_D:
  assumes "coherent D c"
  shows "\<not> c_batch_only c" "journal_inv D (c_journal c)" "disk_faithful c"
  using assms by (simp_all add: coherent_def)

lemma journal_inv_zero [simp]: "journal_inv D zero_journal"
  by (auto simp: journal_inv_def zero_journal_def)

lemma saved_coherent:
  assumes inv: "coherent D c" and step: "saved D c c'"
  shows "coherent D c'"
proof -
  from step obtain e files c0 r c1 where d: "digest e = D" and nb: "\<not> c_batch_only c0"
    and j: "journal_inv D (c_journal c0)" and disk: "c_disk c0 = c_disk c"
    and s: "saveFilesLocked e files c0 = (r, c1)"
    and c': "c' = (case r of Inl err \<Rightarrow> c\<lparr>c_disk := c_disk c1\<rparr> | Inr u \<Rightarrow> c1\<lparr>c_files := files\<rparr>)"
    by (auto simp: saved_def)
  show ?thesis
  proof (cases r)
    case (Inl err)
    from s Inl nb have "c_disk c1 = c_disk c0 \<or> (\<exists>t. c_disk c1 = Some (next_stamp c0, t))"
      unfolding saveFilesLocked_def Let_def by (auto split: sum.splits save_outcome.splits)
    then have "c_disk c1 = c_disk c \<or> (\<exists>t. c_disk c1 = Some (next_stamp c, t))"
      using disk by (simp add: next_stamp_def)
    then have "disk_faithful (c\<lparr>c_disk := c_disk c1\<rparr>)"
      using coherent_D(3) [OF inv]
      by (auto simp: disk_faithful_def next_stamp_def memory_tree_def stored_tree_def split: option.splits)
    with inv Inl c' show ?thesis by (simp add: coherent_def)
  next
    case (Inr u)
    from saveFilesLocked_ok [OF s [unfolded Inr] nb] obtain jn where
      jn: "nextJournalLocked e files c0 = Inr jn" and c1: "c1 = c0\<lparr>c_disk := Some (next_stamp c0, stored_tree files jn c0),
         c_disk_info := Some (next_stamp c0), c_journal := jn, c_saved_albums := cloneAlbums (c_albums c0),
         c_saved_collections := c_collections c0, c_summary := None, c_children := indexChildren files,
         c_by_path := indexPaths files, c_version := c_version c0 + 1\<rparr>"
      by blast
    from nextJournalLocked_inv [of e c0 files jn] d j jn have "journal_inv D jn" by simp
    with nb Inr c' show ?thesis
      by (simp add: c1 coherent_def disk_faithful_def memory_tree_def stored_tree_def)
  qed
qed

lemma evolves_coherent: "coherent D c \<Longrightarrow> evolves D c c' \<Longrightarrow> coherent D c'"
  unfolding evolves_def using saved_coherent by blast

text \<open>The two ways a save ends, for the process.\<close>

lemma saved_outcome:
  assumes inv: "coherent D c" and step: "saved D c c'"
  shows "(\<exists>d. c' = c\<lparr>c_disk := d\<rparr> \<and> (d \<noteq> c_disk c \<longrightarrow> \<not> DiskUnchanged c'))
    \<or> (DiskUnchanged c' \<and> map_option snd (c_disk c') = Some (memory_tree c')
       \<and> c_by_path c' = indexPaths (c_files c') \<and> c_children c' = indexChildren (c_files c')
       \<and> journal_inv D (c_journal c'))"
proof -
  from step obtain e files c0 r c1 where d: "digest e = D" and nb: "\<not> c_batch_only c0"
    and j: "journal_inv D (c_journal c0)" and disk: "c_disk c0 = c_disk c"
    and s: "saveFilesLocked e files c0 = (r, c1)"
    and c': "c' = (case r of Inl err \<Rightarrow> c\<lparr>c_disk := c_disk c1\<rparr> | Inr u \<Rightarrow> c1\<lparr>c_files := files\<rparr>)"
    by (auto simp: saved_def)
  show ?thesis
  proof (cases r)
    case (Inl err)
    have "c_disk c1 = c_disk c0 \<or> (\<exists>t. c_disk c1 = Some (next_stamp c0, t))"
      using s Inl nb unfolding saveFilesLocked_def Let_def by (auto split: sum.splits save_outcome.splits)
    then have "c_disk c1 \<noteq> c_disk c \<longrightarrow> \<not> DiskUnchanged (c\<lparr>c_disk := c_disk c1\<rparr>)"
      using coherent_D(3) [OF inv] disk
      by (auto simp: disk_faithful_def next_stamp_def DiskUnchanged_def split: option.splits)
    with Inl c' show ?thesis by auto
  next
    case (Inr u)
    from saveFilesLocked_ok [OF s [unfolded Inr] nb] nextJournalLocked_inv [of e c0 files] d j c' Inr
    show ?thesis
      by (auto simp: DiskUnchanged_def memory_tree_def stored_tree_def)
  qed
qed

section \<open>Every operation attempts at most one save\<close>

lemma snd_after_commit [simp]:
  "snd (case x of (Inl err, c') \<Rightarrow> (Inl err, c') | (Inr u, c') \<Rightarrow> (Inr v, c')) = snd x"
  by (cases x; cases "fst x") auto

lemma commit_files_evolves:
  assumes "coherent (digest e) c" "digest e' = digest e"
  shows "evolves (digest e) c (snd (commit_files e' files c))"
proof (cases "saveFilesLocked e' files c")
  case (Pair r c1)
  have "saved (digest e) c (snd (commit_files e' files c))"
    unfolding saved_def
    by (rule exI [of _ e'], rule exI [of _ files], rule exI [of _ c], rule exI [of _ r], rule exI [of _ c1])
       (use Pair assms coherent_D [OF assms(1)] saveFilesLocked_error [of e' files c] in
         \<open>auto simp: commit_files_def split: sum.splits\<close>)
  then show ?thesis by (simp add: evolves_def)
qed

lemma publish_evolves:
  "coherent (digest e) c \<Longrightarrow> evolves (digest e) c (snd (publish e r c))"
  by (cases r) (simp_all add: publish_def commit_files_evolves)

text \<open>A save of changed albums, collections or checkpoints that is undone when it fails.\<close>

lemma undone_save_evolves:
  assumes "coherent (digest e) c" "digest e' = digest e" "journal_inv (digest e) (c_journal c0)"
    and "\<not> c_batch_only c0" "c_disk c0 = c_disk c"
    and "saveFilesLocked e' files c0 = (r, c1)"
    and "\<And>err d. r = Inl err \<Longrightarrow> c1 = c0\<lparr>c_disk := d\<rparr> \<Longrightarrow> c' = c\<lparr>c_disk := d\<rparr>"
    and "r = Inr () \<Longrightarrow> c' = c1\<lparr>c_files := files\<rparr>"
  shows "evolves (digest e) c c'"
proof -
  have "c' = (case r of Inl err \<Rightarrow> c\<lparr>c_disk := c_disk c1\<rparr> | Inr u \<Rightarrow> c1\<lparr>c_files := files\<rparr>)"
  proof (cases r)
    case (Inl err)
    with assms(6) saveFilesLocked_error obtain d where "c1 = c0\<lparr>c_disk := d\<rparr>" by blast
    with assms(7) [OF Inl this] Inl show ?thesis by simp
  next
    case (Inr u)
    with assms(8) show ?thesis by simp
  qed
  with assms(2-6) show ?thesis unfolding evolves_def saved_def by blast
qed

lemma same_files_update: "c_files c = fs \<Longrightarrow> c\<lparr>c_files := fs\<rparr> = c"
  by auto

lemma saveFilesLocked_files:
  "saveFilesLocked e files c = (r, c') \<Longrightarrow> c_files c' = c_files c"
  unfolding saveFilesLocked_def Let_def by (auto split: if_splits sum.splits save_outcome.splits)

lemma save_albums_evolves:
  assumes "coherent (digest e) c" "digest e' = digest e"
  shows "evolves (digest e) c (snd (save_albums e' as c))"
proof (cases "saveFilesLocked e' (c_files c) (c\<lparr>c_albums := as\<rparr>)")
  case (Pair r c1)
  show ?thesis
    by (rule undone_save_evolves [OF assms _ _ _ Pair])
       (use Pair coherent_D [OF assms(1)] saveFilesLocked_files [OF Pair] in
         \<open>auto simp: save_albums_def same_files_update\<close>)
qed

lemma save_collections_evolves:
  assumes "coherent (digest e) c" "digest e' = digest e"
  shows "evolves (digest e) c (snd (save_collections e' cs c))"
proof (cases "saveFilesLocked e' (c_files c) (c\<lparr>c_collections := cs\<rparr>)")
  case (Pair r c1)
  show ?thesis
    by (rule undone_save_evolves [OF assms _ _ _ Pair])
       (use Pair coherent_D [OF assms(1)] saveFilesLocked_files [OF Pair] in
         \<open>auto simp: save_collections_def same_files_update\<close>)
qed

lemma save_sources_evolves:
  assumes "coherent (digest e) c" "digest e' = digest e"
  shows "evolves (digest e) c (snd (save_sources e' cs albums c))"
proof (cases "saveFilesLocked e' (c_files c) (c\<lparr>c_collections := cs, c_albums := albums\<rparr>)")
  case (Pair r c1)
  show ?thesis
    by (rule undone_save_evolves [OF assms _ _ _ Pair])
       (use Pair coherent_D [OF assms(1)] saveFilesLocked_files [OF Pair] in
         \<open>auto simp: save_sources_def same_files_update\<close>)
qed

lemma plain_save_evolves:
  assumes "coherent (digest e) c" "digest e' = digest e"
  shows "evolves (digest e) c (snd (saveFilesLocked e' (c_files c) c))"
proof (cases "saveFilesLocked e' (c_files c) c")
  case (Pair r c1)
  show ?thesis
    by (rule undone_save_evolves [OF assms _ _ _ Pair])
       (use Pair coherent_D [OF assms(1)] saveFilesLocked_files [OF Pair] in
         \<open>auto simp: same_files_update\<close>)
qed

section \<open>The draws of an operation do not change its digest\<close>

lemma newEntryID_digest: "newEntryID e = Inr (i, e') \<Longrightarrow> digest e' = digest e"
  by (auto simp: newEntryID_def split: list.splits option.splits)

lemma assignIdentity_digest: "assignIdentity e f = Inr (g, e') \<Longrightarrow> digest e' = digest e"
  by (auto simp: assignIdentity_def res_bind_Inr_iff Let_def newEntryID_digest split: if_splits)

lemma put_new_digest: "put_new e f fs = Inr (g, e') \<Longrightarrow> digest e' = digest e"
  unfolding put_new_def Let_def
  by (auto simp: res_bind_Inr_iff assignIdentity_digest split: if_splits)

lemma copy_rows_digest: "copy_rows e old new grant fs = Inr (hs, e') \<Longrightarrow> digest e' = digest e"
  by (induction fs arbitrary: e hs) (fastforce simp: res_bind_Inr_iff dest: assignIdentity_digest)+

lemma prepare_album_digest: "prepare_album e a = Inr (b, e') \<Longrightarrow> digest e' = digest e"
  unfolding prepare_album_def Let_def
  by (auto simp: res_bind_Inr_iff newEntryID_digest split: if_splits)

lemma mutateCollectionFolder_digest:
  "mutateCollectionFolderLocked e f fs = Inr (g, next, e') \<Longrightarrow> digest e' = digest e"
  unfolding mutateCollectionFolderLocked_def Let_def
  by (auto simp: res_bind_Inr_iff newEntryID_digest split: if_splits option.splits)

lemma source_change_digest:
  "source_change e op members parent existing c = Inr (m, folders, albums, e') \<Longrightarrow> digest e' = digest e"
  unfolding source_change_def importSourceAlbumLocked_def Let_def
  by (auto simp: res_bind_Inr_iff newEntryID_digest mutateCollectionFolder_digest split: if_splits option.splits)

lemmas call_digests = assignIdentity_digest put_new_digest copy_rows_digest prepare_album_digest
  mutateCollectionFolder_digest

section \<open>Operation by operation\<close>

lemmas save_evolves = commit_files_evolves publish_evolves save_albums_evolves save_collections_evolves

lemma Mkdir_evolves: "coherent (digest e) c \<Longrightarrow> evolves (digest e) c (snd (Mkdir e p c))"
  unfolding Mkdir_def by (auto split: sum.splits intro!: save_evolves dest: call_digests)

lemma Rename_evolves: "coherent (digest e) c \<Longrightarrow> evolves (digest e) c (snd (Rename e old new c))"
  unfolding Rename_def by (auto intro!: save_evolves)

lemma Put_evolves: "coherent (digest e) c \<Longrightarrow> evolves (digest e) c (snd (Put e f c))"
  unfolding Put_def Let_def
  by (auto split: sum.splits option.splits intro!: save_evolves dest: call_digests)

lemma SwitchReference_evolves:
  "coherent (digest e) c \<Longrightarrow> evolves (digest e) c (snd (SwitchReference e i r p n c))"
  unfolding SwitchReference_def by (simp split: sum.split option.split add: save_evolves)

lemma Delete_evolves: "coherent (digest e) c \<Longrightarrow> evolves (digest e) c (snd (Delete e p c))"
  unfolding Delete_def Let_def by (simp add: save_evolves)

lemma Restore_evolves: "coherent (digest e) c \<Longrightarrow> evolves (digest e) c (snd (Restore e p c))"
  unfolding Restore_def by (rule save_evolves)

lemma PurgeTrash_evolves: "coherent (digest e) c \<Longrightarrow> evolves (digest e) c (snd (PurgeTrash e before c))"
  unfolding PurgeTrash_def Let_def by (simp add: save_evolves)

lemma CopyWith_evolves:
  "coherent (digest e) c \<Longrightarrow> evolves (digest e) c (snd (CopyWith e old new grant c))"
  unfolding CopyWith_def Let_def
  by (auto split: sum.splits intro!: save_evolves dest: call_digests)

lemma DeletePaths_evolves: "coherent (digest e) c \<Longrightarrow> evolves (digest e) c (snd (DeletePaths e ps c))"
  unfolding DeletePaths_def Let_def by (simp split: sum.split add: save_evolves)

lemma SetTrashDate_evolves:
  "coherent (digest e) c \<Longrightarrow> evolves (digest e) c (snd (SetTrashDate e i r t c))"
  unfolding SetTrashDate_def Let_def by (simp split: option.split add: save_evolves)

lemma SetFolderHidden_evolves:
  "coherent (digest e) c \<Longrightarrow> evolves (digest e) c (snd (SetFolderHidden e i r h c))"
  unfolding SetFolderHidden_def Let_def by (simp split: option.split sum.split add: save_evolves)

lemma SetPhotoFlags_evolves:
  "coherent (digest e) c \<Longrightarrow> evolves (digest e) c (snd (SetPhotoFlags e fs h a c))"
  unfolding SetPhotoFlags_def Let_def by (simp split: prod.split sum.split add: save_evolves)

lemma updatePhotoMetadata_evolves:
  "coherent (digest e) c \<Longrightarrow> evolves (digest e) c (snd (updatePhotoMetadataLocked e i r cap der usr c))"
  unfolding updatePhotoMetadataLocked_def Let_def
  by (simp split: option.split prod.split add: save_evolves)

lemma UpdatePhotoMetadataBatch_evolves:
  "coherent (digest e) c \<Longrightarrow> evolves (digest e) c (snd (UpdatePhotoMetadataBatch e us c))"
  unfolding UpdatePhotoMetadataBatch_def Let_def
  by (simp split: prod.split sum.split add: save_evolves)

lemma AcknowledgePhotoProcessing_evolves:
  "coherent (digest e) c \<Longrightarrow> evolves (digest e) c (snd (AcknowledgePhotoProcessing e vs c))"
  unfolding AcknowledgePhotoProcessing_def by (simp add: save_evolves)

lemma SaveCollectionFolder_evolves:
  "coherent (digest e) c \<Longrightarrow> evolves (digest e) c (snd (SaveCollectionFolder e f c))"
  unfolding SaveCollectionFolder_def
  by (auto split: sum.split intro!: save_evolves dest: call_digests)

lemma DeleteCollectionFolder_evolves:
  "coherent (digest e) c \<Longrightarrow> evolves (digest e) c (snd (DeleteCollectionFolder e i r c))"
  unfolding DeleteCollectionFolder_def by (simp split: option.split sum.split add: save_evolves)

lemma SaveAlbum_evolves: "coherent (digest e) c \<Longrightarrow> evolves (digest e) c (snd (SaveAlbum e a c))"
  unfolding SaveAlbum_def store_album_def persistAlbumAtLocked_def Let_def
  by (auto split: sum.split option.split intro!: save_evolves dest: call_digests)

lemma DeleteAlbum_evolves: "coherent (digest e) c \<Longrightarrow> evolves (digest e) c (snd (DeleteAlbum e i r c))"
  unfolding DeleteAlbum_def by (simp split: option.split add: save_evolves)

lemma ChangeAlbumMembers_evolves:
  "coherent (digest e) c \<Longrightarrow> evolves (digest e) c (snd (ChangeAlbumMembers e i r add remove c))"
  unfolding ChangeAlbumMembers_def persistAlbumAtLocked_def Let_def
  by (simp split: option.split sum.split add: save_evolves)

lemma PreferPhoto_evolves: "coherent (digest e) c \<Longrightarrow> evolves (digest e) c (snd (PreferPhoto e i r ids c))"
  unfolding PreferPhoto_def Let_def by (simp split: option.split sum.split add: save_evolves)

lemma DiscardPhotoPending_evolves:
  "coherent (digest e) c \<Longrightarrow> evolves (digest e) c (snd (DiscardPhotoPending e ps c))"
  unfolding DiscardPhotoPending_def Let_def by (simp add: save_evolves)

lemma PublishBackup_evolves:
  assumes "coherent (digest e) c" "PublishBackup e ds plan c = Some (r, c')"
  shows "evolves (digest e) c c'"
proof -
  from assms(2) obtain z where "backup_rows plan (c_files c) = Some z" "c' = snd (publish e z c)"
    by (cases "backup_rows plan (c_files c)"; cases "fst (publish e (the (backup_rows plan (c_files c))) c)")
       (auto simp: PublishBackup_def split: prod.splits option.splits)
  with publish_evolves [OF assms(1)] show ?thesis by simp
qed

lemma Relocate_evolves:
  assumes "coherent (digest e) c" "Relocate e m b c = Some (r, c')"
  shows "evolves (digest e) c c'"
proof -
  from assms(2) have "c' = c \<or> (\<exists>next. c' = snd (commit_files e next c))"
    unfolding Relocate_def
    by (auto split: prod.splits sum.splits option.splits if_splits) (metis snd_conv)
  with commit_files_evolves [OF assms(1)] show ?thesis by auto
qed

lemma SetLivePhotoPair_evolves:
  assumes "coherent (digest e) c"
  shows "evolves (digest e) c (snd (SetLivePhotoPair e s m sr mr u c))"
proof -
  have save: "evolves (digest e) c (snd (case saveFilesLocked e rows (c\<lparr>c_albums := albums\<rparr>) of
        (Inl err, c') \<Rightarrow> (Inl err, c'\<lparr>c_albums := c_albums c\<rparr>)
      | (Inr u, c') \<Rightarrow> (Inr v, c'\<lparr>c_files := rows\<rparr>)))" for rows albums and v :: file_row
  proof (cases "saveFilesLocked e rows (c\<lparr>c_albums := albums\<rparr>)")
    case (Pair r c1)
    show ?thesis
      by (rule undone_save_evolves [OF assms refl _ _ _ Pair])
         (use Pair coherent_D [OF assms] in auto)
  qed
  show ?thesis
    unfolding SetLivePhotoPair_def Let_def
    by (simp split: option.split sum.split prod.split add: save [simplified])
qed

lemma CommitPhotoIngest_evolves:
  assumes "coherent (digest e) c"
  shows "evolves (digest e) c (snd (CommitPhotoIngest e H commit c))"
proof -
  have save: "evolves (digest e) c (snd (case saveFilesLocked e rows (c\<lparr>c_collections := cs, c_albums := albums\<rparr>) of
        (Inl err, c') \<Rightarrow> (Inl err, c'\<lparr>c_collections := c_collections c, c_albums := c_albums c\<rparr>)
      | (Inr u, c') \<Rightarrow> (Inr v, c'\<lparr>c_files := rows\<rparr>)))" for rows cs albums and v :: file_row
  proof (cases "saveFilesLocked e rows (c\<lparr>c_collections := cs, c_albums := albums\<rparr>)")
    case (Pair r c1)
    show ?thesis
      by (rule undone_save_evolves [OF assms refl _ _ _ Pair])
         (use Pair coherent_D [OF assms] in auto)
  qed
  show ?thesis
    unfolding CommitPhotoIngest_def Let_def
    by (simp split: sum.split prod.split add: save [simplified])
qed

lemma finish_batch_evolves:
  assumes "coherent (digest e) c"
  shows "evolves (digest e) c (snd (finishPhotoBatchLocked e shadow results changed c))"
proof (cases "saveFilesLocked e (c_files shadow)
    (c\<lparr>c_albums := c_albums shadow, c_collections := c_collections shadow\<rparr>)")
  case (Pair r c1)
  have "changed \<Longrightarrow> ?thesis"
    by (rule undone_save_evolves [OF assms refl _ _ _ Pair])
       (use Pair coherent_D [OF assms] in \<open>auto simp: finishPhotoBatchLocked_def\<close>)
  then show ?thesis by (cases changed) (simp_all add: finishPhotoBatchLocked_def)
qed

lemma photo_batch_evolves:
  assumes "coherent (digest e) c"
  shows "evolves (digest e) c (snd (PutPhotoComponents e files c))"
    and "evolves (digest e) c (snd (CommitPhotoIngestBatch e H commits c))"
  by (simp_all add: PutPhotoComponents_def CommitPhotoIngestBatch_def finish_batch_evolves [OF assms]
      split: prod.split)

lemma ResetPhotos_evolves:
  assumes "coherent (digest e) c"
  shows "evolves (digest e) c (snd (ResetPhotos e c))"
proof -
  let ?kept = "filter (\<lambda>f. \<not> PhotoResetPath (f_path f)) (c_files c)"
  let ?c0 = "c\<lparr>c_files := ?kept, c_albums := [], c_saved_albums := [],
       c_collections := empty_collections, c_saved_collections := empty_collections,
       c_journal := zero_journal, c_checkpoints := []\<rparr>"
  obtain r c1 where s: "saveFilesLocked e ?kept ?c0 = (r, c1)" by fastforce
  have "evolves (digest e) c c'" if "snd (ResetPhotos e c) = c'" "c' \<noteq> c" for c'
    by (rule undone_save_evolves [OF assms refl _ _ _ s])
       (use that s coherent_D [OF assms] saveFilesLocked_files [OF s] in
         \<open>auto simp: ResetPhotos_def Let_def same_files_update split: if_splits\<close>)
  then show ?thesis by (cases "snd (ResetPhotos e c) = c") auto
qed

lemma SyncPosition_evolves:
  assumes "coherent (digest e) c"
  shows "evolves (digest e) c (snd (SyncPosition e c))"
proof -
  have "snd (SyncPosition e c) = c \<or> snd (SyncPosition e c) = snd (saveFilesLocked e (c_files c) c)"
    unfolding SyncPosition_def
    by (cases "saveFilesLocked e (c_files c) c"; cases "fst (saveFilesLocked e (c_files c) c)") auto
  with plain_save_evolves [OF assms refl] show ?thesis by auto
qed

lemma CollectionPage_evolves:
  assumes "coherent (digest e) c"
  shows "evolves (digest e) c (snd (CollectionPage e after p n c))"
proof -
  have "snd (CollectionPage e after p n c) = c
      \<or> snd (CollectionPage e after p n c) = snd (saveFilesLocked e (c_files c) c)"
    unfolding CollectionPage_def Let_def
    by (auto split: sum.split prod.split)
  with plain_save_evolves [OF assms refl] show ?thesis by auto
qed

lemma undo_checkpoint:
  fixes ks :: "(string \<times> sync_position) list"
  shows "(case map_of ks d of Some q \<Rightarrow> AList.update d q (AList.update d p ks)
    | None \<Rightarrow> AList.delete d (AList.update d p ks)) = ks"
proof (cases "map_of ks d")
  case None
  then have "d \<notin> fst ` set ks" by (simp add: map_of_eq_None_iff)
  with None show ?thesis by (simp add: delete_update_same delete_id)
next
  case (Some q)
  then show ?thesis by (simp add: update_last update_triv)
qed

lemma AcknowledgeDevice_evolves:
  assumes "coherent (digest e) c"
  shows "evolves (digest e) c (snd (AcknowledgeDevice e d p c))"
proof (cases "saveFilesLocked e (c_files c) (c\<lparr>c_checkpoints := AList.update d p (c_checkpoints c)\<rparr>)")
  case (Pair r c1)
  have "evolves (digest e) c c'" if "snd (AcknowledgeDevice e d p c) = c'" "c' \<noteq> c" for c'
    by (rule undone_save_evolves [OF assms refl _ _ _ Pair])
       (use that Pair coherent_D [OF assms] saveFilesLocked_files [OF Pair] undo_checkpoint [where ks = "c_checkpoints c" and d = d and p = p] in
         \<open>auto simp: AcknowledgeDevice_def Let_def same_files_update split: if_splits option.splits\<close>)
  then show ?thesis by (cases "snd (AcknowledgeDevice e d p c) = c") auto
qed

lemma snd_after_sources:
  "snd (case x of (Inl err, c') \<Rightarrow> ((q, Some err), c') | (Inr u, c') \<Rightarrow> ((r, None), c')) = snd x"
  by (cases x; cases "fst x") auto

lemma applySourceOperation_evolves:
  assumes "coherent (digest e) c"
  shows "evolves (digest e) c (snd (applySourceOperationLocked e H device op members c))"
proof -
  let ?existing = "map_of (cs_sources (c_collections c)) (sourceKey (h_key H) device (so_namespace op) (so_source_id op))"
  have change: "evolves (digest e) c (snd (case source_change e op members parent ?existing c of
      Inl err \<Rightarrow> ((zero_receipt, Some err), c)
    | Inr (m, folders, albums, e') \<Rightarrow>
        (case save_sources e' (cs m folders albums) albums c of
           (Inl err, c') \<Rightarrow> ((zero_receipt, Some err), c') | (Inr u, c') \<Rightarrow> ((r m, None), c'))))" for parent cs r
  proof (cases "source_change e op members parent ?existing c")
    case (Inr t)
    obtain m folders albums e' where t: "t = (m, folders, albums, e')" by (cases t) auto
    from save_sources_evolves [OF assms source_change_digest [OF Inr [unfolded t]]] Inr t show ?thesis
      by (simp add: snd_after_sources)
  qed simp
  show ?thesis
    unfolding applySourceOperationLocked_def Let_def
    by (cases "map_of (cs_operations (c_collections c)) (sourceKey (h_key H) device (so_namespace op) (so_operation_id op))";
        cases "source_parent (h_key H) device op (cs_sources (c_collections c))") (simp_all add: change)
qed

lemma AdoptSourceCollection_evolves:
  "coherent (digest e) c \<Longrightarrow> evolves (digest e) c (snd (AdoptSourceCollection e H device a c))"
  unfolding AdoptSourceCollection_def Let_def by (simp split: option.split add: save_evolves)

section \<open>Reachable catalogs\<close>

text \<open>
  One operation of the catalog, with surroundings whose digest is \<open>D\<close>. The metadata updates share
  \<open>updatePhotoMetadataLocked\<close>; \<open>Summary\<close> stores what it computed.
\<close>

inductive catalog_step :: "(string \<Rightarrow> change_record \<Rightarrow> string) \<Rightarrow> catalog \<Rightarrow> catalog \<Rightarrow> bool" for D where
  "digest e = D \<Longrightarrow> catalog_step D c (snd (Mkdir e p c))"
| "digest e = D \<Longrightarrow> catalog_step D c (snd (Rename e old new c))"
| "digest e = D \<Longrightarrow> catalog_step D c (snd (Put e f c))"
| "digest e = D \<Longrightarrow> catalog_step D c (snd (SwitchReference e i v prev nxt c))"
| "digest e = D \<Longrightarrow> catalog_step D c (snd (Delete e p c))"
| "digest e = D \<Longrightarrow> catalog_step D c (snd (Restore e p c))"
| "digest e = D \<Longrightarrow> catalog_step D c (snd (PurgeTrash e t c))"
| "digest e = D \<Longrightarrow> catalog_step D c (snd (CopyWith e old new grant c))"
| "digest e = D \<Longrightarrow> catalog_step D c (snd (DeletePaths e ps c))"
| "digest e = D \<Longrightarrow> catalog_step D c (snd (SetTrashDate e i v t c))"
| "digest e = D \<Longrightarrow> catalog_step D c (snd (SetFolderHidden e i v h c))"
| "digest e = D \<Longrightarrow> catalog_step D c (snd (SetPhotoFlags e fs hid arc c))"
| "digest e = D \<Longrightarrow> catalog_step D c (snd (updatePhotoMetadataLocked e i v cap der usr c))"
| "digest e = D \<Longrightarrow> catalog_step D c (snd (UpdatePhotoMetadataBatch e us c))"
| "digest e = D \<Longrightarrow> catalog_step D c (snd (AcknowledgePhotoProcessing e vs c))"
| "digest e = D \<Longrightarrow> catalog_step D c (snd (SaveCollectionFolder e cf c))"
| "digest e = D \<Longrightarrow> catalog_step D c (snd (DeleteCollectionFolder e i v c))"
| "digest e = D \<Longrightarrow> catalog_step D c (snd (CollectionPage e after pos n c))"
| "digest e = D \<Longrightarrow> catalog_step D c (snd (SaveAlbum e a c))"
| "digest e = D \<Longrightarrow> catalog_step D c (snd (DeleteAlbum e i v c))"
| "digest e = D \<Longrightarrow> catalog_step D c (snd (ChangeAlbumMembers e i v add remove c))"
| "digest e = D \<Longrightarrow> PublishBackup e ds plan c = Some (r, c') \<Longrightarrow> catalog_step D c c'"
| "digest e = D \<Longrightarrow> Relocate e m b c = Some (r, c') \<Longrightarrow> catalog_step D c c'"
| "digest e = D \<Longrightarrow> catalog_step D c (snd (PreferPhoto e i v ids c))"
| "digest e = D \<Longrightarrow> catalog_step D c (snd (ResetPhotos e c))"
| "digest e = D \<Longrightarrow> catalog_step D c (snd (CommitPhotoIngest e H commit c))"
| "digest e = D \<Longrightarrow> catalog_step D c (snd (DiscardPhotoPending e parts c))"
| "digest e = D \<Longrightarrow> catalog_step D c (snd (PutPhotoComponents e files c))"
| "digest e = D \<Longrightarrow> catalog_step D c (snd (CommitPhotoIngestBatch e H commits c))"
| "digest e = D \<Longrightarrow> catalog_step D c (snd (SetLivePhotoPair e s m sv mv u c))"
| "digest e = D \<Longrightarrow> catalog_step D c (snd (SyncPosition e c))"
| "digest e = D \<Longrightarrow> catalog_step D c (snd (AcknowledgeDevice e d q c))"
| step_source: "digest e = D \<Longrightarrow> catalog_step D c (snd (applySourceOperationLocked e H device op members c))"
| "digest e = D \<Longrightarrow> catalog_step D c (snd (AdoptSourceCollection e H device a c))"
| step_Summary: "catalog_step D c (snd (Summary c))"

inductive reachable :: "(string \<Rightarrow> change_record \<Rightarrow> string) \<Rightarrow> catalog \<Rightarrow> bool" for D where
  reach_new: "reachable D new_catalog"
| reach_step: "reachable D c \<Longrightarrow> catalog_step D c c' \<Longrightarrow> reachable D c'"

lemmas evolves_intros = Mkdir_evolves Rename_evolves Put_evolves SwitchReference_evolves
  Delete_evolves Restore_evolves PurgeTrash_evolves CopyWith_evolves DeletePaths_evolves
  SetTrashDate_evolves SetFolderHidden_evolves SetPhotoFlags_evolves updatePhotoMetadata_evolves
  UpdatePhotoMetadataBatch_evolves AcknowledgePhotoProcessing_evolves SaveCollectionFolder_evolves
  DeleteCollectionFolder_evolves CollectionPage_evolves SaveAlbum_evolves DeleteAlbum_evolves
  ChangeAlbumMembers_evolves PublishBackup_evolves Relocate_evolves PreferPhoto_evolves
  ResetPhotos_evolves CommitPhotoIngest_evolves DiscardPhotoPending_evolves photo_batch_evolves
  SetLivePhotoPair_evolves SyncPosition_evolves AcknowledgeDevice_evolves applySourceOperation_evolves
  AdoptSourceCollection_evolves

lemma step_evolves:
  "catalog_step D c c' \<Longrightarrow> coherent D c \<Longrightarrow> evolves D c c' \<or> c' = snd (Summary c)"
  by (erule catalog_step.cases; hypsubst;
      (rule disjI2, rule refl | rule disjI1, rule evolves_intros; assumption))

lemma Summary_coherent: "coherent D c \<Longrightarrow> coherent D (snd (Summary c))"
  by (auto simp: Summary_def coherent_def disk_faithful_def memory_tree_def stored_tree_def Let_def
      split: option.splits)

lemma step_coherent: "catalog_step D c c' \<Longrightarrow> coherent D c \<Longrightarrow> coherent D c'"
  using step_evolves evolves_coherent Summary_coherent by blast

lemma indexes_of_nothing: "indexPaths [] = Map.empty" "indexChildren [] = Map.empty"
  by (simp_all add: indexPaths_def indexChildren_def)

lemma new_catalog_coherent: "coherent D new_catalog"
  by (simp add: coherent_def new_catalog_def indexes_of_nothing cloneAlbums_def disk_faithful_def)

lemma reachable_is_coherent: "reachable D c \<Longrightarrow> coherent D c"
  by (induction rule: reachable.induct) (auto intro: new_catalog_coherent step_coherent)

text \<open>A page of source operations is a sequence of such steps.\<close>

lemma source_round_reachable:
  assumes "reachable D c" "\<forall>i. digest (es i) = D"
  shows "reachable D (snd (snd (source_round es H device ops members pending result c)))"
  using assms(1)
proof (induction pending arbitrary: result c)
  case (Cons i pending)
  obtain receipt err c' where a: "applySourceOperationLocked (es i) H device (ops ! i) members c = ((receipt, err), c')"
    by (cases "applySourceOperationLocked (es i) H device (ops ! i) members c") auto
  have "catalog_step D c (snd (applySourceOperationLocked (es i) H device (ops ! i) members c))"
    by (rule step_source) (use assms(2) in simp)
  with a have "reachable D c'" using reach_step [OF Cons.prems] by simp
  from Cons.IH [OF this] source_round_Cons [where es = es and ops = ops and i = i, OF a] show ?case by simp
qed simp

lemma import_reachable:
  assumes "reachable D c" "\<forall>i. digest (es i) = D"
  shows "reachable D (snd (ImportSourceOperations es H device ops members c))"
proof -
  have "reachable D (snd (source_rounds es H device ops members pending result c))" for pending result
    using assms
  proof (induction es H device ops members pending result c rule: source_rounds.induct)
    case (1 es H device ops members pending result c)
    note step = source_round_reachable [OF 1(2,3)]
    show ?case
      by (subst source_rounds.simps) (use 1 step in \<open>simp add: Let_def\<close>)
  qed
  with assms(1) show ?thesis by (simp add: ImportSourceOperations_def split: prod.split) (metis snd_conv)
qed



end
