(* ===== verification/Catalog_Properties.thy ===== *)
theory Catalog_Properties
  imports Catalog_Machine
begin

text \<open>
  The catalog's promises that join its parts: rows, journal, file, indexes and the operations on
  the tree, each evaluated once on a concrete catalog.
\<close>

section \<open>Concrete catalogs\<close>

text \<open>A folder with a document in it; the same after the document moved to the trash.\<close>

definition sample_catalog :: catalog where
  "sample_catalog = snd (Put (sample_env [''2'']) (sample_doc ''a/b'')
     (snd (Mkdir (sample_env [''1'', ''e'']) ''a'' new_catalog)))"

lemma sample_reachable: "reachable (digest (sample_env [])) sample_catalog"
  unfolding sample_catalog_def
  by (rule reach_step [OF reach_step [OF reach_new catalog_step.intros(1)] catalog_step.intros(3)]) simp_all

section \<open>States\<close>



section \<open>Devices\<close>

text \<open>C3
  Refinement of the change journal: the records one successful save appends, replayed by a device
  that knew the revision, path and liveness of every entry before the save, give exactly those after
  it, whatever the order in which the runtime walks the maps. The journal keeps the newest 8,192 of
  the old and the new records.
\<close>

theorem device_replay:
  assumes "commit_files e files c = (Inr (), c')" "\<not> c_batch_only c"
    and "fair_order e" "distinct (map f_entry_id files)"
  shows "\<exists>qs. fold apply_record qs (versions_of (c_files c)) = versions_of (c_files c')
    \<and> j_records (c_journal c') = drop (length (j_records (c_journal c)) + length qs - ChangeRetention)
        (j_records (c_journal c) @ qs)"
  using commit_files_ok(1,6) [OF assms(1)] assms(2-) nextJournalLocked_Inr save_replay by metis

lemma device_replay_witness:
  "\<exists>qs. fold apply_record qs (versions_of (c_files sample_catalog)) = versions_of []"
proof -
  have "fst (commit_files (sample_env []) [] sample_catalog) = Inr ()" "\<not> c_batch_only sample_catalog"
    by code_simp+
  moreover have "c_files (snd (commit_files (sample_env []) [] sample_catalog)) = []" by code_simp
  ultimately show ?thesis
    using device_replay [of "sample_env []" "[]" sample_catalog "snd (commit_files (sample_env []) [] sample_catalog)"]
    by (metis distinct.simps(1) list.simps(8) prod.collapse sample_env_fair)
qed



text \<open>
  One page of \<open>ChangesAfter\<close>: the position it returns is accepted again by the same journal, no
  page has more than 200 records, and page and rest together are exactly the records after the
  position that was asked for.
\<close>

lemma changes_page:
  assumes "journal_inv D j" "ChangesAfter p limit j = Inr (out, next, has_more)"
  shows "validateSyncLocked next j = None \<and> length out \<le> 200
    \<and> filter (\<lambda>r. sp_sequence p < cr_sequence r) (j_records j)
        = out @ filter (\<lambda>r. sp_sequence next < cr_sequence r) (j_records j)
    \<and> (\<not> has_more \<longrightarrow> filter (\<lambda>r. sp_sequence next < cr_sequence r) (j_records j) = [])"
proof -
  note page = ChangesAfter_Inr [OF assms(2)] and rest = ChangesAfter_rest [OF assms]
  from page(2) have "length out \<le> 200" by simp
  moreover have "out = filter (\<lambda>r. sp_sequence p < cr_sequence r) (j_records j)" if "\<not> has_more"
    using page(2,3) that by simp
  ultimately show ?thesis using ChangesAfter_next_valid [OF assms] rest by auto
qed

lemma changes_page_witness:
  "\<exists>out next. ChangesAfter (position_of zero_journal) 1 (c_journal sample_catalog) = Inl ErrSyncExpired
     \<and> ChangesAfter (position_of (c_journal sample_catalog)) 1 (c_journal sample_catalog) = Inr (out, next, False)
     \<and> validateSyncLocked next (c_journal sample_catalog) = None"
proof -
  have inv: "journal_inv (digest (sample_env [])) (c_journal sample_catalog)"
    by (rule coherent_D(2) [OF reachable_is_coherent [OF sample_reachable]])
  have a: "ChangesAfter (position_of zero_journal) 1 (c_journal sample_catalog) = Inl ErrSyncExpired" by code_simp
  have p: "ChangesAfter (position_of (c_journal sample_catalog)) 1 (c_journal sample_catalog)
      = Inr ([], position_of (c_journal sample_catalog), False)" by code_simp
  from changes_page [OF inv p] a p show ?thesis by blast
qed

section \<open>File\<close>



text \<open>C26
  A write that replaced the catalog's file but could not be confirmed (syncing the directory failed)
  is reported as an error and the process no longer takes the file for its own, so that it reloads
  before it serves again; nothing it holds has changed.
\<close>

theorem unconfirmed_write_noticed:
  assumes "reachable D c" "nextJournalLocked e files c = Inr j" "outcome e = Sync_error"
  shows "\<exists>d. commit_files e files c = (Inl (ErrSave Sync_error), c\<lparr>c_disk := d\<rparr>)
    \<and> \<not> DiskUnchanged (c\<lparr>c_disk := d\<rparr>)"
proof -
  note coh = coherent_D [OF reachable_is_coherent [OF assms(1)]]
  from sync_error_noticed [OF assms(2,3) coh(3,1)]
  have "fst (commit_files e files c) = Inl (ErrSave Sync_error)" "\<not> DiskUnchanged (snd (commit_files e files c))"
    by simp_all
  with commit_files_error [of e files c "ErrSave Sync_error" "snd (commit_files e files c)"] show ?thesis
    by (metis prod.collapse)
qed

lemma unconfirmed_write_noticed_witness:
  "\<exists>d. commit_files ((sample_env [''e''])\<lparr>outcome := Sync_error\<rparr>) [] new_catalog
     = (Inl (ErrSave Sync_error), new_catalog\<lparr>c_disk := d\<rparr>)"
proof -
  have "\<exists>j. nextJournalLocked ((sample_env [''e''])\<lparr>outcome := Sync_error\<rparr>) [] new_catalog = Inr j"
    by (rule exI [of _ "zero_journal\<lparr>j_epoch := hex_encode ''e''\<rparr>"]) code_simp
  then obtain j where "nextJournalLocked ((sample_env [''e''])\<lparr>outcome := Sync_error\<rparr>) [] new_catalog = Inr j" ..
  from unconfirmed_write_noticed [OF reach_new this] show ?thesis by auto
qed

text \<open>C28
  Upgrading the rows of a legacy file: if it succeeds, every row has an identity, a revision and a
  supported reference, no two rows share an identity, and path, liveness and kind of every row are
  those it had, in the same order.
\<close>

theorem upgrade_well_formed:
  assumes "upgradeFiles e fs = Inr (gs, changed, e')" "fresh_env e fs"
  shows "rows_ok gs
    \<and> list_all2 (\<lambda>f g. f_path g = f_path f \<and> f_present g = f_present f \<and> f_folder g = f_folder f) fs gs"
  using upgrade_rows_ok [of e "[]" fs gs changed e'] assms
  by (auto simp: upgradeFiles_def fresh_env_def rows_ok_def distinct_ids_def split: if_splits)

lemma upgrade_well_formed_witness:
  "\<exists>gs e'. upgradeFiles (sample_env [''1'', ''2'']) [sample_doc ''a'', sample_doc ''b''] = Inr (gs, True, e')
     \<and> rows_ok gs \<and> map f_path gs = [''a'', ''b'']"
proof -
  let ?r = "upgradeFiles (sample_env [''1'', ''2'']) [sample_doc ''a'', sample_doc ''b'']"
  have ok: "is_ok ?r \<and> map f_path (fst (projr ?r)) = [''a'', ''b''] \<and> fst (snd (projr ?r))" by code_simp
  then obtain gs e' where r: "?r = Inr (gs, True, e')" by (cases ?r) (auto simp: is_ok_def)
  have "fresh_env (sample_env [''1'', ''2'']) [sample_doc ''a'', sample_doc ''b'']" by code_simp
  from upgrade_well_formed [OF r this] r ok show ?thesis by simp
qed

section \<open>Tree\<close>

text \<open>C6
  Refinement of \<open>Rename\<close>: on a well-formed tree a successful rename turns the map from live paths
  to identities into the one in which exactly the subtree of the old path sits at the new path, every
  other path keeps its entry, and the tree stays well formed.
\<close>

theorem rename_moves_subtree:
  assumes "namespace_ok (c_files c)" "Rename e old new c = (Inr (), c')" "old \<noteq> new"
  shows "live_at (c_files c') = moved_namespace old new (live_at (c_files c)) \<and> namespace_ok (c_files c')"
proof -
  from assms(2,3) have "Rename_rows old new (c_files c) = Inr (c_files c')"
    unfolding Rename_def publish_def by (simp add: catalog_rows.publish_rows)
  with Rename_rows_live Rename_rows_namespace assms(1) show ?thesis by blast
qed

lemma rename_moves_subtree_witness:
  "live_at (c_files (snd (Rename (sample_env []) ''a'' ''c'' sample_catalog)))
   = moved_namespace ''a'' ''c'' (live_at (c_files sample_catalog))
   \<and> live_at (c_files (snd (Rename (sample_env []) ''a'' ''c'' sample_catalog))) ''c/b'' = Some (hex_encode ''2'')"
proof -
  have "namespace_ok (c_files sample_catalog)" "fst (Rename (sample_env []) ''a'' ''c'' sample_catalog) = Inr ()"
    by code_simp+
  then have "Rename (sample_env []) ''a'' ''c'' sample_catalog
      = (Inr (), snd (Rename (sample_env []) ''a'' ''c'' sample_catalog))" by (metis prod.collapse)
  from rename_moves_subtree [OF \<open>namespace_ok _\<close> this]
  have "live_at (c_files (snd (Rename (sample_env []) ''a'' ''c'' sample_catalog)))
      = moved_namespace ''a'' ''c'' (live_at (c_files sample_catalog))" by simp
  moreover have "live_at (c_files (snd (Rename (sample_env []) ''a'' ''c'' sample_catalog))) ''c/b'' = Some (hex_encode ''2'')"
    by code_simp
  ultimately show ?thesis by blast
qed

text \<open>C7
  The tree invariant - live paths are unique and nothing live sits below a live file - survives every
  attempt to create a folder, rename, delete one path or a selection of paths, purge the trash or hide
  a folder, whatever the operation returns.
\<close>

theorem tree_kept:
  assumes "namespace_ok (c_files c)"
  shows "namespace_ok (c_files (snd (Mkdir e p c))) \<and> namespace_ok (c_files (snd (Rename e old new c)))
    \<and> namespace_ok (c_files (snd (Delete e p c))) \<and> namespace_ok (c_files (snd (DeletePaths e ps c)))
    \<and> namespace_ok (c_files (snd (PurgeTrash e before c)))
    \<and> namespace_ok (c_files (snd (SetFolderHidden e i v h c)))"
  by (intro conjI)
     (rule Mkdir_namespace [OF assms prod.collapse [symmetric]] Rename_namespace [OF assms prod.collapse [symmetric]]
       Delete_namespace [OF assms prod.collapse [symmetric]] DeletePaths_namespace [OF assms prod.collapse [symmetric]]
       PurgeTrash_namespace [OF assms prod.collapse [symmetric]]
       SetFolderHidden_namespace [OF assms prod.collapse [symmetric]])+

lemma tree_kept_witness:
  "namespace_ok (c_files (snd (Mkdir (sample_env [''3'']) ''a/b/c'' sample_catalog)))
   \<and> fst (Mkdir (sample_env [''3'']) ''a/b/c'' sample_catalog) = Inl ErrConflict"
proof -
  have "namespace_ok (c_files sample_catalog)"
    "fst (Mkdir (sample_env [''3'']) ''a/b/c'' sample_catalog) = Inl ErrConflict" by code_simp+
  with tree_kept show ?thesis by blast
qed




text \<open>
  \<open>Copy\<close> keeps the tree well formed, whatever it returns, when the destination is not an ancestor
  of the source and no copied file lands above a live entry: copies get fresh identities, revision 1,
  and nothing but the copies is added.
\<close>

lemma copy_keeps_tree:
  assumes "namespace_ok (c_files c)" "fresh_env e (c_files c)" "grant_keeps_name grant"
    and "\<not> under new old"
    and "\<forall>f \<in> set (c_files c). \<forall>x \<in> set (c_files c). f_present f \<and> f_present x
        \<and> within old (f_path f) \<and> under (rebase old new (f_path f)) (f_path x) \<longrightarrow> f_folder f"
  shows "namespace_ok (c_files (snd (CopyWith e old new grant c)))"
  using CopyWith_namespace [OF assms(1-3) _ assms(4,5)] by (metis prod.collapse)

lemma copy_keeps_tree_witness:
  "namespace_ok (c_files (snd (CopyWith (sample_env [''3'', ''4'']) ''a'' ''c'' None sample_catalog)))
   \<and> map f_path (c_files (snd (CopyWith (sample_env [''3'', ''4'']) ''a'' ''c'' None sample_catalog)))
       = [''a'', ''a/b'', ''c'', ''c/b'']"
proof -
  have "namespace_ok (c_files sample_catalog)" "fresh_env (sample_env [''3'', ''4'']) (c_files sample_catalog)"
    "\<not> under ''c'' ''a''"
    "\<forall>f \<in> set (c_files sample_catalog). \<forall>x \<in> set (c_files sample_catalog). f_present f \<and> f_present x
        \<and> within ''a'' (f_path f) \<and> under (rebase ''a'' ''c'' (f_path f)) (f_path x) \<longrightarrow> f_folder f"
    "map f_path (c_files (snd (CopyWith (sample_env [''3'', ''4'']) ''a'' ''c'' None sample_catalog)))
       = [''a'', ''a/b'', ''c'', ''c/b'']" by code_simp+
  moreover have "grant_keeps_name None" by (simp add: grant_keeps_name_def)
  ultimately show ?thesis using copy_keeps_tree by blast
qed




section \<open>Listings\<close>

text \<open>
  A folder's listing is complete and duplicate-free: in every reachable catalog whose live paths are
  unique, each live entry with an identity is listed, as it is, under its parent, and no listing names
  a path twice.
\<close>

lemma listing_complete:
  assumes "reachable D c" "unique_live_paths (c_files c)" "c_children c p = Some rows"
  shows "distinct (map f_path rows)
    \<and> (\<forall>f \<in> set (c_files c). f_present f \<and> f_path f \<noteq> '''' \<and> f_entry_id f \<noteq> '''' \<and> parent_name (f_path f) = p
         \<longrightarrow> f \<in> set rows)"
proof -
  have idx: "c_children c = indexChildren (c_files c)"
    using reachable_is_coherent [OF assms(1)] by (simp add: coherent_def)
  with assms(3) indexChildren_distinct indexChildren_lists [OF assms(2)] show ?thesis by fastforce
qed

lemma listing_complete_witness:
  "\<exists>rows. c_children sample_catalog ''a'' = Some rows \<and> distinct (map f_path rows) \<and> rows \<noteq> []"
proof -
  have u: "unique_live_paths (c_files sample_catalog)" by code_simp
  have "map_option (map f_path) (c_children sample_catalog ''a'') = Some [''a/b'']" by code_simp
  then obtain rows where r: "c_children sample_catalog ''a'' = Some rows" "map f_path rows = [''a/b'']" by auto
  from listing_complete [OF sample_reachable u r(1)] r show ?thesis by auto
qed

section \<open>Albums and their folders\<close>



section \<open>Photo operations on a concrete library\<close>

text \<open>Two photos, one of them the member of an album.\<close>

definition sample_row :: "string \<Rightarrow> string \<Rightarrow> file_row" where
  "sample_row i p = (sample_doc p)\<lparr>f_entry_id := i, f_revision := 1, f_present := True, f_reference := Some
     \<lparr>r_backend = ResticBackend, r_version = 1, r_snapshot = ''s'', r_object = ''o'', r_operation = '''',
      r_owner_entry_id = '''', r_owner_revision = 0\<rparr>\<rparr>"

definition sample_album :: album where
  "sample_album = \<lparr>a_parent_id = '''', a_parent_set = False, a_id = ''pa_7'', a_revision = 1,
     a_title = ''Trip'', a_description = '''', a_cover_id = '''', a_position = 0, a_asset_ids = Some [''1'']\<rparr>"

definition sample_photos :: catalog where
  "sample_photos = new_catalog\<lparr>c_files := [sample_row ''1'' ''Photos/a.jpg'', sample_row ''2'' ''Photos/b.jpg''],
     c_albums := [sample_album], c_journal := zero_journal\<lparr>j_epoch := ''e''\<rparr>\<rparr>"

definition sample_capture :: capture_metadata where
  "sample_capture = \<lparr>cm_time = Some \<lparr>instant = 63000000000000000000, zone = 0\<rparr>, cm_offset = None,
     cm_source = ''exif'', cm_user_corrected = False\<rparr>"

definition sample_part :: photo_ingest_file where
  "sample_part = \<lparr>pi_id = ''original'', pi_from = ''.weazl-mobile-pending/u'', pi_to = ''Photos/u.jpg'',
     pi_hash = ''h'', pi_media = ''image/jpeg'', pi_size = 3\<rparr>"

definition sample_ingest :: photo_ingest_commit where
  "sample_ingest = \<lparr>pic_namespace = ''n'', pic_source_asset = ''s'', pic_mapping_revision = 0,
     pic_device = ''d'', pic_device_asset = ''x'', pic_source_revision = ''r'', pic_hidden = False,
     pic_opaque_original = False, pic_files = [sample_part], pic_album_ids = [], pic_capture = None\<rparr>"

definition sample_upload :: catalog where
  "sample_upload = new_catalog\<lparr>c_files := [sample_row ''3'' ''.weazl-mobile-pending/u''],
     c_journal := zero_journal\<lparr>j_epoch := ''e''\<rparr>\<rparr>"

lemma ok_result: "is_ok (fst x) \<Longrightarrow> \<exists>v. x = (Inr v, snd x)"
  by (cases x; cases "fst x") (auto simp: is_ok_def)

lemma metadata_update_bound_witness:
  "\<exists>g. fst (updatePhotoMetadataLocked (sample_env []) ''1'' 1 (Some sample_capture) None None sample_photos)
      = Inr g \<and> (f_revision g = 1 \<or> f_revision g = 1 + 1)"
proof -
  let ?x = "updatePhotoMetadataLocked (sample_env []) ''1'' 1 (Some sample_capture) None None sample_photos"
  have "is_ok (fst ?x)" by code_simp
  then obtain g where g: "?x = (Inr g, snd ?x)" using ok_result by blast
  have "case Some sample_capture of Some m \<Rightarrow> \<not> cm_user_corrected m | None \<Rightarrow> True" by code_simp
  from metadata_update_bound [OF g this] have "f_revision g = 1 \<or> f_revision g = 1 + 1" by (auto simp: Let_def)
  moreover have "fst ?x = Inr g" using g by (metis fst_conv)
  ultimately show ?thesis by blast
qed

lemma metadata_batch_rows_witness:
  "\<exists>b. fst (UpdatePhotoMetadataBatch (sample_env [])
      [\<lparr>pm_id = ''1'', pm_revision = 1, pm_path = ''Photos/a.jpg'', pm_hash = ''h'',
        pm_capture = Some sample_capture, pm_media = None\<rparr>] sample_photos) = Inr b
     \<and> length (mb_files b) + length (mb_conflicts b) = 1"
proof -
  let ?x = "UpdatePhotoMetadataBatch (sample_env [])
      [\<lparr>pm_id = ''1'', pm_revision = 1, pm_path = ''Photos/a.jpg'', pm_hash = ''h'',
        pm_capture = Some sample_capture, pm_media = None\<rparr>] sample_photos"
  have "is_ok (fst ?x)" by code_simp
  then obtain b where b: "?x = (Inr b, snd ?x)" using ok_result by blast
  from metadata_batch_rows [OF b] have "length (mb_files b) + length (mb_conflicts b) = 1" by simp
  moreover have "fst ?x = Inr b" using b by (metis fst_conv)
  ultimately show ?thesis by blast
qed

lemma collection_pages_complete_witness:
  "read_pages 2 (\<lambda>after. case fst (CollectionPage (sample_env []) after
        (Some (position_of (c_journal sample_photos))) 1 sample_photos) of
      Inr p \<Rightarrow> (cp_nodes p, cp_has_more p) | Inl err \<Rightarrow> ([], False)) n_id '''' = collection_nodes sample_photos"
proof -
  have "distinct (map n_id (collection_nodes sample_photos))"
    "\<forall>n \<in> set (collection_nodes sample_photos). n_id n \<noteq> ''''"
    "j_epoch (c_journal sample_photos) \<noteq> ''''" "length (collection_nodes sample_photos) < 2" by code_simp+
  from collection_pages_complete [OF this] show ?thesis .
qed

lemma album_members_changed_witness:
  "\<exists>g. fst (ChangeAlbumMembers (sample_env []) ''pa_7'' 1 [''2''] [''1'']
        sample_photos) = Inr g \<and> album_ok g \<and> a_revision g = 1 + 1"
proof -
  let ?x = "ChangeAlbumMembers (sample_env []) ''pa_7'' 1 [''2''] [''1''] sample_photos"
  let ?p = "persistAlbumAtLocked (sample_env []) 0 (changed_album sample_album [''2''] [''1'']) sample_photos"
  have ok: "albums_ok (c_albums sample_photos)" by code_simp
  have "find_index (\<lambda>a. a_id a = ''pa_7'') (c_albums sample_photos) = Some 0"
    "c_albums sample_photos ! 0 = sample_album" "a_revision sample_album = 1" "a_revision sample_album \<noteq> max_u64"
    "add_members (validMembers (c_files sample_photos))
       (filter (\<lambda>x. x \<notin> set [''1'']) (ids_of (a_asset_ids sample_album))) [''2''] = Inr [''2'']"
    "is_ok (fst ?p)" by code_simp+
  then have "is_ok (fst ?x)"
    by (cases ?p) (auto simp: ChangeAlbumMembers_def Let_def is_ok_def split: sum.splits)
  then obtain g where g: "?x = (Inr g, snd ?x)" using ok_result by blast
  from album_members_changed [OF ok g] have "album_ok g \<and> a_revision g = 1 + 1" by (auto simp: Let_def)
  moreover have "fst ?x = Inr g" using g by (metis fst_conv)
  ultimately show ?thesis by blast
qed


lemma relocation_tree_witness:
  "\<exists>r c'. Relocate (sample_env []) [''a/b'' \<mapsto> ''a/c''] True sample_catalog = Some (r, c')
     \<and> unique_live_paths (c_files c')"
proof -
  have "map_option fst (Relocate (sample_env []) [''a/b'' \<mapsto> ''a/c''] True sample_catalog) = Some (Inr ())"
    by code_simp
  with relocation_tree [OF sample_env_fair, of "[]" "[''a/b'' \<mapsto> ''a/c'']" True sample_catalog]
  show ?thesis by auto
qed

lemma snapshot_complete_witness:
  "read_pages 3 (\<lambda>after. MobileFilesSnapshot after ''Photos'' 1 sample_photos) f_entry_id ''''
   = sort_key f_entry_id (filter (\<lambda>f. f_present f \<and> MobileFilesMatch (f_path f) ''Photos'') (c_files sample_photos))"
proof -
  have "distinct_ids (c_files sample_photos)" "\<forall>f \<in> set (c_files sample_photos). f_entry_id f \<noteq> ''''"
    "length (c_files sample_photos) < 3" by code_simp+
  from snapshot_complete [OF this] show ?thesis by blast
qed

lemma preferred_unique_witness:
  "filter (\<lambda>g. f_entry_id g \<in> {''1'', ''2''} \<and> f_preferred g \<noteq> (f_entry_id g = ''1''))
     (c_files (snd (PreferPhoto (sample_env []) ''1'' 1 [''1'', ''2''] sample_photos))) = []"
proof -
  let ?x = "PreferPhoto (sample_env []) ''1'' 1 [''1'', ''2''] sample_photos"
  have "is_ok (fst ?x)" by code_simp
  then obtain v where "?x = (Inr v, snd ?x)" using ok_result by blast
  from preferred_unique [OF this] show ?thesis by (auto simp: filter_empty_conv)
qed

lemma reset_starts_over_witness:
  "c_albums (snd (ResetPhotos (sample_env [''8'']) sample_photos)) = []"
proof -
  let ?x = "ResetPhotos (sample_env [''8'']) sample_photos"
  have ok: "is_ok (fst ?x)" "\<not> c_batch_only sample_photos" by code_simp+
  then obtain v where v: "?x = (Inr v, snd ?x)" using ok_result by blast
  from reset_starts_over [OF v ok(2)] show ?thesis by simp
qed


lemma batch_atomic_witness:
  "length (fst (CommitPhotoIngestBatch (sample_env []) (\<lambda>s. ''x'') [(sample_env [], sample_ingest)] sample_upload)) = 1"
proof -
  have "\<not> c_batch_only sample_upload" by code_simp
  with batch_atomic [OF prod.collapse [symmetric], of sample_upload "sample_env []" "\<lambda>s. ''x''" "[(sample_env [], sample_ingest)]"]
  show ?thesis by simp
qed

lemma live_pair_round_trip_witness:
  "\<exists>s m albums. pair_change False (c_files sample_photos ! 1) (c_files sample_photos ! 0) (c_albums sample_photos)
       = Inr (Some (s, m, albums))
     \<and> filter (\<lambda>a. ''1'' \<in> set (ids_of (a_asset_ids a))) albums = []"
proof -
  let ?r = "pair_change False (c_files sample_photos ! 1) (c_files sample_photos ! 0) (c_albums sample_photos)"
  have ok: "is_ok ?r \<and> projr ?r \<noteq> None" "distinct (map a_id (c_albums sample_photos))"
    "f_entry_id (c_files sample_photos ! 1) \<noteq> f_entry_id (c_files sample_photos ! 0)"
    "f_entry_id (c_files sample_photos ! 1) \<noteq> ''''" "f_pair_albums (c_files sample_photos ! 0) = []"
    "\<forall>a \<in> set (c_albums sample_photos). a_revision a + 1 \<noteq> max_u64"
    "f_entry_id (c_files sample_photos ! 0) = ''1''" by code_simp+
  then obtain s m albums where r: "?r = Inr (Some (s, m, albums))"
    by (cases ?r) (auto simp: is_ok_def)
  from live_pair_round_trip [OF r ok(2-6)] r ok(7) show ?thesis by (auto simp: filter_empty_conv)
qed

end
