(* ===== verification/Source_Imports.thy ===== *)
theory Source_Imports
  imports Sources
begin

text \<open>
  What the mirroring of source collections promises: a page of operations settles, an applied operation
  leaves a receipt that answers its repetition, edits made on the server are not overwritten, and what the
  owner keeps of albums and folders stays well formed.
\<close>

section \<open>Cases of one operation\<close>

lemma res_bind_Inl_iff: "res_bind m f = Inl err \<longleftrightarrow> m = Inl err \<or> (\<exists>x. m = Inr x \<and> f x = Inl err)"
  by (cases m) auto

text \<open>The errors of the steps of an operation: none of them is the missing parent.\<close>

lemma newEntryID_error: "newEntryID e = Inl err \<Longrightarrow> err = ErrEntropy"
  by (auto simp: newEntryID_def split: list.splits option.splits)

lemma parent_error:
  "validateCollectionParentLocked fs p self = Some err \<Longrightarrow> err = ErrDescendant \<or> err = ErrNotFound"
proof -
  have "parent_walk fs seen n p = Some err \<Longrightarrow> err = ErrDescendant \<or> err = ErrNotFound" for seen n p
    by (induction fs seen n p rule: parent_walk.induct) (auto split: option.splits if_splits)
  then show "validateCollectionParentLocked fs p self = Some err \<Longrightarrow> err = ErrDescendant \<or> err = ErrNotFound"
    by (simp add: validateCollectionParentLocked_def)
qed

lemma check_parents_error: "check_parents fs gs = Some err \<Longrightarrow> err = ErrDescendant \<or> err = ErrNotFound"
  by (induction gs) (auto split: option.splits dest: parent_error)

lemma next_journal_error:
  "nextJournalLocked e files c = Inl err \<Longrightarrow> err = ErrEntropy \<or> err = ErrRevisionOverflow"
proof -
  have all: "append_all e j rs = Inl err \<Longrightarrow> err = ErrRevisionOverflow" for e j rs
    by (induction rs arbitrary: j) (auto simp: res_bind_Inl_iff journal_append_def Let_def split: if_splits)
  show "nextJournalLocked e files c = Inl err \<Longrightarrow> err = ErrEntropy \<or> err = ErrRevisionOverflow"
    unfolding nextJournalLocked_def start_epoch_def
    by (auto simp: res_bind_Inl_iff split: if_splits dest: newEntryID_error all)
qed

lemma save_error:
  "saveFilesLocked e files c = (Inl err, c') \<Longrightarrow> err = ErrEntropy \<or> err = ErrRevisionOverflow \<or> (\<exists>o'. err = ErrSave o')"
  unfolding saveFilesLocked_def Let_def
  by (auto split: if_splits sum.splits save_outcome.splits dest: next_journal_error)

lemma save_sources_cases:
  assumes "save_sources e cs albums c = (r, c')"
  obtains (failed) err d where "r = Inl err" "c' = c\<lparr>c_disk := d\<rparr>" "err \<noteq> ErrSourceDependency"
  | (saved) "r = Inr ()" "c_collections c' = cs" "c_albums c' = albums" "c_files c' = c_files c"
proof (cases "saveFilesLocked e (c_files c) (c\<lparr>c_collections := cs, c_albums := albums\<rparr>)")
  case (Pair res c1)
  show ?thesis
  proof (cases res)
    case (Inl err)
    have "err \<noteq> ErrSourceDependency" using save_error Pair Inl by blast
    with Inl Pair saveFilesLocked_error [of e "c_files c" "c\<lparr>c_collections := cs, c_albums := albums\<rparr>" err c1] assms failed
    show ?thesis by (auto simp: save_sources_def)
  next
    case (Inr u)
    with Pair have s: "saveFilesLocked e (c_files c) (c\<lparr>c_collections := cs, c_albums := albums\<rparr>) = (Inr u, c1)" by simp
    have "c_collections c1 = cs \<and> c_albums c1 = albums \<and> c_files c1 = c_files c"
      using s saveFilesLocked_ok [OF s]
      by (cases "c_batch_only c") (auto simp: saveFilesLocked_batch)
    with s assms saved show ?thesis by (auto simp: save_sources_def)
  qed
qed

lemmas step_errors = newEntryID_error parent_error check_parents_error

lemma mutate_error:
  "mutateCollectionFolderLocked e f fs = Inl err \<Longrightarrow> err \<noteq> ErrSourceDependency"
  unfolding mutateCollectionFolderLocked_def Let_def
  by (auto simp: res_bind_Inl_iff split: if_splits option.splits dest: step_errors)

lemma import_album_error:
  "importSourceAlbumLocked e m op parent fs as = Inl err \<Longrightarrow> err \<noteq> ErrSourceDependency"
  unfolding importSourceAlbumLocked_def Let_def
  by (auto simp: res_bind_Inl_iff split: if_splits option.splits dest: step_errors)

lemma import_members_error:
  "importSourceMembersLocked fs m op as = Inl err \<Longrightarrow> err \<noteq> ErrSourceDependency"
proof -
  have "import_members valid ms ids = Inl err \<Longrightarrow> err = ErrNotFound" for valid ms ids
    by (induction valid ms ids rule: import_members.induct) (auto split: if_splits)
  then show "importSourceMembersLocked fs m op as = Inl err \<Longrightarrow> err \<noteq> ErrSourceDependency"
    unfolding importSourceMembersLocked_def Let_def
    by (auto simp: res_bind_Inl_iff split: if_splits option.splits)
qed

lemma change_no_dependency: "source_change e op members parent existing c \<noteq> Inl ErrSourceDependency"
  unfolding source_change_def Let_def
  by (auto simp: res_bind_Inl_iff checkSourceRevisionLocked_def split: if_splits
      dest: mutate_error import_album_error import_members_error)

lemma applySource_cases:
  assumes "applySourceOperationLocked e H device op members c = ((receipt, err), c')"
  obtains (refused) x where "err = Some x" "x \<noteq> ErrSourceDependency" "c' = c"
  | (waiting) "err = Some ErrSourceDependency" "c' = c" "so_parent_source_id op \<noteq> ''''"
      "map_of (cs_sources (c_collections c)) (sourceKey (h_key H) device (so_namespace op) (so_parent_source_id op)) = None"
  | (replayed) "map_of (cs_operations (c_collections c)) (sourceKey (h_key H) device (so_namespace op) (so_operation_id op)) = Some receipt"
      "sr_digest receipt = h_operation H op members" "err = None" "c' = c"
  | (failed) x d where "err = Some x" "x \<noteq> ErrSourceDependency" "c' = c\<lparr>c_disk := d\<rparr>"
  | (applied) parent m m' folders albums e' where "err = None"
      "map_of (cs_operations (c_collections c)) (sourceKey (h_key H) device (so_namespace op) (so_operation_id op)) = None"
      "source_fields_ok op"
      "case map_of (cs_sources (c_collections c)) (sourceKey (h_key H) device (so_namespace op) (so_source_id op)) of
         None \<Rightarrow> so_expected_revision op = 0 | Some m \<Rightarrow> m_kind m = so_kind op \<and> m_server_revision m = so_expected_revision op"
      "source_parent (h_key H) device op (cs_sources (c_collections c)) = Inr parent"
      "source_change e op members parent
         (map_of (cs_sources (c_collections c)) (sourceKey (h_key H) device (so_namespace op) (so_source_id op))) c
        = Inr (m, folders, albums, e')"
      "m' = m\<lparr>m_device_id := device, m_namespace := so_namespace op, m_source_id := so_source_id op,
               m_kind := so_kind op, m_source_revision := so_source_revision op\<rparr>"
      "receipt = \<lparr>sr_digest = h_operation H op members, sr_server_id = m_server_id m, sr_revision = m_server_revision m\<rparr>"
      "c_collections c' = \<lparr>cs_folders = folders,
         cs_sources = AList.update (sourceKey (h_key H) device (so_namespace op) (so_source_id op)) m' (cs_sources (c_collections c)),
         cs_operations = AList.update (sourceKey (h_key H) device (so_namespace op) (so_operation_id op)) receipt
           (cs_operations (c_collections c))\<rparr>"
      "c_albums c' = albums" "c_files c' = c_files c"
proof -
  let ?cs = "c_collections c"
  let ?key = "sourceKey (h_key H) device (so_namespace op) (so_source_id op)"
  let ?opkey = "sourceKey (h_key H) device (so_namespace op) (so_operation_id op)"
  let ?existing = "map_of (cs_sources ?cs) ?key"
  let ?stale = "case ?existing of None \<Rightarrow> so_expected_revision op \<noteq> 0
     | Some m \<Rightarrow> m_kind m \<noteq> so_kind op \<or> m_server_revision m \<noteq> so_expected_revision op"
  note def = assms [unfolded applySourceOperationLocked_def Let_def]
  show ?thesis
  proof (cases "source_fields_ok op")
    case False
    with def show ?thesis by (intro refused) auto
  next
    case fields: True
    show ?thesis
    proof (cases "map_of (cs_operations ?cs) ?opkey")
      case (Some old)
      with def fields show ?thesis
        by (cases "sr_digest old = h_operation H op members") (auto intro: refused replayed)
    next
      case fresh: None
      show ?thesis
      proof (cases ?stale)
        case True
        with def fields fresh show ?thesis by (intro refused) auto
      next
        case current: False
        show ?thesis
        proof (cases "source_parent (h_key H) device op (cs_sources ?cs)")
          case (Inl x)
          with def fields fresh current have r: "err = Some x" "c' = c" by simp_all
          from Inl have "x = ErrSourceDependency \<and> so_parent_source_id op \<noteq> ''''
              \<and> map_of (cs_sources ?cs) (sourceKey (h_key H) device (so_namespace op) (so_parent_source_id op)) = None
            \<or> x = ErrAlbumInvalid"
            by (auto simp: source_parent_def split: if_splits option.splits)
          with r refused waiting show ?thesis by auto
        next
          case parent: (Inr parent)
          show ?thesis
          proof (cases "source_change e op members parent ?existing c")
            case (Inl x)
            with change_no_dependency have "x \<noteq> ErrSourceDependency" by metis
            moreover from def fields fresh current parent Inl have "err = Some x" "c' = c" by simp_all
            ultimately show ?thesis using refused by blast
          next
            case (Inr t)
            obtain m folders albums e' where t: "t = (m, folders, albums, e')" by (cases t) auto
            let ?m = "m\<lparr>m_device_id := device, m_namespace := so_namespace op, m_source_id := so_source_id op,
               m_kind := so_kind op, m_source_revision := so_source_revision op\<rparr>"
            let ?receipt = "\<lparr>sr_digest = h_operation H op members, sr_server_id = m_server_id m, sr_revision = m_server_revision m\<rparr>"
            let ?new = "\<lparr>cs_folders = folders, cs_sources = AList.update ?key ?m (cs_sources ?cs),
               cs_operations = AList.update ?opkey ?receipt (cs_operations ?cs)\<rparr>"
            obtain r c1 where s: "save_sources e' ?new albums c = (r, c1)" by fastforce
            from def fields fresh current parent Inr t s
            have out: "((receipt, err), c') = (case r of Inl x \<Rightarrow> ((zero_receipt, Some x), c1) | Inr u \<Rightarrow> ((?receipt, None), c1))"
              by (cases r) simp_all
            from s show ?thesis
            proof (cases rule: save_sources_cases)
              case (failed x d)
              with out that(4) show ?thesis by auto
            next
              case saved
              with out have o: "receipt = ?receipt" "err = None" "c' = c1" by auto
              have cur: "case ?existing of None \<Rightarrow> so_expected_revision op = 0
                 | Some m \<Rightarrow> m_kind m = so_kind op \<and> m_server_revision m = so_expected_revision op"
                using current by (cases ?existing) auto
              show ?thesis
                by (rule applied [OF o(2) fresh fields cur parent Inr [unfolded t] refl o(1)])
                   (use saved o in simp_all)
            qed
          qed
        qed
      qed
    qed
  qed
qed

section \<open>Receipts stay\<close>

abbreviation receipts :: "catalog \<Rightarrow> (string \<rightharpoonup> source_receipt)" where
  "receipts c \<equiv> map_of (cs_operations (c_collections c))"

definition receipt_key :: "source_hashes \<Rightarrow> string \<Rightarrow> source_operation \<Rightarrow> string" where
  "receipt_key H device op = sourceKey (h_key H) device (so_namespace op) (so_operation_id op)"

lemma apply_keeps_receipts:
  assumes "applySourceOperationLocked e H device op members c = (out, c')"
  shows "receipts c \<subseteq>\<^sub>m receipts c'"
proof -
  obtain receipt err where out: "out = (receipt, err)" by (cases out) auto
  from assms [unfolded out] show ?thesis
    by (cases rule: applySource_cases) (auto simp: map_le_def)
qed

lemma apply_leaves_receipt:
  assumes "applySourceOperationLocked e H device op members c = ((receipt, None), c')"
  shows "receipts c' (receipt_key H device op) = Some receipt \<and> sr_digest receipt = h_operation H op members"
  using assms by (cases rule: applySource_cases) (auto simp: receipt_key_def)

lemma apply_replays:
  assumes "source_fields_ok op" "receipts c (receipt_key H device op) = Some receipt"
    and "sr_digest receipt = h_operation H op members"
  shows "applySourceOperationLocked e H device op members c = ((receipt, None), c)"
  using assms by (simp add: applySourceOperationLocked_def receipt_key_def)

lemma apply_fields: "applySourceOperationLocked e H device op members c = ((receipt, None), c') \<Longrightarrow> source_fields_ok op"
  by (auto simp: applySourceOperationLocked_def Let_def split: if_splits)

section \<open>Rounds\<close>

text \<open>An operation is settled by its outcome; an applied one has its receipt in the catalog.\<close>

definition settled :: "source_hashes \<Rightarrow> string \<Rightarrow> bool \<Rightarrow> source_operation \<Rightarrow> source_outcome \<Rightarrow> catalog \<Rightarrow> bool" where
  "settled H device members op out c \<longleftrightarrow> out_operation_id out = so_operation_id op
     \<and> (out_status out \<in> {''invalid'', ''conflict'', ''retryable''}
        \<or> out_status out = ''applied'' \<and> source_fields_ok op
          \<and> (\<exists>r. receipts c (receipt_key H device op) = Some r \<and> sr_digest r = h_operation H op members
               \<and> out = source_outcome_of op r None))"

definition waits :: "source_hashes \<Rightarrow> string \<Rightarrow> source_operation \<Rightarrow> catalog \<Rightarrow> bool" where
  "waits H device op c \<longleftrightarrow> so_parent_source_id op \<noteq> ''''
     \<and> map_of (cs_sources (c_collections c)) (sourceKey (h_key H) device (so_namespace op) (so_parent_source_id op)) = None"

lemma settled_later: "settled H device members op out c \<Longrightarrow> receipts c \<subseteq>\<^sub>m receipts c' \<Longrightarrow> settled H device members op out c'"
  unfolding settled_def map_le_def by (metis domI)

lemma apply_settles:
  assumes "applySourceOperationLocked e H device op members c = ((receipt, err), c')" "err \<noteq> Some ErrSourceDependency"
  shows "settled H device members op (source_outcome_of op receipt err) c'"
proof (cases err)
  case None
  with apply_leaves_receipt apply_fields assms(1) show ?thesis
    by (auto simp: settled_def source_outcome_of_def)
next
  case (Some x)
  then show ?thesis by (auto simp: settled_def source_outcome_of_def Let_def)
qed

lemma apply_waits:
  assumes "applySourceOperationLocked e H device op members c = ((receipt, Some ErrSourceDependency), c')"
  shows "c' = c \<and> waits H device op c"
  using assms by (cases rule: applySource_cases) (auto simp: waits_def)

lemma subseq_members: "subseq xs ys \<Longrightarrow> set xs \<subseteq> set ys \<and> (distinct ys \<longrightarrow> distinct xs)"
  by (induction xs ys rule: list_emb.induct) auto

text \<open>What one pass does: the operations it leaves pending keep their outcome, the others are settled.\<close>

lemma source_round_result:
  assumes "source_round es H device ops members pending result c = (left, result', c')"
    and "distinct pending" "\<forall>i \<in> set pending. i < length result"
  shows "length result' = length result \<and> receipts c \<subseteq>\<^sub>m receipts c' \<and> subseq left pending
    \<and> (\<forall>i. i \<notin> set pending \<or> i \<in> set left \<longrightarrow> result' ! i = result ! i)
    \<and> (\<forall>i \<in> set pending - set left. settled H device members (ops ! i) (result' ! i) c')
    \<and> (length left = length pending \<longrightarrow> c' = c \<and> (\<forall>i \<in> set left. waits H device (ops ! i) c))"
  using assms
proof (induction pending arbitrary: result c left)
  case Nil
  then show ?case by simp
next
  case (Cons i pending)
  obtain receipt err c1 where a: "applySourceOperationLocked (es i) H device (ops ! i) members c = ((receipt, err), c1)"
    by (cases "applySourceOperationLocked (es i) H device (ops ! i) members c") auto
  note round = source_round_Cons [where es = es and ops = ops and i = i, OF a]
  note keep = apply_keeps_receipts [OF a]
  show ?case
  proof (cases "err = Some ErrSourceDependency")
    case True
    note w = apply_waits [OF a [unfolded True]]
    from Cons.prems(1) round True w obtain l where l: "left = i # l"
      "source_round es H device ops members pending result c = (l, result', c')"
      by (cases "source_round es H device ops members pending result c") auto
    from Cons.IH [OF l(2)] Cons.prems(2,3) have ih: "length result' = length result" "receipts c \<subseteq>\<^sub>m receipts c'" "subseq l pending"
      "\<And>j. j \<notin> set pending \<or> j \<in> set l \<Longrightarrow> result' ! j = result ! j"
      "\<And>j. j \<in> set pending - set l \<Longrightarrow> settled H device members (ops ! j) (result' ! j) c'"
      "length l = length pending \<Longrightarrow> c' = c \<and> (\<forall>j \<in> set l. waits H device (ops ! j) c)" by auto
    have ni: "i \<notin> set pending" using Cons.prems(2) by simp
    have "result' ! j = result ! j" if "j \<notin> set (i # pending) \<or> j \<in> set left" for j
      using that ih(4) [of j] ih(4) [of i] ni by (auto simp: l(1))
    with ih w show ?thesis by (auto simp: l(1))
  next
    case False
    let ?r = "result[i := source_outcome_of (ops ! i) receipt err]"
    from Cons.prems(1) round False have l: "source_round es H device ops members pending ?r c1 = (left, result', c')" by simp
    from Cons.IH [OF l] Cons.prems(2,3) have ih: "length result' = length result" "receipts c1 \<subseteq>\<^sub>m receipts c'" "subseq left pending"
      "\<And>j. j \<notin> set pending \<or> j \<in> set left \<Longrightarrow> result' ! j = ?r ! j"
      "\<And>j. j \<in> set pending - set left \<Longrightarrow> settled H device members (ops ! j) (result' ! j) c'" by auto
    have ni: "i \<notin> set pending" using Cons.prems(2) by simp
    with subseq_members [OF ih(3)] Cons.prems(2) have nl: "i \<notin> set left" by auto
    have "result' ! i = source_outcome_of (ops ! i) receipt err" using ih(4) [of i] ni Cons.prems(3) by simp
    with settled_later [OF apply_settles [OF a False] ih(2)]
    have "settled H device members (ops ! i) (result' ! i) c'" by simp
    moreover have "result' ! j = result ! j" if "j \<notin> set (i # pending) \<or> j \<in> set left" for j
      using that ih(4) [of j] nl by (cases "j = i") auto
    moreover have "length left \<le> length pending" using ih(3) by (rule list_emb_length)
    ultimately show ?thesis
      using ih map_le_trans [OF keep ih(2)] by (auto intro: subseq_Cons')
  qed
qed

lemma foldl_update:
  assumes "distinct is" "\<forall>i \<in> set is. i < length r"
  shows "length (foldl (\<lambda>r i. r[i := f i]) r is) = length r
    \<and> (\<forall>k. foldl (\<lambda>r i. r[i := f i]) r is ! k = (if k \<in> set is then f k else r ! k))"
  using assms by (induction "is" arbitrary: r) (auto simp: nth_list_update)

lemma source_rounds_result:
  assumes "source_rounds es H device ops members pending result c = (result', c')"
    and "distinct pending" "\<forall>i \<in> set pending. i < length result"
  shows "length result' = length result \<and> receipts c \<subseteq>\<^sub>m receipts c'
    \<and> (\<forall>i. i \<notin> set pending \<longrightarrow> result' ! i = result ! i)
    \<and> (\<forall>i \<in> set pending. settled H device members (ops ! i) (result' ! i) c'
         \<or> result' ! i = blocked_outcome (ops ! i) \<and> waits H device (ops ! i) c')"
  using assms
proof (induction es H device ops members pending result c rule: source_rounds.induct)
  case (1 es H device ops members pending result c)
  show ?case
  proof (cases "pending = []")
    case True
    with 1(2) show ?thesis by (simp add: source_rounds.simps)
  next
    case False
    obtain l r c1 where step: "source_round es H device ops members pending result c = (l, r, c1)"
      by (cases "source_round es H device ops members pending result c") auto
    from source_round_result [OF step 1(3,4)]
    have s: "length r = length result" "receipts c \<subseteq>\<^sub>m receipts c1" "subseq l pending"
      "\<And>j. j \<notin> set pending \<or> j \<in> set l \<Longrightarrow> r ! j = result ! j"
      "\<And>j. j \<in> set pending - set l \<Longrightarrow> settled H device members (ops ! j) (r ! j) c1"
      "length l = length pending \<Longrightarrow> c1 = c \<and> (\<forall>j \<in> set l. waits H device (ops ! j) c)" by auto
    have d: "distinct l" "set l \<subseteq> set pending"
      using subseq_members [OF s(3)] 1(3) by auto
    then have lt: "\<forall>i \<in> set l. i < length r" using 1(4) s(1) by auto
    show ?thesis
    proof (cases "length l = length pending")
      case True
      with s(3) have l: "l = pending" by (simp add: subseq_same_length)
      from 1(2) False step True have out: "result' = foldl (\<lambda>r i. r[i := blocked_outcome (ops ! i)]) r l" "c' = c1"
        by (simp_all add: source_rounds.simps Let_def)
      from foldl_update [OF d(1) lt, of "\<lambda>i. blocked_outcome (ops ! i)"] s True out show ?thesis
        by (auto simp: l)
    next
      case smaller: False
      from 1(2) False step smaller have out: "source_rounds es H device ops members l r c1 = (result', c')"
        by (simp add: source_rounds.simps [where pending = pending] Let_def)
      from 1(1) [OF False refl refl refl refl] step smaller out d(1) lt
      have ih: "length result' = length r" "receipts c1 \<subseteq>\<^sub>m receipts c'"
        "\<And>i. i \<notin> set l \<Longrightarrow> result' ! i = r ! i"
        "\<And>i. i \<in> set l \<Longrightarrow> settled H device members (ops ! i) (result' ! i) c'
           \<or> result' ! i = blocked_outcome (ops ! i) \<and> waits H device (ops ! i) c'" by auto
      show ?thesis
      proof (intro conjI allI ballI impI)
        show "length result' = length result" using ih(1) s(1) by simp
        show "receipts c \<subseteq>\<^sub>m receipts c'" by (rule map_le_trans [OF s(2) ih(2)])
        show "result' ! i = result ! i" if "i \<notin> set pending" for i
          using that s(4) [of i] ih(3) [of i] d(2) by auto
        show "settled H device members (ops ! i) (result' ! i) c'
            \<or> result' ! i = blocked_outcome (ops ! i) \<and> waits H device (ops ! i) c'" if "i \<in> set pending" for i
        proof (cases "i \<in> set l")
          case True
          then show ?thesis by (rule ih(4))
        next
          case False
          with settled_later [OF s(5) ih(2), of i] ih(3) [of i] that show ?thesis by simp
        qed
      qed
    qed
  qed
qed

lemma import_outcomes:
  assumes "ImportSourceOperations es H device ops members c = (Inr result, c')" "i < length ops"
  shows "length result = length ops
    \<and> (settled H device members (ops ! i) (result ! i) c'
       \<or> result ! i = blocked_outcome (ops ! i) \<and> waits H device (ops ! i) c')"
proof -
  from assms(1) have r: "source_rounds es H device ops members [0..<length ops] (replicate (length ops) zero_outcome) c = (result, c')"
    by (auto simp: ImportSourceOperations_def split: if_splits prod.splits)
  from source_rounds_result [OF r] assms(2) show ?thesis by simp
qed


section \<open>Repetition\<close>

lemma round_replays:
  assumes "source_round es H device ops members pending result c = (left, result', c')"
    and "distinct pending" "\<forall>i \<in> set pending. i < length result" "j \<in> set pending"
    and "source_fields_ok (ops ! j)" "receipts c (receipt_key H device (ops ! j)) = Some r"
    and "sr_digest r = h_operation H (ops ! j) members"
  shows "j \<notin> set left \<and> result' ! j = source_outcome_of (ops ! j) r None"
  using assms(1-4,6)
proof (induction pending arbitrary: result c left)
  case Nil
  then show ?case by simp
next
  case (Cons i pending)
  obtain receipt err c1 where a: "applySourceOperationLocked (es i) H device (ops ! i) members c = ((receipt, err), c1)"
    by (cases "applySourceOperationLocked (es i) H device (ops ! i) members c") auto
  note round = source_round_Cons [where es = es and ops = ops and i = i, OF a]
  let ?r = "result[i := source_outcome_of (ops ! i) receipt err]"
  obtain l x where rest: "source_round es H device ops members pending (if err = Some ErrSourceDependency then result else ?r) c1 = (l, x)"
    by (rule prod.exhaust)
  with Cons.prems(1) round have l: "left = (if err = Some ErrSourceDependency then i # l else l)" "x = (result', c')"
    by (auto split: if_splits)
  have kept: "receipts c1 (receipt_key H device (ops ! j)) = Some r"
    using apply_keeps_receipts [OF a] Cons.prems(5) by (metis map_le_def domI)
  show ?case
  proof (cases "j = i")
    case True
    with apply_replays [OF assms(5) Cons.prems(5) assms(7)] a have o: "receipt = r" "err = None" by auto
    with rest l have s: "source_round es H device ops members pending ?r c1 = (left, result', c')" by simp
    from source_round_result [OF s] Cons.prems(2,3) have "subseq left pending" "result' ! i = ?r ! i" by auto
    with subseq_members Cons.prems(2,3) True o show ?thesis by auto
  next
    case False
    then have "j \<in> set pending" using Cons.prems(4) by simp
    from Cons.IH [OF _ _ _ this kept] rest l Cons.prems(2,3) False show ?thesis
      by (auto split: if_splits)
  qed
qed

lemma rounds_replay:
  assumes "source_rounds es H device ops members pending result c = (result', c')"
    and "distinct pending" "\<forall>i \<in> set pending. i < length result" "j \<in> set pending"
    and "source_fields_ok (ops ! j)" "receipts c (receipt_key H device (ops ! j)) = Some r"
    and "sr_digest r = h_operation H (ops ! j) members"
  shows "result' ! j = source_outcome_of (ops ! j) r None"
proof -
  obtain l x c1 where step: "source_round es H device ops members pending result c = (l, x, c1)"
    by (cases "source_round es H device ops members pending result c") auto
  from round_replays [OF step assms(2-7)] have out: "j \<notin> set l" "x ! j = source_outcome_of (ops ! j) r None" by auto
  from source_round_result [OF step assms(2,3)] have s: "length x = length result" "subseq l pending" by auto
  with subseq_members [OF s(2)] assms(2,3) have d: "distinct l" "\<forall>i \<in> set l. i < length x" by auto
  have ne: "pending \<noteq> []" using assms(4) by auto
  show ?thesis
  proof (cases "length l = length pending")
    case True
    with s(2) have "l = pending" by (simp add: subseq_same_length)
    with out(1) assms(4) show ?thesis by simp
  next
    case False
    with assms(1) ne step have "source_rounds es H device ops members l x c1 = (result', c')"
      by (simp add: source_rounds.simps [where pending = pending] Let_def)
    from source_rounds_result [OF this d] out show ?thesis by simp
  qed
qed

text \<open>The calls that write source receipts.\<close>

inductive source_step :: "source_hashes \<Rightarrow> catalog \<Rightarrow> catalog \<Rightarrow> bool" for H where
  import_step: "ImportSourceOperations es H device ops members c = (r, c') \<Longrightarrow> source_step H c c'"
| adopt_step: "AdoptSourceCollection e H device a c = (q, c') \<Longrightarrow> source_step H c c'"

lemma adopt_cases:
  assumes "AdoptSourceCollection e H device a c = (r, c')"
  obtains (refused) err where "r = Inl err" "c' = c"
  | (replayed) m receipt where "r = Inr m" "c' = c"
      "receipts c (sourceKey (h_key H) device (ra_namespace a) (ra_operation_id a)) = Some receipt"
  | (failed) err d where "r = Inl err" "c' = c\<lparr>c_disk := d\<rparr>"
  | (adopted) old m where "r = Inr m" "validSourceRecoveryAdoption device a"
      "receipts c (sourceKey (h_key H) device (ra_namespace a) (ra_operation_id a)) = None"
      "map_of (cs_sources (c_collections c)) (sourceKey (h_key H) (ra_from_device a) (ra_from_namespace a) (ra_from_source_id a)) = Some old"
      "map_of (cs_sources (c_collections c)) (sourceKey (h_key H) device (ra_namespace a) (ra_source_id a)) = None"
      "sourceCollectionRevisionLocked (m_kind old) (m_server_id old) c = Some (ra_expected_revision a)"
      "m = \<lparr>m_device_id = device, m_namespace = ra_namespace a, m_source_id = ra_source_id a, m_kind = m_kind old,
            m_server_id = m_server_id old, m_source_revision = m_source_revision old, m_server_revision = ra_expected_revision a\<rparr>"
      "m_server_id old = ra_server_id a"
      "c_collections c' = (c_collections c)\<lparr>
         cs_sources := AList.update (sourceKey (h_key H) device (ra_namespace a) (ra_source_id a)) m (cs_sources (c_collections c)),
         cs_operations := AList.update (sourceKey (h_key H) device (ra_namespace a) (ra_operation_id a))
           \<lparr>sr_digest = h_adoption H device a, sr_server_id = m_server_id m, sr_revision = m_server_revision m\<rparr>
           (cs_operations (c_collections c))\<rparr>"
      "c_albums c' = c_albums c" "c_files c' = c_files c"
proof -
  let ?cs = "c_collections c"
  let ?from = "sourceKey (h_key H) (ra_from_device a) (ra_from_namespace a) (ra_from_source_id a)"
  let ?to = "sourceKey (h_key H) device (ra_namespace a) (ra_source_id a)"
  let ?op = "sourceKey (h_key H) device (ra_namespace a) (ra_operation_id a)"
  note def = assms [unfolded AdoptSourceCollection_def Let_def]
  show ?thesis
  proof (cases "validSourceRecoveryAdoption device a \<and> receipts c ?op = None")
    case False
    with def show ?thesis
      by (cases "receipts c ?op") (auto split: if_splits option.splits intro: refused replayed)
  next
    case True
    then have ok: "validSourceRecoveryAdoption device a" "receipts c ?op = None" by auto
    show ?thesis
    proof (cases "map_of (cs_sources ?cs) ?from")
      case None
      with def ok show ?thesis by (intro refused) auto
    next
      case (Some old)
      show ?thesis
      proof (cases "(m_kind old = ''album'' \<or> m_kind old = ''folder'') \<and> m_server_id old = ra_server_id a
          \<and> m_server_revision old = ra_from_server_revision a \<and> m_source_revision old = ra_from_source_revision a
          \<and> sourceCollectionRevisionLocked (m_kind old) (m_server_id old) c = Some (ra_expected_revision a)
          \<and> map_of (cs_sources ?cs) ?to = None")
        case False
        with def ok Some have "\<exists>err. r = Inl err \<and> c' = c" by (auto split: if_splits)
        then show ?thesis using refused by blast
      next
        case good: True
        let ?m = "\<lparr>m_device_id = device, m_namespace = ra_namespace a, m_source_id = ra_source_id a, m_kind = m_kind old,
            m_server_id = m_server_id old, m_source_revision = m_source_revision old, m_server_revision = ra_expected_revision a\<rparr>"
        let ?new = "?cs\<lparr>cs_sources := AList.update ?to ?m (cs_sources ?cs),
            cs_operations := AList.update ?op \<lparr>sr_digest = h_adoption H device a, sr_server_id = m_server_id ?m,
              sr_revision = m_server_revision ?m\<rparr> (cs_operations ?cs)\<rparr>"
        obtain res c1 where s: "save_collections e ?new c = (res, c1)" by fastforce
        with def ok Some good have out: "(r, c') = (case res of Inl err \<Rightarrow> (Inl err, c1) | Inr u \<Rightarrow> (Inr ?m, c1))"
          by (cases res) auto
        from s show ?thesis
        proof (cases rule: save_collections_cases)
          case (failed err d)
          with out that(3) show ?thesis by auto
        next
          case saved
          with out good show ?thesis by (intro adopted [OF _ ok Some _ _ refl]) auto
        qed
      qed
    qed
  qed
qed

lemma source_step_keeps_receipts: "source_step H c c' \<Longrightarrow> receipts c \<subseteq>\<^sub>m receipts c'"
proof (induction rule: source_step.induct)
  case (import_step es device ops members c r c')
  show ?case
  proof (cases "c' = c")
    case False
    with import_step obtain result where
      "source_rounds es H device ops members [0..<length ops] (replicate (length ops) zero_outcome) c = (result, c')"
      by (auto simp: ImportSourceOperations_def split: if_splits prod.splits)
    from source_rounds_result [OF this] show ?thesis by simp
  qed simp
next
  case (adopt_step e device a c q c')
  then show ?case by (cases rule: adopt_cases) (auto simp: map_le_def)
qed

lemma source_steps_keep_receipts: "(source_step H)\<^sup>*\<^sup>* c c' \<Longrightarrow> receipts c \<subseteq>\<^sub>m receipts c'"
  by (induction rule: rtranclp_induct) (auto intro: map_le_trans source_step_keeps_receipts)

text \<open>C10
  A lost answer is repeated: once an operation has been applied, sending it again, alone or on any page and
  after any further imports and adoptions by any device, gives the same outcome: the same collection at the same revision.
\<close>

theorem lost_success_replayed:
  assumes first: "ImportSourceOperations es H device ops members c = (Inr result, c1)" "i < length ops"
      "out_status (result ! i) = ''applied''"
    and between: "(source_step H)\<^sup>*\<^sup>* c1 c2"
    and again: "ImportSourceOperations es' H device ops' members c2 = (Inr result', c3)" "j < length ops'" "ops' ! j = ops ! i"
  shows "result' ! j = result ! i"
proof -
  have "settled H device members (ops ! i) (result ! i) c1"
    using import_outcomes [OF first(1,2)] first(3) by (auto simp: blocked_outcome_def)
  with first(3) obtain r where ok: "source_fields_ok (ops ! i)" "sr_digest r = h_operation H (ops ! i) members"
    and r: "receipts c1 (receipt_key H device (ops ! i)) = Some r" "result ! i = source_outcome_of (ops ! i) r None"
    by (auto simp: settled_def)
  from source_steps_keep_receipts [OF between] r(1) have kept: "receipts c2 (receipt_key H device (ops ! i)) = Some r"
    by (metis map_le_def domI)
  from again(1) have "source_rounds es' H device ops' members [0..<length ops'] (replicate (length ops') zero_outcome) c2 = (result', c3)"
    by (auto simp: ImportSourceOperations_def split: if_splits prod.splits)
  from rounds_replay [OF this, of j r] again(2,3) ok kept r(2) show ?thesis by simp
qed

section \<open>Edits on the server\<close>

lemma filter_update_other: "\<not> p (xs ! i) \<Longrightarrow> \<not> p y \<Longrightarrow> filter p (xs[i := y]) = filter p xs"
proof (induction xs arbitrary: i)
  case Nil
  then show ?case by simp
next
  case (Cons x xs)
  then show ?case by (cases i) auto
qed

lemma filter_clones: "filter (\<lambda>a. a_id a \<noteq> i) (cloneAlbums as) = cloneAlbums (filter (\<lambda>a. a_id a \<noteq> i) as)"
  by (induction as) (simp_all add: cloneAlbums_def)

lemma cloned_find:
  assumes "find_index (\<lambda>a. a_id a = i) (cloneAlbums as) = Some k"
  shows "k < length as \<and> a_id (as ! k) = i \<and> a_revision (cloneAlbums as ! k) = a_revision (as ! k) \<and> as ! k \<in> set as"
  using find_index_Some [OF assms] by (auto simp: cloneAlbums_def cloneAlbum_def)

text \<open>The collection a mapping points to still has the revision of the last import.\<close>

definition target_at :: "source_mapping \<Rightarrow> catalog \<Rightarrow> bool" where
  "target_at m c \<longleftrightarrow>
     (\<exists>f \<in> set (cs_folders (c_collections c)). cf_id f = m_server_id m \<and> cf_revision f = m_server_revision m)
     \<or> (\<exists>a \<in> set (c_albums c). a_id a = m_server_id m \<and> a_revision a = m_server_revision m)"

lemma mutate_existing:
  assumes "mutateCollectionFolderLocked e f fs = Inr (g, next, e')" "cf_id f \<noteq> ''''"
  obtains i where "i < length fs" "cf_id (fs ! i) = cf_id f" "cf_revision (fs ! i) = cf_revision f"
    "next = fs[i := g]" "cf_id g = cf_id f"
  using assms unfolding mutateCollectionFolderLocked_def Let_def
  by (auto simp: res_bind_Inr_iff dest!: find_index_Some split: if_splits option.splits)

lemma change_existing:
  assumes "source_change e op members parent (Some m) c = Inr (m', folders, albums, e')"
    and "m_server_revision m = so_expected_revision op" "m_server_id m \<noteq> ''''"
  shows "target_at m c \<and> m_server_id m' = m_server_id m
    \<and> filter (\<lambda>f. cf_id f \<noteq> m_server_id m) folders = filter (\<lambda>f. cf_id f \<noteq> m_server_id m) (cs_folders (c_collections c))
    \<and> filter (\<lambda>a. a_id a \<noteq> m_server_id m) albums = cloneAlbums (filter (\<lambda>a. a_id a \<noteq> m_server_id m) (c_albums c))"
proof -
  let ?fs = "cs_folders (c_collections c)" and ?as = "cloneAlbums (c_albums c)"
  consider (deleted) "so_deleted op" | (members) "\<not> so_deleted op" "members"
    | (folder) "\<not> so_deleted op" "\<not> members" "so_kind op = ''folder''"
    | (album) "\<not> so_deleted op" "\<not> members" "so_kind op \<noteq> ''folder''" by blast
  then show ?thesis
  proof cases
    case deleted
    with assms(1) show ?thesis
      by (auto simp: source_change_def Let_def checkSourceRevisionLocked_def target_at_def filter_clones split: if_splits)
  next
    case members
    with assms(1) have "importSourceMembersLocked (c_files c) m op ?as = Inr (m', albums)" "folders = ?fs"
      by (auto simp: source_change_def Let_def res_bind_Inr_iff split: if_splits)
    then obtain k a where k: "find_index (\<lambda>a. a_id a = m_server_id m) ?as = Some k"
      "a_revision (?as ! k) = so_expected_revision op" "albums = ?as[k := a]" "a_id a = a_id (?as ! k)"
      "m_server_id m' = m_server_id m"
      by (auto simp: importSourceMembersLocked_def Let_def res_bind_Inr_iff split: if_splits option.splits)
    note cl = cloned_find [OF k(1)] and at = find_index_Some [OF k(1)]
    have "filter (\<lambda>a. a_id a \<noteq> m_server_id m) albums = filter (\<lambda>a. a_id a \<noteq> m_server_id m) ?as"
      unfolding k(3) by (rule filter_update_other) (use k(4) at in auto)
    with cl k(2,5) assms(2) \<open>folders = ?fs\<close> show ?thesis
      by (auto simp: target_at_def filter_clones)
  next
    case folder
    with assms(1) obtain g where g: "mutateCollectionFolderLocked e
        \<lparr>cf_id = m_server_id m, cf_parent_id = parent, cf_title = so_title op, cf_position = so_position op,
         cf_revision = so_expected_revision op\<rparr> ?fs = Inr (g, folders, e')"
      "m' = m\<lparr>m_server_id := cf_id g, m_server_revision := cf_revision g\<rparr>" "albums = ?as"
      by (auto simp: source_change_def Let_def res_bind_Inr_iff)
    from mutate_existing [OF g(1)] assms(3) obtain i where i: "i < length ?fs" "cf_id (?fs ! i) = m_server_id m"
      "cf_revision (?fs ! i) = so_expected_revision op" "folders = ?fs[i := g]" "cf_id g = m_server_id m" by auto
    have "filter (\<lambda>f. cf_id f \<noteq> m_server_id m) folders = filter (\<lambda>f. cf_id f \<noteq> m_server_id m) ?fs"
      unfolding i(4) by (rule filter_update_other) (use i in auto)
    moreover have "?fs ! i \<in> set ?fs" using i(1) by simp
    ultimately show ?thesis using i g(2,3) assms(2) by (auto simp: target_at_def filter_clones)
  next
    case album
    with assms(1) have "importSourceAlbumLocked e m op parent ?fs ?as = Inr (m', albums, e')" "folders = ?fs"
      by (auto simp: source_change_def Let_def res_bind_Inr_iff split: if_splits)
    then obtain k a where k: "find_index (\<lambda>a. a_id a = m_server_id m) ?as = Some k"
      "a_revision (?as ! k) = so_expected_revision op" "albums = ?as[k := a]" "a_id a = a_id (?as ! k)"
      "m_server_id m' = m_server_id m"
      using assms(3)
      by (auto simp: importSourceAlbumLocked_def Let_def res_bind_Inr_iff split: if_splits option.splits)
    note cl = cloned_find [OF k(1)] and at = find_index_Some [OF k(1)]
    have "filter (\<lambda>a. a_id a \<noteq> m_server_id m) albums = filter (\<lambda>a. a_id a \<noteq> m_server_id m) ?as"
      unfolding k(3) by (rule filter_update_other) (use k(4) at in auto)
    with cl k(2,5) assms(2) \<open>folders = ?fs\<close> show ?thesis
      by (auto simp: target_at_def filter_clones)
  qed
qed

text \<open>C11
  The import never overwrites an edit of the server: when an operation on a collection that was imported
  before is applied, the collection still had exactly the revision of the last import, and only that
  collection changes: every other folder and album and all files stay as they are.
\<close>

theorem import_respects_edits:
  assumes "applySourceOperationLocked e H device op members c = ((receipt, None), c')"
    and "receipts c (receipt_key H device op) = None"
    and "map_of (cs_sources (c_collections c)) (sourceKey (h_key H) device (so_namespace op) (so_source_id op)) = Some m"
    and "m_server_id m \<noteq> ''''"
  shows "target_at m c \<and> sr_server_id receipt = m_server_id m \<and> c_files c' = c_files c
    \<and> filter (\<lambda>f. cf_id f \<noteq> m_server_id m) (cs_folders (c_collections c'))
      = filter (\<lambda>f. cf_id f \<noteq> m_server_id m) (cs_folders (c_collections c))
    \<and> filter (\<lambda>a. a_id a \<noteq> m_server_id m) (c_albums c') = cloneAlbums (filter (\<lambda>a. a_id a \<noteq> m_server_id m) (c_albums c))"
  using assms(1)
proof (cases rule: applySource_cases)
  case (applied parent n n' folders albums e')
  from applied(4) assms(3) have rev: "m_server_revision m = so_expected_revision op" by simp
  from change_existing [OF applied(6) [unfolded assms(3)] rev assms(4)] applied(8-11) show ?thesis by simp
qed (use assms(2) in \<open>simp_all add: receipt_key_def\<close>)

section \<open>Adoption\<close>

text \<open>
  An adoption that succeeds and is not a repetition adds one mapping, where there was none, from the new
  identity to the collection of the old one, at the revision the collection has; folders, albums, files and
  every other mapping stay. Adopting again with the same request gives the same mapping and changes nothing.
\<close>

lemma adoption_adds_one:
  assumes ad: "AdoptSourceCollection e H device a c = (Inr m, c')"
    and new: "receipts c (sourceKey (h_key H) device (ra_namespace a) (ra_operation_id a)) = None"
  defines "to_key \<equiv> sourceKey (h_key H) device (ra_namespace a) (ra_source_id a)"
  shows "map_of (cs_sources (c_collections c)) to_key = None
    \<and> map_of (cs_sources (c_collections c')) = (map_of (cs_sources (c_collections c)))(to_key \<mapsto> m)
    \<and> m_server_id m = ra_server_id a
    \<and> sourceCollectionRevisionLocked (m_kind m) (m_server_id m) c = Some (m_server_revision m)
    \<and> cs_folders (c_collections c') = cs_folders (c_collections c) \<and> c_albums c' = c_albums c \<and> c_files c' = c_files c
    \<and> AdoptSourceCollection e' H device a c' = (Inr m, c')"
  using ad
proof (cases rule: adopt_cases)
  case (adopted old n)
  have alive: "sourceCollectionRevisionLocked k i c' = sourceCollectionRevisionLocked k i c" for k i
    using adopted by (simp add: sourceCollectionRevisionLocked_def)
  have m: "m = n" using adopted(1) by simp
  have again: "AdoptSourceCollection e' H device a c' = (Inr m, c')"
    using adopted(2,6,7,9) by (simp add: AdoptSourceCollection_def m alive Let_def)
  show ?thesis using adopted(5,6,7,8,9,10,11) again by (simp add: m to_key_def)
qed (use new in simp_all)

section \<open>Lookup\<close>

text \<open>Replacing the root of a full heap keeps the smallest keys, whatever the key offered.\<close>

lemma insort_unique:
  fixes x :: string
  assumes "sorted ys" "mset ys = add_mset x (mset xs)" "sorted xs"
  shows "insort x xs = ys"
proof -
  have "sort (x # xs) = ys" using assms(1,2) by (intro properties_for_sort) simp_all
  with assms(3) show ?thesis by (simp add: sorted_sort_id)
qed

lemma take_insort_full:
  fixes x :: string
  assumes "sorted xs" "length xs = n" "0 < n"
  shows "take n (insort x xs) = (if x < last xs then insort x (butlast xs) else xs)"
proof -
  have ne: "xs \<noteq> []" using assms(2,3) by auto
  then have xs: "butlast xs @ [last xs] = xs" by simp
  have bl: "sorted (butlast xs)" "\<forall>y \<in> set (butlast xs). y \<le> last xs"
    using assms(1) by (subst (asm) xs [symmetric], simp add: sorted_append)+
  show ?thesis
  proof (cases "x < last xs")
    case True
    have "insort x xs = insort x (butlast xs) @ [last xs]"
    proof (rule insort_unique [OF _ _ assms(1)])
      show "sorted (insort x (butlast xs) @ [last xs])"
        using bl True by (auto simp: sorted_append set_insort_key sorted_insort)
      have "mset xs = mset (butlast xs @ [last xs])" by (simp only: xs)
      then show "mset (insort x (butlast xs) @ [last xs]) = add_mset x (mset xs)" by simp
    qed
    with True assms(2,3) show ?thesis by simp
  next
    case False
    have "y \<le> x" if "y \<in> set xs" for y
    proof -
      have "y \<in> set (butlast xs @ [last xs])" using that by (simp only: xs)
      with bl False show ?thesis by (auto simp: not_less)
    qed
    then have "insort x xs = xs @ [x]"
      using assms(1) by (intro insort_unique) (auto simp: sorted_append)
    with False assms(2) show ?thesis by simp
  qed
qed

lemma heap_offer_take:
  assumes "sorted keys" "length keys \<le> room" "0 < room"
  shows "heap_offer room keys key = take room (insort key keys)"
  using assms take_insort_full [OF assms(1)] by (cases "length keys < room") (auto simp: heap_offer_def)

lemma recovery_scan_fold:
  assumes "\<forall>i < length kms. alive (k + i)"
  shows "recovery_scan alive wanted room k keys kms = Some (foldl (heap_offer room) keys (map fst (filter wanted kms)))"
  using assms
proof (induction kms arbitrary: k keys)
  case (Cons km rest)
  from Cons.prems have "alive k" "\<forall>i < length rest. alive (Suc k + i)" by force+
  with Cons.IH show ?case by simp
qed simp

lemma heap_stream:
  assumes "distinct ks" "0 < room"
  shows "foldl (heap_offer room) [] ks = take room (sort ks)"
proof -
  have "foldl (heap_offer room) [] ks = smallest (\<lambda>k. k) room ks"
  proof (rule smallest_stream)
    show "heap_offer room (smallest (\<lambda>k. k) room seen) x = take room (insort_key (\<lambda>k. k) x (smallest (\<lambda>k. k) room seen))" for seen x
      by (rule heap_offer_take) (use assms(2) in \<open>auto simp: smallest_def intro: sorted_wrt_take\<close>)
  qed (use assms(1) in simp)
  then show ?thesis by (simp add: smallest_def)
qed

text \<open>The keys a lookup is about, in the order of its pages.\<close>

definition recovery_keys :: "string list \<Rightarrow> string \<Rightarrow> catalog \<Rightarrow> string list" where
  "recovery_keys ids namespace c = sort (map fst (filter
     (\<lambda>km. m_source_id (snd km) \<in> set ids \<and> (namespace = '''' \<or> m_namespace (snd km) = namespace)
       \<and> m_kind (snd km) \<in> {''album'', ''folder''}) (cs_sources (c_collections c))))"

definition recovery_page :: "string list \<Rightarrow> string \<Rightarrow> catalog \<Rightarrow> int \<Rightarrow> string \<Rightarrow> string list \<times> bool" where
  "recovery_page ids namespace c limit after =
     (let above = filter (\<lambda>k. after < k) (recovery_keys ids namespace c)
      in (take (page_size limit) above, page_size limit < length above))"

interpretation recovery: keyset_cursor "\<lambda>(ids, namespace, c). recovery_keys ids namespace c" "\<lambda>k. k"
  "\<lambda>(ids, namespace, c). recovery_page ids namespace c"
  "\<lambda>(ids, namespace, c). distinct (map fst (cs_sources (c_collections c)))"
proof unfold_locales
  fix q :: "string list \<times> string \<times> catalog"
  obtain ids namespace c where q: "q = (ids, namespace, c)" by (cases q) auto
  assume "case q of (ids, namespace, c) \<Rightarrow> distinct (map fst (cs_sources (c_collections c)))"
  then have "distinct (recovery_keys ids namespace c)"
    by (simp add: q recovery_keys_def distinct_map_filterI)
  then have "sorted_wrt (<) (recovery_keys ids namespace c)"
    by (simp add: strict_sorted_iff recovery_keys_def)
  then show "sorted_wrt (\<lambda>x y. x < y) (case q of (ids, namespace, c) \<Rightarrow> recovery_keys ids namespace c)"
    by (simp add: q)
next
  fix q :: "string list \<times> string \<times> catalog" and limit after
  show "(case q of (ids, namespace, c) \<Rightarrow> recovery_page ids namespace c) limit after =
      (take (page_size limit) (filter (\<lambda>x. after < x) (case q of (ids, namespace, c) \<Rightarrow> recovery_keys ids namespace c)),
       page_size limit < length (filter (\<lambda>x. after < x) (case q of (ids, namespace, c) \<Rightarrow> recovery_keys ids namespace c)))"
    by (cases q) (simp add: recovery_page_def Let_def)
qed

lemma lookup_page:
  assumes order: "fair_order e" "distinct (map fst (cs_sources (c_collections c)))"
    and valid: "ValidateSourceRecovery ids namespace limit = None" and alive: "\<forall>k. alive k"
  shows "LookupSourceCollections e alive ids namespace after limit c =
    (let (keys, more) = recovery_page ids namespace c limit after
     in (\<lparr>rp_matches = map (recovery_match c) keys, rp_has_more = more, rp_after = (if more then last keys else '''')\<rparr>, None))"
proof -
  let ?src = "cs_sources (c_collections c)" and ?w = "recovery_wanted ids namespace after"
  let ?ks = "map_order e (map fst ?src)" and ?val = "\<lambda>k. (k, the (map_of ?src k))"
  let ?all = "\<lambda>km :: string \<times> source_mapping. m_source_id (snd km) \<in> set ids
      \<and> (namespace = '''' \<or> m_namespace (snd km) = namespace) \<and> m_kind (snd km) \<in> {''album'', ''folder''}"
  from valid have lim: "1 \<le> limit" "limit \<le> 200" by (auto simp: ValidateSourceRecovery_def SourceRecoveryMaximum_def split: if_splits)
  then have n: "page_size limit = nat limit" by (simp add: page_size_def)
  from order have ks: "distinct ?ks" "set ?ks = fst ` set ?src" by (auto simp: fair_order_def)
  have val: "?val (fst km) = km" if "km \<in> set ?src" for km
    using map_of_is_SomeI [OF order(2), of "fst km" "snd km"] that by simp
  let ?found = "map fst (filter ?w (map ?val ?ks))"
  have found: "?found = filter (\<lambda>k. ?w (?val k)) ?ks" by (simp add: filter_map comp_def)
  have d: "distinct ?found" using ks(1) by (simp add: found)
  have "set ?found = fst ` {km \<in> set ?src. ?w km}"
    unfolding found set_filter ks(2) using val by force
  also have "\<dots> = set (filter (\<lambda>k. after < k) (recovery_keys ids namespace c))"
    by (auto simp: recovery_keys_def recovery_wanted_def)
  finally have set_eq: "set (sort ?found) = set (filter (\<lambda>k. after < k) (recovery_keys ids namespace c))" by simp
  have srt: "sort ?found = filter (\<lambda>k. after < k) (recovery_keys ids namespace c)" (is "_ = ?above")
  proof (rule sorted_distinct_set_unique [OF _ _ _ _ set_eq])
    show "sorted ?above" by (simp add: recovery_keys_def sorted_wrt_filter)
    show "distinct ?above" using order(2) by (simp add: recovery_keys_def distinct_map_filterI)
  qed (use d in simp_all)
  have scan: "recovery_scan alive ?w (nat limit + 1) 0 [] (map ?val ?ks) = Some (take (nat limit + 1) ?above)"
    using recovery_scan_fold [of "map ?val ?ks" alive 0 ?w "nat limit + 1" "[]"] alive heap_stream [OF d, of "nat limit + 1"] srt
    by simp
  have cut: "take (nat limit) (take (nat limit + 1) ?above) = take (nat limit) ?above"
    "(nat limit < length (take (nat limit + 1) ?above)) = (nat limit < length ?above)" by auto
  show ?thesis
    unfolding LookupSourceCollections_def Let_def valid option.case scan cut recovery_page_def n prod.case
    using alive by simp
qed


end
