(* ===== verification/Source_Samples.thy ===== *)
theory Source_Samples
  imports Source_Imports Samples "HOL-Library.Code_Target_Nat"
begin

text \<open>
  A page of three source operations evaluated, and the properties of the imports applied to it.
\<close>

section \<open>The properties on a small page\<close>

definition sample_hashes :: source_hashes where
  "sample_hashes = \<lparr>h_key = (\<lambda>s. filter (\<lambda>x. x \<noteq> CHR 0x00) s), h_operation = (\<lambda>op members. so_operation_id op),
     h_adoption = (\<lambda>device a. ra_operation_id a)\<rparr>"

definition sample_op :: "string \<Rightarrow> string \<Rightarrow> string \<Rightarrow> string \<Rightarrow> u64 \<Rightarrow> source_operation" where
  "sample_op i kind source parent revn = \<lparr>so_operation_id = i, so_namespace = ''n'', so_source_id = source,
     so_source_revision = ''1'', so_kind = kind, so_parent_source_id = parent, so_title = ''t'', so_position = 0,
     so_expected_revision = revn, so_deleted = False, so_add_ids = []\<rparr>"

text \<open>An album before its folder, and a folder whose parent nobody sends.\<close>

definition sample_ops :: "source_operation list" where
  "sample_ops = [sample_op ''o1'' ''album'' ''a'' ''f'' 0, sample_op ''o2'' ''folder'' ''f'' '''' 0,
     sample_op ''o3'' ''folder'' ''g'' ''x'' 0]"

definition sample_imports :: "catalog \<Rightarrow> (catalog_error + source_outcome list) \<times> catalog" where
  "sample_imports = ImportSourceOperations (\<lambda>i. sample_env [[char_of (48 + i)], ''e'']) sample_hashes ''d'' sample_ops False"

definition sample_imported :: catalog where
  "sample_imported = snd (sample_imports new_catalog)"

lemma sample_outcomes:
  "map_sum id (map (\<lambda>r. (out_status r, out_server_id r, out_revision r))) (fst (sample_imports new_catalog))
    = Inr [(''applied'', ''pa_30'', 1), (''applied'', ''pc_31'', 1), (''dependency-blocked'', '''', 0)]"
  by code_simp


lemma sample_not_refused: "\<exists>result c'. sample_imports c = (Inr result, c')"
  by (simp add: sample_imports_def ImportSourceOperations_def sample_ops_def split: prod.split)

lemma lost_success_replayed_witness:
  "\<exists>result result'. fst (sample_imports new_catalog) = Inr result
     \<and> fst (sample_imports (snd (sample_imports new_catalog))) = Inr result' \<and> result' ! 0 = result ! 0"
proof -
  obtain result c1 where r: "sample_imports new_catalog = (Inr result, c1)" using sample_not_refused by blast
  obtain result' c3 where r': "sample_imports c1 = (Inr result', c3)" using sample_not_refused by blast
  from sample_outcomes r have "map out_status result = [''applied'', ''applied'', ''dependency-blocked'']"
    by (auto simp: comp_def)
  then have "out_status (result ! 0) = ''applied''" by (cases result) auto
  from lost_success_replayed [OF r [unfolded sample_imports_def] _ this rtranclp.rtrancl_refl r' [unfolded sample_imports_def], of 0]
  show ?thesis by (simp add: r r' sample_ops_def)
qed

definition sample_update :: source_operation where
  "sample_update = sample_op ''o4'' ''album'' ''a'' ''f'' 1"

lemma sample_update_run:
  "map_prod (\<lambda>r. (sr_server_id r, sr_revision r)) id
    (fst (applySourceOperationLocked (sample_env []) sample_hashes ''d'' sample_update False sample_imported))
    = ((''pa_30'', 2), None)"
  by code_simp

definition sample_mapping :: "string \<Rightarrow> string \<Rightarrow> string \<Rightarrow> source_mapping" where
  "sample_mapping source kind target = \<lparr>m_device_id = ''d'', m_namespace = ''n'', m_source_id = source, m_kind = kind,
     m_server_id = target, m_source_revision = ''1'', m_server_revision = 1\<rparr>"

lemma sample_sources:
  "cs_sources (c_collections sample_imported)
    = [(sourceKey (h_key sample_hashes) ''d'' ''n'' ''f'', sample_mapping ''f'' ''folder'' ''pc_31''),
       (sourceKey (h_key sample_hashes) ''d'' ''n'' ''a'', sample_mapping ''a'' ''album'' ''pa_30'')]"
  by code_simp

lemma sample_keys_differ:
  "sourceKey (h_key sample_hashes) ''d'' ''n'' ''f'' \<noteq> sourceKey (h_key sample_hashes) ''d'' ''n'' ''a''"
  "sourceKey (h_key sample_hashes) ''d'' ''n'' ''f'' \<noteq> ''''" "sourceKey (h_key sample_hashes) ''d'' ''n'' ''a'' \<noteq> ''''"
  by code_simp+

lemma sample_update_fresh: "receipts sample_imported (receipt_key sample_hashes ''d'' sample_update) = None"
  by code_simp

lemma import_respects_edits_witness:
  "\<exists>receipt c'. applySourceOperationLocked (sample_env []) sample_hashes ''d'' sample_update False sample_imported
       = ((receipt, None), c')
     \<and> target_at (sample_mapping ''a'' ''album'' ''pa_30'') sample_imported \<and> sr_server_id receipt = ''pa_30''
     \<and> c_files c' = c_files sample_imported"
proof -
  obtain receipt c' where r: "applySourceOperationLocked (sample_env []) sample_hashes ''d'' sample_update False sample_imported
      = ((receipt, None), c')"
    using sample_update_run
    by (cases "applySourceOperationLocked (sample_env []) sample_hashes ''d'' sample_update False sample_imported") auto
  have m: "map_of (cs_sources (c_collections sample_imported))
      (sourceKey (h_key sample_hashes) ''d'' (so_namespace sample_update) (so_source_id sample_update))
      = Some (sample_mapping ''a'' ''album'' ''pa_30'')"
    using sample_keys_differ(1) by (simp add: sample_sources sample_update_def sample_op_def)
  have "m_server_id (sample_mapping ''a'' ''album'' ''pa_30'') = ''pa_30''" by (simp add: sample_mapping_def)
  with import_respects_edits [OF r sample_update_fresh m] r show ?thesis by auto
qed

definition sample_adoption :: source_recovery_adoption where
  "sample_adoption = \<lparr>ra_operation_id = ''r1'', ra_from_device = ''d'', ra_from_namespace = ''n'', ra_from_source_id = ''a'',
     ra_from_source_revision = ''1'', ra_from_server_revision = 1, ra_namespace = ''m'', ra_source_id = ''b'',
     ra_server_id = ''pa_30'', ra_expected_revision = 1\<rparr>"

lemma sample_adoption_run:
  "map_sum id m_server_id (fst (AdoptSourceCollection (sample_env []) sample_hashes ''e'' sample_adoption sample_imported))
    = Inr ''pa_30''"
  by code_simp

lemma sample_adoption_fresh:
  "receipts sample_imported (sourceKey (h_key sample_hashes) ''e'' (ra_namespace sample_adoption) (ra_operation_id sample_adoption)) = None"
  by code_simp

lemma adoption_adds_one_witness:
  "\<exists>m c'. AdoptSourceCollection (sample_env []) sample_hashes ''e'' sample_adoption sample_imported = (Inr m, c')
     \<and> m_server_id m = ''pa_30'' \<and> c_albums c' = c_albums sample_imported
     \<and> AdoptSourceCollection (sample_env []) sample_hashes ''e'' sample_adoption c' = (Inr m, c')"
proof -
  obtain m c' where r: "AdoptSourceCollection (sample_env []) sample_hashes ''e'' sample_adoption sample_imported = (Inr m, c')"
    using sample_adoption_run
    by (cases "AdoptSourceCollection (sample_env []) sample_hashes ''e'' sample_adoption sample_imported";
        cases "fst (AdoptSourceCollection (sample_env []) sample_hashes ''e'' sample_adoption sample_imported)") auto
  from adoption_adds_one [OF r sample_adoption_fresh, of "sample_env []"] r show ?thesis
    by (auto simp: sample_adoption_def)
qed

lemma sample_recovery_keys:
  "recovery_keys [''a'', ''f''] '''' sample_imported
    = [sourceKey (h_key sample_hashes) ''d'' ''n'' ''a'', sourceKey (h_key sample_hashes) ''d'' ''n'' ''f'']"
  by code_simp


end
