(* ===== verification/Quota.thy ===== *)
theory Quota
  imports Prelude "HOL-Library.Signed_Division"
begin

text \<open>
  \<^verbatim>\<open>internal/quota\<close>: reservations of disk space for writes that are on their way. The manager keeps
  one unsigned 64-bit counter; every reservation remembers its bytes and whether it was released.
  What the file system answers (\<open>statfs\<close>: capacity and free bytes) is a parameter of each call.
\<close>

section \<open>Manager and reservations\<close>

datatype quota_error =
    QuotaExceeded
  | StatfsFailed
  | ReservationClosed

text \<open>
  A \<open>Reservation\<close> object is known by the order in which it was handed out: its bytes and its
  \<open>released\<close> flag are at that index.
\<close>

record manager =
  q_reserved :: u64
  q_tickets :: "(u64 \<times> bool) list"

record quota_status =
  qs_capacity :: u64
  qs_used :: u64
  qs_limit :: u64
  qs_reserved :: u64
  qs_percent :: int
  qs_users :: int

definition HardPercent :: u64 where
  "HardPercent = 97"

definition new_manager :: manager where
  "new_manager = \<lparr>q_reserved = 0, q_tickets = []\<rparr>"

text \<open>\<open>pct\<close> is the percentage of used and limit that the code computes in floating point.\<close>

definition status_of :: "(u64 \<Rightarrow> u64 \<Rightarrow> int) \<Rightarrow> (u64 \<times> u64) option \<Rightarrow> int \<Rightarrow> manager \<Rightarrow> quota_error + quota_status" where
  "status_of pct fs users m =
     (case fs of
        None \<Rightarrow> Inl StatfsFailed
      | Some (capacity, free) \<Rightarrow>
          (let used = (if capacity > free then capacity - free else 0);
               limit = capacity * HardPercent div 100
           in Inr \<lparr>qs_capacity = capacity, qs_used = used, qs_limit = limit, qs_reserved = q_reserved m,
                   qs_percent = (if limit > 0 then pct used limit else 0), qs_users = users\<rparr>))"

text \<open>The test both \<open>ReserveTracked\<close> and \<open>Resize\<close> make: do \<open>more\<close> bytes fit on top of \<open>held\<close>?\<close>

definition over_limit :: "quota_status \<Rightarrow> u64 \<Rightarrow> u64 \<Rightarrow> bool" where
  "over_limit s held amount \<longleftrightarrow> qs_used s \<ge> qs_limit s \<or> held > qs_limit s - qs_used s
     \<or> amount > qs_limit s - qs_used s - held"

definition ReserveTracked ::
  "(u64 \<times> u64) option \<Rightarrow> int \<Rightarrow> int \<Rightarrow> int \<Rightarrow> int \<Rightarrow> manager \<Rightarrow> (quota_error + nat) \<times> manager" where
  "ReserveTracked fs users userUsed current incoming m =
     (if incoming < 0 \<or> current < 0 \<or> userUsed < 0 then (Inl QuotaExceeded, m)
      else case status_of (\<lambda>_ _. 0) fs users m of
        Inl err \<Rightarrow> (Inl err, m)
      | Inr s \<Rightarrow>
          (let delta = word_of_int incoming
           in if over_limit s (q_reserved m) delta then (Inl QuotaExceeded, m)
              else (Inr (length (q_tickets m)),
                    m\<lparr>q_reserved := q_reserved m + delta, q_tickets := q_tickets m @ [(delta, False)]\<rparr>)))"

definition Resize :: "(u64 \<times> u64) option \<Rightarrow> nat \<Rightarrow> int \<Rightarrow> manager \<Rightarrow> (quota_error + unit) \<times> manager" where
  "Resize fs i bytes m =
     (if bytes < 0 then (Inl QuotaExceeded, m)
      else if snd (q_tickets m ! i) then (Inl QuotaExceeded, m)
      else case status_of (\<lambda>_ _. 0) fs 1 m of
        Inl err \<Rightarrow> (Inl err, m)
      | Inr s \<Rightarrow>
          (let next = word_of_int bytes; without = q_reserved m - fst (q_tickets m ! i)
           in if over_limit s without next then (Inl QuotaExceeded, m)
              else (Inr (), m\<lparr>q_reserved := without + next, q_tickets := (q_tickets m)[i := (next, False)]\<rparr>)))"

definition Release :: "nat \<Rightarrow> manager \<Rightarrow> manager" where
  "Release i m =
     (if snd (q_tickets m ! i) then m
      else m\<lparr>q_reserved := q_reserved m - fst (q_tickets m ! i), q_tickets := (q_tickets m)[i := (0, True)]\<rparr>)"

text \<open>\<open>Check\<close> reserves and releases at once.\<close>

definition CheckQuota ::
  "(u64 \<times> u64) option \<Rightarrow> int \<Rightarrow> int \<Rightarrow> int \<Rightarrow> int \<Rightarrow> manager \<Rightarrow> (quota_error + unit) \<times> manager" where
  "CheckQuota fs users userUsed current incoming m =
     (case ReserveTracked fs users userUsed current incoming m of
        (Inl err, m') \<Rightarrow> (Inl err, m')
      | (Inr i, m') \<Rightarrow> (Inr (), Release i m'))"

section \<open>Workspace of a write\<close>

text \<open>Signed 64-bit arithmetic: every result is stored in an \<open>int64\<close>; division truncates.\<close>

definition workspaceChunks :: "int \<Rightarrow> int \<Rightarrow> int" where
  "workspaceChunks sz chunkSize = (if sz = 0 then 0 else wrap64 (wrap64 (sz - 1) sdiv chunkSize + 1))"

definition workspaceOverhead :: "int \<Rightarrow> int \<Rightarrow> int \<Rightarrow> int \<Rightarrow> quota_error + int" where
  "workspaceOverhead sz fixed perChunk chunkSize =
     (if perChunk = 0 then Inr fixed
      else
        (let chunks = workspaceChunks sz chunkSize
         in if chunks > wrap64 (max_int64 - fixed) sdiv perChunk then Inl QuotaExceeded
            else Inr (wrap64 (fixed + wrap64 (chunks * perChunk)))))"

definition sharedWorkspaceFixed :: int where "sharedWorkspaceFixed = 1048576"
definition sharedWorkspacePerChunk :: int where "sharedWorkspacePerChunk = 8192"
definition sharedWorkspaceChunk :: int where "sharedWorkspaceChunk = 524288"

definition SharedWriteWorkspace :: "int \<Rightarrow> quota_error + int" where
  "SharedWriteWorkspace sz =
     workspaceOverhead sz sharedWorkspaceFixed sharedWorkspacePerChunk sharedWorkspaceChunk"

definition SharedWriteReservation :: "int \<Rightarrow> int \<Rightarrow> quota_error + int" where
  "SharedWriteReservation sz offset =
     (if sz < 0 \<or> offset < 0 \<or> offset > sz \<or> sz > max_int64 sdiv 2 then Inl QuotaExceeded
      else
        (let base = wrap64 (wrap64 (2 * sz) - offset)
         in case SharedWriteWorkspace sz of
              Inl err \<Rightarrow> Inl QuotaExceeded
            | Inr overhead \<Rightarrow>
                if base > wrap64 (max_int64 - overhead) then Inl QuotaExceeded
                else Inr (wrap64 (base + overhead))))"

section \<open>Guarded readers\<close>

record guard =
  g_multiplier :: int
  g_fixed :: int
  g_perChunk :: int
  g_chunkSize :: int
  g_read :: int
  g_tickets :: "nat list"
  g_released :: bool

datatype guarded_reader = Known nat | Streaming guard

definition GuardReaderWorkspace ::
  "(u64 \<times> u64) option \<Rightarrow> int \<Rightarrow> int \<Rightarrow> int \<Rightarrow> int \<Rightarrow> int \<Rightarrow> int \<Rightarrow> int \<Rightarrow> int \<Rightarrow> manager
   \<Rightarrow> (quota_error + guarded_reader) \<times> manager" where
  "GuardReaderWorkspace fs users userUsed current expected multiplier fixed perChunk chunkSize m =
     (if multiplier < 1 \<or> (expected \<ge> 0 \<and> expected > max_int64 sdiv multiplier) then (Inl QuotaExceeded, m)
      else if fixed < 0 \<or> perChunk < 0 \<or> (perChunk > 0 \<and> chunkSize \<le> 0) then (Inl QuotaExceeded, m)
      else if expected \<ge> 0 then
        (case workspaceOverhead expected fixed perChunk chunkSize of
           Inl err \<Rightarrow> (Inl QuotaExceeded, m)
         | Inr overhead \<Rightarrow>
             if wrap64 (expected * multiplier) > wrap64 (max_int64 - overhead) then (Inl QuotaExceeded, m)
             else (case ReserveTracked fs users userUsed current
                          (wrap64 (wrap64 (expected * multiplier) + overhead)) m of
                     (Inl err, m') \<Rightarrow> (Inl err, m')
                   | (Inr i, m') \<Rightarrow> (Inr (Known i), m')))
      else
        (let g = \<lparr>g_multiplier = multiplier, g_fixed = fixed, g_perChunk = perChunk,
                  g_chunkSize = chunkSize, g_read = 0, g_tickets = [], g_released = False\<rparr>
         in if fixed > 0 then
              (case ReserveTracked fs users userUsed current fixed m of
                 (Inl err, m') \<Rightarrow> (Inl err, m')
               | (Inr i, m') \<Rightarrow> (Inr (Streaming (g\<lparr>g_tickets := [i]\<rparr>)), m'))
            else (Inr (Streaming g), m)))"

definition GuardReaderMultiplier where
  "GuardReaderMultiplier fs users userUsed current expected multiplier m =
     GuardReaderWorkspace fs users userUsed current expected multiplier 0 0 0 m"

definition GuardReader where
  "GuardReader fs users userUsed current expected m =
     GuardReaderMultiplier fs users userUsed current expected 1 m"

definition GuardSharedWrite where
  "GuardSharedWrite fs users userUsed current expected m =
     GuardReaderWorkspace fs users userUsed current expected 2
       sharedWorkspaceFixed sharedWorkspacePerChunk sharedWorkspaceChunk m"

text \<open>
  \<open>Read\<close> of a guarded reader after its source delivered \<open>n > 0\<close> bytes: what they cost, the
  reservation, and, under the reader's own lock, keeping the reservation unless the reader was released
  meanwhile.
\<close>

definition read_cost :: "guard \<Rightarrow> int \<Rightarrow> quota_error + int" where
  "read_cost g n =
     (if n > max_int64 sdiv g_multiplier g \<or> g_read g > wrap64 (max_int64 - n) then Inl QuotaExceeded
      else
        (let newRead = wrap64 (g_read g + n);
             new = wrap64 (workspaceChunks newRead (g_chunkSize g) - workspaceChunks (g_read g) (g_chunkSize g))
         in if g_perChunk g > 0 \<and> new > max_int64 sdiv g_perChunk g then Inl QuotaExceeded
            else
              (let extra = (if g_perChunk g > 0 then wrap64 (new * g_perChunk g) else 0);
                   reserve = wrap64 (n * g_multiplier g)
               in if reserve > wrap64 (max_int64 - extra) then Inl QuotaExceeded
                  else Inr (wrap64 (reserve + extra)))))"

definition read_attach :: "nat \<Rightarrow> int \<Rightarrow> guard \<Rightarrow> manager \<Rightarrow> (quota_error + guard) \<times> manager" where
  "read_attach i n g m =
     (if g_released g then (Inl ReservationClosed, Release i m)
      else (Inr (g\<lparr>g_tickets := g_tickets g @ [i], g_read := wrap64 (g_read g + n)\<rparr>), m))"

definition guard_read ::
  "(u64 \<times> u64) option \<Rightarrow> int \<Rightarrow> int \<Rightarrow> int \<Rightarrow> int \<Rightarrow> guard \<Rightarrow> manager \<Rightarrow> (quota_error + guard) \<times> manager" where
  "guard_read fs users userUsed current n g m =
     (if n \<le> 0 then (Inr g, m)
      else case read_cost g n of
        Inl err \<Rightarrow> (Inl err, m)
      | Inr cost \<Rightarrow>
          (case ReserveTracked fs users userUsed current cost m of
             (Inl err, m') \<Rightarrow> (Inl err, m')
           | (Inr i, m') \<Rightarrow> read_attach i n g m'))"

definition guard_release :: "guard \<Rightarrow> manager \<Rightarrow> guard \<times> manager" where
  "guard_release g m =
     (if g_released g then (g, m)
      else (g\<lparr>g_released := True, g_tickets := []\<rparr>, fold Release (g_tickets g) m))"

section \<open>The counter is the sum of what is held\<close>

definition held :: "manager \<Rightarrow> nat" where
  "held m = sum_list (map (unat \<circ> fst) (q_tickets m))"

definition quota_ok :: "manager \<Rightarrow> bool" where
  "quota_ok m \<longleftrightarrow> unat (q_reserved m) = held m \<and> (\<forall>(b, released) \<in> set (q_tickets m). released \<longrightarrow> b = 0)"

lemma new_manager_ok: "quota_ok new_manager"
  by (simp add: quota_ok_def new_manager_def held_def)

lemma over_limit_room:
  assumes "\<not> over_limit s h amount"
  shows "unat (qs_used s) + unat h + unat amount \<le> unat (qs_limit s)"
    and "unat (h + amount) = unat h + unat amount"
proof -
  have a: "qs_used s \<le> qs_limit s" "h \<le> qs_limit s - qs_used s" "amount \<le> qs_limit s - qs_used s - h"
    using assms by (auto simp: over_limit_def)
  have b: "unat (qs_limit s - qs_used s) = unat (qs_limit s) - unat (qs_used s)"
    "unat (qs_limit s - qs_used s - h) = unat (qs_limit s - qs_used s) - unat h"
    using a by (simp_all add: unat_sub)
  show room: "unat (qs_used s) + unat h + unat amount \<le> unat (qs_limit s)"
    using a b by (simp add: word_le_nat_alt)
  have "unat h + unat amount < 2 ^ LENGTH(64)"
    using room unat_u64_lt [of "qs_limit s"] by simp
  then show "unat (h + amount) = unat h + unat amount" by (simp add: unat_word_ariths)
qed

lemma ReserveTracked_Inr:
  assumes "ReserveTracked fs users userUsed current incoming m = (Inr i, m')"
  obtains capacity free s where "fs = Some (capacity, free)" "status_of (\<lambda>_ _. 0) fs users m = Inr s"
    and "\<not> over_limit s (q_reserved m) (word_of_int incoming)" "0 \<le> incoming" "i = length (q_tickets m)"
    and "m' = m\<lparr>q_reserved := q_reserved m + word_of_int incoming,
               q_tickets := q_tickets m @ [(word_of_int incoming, False)]\<rparr>"
  using assms unfolding ReserveTracked_def Let_def
  by (cases fs) (auto simp: status_of_def Let_def split: if_splits)

lemma ReserveTracked_ok:
  assumes "quota_ok m" "ReserveTracked fs users userUsed current incoming m = (r, m')"
  shows "quota_ok m'"
proof (cases r)
  case (Inl err)
  with assms show ?thesis
    by (auto simp: ReserveTracked_def Let_def split: if_splits sum.splits)
next
  case (Inr i)
  with assms(2) obtain s where "\<not> over_limit s (q_reserved m) (word_of_int incoming)"
    "m' = m\<lparr>q_reserved := q_reserved m + word_of_int incoming,
               q_tickets := q_tickets m @ [(word_of_int incoming, False)]\<rparr>"
    by (auto elim: ReserveTracked_Inr)
  with over_limit_room(2) assms(1) show ?thesis by (auto simp: quota_ok_def held_def)
qed

lemma held_update:
  assumes "i < length (q_tickets m)"
  shows "held (m\<lparr>q_reserved := r, q_tickets := (q_tickets m)[i := (b, x)]\<rparr>) + unat (fst (q_tickets m ! i)) = held m + unat b"
    and "unat (fst (q_tickets m ! i)) \<le> held m"
proof -
  let ?ts = "q_tickets m"
  have split: "?ts = take i ?ts @ ?ts ! i # drop (Suc i) ?ts" using assms by (simp add: id_take_nth_drop)
  have upd: "?ts[i := (b, x)] = take i ?ts @ (b, x) # drop (Suc i) ?ts" using assms by (simp add: upd_conv_take_nth_drop)
  have "held m = sum_list (map (unat \<circ> fst) (take i ?ts)) + unat (fst (?ts ! i))
      + sum_list (map (unat \<circ> fst) (drop (Suc i) ?ts))"
    unfolding held_def by (subst split) simp
  then show "held (m\<lparr>q_reserved := r, q_tickets := ?ts[i := (b, x)]\<rparr>) + unat (fst (?ts ! i)) = held m + unat b"
    "unat (fst (?ts ! i)) \<le> held m"
    by (simp_all add: held_def upd)
qed

lemma unat_reserved_without:
  assumes "quota_ok m" "i < length (q_tickets m)"
  shows "unat (q_reserved m - fst (q_tickets m ! i)) = held m - unat (fst (q_tickets m ! i))"
proof -
  have "unat (fst (q_tickets m ! i)) \<le> unat (q_reserved m)"
    using held_update(2) [OF assms(2)] assms(1) by (simp add: quota_ok_def)
  then show ?thesis using assms(1) by (simp add: quota_ok_def unat_sub word_le_nat_alt)
qed

lemma Release_ok:
  assumes ok: "quota_ok m" and i: "i < length (q_tickets m)"
  shows "quota_ok (Release i m)"
proof (cases "snd (q_tickets m ! i)")
  case True
  with ok show ?thesis by (simp add: Release_def)
next
  case False
  with ok unat_reserved_without [OF ok i]
    held_update(1) [OF i, where r = "q_reserved m - fst (q_tickets m ! i)" and b = 0 and x = True] show ?thesis
    by (auto simp: Release_def quota_ok_def dest!: in_set_update)
qed

lemma Resize_ok:
  assumes ok: "quota_ok m" and i: "i < length (q_tickets m)" and r: "Resize fs i bytes m = (r, m')"
  shows "quota_ok m'"
proof (cases r)
  case (Inl err)
  with r ok show ?thesis by (auto simp: Resize_def Let_def split: if_splits sum.splits)
next
  case (Inr u)
  let ?without = "q_reserved m - fst (q_tickets m ! i)"
  from r Inr obtain s where "\<not> over_limit s ?without (word_of_int bytes)"
    and m': "m' = m\<lparr>q_reserved := ?without + word_of_int bytes, q_tickets := (q_tickets m)[i := (word_of_int bytes, False)]\<rparr>"
    by (auto simp: Resize_def Let_def split: if_splits sum.splits)
  with over_limit_room(2) unat_reserved_without [OF ok i]
    held_update(1) [OF i, where r = "?without + word_of_int bytes" and b = "word_of_int bytes" and x = False]
    held_update(2) [OF i] ok
  show ?thesis
    by (auto simp: quota_ok_def dest!: in_set_update)
qed

text \<open>Any sequence of reservations, resizes and releases, whatever the file system answers.\<close>

inductive quota_step :: "manager \<Rightarrow> manager \<Rightarrow> bool" where
  quota_reserve: "ReserveTracked fs users userUsed current incoming m = (r, m') \<Longrightarrow> quota_step m m'"
| quota_resize: "i < length (q_tickets m) \<Longrightarrow> Resize fs i bytes m = (r, m') \<Longrightarrow> quota_step m m'"
| quota_free: "i < length (q_tickets m) \<Longrightarrow> quota_step m (Release i m)"

inductive quota_reachable :: "manager \<Rightarrow> bool" where
  quota_new: "quota_reachable new_manager"
| quota_next: "quota_reachable m \<Longrightarrow> quota_step m m' \<Longrightarrow> quota_reachable m'"

inductive_cases quota_stepE: "quota_step m m'"

lemma quota_reachable_ok: "quota_reachable m \<Longrightarrow> quota_ok m"
  by (induction rule: quota_reachable.induct)
     (auto elim!: quota_stepE intro: new_manager_ok ReserveTracked_ok Resize_ok Release_ok)

lemma Release_length [simp]: "length (q_tickets (Release i m)) = length (q_tickets m)"
  by (simp add: Release_def)

text \<open>
  The reserved counter of the quota manager is, after any sequence of reservations, resizes and
  releases, exactly the sum of the bytes of the reservations that were not released - it never wraps -
  and releasing a reservation again changes nothing.
\<close>

lemma reservations_sound:
  assumes "quota_reachable m"
  shows "unat (q_reserved m) = sum_list (map (unat \<circ> fst) (filter (\<lambda>t. \<not> snd t) (q_tickets m)))
    \<and> (i < length (q_tickets m) \<longrightarrow> Release i (Release i m) = Release i m)"
proof -
  have ok: "quota_ok m" by (rule quota_reachable_ok [OF assms])
  have "sum_list (map (unat \<circ> fst) (filter (\<lambda>t. \<not> snd t) ts)) = sum_list (map (unat \<circ> fst) ts)"
    if "\<forall>(b, released) \<in> set ts. released \<longrightarrow> b = 0" for ts :: "(u64 \<times> bool) list"
    using that by (induction ts) auto
  with ok show ?thesis by (auto simp: quota_ok_def held_def Release_def)
qed

lemma reservations_sound_witness:
  "\<exists>m. quota_reachable m \<and> q_reserved m = 40
     \<and> unat (q_reserved m) = sum_list (map (unat \<circ> fst) (filter (\<lambda>t. \<not> snd t) (q_tickets m)))
     \<and> Release 0 (Release 0 m) = Release 0 m"
proof -
  let ?m = "\<lparr>q_reserved = 40, q_tickets = [(40, False)]\<rparr>"
  have "ReserveTracked (Some (1000, 600)) 1 0 0 40 new_manager = (Inr 0, ?m)" by code_simp
  from quota_next [OF quota_new quota_reserve [OF this]] have r: "quota_reachable ?m" .
  from r reservations_sound [OF r, of 0] show ?thesis by (intro exI [of _ ?m] conjI) simp_all
qed

section \<open>What fits\<close>

lemma HardPercent_limit:
  "unat (capacity * HardPercent div 100 :: u64) = (unat capacity * 97) mod 2 ^ 64 div 100"
  by (simp add: HardPercent_def unat_div unat_word_ariths)

lemma over_limit_exact:
  "\<not> over_limit s h amount \<longleftrightarrow>
     qs_used s < qs_limit s \<and> unat (qs_used s) + unat h + unat amount \<le> unat (qs_limit s)"
proof
  assume n: "\<not> over_limit s h amount"
  then show "qs_used s < qs_limit s \<and> unat (qs_used s) + unat h + unat amount \<le> unat (qs_limit s)"
    using over_limit_room(1) [OF n] by (auto simp: over_limit_def)
next
  assume a: "qs_used s < qs_limit s \<and> unat (qs_used s) + unat h + unat amount \<le> unat (qs_limit s)"
  then have b: "unat (qs_limit s - qs_used s) = unat (qs_limit s) - unat (qs_used s)"
    by (intro unat_sub) (auto intro: less_imp_le)
  with a have h: "h \<le> qs_limit s - qs_used s" unfolding word_le_nat_alt by linarith
  with b have "unat (qs_limit s - qs_used s - h) = unat (qs_limit s) - unat (qs_used s) - unat h"
    by (simp add: unat_sub)
  with a b h show "\<not> over_limit s h amount"
    unfolding over_limit_def word_le_nat_alt word_less_nat_alt by linarith
qed

lemma used_bytes: "unat (if capacity > free then capacity - free else 0 :: u64) = unat capacity - unat free"
  using unat_sub [of free capacity] by (auto simp: word_less_nat_alt word_le_nat_alt not_less)

text \<open>
  A reservation is granted exactly when the bytes in use, the bytes reserved and the new bytes
  together stay within the limit computed from the capacity; and that limit is never above 97 percent
  of the capacity, so granted reservations never promise more.
\<close>

lemma reserve_exact:
  assumes "0 \<le> incoming" "int64_range incoming" "0 \<le> current" "0 \<le> userUsed"
  shows "((\<exists>i. fst (ReserveTracked (Some (capacity, free)) users userUsed current incoming m) = Inr i)
     \<longleftrightarrow> unat capacity - unat free < (unat capacity * 97) mod 2 ^ 64 div 100
       \<and> (unat capacity - unat free) + unat (q_reserved m) + nat incoming \<le> (unat capacity * 97) mod 2 ^ 64 div 100)
    \<and> 100 * ((unat capacity * 97) mod 2 ^ 64 div 100) \<le> 97 * unat capacity"
proof -
  have small: "unat (word_of_int incoming :: u64) = nat incoming"
    using assms(1,2)
    by (simp add: unat_eq_nat_uint uint_word_of_int_eq take_bit_int_eq_self int64_range_def)
  have "(\<exists>i. fst (ReserveTracked (Some (capacity, free)) users userUsed current incoming m) = Inr i)
     \<longleftrightarrow> \<not> over_limit \<lparr>qs_capacity = capacity, qs_used = (if capacity > free then capacity - free else 0),
             qs_limit = capacity * HardPercent div 100, qs_reserved = q_reserved m,
             qs_percent = 0, qs_users = users\<rparr> (q_reserved m) (word_of_int incoming)"
    using assms by (auto simp: ReserveTracked_def status_of_def Let_def over_limit_def)
  also have "\<dots> \<longleftrightarrow> unat capacity - unat free < (unat capacity * 97) mod 2 ^ 64 div 100
       \<and> (unat capacity - unat free) + unat (q_reserved m) + nat incoming \<le> (unat capacity * 97) mod 2 ^ 64 div 100"
    unfolding over_limit_exact quota_status.simps word_less_nat_alt [of _ "capacity * HardPercent div 100"]
      used_bytes HardPercent_limit small by simp
  finally show ?thesis
    using mod_less_eq_dividend [of "unat capacity * 97" "2 ^ 64"]
      times_div_less_eq_dividend [of 100 "(unat capacity * 97) mod 2 ^ 64"] by simp
qed

lemma reserve_exact_witness:
  "\<exists>i. fst (ReserveTracked (Some (1000, 600)) 1 0 0 570 new_manager) = Inr i"
  using reserve_exact [of 570 0 0 1000 600 1 new_manager]
  by (simp add: int64_range_def new_manager_def)

text \<open>
  The finding about the limit: it is computed as capacity times 97 in 64 bits before the division, so
  a store of 2^58 bytes (256 PiB) is limited to a third of its capacity.
\<close>

lemma limit_wraps:
  "status_of (\<lambda>_ _. 0) (Some (2 ^ 58, 2 ^ 58)) 1 new_manager
   = Inr \<lparr>qs_capacity = 2 ^ 58, qs_used = 0, qs_limit = 2 ^ 58 * 33 div 100, qs_reserved = 0,
          qs_percent = 0, qs_users = 1\<rparr>"
  by (simp add: status_of_def new_manager_def HardPercent_def Let_def)

section \<open>Costs are exact\<close>

definition workspace_total :: "int \<Rightarrow> int \<Rightarrow> int \<Rightarrow> int \<Rightarrow> int" where
  "workspace_total fixed perChunk chunkSize n = fixed + perChunk * ((n + chunkSize - 1) div chunkSize)"

lemma sdiv_nonneg: "0 \<le> a \<Longrightarrow> 0 < b \<Longrightarrow> (a :: int) sdiv b = a div b"
  by (simp add: signed_divide_int_def sgn_if)

lemma div_le_self: "0 \<le> (a :: int) \<Longrightarrow> 0 < b \<Longrightarrow> a div b \<le> a"
  using int_div_less_self [of a b] by (cases "a = 0"; cases "b = 1") auto

lemma le_div_iff: "0 < b \<Longrightarrow> a \<le> c div b \<longleftrightarrow> a * b \<le> (c :: int)"
proof
  assume b: "0 < b" and "a \<le> c div b"
  then have "a * b \<le> c div b * b" by (simp add: mult_right_mono)
  also have "\<dots> \<le> c" using b by (metis div_mult_mod_eq le_add_same_cancel1 pos_mod_sign)
  finally show "a * b \<le> c" .
next
  assume b: "0 < b" and "a * b \<le> c"
  from zdiv_mono1 [OF this(2,1)] b show "a \<le> c div b" by simp
qed

lemma workspaceChunks_exact:
  assumes "0 \<le> n" "int64_range n" "0 < chunkSize"
  shows "workspaceChunks n chunkSize = (n + chunkSize - 1) div chunkSize"
    and "0 \<le> workspaceChunks n chunkSize" "workspaceChunks n chunkSize \<le> n"
proof -
  show exact: "workspaceChunks n chunkSize = (n + chunkSize - 1) div chunkSize"
  proof (cases "n = 0")
    case True
    with assms show ?thesis by (simp add: workspaceChunks_def)
  next
    case False
    with assms(1,2) have r: "wrap64 (n - 1) = n - 1" "0 \<le> n - 1" by (auto simp: int64_range_def)
    have "(n - 1) div chunkSize \<le> n - 1" "0 \<le> (n - 1) div chunkSize"
      using r(2) assms(3) div_le_self [of "n - 1" chunkSize] by (auto simp: pos_imp_zdiv_nonneg_iff)
    then have "wrap64 ((n - 1) div chunkSize + 1) = (n - 1) div chunkSize + 1"
      using assms(2) by (intro wrap64_id) (auto simp: int64_range_def)
    moreover have "(n + chunkSize - 1) div chunkSize = (n - 1) div chunkSize + 1"
      using assms(3) div_add_self2 [of chunkSize "n - 1"] by (simp add: algebra_simps)
    ultimately show ?thesis using False r by (simp add: workspaceChunks_def sdiv_nonneg assms(3))
  qed
  show "0 \<le> workspaceChunks n chunkSize"
    unfolding exact using assms by (simp add: pos_imp_zdiv_nonneg_iff)
  show "workspaceChunks n chunkSize \<le> n"
  proof (cases "n = 0")
    case False
    have "(n + chunkSize - 1) div chunkSize \<le> (n * chunkSize) div chunkSize"
    proof (rule zdiv_mono1)
      have "0 \<le> (n - 1) * (chunkSize - 1)" using False assms by simp
      then show "n + chunkSize - 1 \<le> n * chunkSize" by (simp add: algebra_simps)
    qed (use assms in simp)
    then show ?thesis using exact assms(3) by simp
  qed (simp add: workspaceChunks_def)
qed

lemma workspaceOverhead_exact:
  assumes "0 \<le> n" "int64_range n" "0 \<le> fixed" "int64_range fixed" "0 \<le> perChunk" "int64_range perChunk"
    and "perChunk > 0 \<Longrightarrow> 0 < chunkSize"
  shows "workspaceOverhead n fixed perChunk chunkSize =
     (if workspace_total fixed perChunk chunkSize n \<le> max_int64
      then Inr (workspace_total fixed perChunk chunkSize n) else Inl QuotaExceeded)"
proof (cases "perChunk = 0")
  case True
  with assms(4) show ?thesis by (simp add: workspaceOverhead_def workspace_total_def int64_range_def max_int64_def)
next
  case False
  with assms(5,7) have pos: "0 < perChunk" "0 < chunkSize" by auto
  let ?c = "workspaceChunks n chunkSize"
  note c = workspaceChunks_exact [OF assms(1,2) pos(2)]
  have total: "workspace_total fixed perChunk chunkSize n = fixed + ?c * perChunk"
    by (simp add: workspace_total_def c(1))
  have room: "wrap64 (max_int64 - fixed) = max_int64 - fixed" "0 \<le> max_int64 - fixed"
    using assms(3,4) by (auto simp: int64_range_def max_int64_def)
  have fits: "?c > (max_int64 - fixed) div perChunk \<longleftrightarrow> \<not> (fixed + ?c * perChunk \<le> max_int64)"
  proof -
    have "?c \<le> (max_int64 - fixed) div perChunk \<longleftrightarrow> ?c * perChunk \<le> max_int64 - fixed"
      by (rule le_div_iff [OF pos(1)])
    then show ?thesis by (auto simp: not_le)
  qed
  have "wrap64 (fixed + wrap64 (?c * perChunk)) = fixed + ?c * perChunk" if "fixed + ?c * perChunk \<le> max_int64"
  proof -
    have "0 \<le> ?c * perChunk" using c(2) pos by simp
    then have "int64_range (?c * perChunk)" "int64_range (fixed + ?c * perChunk)"
      using that assms(3) by (auto simp: int64_range_def max_int64_def)
    then show ?thesis by simp
  qed
  with False room fits pos show ?thesis
    by (simp add: workspaceOverhead_def Let_def sdiv_nonneg total)
qed

text \<open>
  The reservation of a shared write is exact: for a file of \<open>size\<close> bytes of which \<open>offset\<close> are
  stored already it is twice the size less the offset, one mebibyte, and eight kibibytes for every
  started 512 KiB chunk - or it is refused, when and only when twice the size or that number does not
  fit a signed 64-bit integer. No intermediate result wraps.
\<close>

lemma write_reservation_exact:
  assumes "0 \<le> offset" "offset \<le> n" "int64_range n"
  shows "SharedWriteReservation n offset =
     (let total = 2 * n - offset + 1048576 + 8192 * ((n + 524287) div 524288)
      in if 2 * n \<le> max_int64 \<and> total \<le> max_int64 then Inr total else Inl QuotaExceeded)"
proof -
  let ?w = "workspace_total 1048576 8192 524288 n"
  have n: "0 \<le> n" using assms by simp
  have w: "?w = 1048576 + 8192 * ((n + 524287) div 524288)" by (simp add: workspace_total_def)
  have wpos: "0 \<le> ?w" unfolding w using n by simp
  have exact: "SharedWriteWorkspace n = (if ?w \<le> max_int64 then Inr ?w else Inl QuotaExceeded)"
    unfolding SharedWriteWorkspace_def sharedWorkspaceFixed_def sharedWorkspacePerChunk_def sharedWorkspaceChunk_def
    by (rule workspaceOverhead_exact [OF n assms(3)]) (simp_all add: int64_range_def)
  have half: "max_int64 sdiv 2 = 4611686018427387903" by (simp add: max_int64_def sdiv_nonneg)
  show ?thesis
  proof (cases "n > 4611686018427387903")
    case True
    then show ?thesis
      by (auto simp: SharedWriteReservation_def half Let_def max_int64_def)
  next
    case False
    have base: "wrap64 (wrap64 (2 * n) - offset) = 2 * n - offset"
    proof -
      have "int64_range (2 * n)" "int64_range (2 * n - offset)"
        using False n assms by (auto simp: int64_range_def)
      then show ?thesis by simp
    qed
    have "wrap64 (max_int64 - ?w) = max_int64 - ?w" if "?w \<le> max_int64"
      using that wpos by (intro wrap64_id) (auto simp: int64_range_def max_int64_def)
    moreover have "wrap64 (2 * n - offset + ?w) = 2 * n - offset + ?w" if "2 * n - offset \<le> max_int64 - ?w"
      using that wpos n assms by (intro wrap64_id) (auto simp: int64_range_def max_int64_def)
    moreover have "2 * n \<le> max_int64" using False by (simp add: max_int64_def)
    ultimately show ?thesis
      using False n assms base exact
      by (auto simp: SharedWriteReservation_def half Let_def w [symmetric] add.assoc)
  qed
qed

lemma write_reservation_exact_witness:
  "SharedWriteReservation 600000 100000 = Inr (1100000 + 1048576 + 16384)"
  using write_reservation_exact [of 100000 600000]
  by (simp add: int64_range_def max_int64_def Let_def)

section \<open>Reading with a guard\<close>

lemma ReserveTracked_amount:
  assumes "ReserveTracked fs users userUsed current incoming m = (Inr i, m')" "int64_range incoming"
  shows "unat (q_reserved m') = unat (q_reserved m) + nat incoming" "0 \<le> incoming" "i = length (q_tickets m)"
    and "q_tickets m' = q_tickets m @ [(word_of_int incoming, False)]"
    and "int (unat (q_reserved m')) = int (unat (q_reserved m)) + incoming"
proof -
  obtain s where s: "\<not> over_limit s (q_reserved m) (word_of_int incoming)" "0 \<le> incoming" "i = length (q_tickets m)"
    and m': "m' = m\<lparr>q_reserved := q_reserved m + word_of_int incoming,
               q_tickets := q_tickets m @ [(word_of_int incoming, False)]\<rparr>"
    using ReserveTracked_Inr [OF assms(1)] by metis
  have "unat (word_of_int incoming :: u64) = nat incoming"
    using assms(2) s(2) by (simp add: unat_eq_nat_uint uint_word_of_int_eq take_bit_int_eq_self int64_range_def)
  with over_limit_room(2) [OF s(1)] s m' show "unat (q_reserved m') = unat (q_reserved m) + nat incoming"
    "0 \<le> incoming" "i = length (q_tickets m)" "q_tickets m' = q_tickets m @ [(word_of_int incoming, False)]"
    by simp_all
  with \<open>0 \<le> incoming\<close> show "int (unat (q_reserved m')) = int (unat (q_reserved m)) + incoming" by simp
qed

text \<open>A guard as \<open>GuardReaderWorkspace\<close> creates and \<open>Read\<close> keeps it.\<close>

definition guard_ok :: "guard \<Rightarrow> bool" where
  "guard_ok g \<longleftrightarrow> 1 \<le> g_multiplier g \<and> int64_range (g_multiplier g) \<and> 0 \<le> g_fixed g \<and> 0 \<le> g_perChunk g
     \<and> int64_range (g_perChunk g) \<and> (0 < g_perChunk g \<longrightarrow> 0 < g_chunkSize g)
     \<and> 0 \<le> g_read g \<and> int64_range (g_read g)"

lemma ceil_mono: "0 < c \<Longrightarrow> a \<le> b \<Longrightarrow> (a + c - 1) div c \<le> (b + c - 1 :: int) div c"
  by (rule zdiv_mono1) simp_all

lemma read_cost_Inr:
  assumes ok: "guard_ok g" and n: "0 < n" "int64_range n" and cost: "read_cost g n = Inr a"
  shows "g_read g + n \<le> max_int64" "int64_range a"
    and "a = n * g_multiplier g + (workspace_total (g_fixed g) (g_perChunk g) (g_chunkSize g) (g_read g + n)
           - workspace_total (g_fixed g) (g_perChunk g) (g_chunkSize g) (g_read g))"
proof -
  let ?m = "g_multiplier g" and ?p = "g_perChunk g" and ?c = "g_chunkSize g" and ?r = "g_read g"
  have "wrap64 (max_int64 - n) = max_int64 - n" using n by (intro wrap64_id) (auto simp: int64_range_def max_int64_def)
  with cost have le: "?r + n \<le> max_int64" and "n \<le> max_int64 sdiv ?m"
    by (auto simp: read_cost_def split: if_splits)
  then have mult: "n * ?m \<le> max_int64" using ok by (simp add: sdiv_nonneg max_int64_def guard_ok_def le_div_iff)
  have pos: "0 < n * ?m" using n ok by (simp add: guard_ok_def)
  have rn: "wrap64 (?r + n) = ?r + n" "int64_range (?r + n)"
    using le ok n by (auto simp: int64_range_def max_int64_def guard_ok_def)
  have nm: "wrap64 (n * ?m) = n * ?m" using mult pos by (intro wrap64_id) (auto simp: int64_range_def max_int64_def)
  define new where "new = wrap64 (workspaceChunks (?r + n) ?c - workspaceChunks ?r ?c)"
  define extra where "extra = (if ?p > 0 then wrap64 (new * ?p) else 0)"
  have ex: "extra = workspace_total (g_fixed g) ?p ?c (?r + n) - workspace_total (g_fixed g) ?p ?c ?r \<and> 0 \<le> extra
      \<and> extra \<le> max_int64"
  proof (cases "?p > 0")
    case True
    with ok have c: "0 < ?c" "0 \<le> ?r" "int64_range ?r" by (auto simp: guard_ok_def)
    note chunks = workspaceChunks_exact [OF c(2,3,1)] workspaceChunks_exact [OF _ rn(2) c(1)]
    let ?d = "workspaceChunks (?r + n) ?c - workspaceChunks ?r ?c"
    have d: "0 \<le> ?d" "?d \<le> max_int64"
      using chunks ceil_mono [OF c(1), of ?r "?r + n"] c(2) n le by auto
    then have new: "new = ?d" unfolding new_def by (intro wrap64_id) (auto simp: int64_range_def max_int64_def)
    have "\<not> new > max_int64 sdiv ?p"
      using cost True unfolding read_cost_def Let_def rn(1) new_def [symmetric] by (auto split: if_splits)
    moreover have "max_int64 sdiv ?p = max_int64 div ?p" using True by (simp add: sdiv_nonneg max_int64_def)
    ultimately have "?d \<le> max_int64 div ?p" by (simp add: new)
    then have "?d * ?p \<le> max_int64" unfolding le_div_iff [OF True] .
    moreover have "0 \<le> ?d * ?p" using True d by simp
    ultimately have "wrap64 (?d * ?p) = ?d * ?p" "0 \<le> ?d * ?p" "?d * ?p \<le> max_int64"
      by (auto intro!: wrap64_id simp: int64_range_def max_int64_def)
    then have e: "extra = ?d * ?p" "0 \<le> extra" "extra \<le> max_int64"
      using True unfolding extra_def new by simp_all
    moreover have "workspace_total (g_fixed g) ?p ?c (?r + n) - workspace_total (g_fixed g) ?p ?c ?r = ?d * ?p"
      using chunks(1,4) c(2) n by (simp add: workspace_total_def algebra_simps)
    ultimately show ?thesis by simp
  next
    case False
    with ok have "?p = 0" by (simp add: guard_ok_def)
    with False show ?thesis by (simp add: extra_def workspace_total_def max_int64_def)
  qed
  have a: "\<not> n * ?m > wrap64 (max_int64 - extra)" "a = wrap64 (n * ?m + extra)"
    using cost unfolding read_cost_def Let_def rn(1) nm new_def [symmetric] extra_def [symmetric]
    by (auto split: if_splits)
  have "wrap64 (max_int64 - extra) = max_int64 - extra" using ex by (intro wrap64_id) (auto simp: int64_range_def max_int64_def)
  with a(1) have "n * ?m + extra \<le> max_int64" by simp
  then have r: "int64_range (n * ?m + extra)" using pos ex by (auto simp: int64_range_def max_int64_def)
  with a(2) ex show "g_read g + n \<le> max_int64" "int64_range a"
    "a = n * ?m + (workspace_total (g_fixed g) ?p ?c (?r + n) - workspace_total (g_fixed g) ?p ?c ?r)"
    using le by auto
qed

text \<open>All the reads of one request, the source delivering the pieces \<open>ns\<close>.\<close>

fun guard_reads ::
  "(u64 \<times> u64) option \<Rightarrow> int \<Rightarrow> int \<Rightarrow> int \<Rightarrow> int list \<Rightarrow> guard \<Rightarrow> manager \<Rightarrow> (quota_error + guard) \<times> manager" where
  "guard_reads fs users userUsed current [] g m = (Inr g, m)"
| "guard_reads fs users userUsed current (n # ns) g m =
     (case guard_read fs users userUsed current n g m of
        (Inl err, m') \<Rightarrow> (Inl err, m')
      | (Inr g', m') \<Rightarrow> guard_reads fs users userUsed current ns g' m')"

lemma guard_read_Inr:
  assumes ok: "guard_ok g" and n: "0 < n" "int64_range n"
    and r: "guard_read fs users userUsed current n g m = (Inr g', m')"
  shows "guard_ok g'" "g_read g' = g_read g + n" "g_multiplier g' = g_multiplier g" "g_fixed g' = g_fixed g"
    "g_perChunk g' = g_perChunk g" "g_chunkSize g' = g_chunkSize g"
    "int (unat (q_reserved m')) = int (unat (q_reserved m)) + n * g_multiplier g
       + (workspace_total (g_fixed g) (g_perChunk g) (g_chunkSize g) (g_read g + n)
          - workspace_total (g_fixed g) (g_perChunk g) (g_chunkSize g) (g_read g))"
proof -
  from r n obtain a i m1 where cost: "read_cost g n = Inr a"
    and res: "ReserveTracked fs users userUsed current a m = (Inr i, m1)" and att: "read_attach i n g m1 = (Inr g', m')"
    by (auto simp: guard_read_def split: sum.splits prod.splits)
  note c = read_cost_Inr [OF ok n cost] and t = ReserveTracked_amount [OF res c(2)]
  from att have g': "g' = g\<lparr>g_tickets := g_tickets g @ [i], g_read := wrap64 (g_read g + n)\<rparr>" "m' = m1"
    by (auto simp: read_attach_def split: if_splits)
  have rd: "wrap64 (g_read g + n) = g_read g + n" "int64_range (g_read g + n)"
    using c(1) ok n by (auto simp: int64_range_def max_int64_def guard_ok_def)
  then show "guard_ok g'" "g_read g' = g_read g + n" "g_multiplier g' = g_multiplier g" "g_fixed g' = g_fixed g"
    "g_perChunk g' = g_perChunk g" "g_chunkSize g' = g_chunkSize g"
    using ok n by (auto simp: g' guard_ok_def)
  have "int (unat (q_reserved m')) = int (unat (q_reserved m)) + a" using t(1,2) by (simp add: g'(2))
  then show "int (unat (q_reserved m')) = int (unat (q_reserved m)) + n * g_multiplier g
       + (workspace_total (g_fixed g) (g_perChunk g) (g_chunkSize g) (g_read g + n)
          - workspace_total (g_fixed g) (g_perChunk g) (g_chunkSize g) (g_read g))"
    by (simp add: c(3))
qed

lemma guard_reads_Inr:
  assumes "guard_ok g" "\<forall>n \<in> set ns. 0 < n \<and> int64_range n"
    and "guard_reads fs users userUsed current ns g m = (Inr g', m')"
  shows "int (unat (q_reserved m')) = int (unat (q_reserved m)) + sum_list ns * g_multiplier g
       + (workspace_total (g_fixed g) (g_perChunk g) (g_chunkSize g) (g_read g + sum_list ns)
          - workspace_total (g_fixed g) (g_perChunk g) (g_chunkSize g) (g_read g))"
  using assms
proof (induction ns arbitrary: g m)
  case (Cons n ns)
  from Cons.prems(3) obtain g1 m1 where r: "guard_read fs users userUsed current n g m = (Inr g1, m1)"
    and rs: "guard_reads fs users userUsed current ns g1 m1 = (Inr g', m')"
    by (auto split: prod.splits sum.splits)
  have n: "0 < n" "int64_range n" using Cons.prems(2) by auto
  note one = guard_read_Inr [OF Cons.prems(1) n r]
  from Cons.IH [OF one(1) _ rs] Cons.prems(2) one(2-7) show ?case
    by (simp add: algebra_simps)
qed simp

text \<open>
  A write of unknown length pays the same as one whose length is known: if the pieces a guarded reader
  delivered were all admitted, the bytes reserved for it are the multiplier times the bytes read plus
  the fixed and per-chunk overhead of the whole length, however the bytes were cut into pieces; and that
  is what reserving the length at once costs.
\<close>

lemma streamed_cost:
  assumes start: "GuardReaderWorkspace fs users userUsed current (- 1) multiplier fixed perChunk chunkSize m
      = (Inr (Streaming g), m1)"
    and reads: "guard_reads fs users userUsed current ns g m1 = (Inr g', m2)"
    and ns: "\<forall>n \<in> set ns. 0 < n \<and> int64_range n"
    and args: "int64_range multiplier" "int64_range fixed" "int64_range perChunk" "int64_range (sum_list ns)"
  shows "int (unat (q_reserved m2)) = int (unat (q_reserved m)) + sum_list ns * multiplier
       + workspace_total fixed perChunk chunkSize (sum_list ns)
    \<and> (\<forall>m3 i m4. GuardReaderWorkspace fs users userUsed current (sum_list ns) multiplier fixed perChunk chunkSize m3
          = (Inr (Known i), m4) \<longrightarrow>
        int (unat (q_reserved m4)) = int (unat (q_reserved m3)) + sum_list ns * multiplier
          + workspace_total fixed perChunk chunkSize (sum_list ns))"
proof (intro conjI allI impI)
  have a: "1 \<le> multiplier" "0 \<le> fixed" "0 \<le> perChunk" "0 < perChunk \<Longrightarrow> 0 < chunkSize"
    using start by (auto simp: GuardReaderWorkspace_def split: if_splits)
  have pos: "0 \<le> sum_list ns" using ns by (auto intro!: sum_list_nonneg)
  have zero: "workspace_total fixed perChunk chunkSize 0 = fixed"
    using a(3,4) by (cases "perChunk = 0") (auto simp: workspace_total_def)
  from start a have g: "guard_ok g" "g_read g = 0" "g_multiplier g = multiplier" "g_fixed g = fixed"
      "g_perChunk g = perChunk" "g_chunkSize g = chunkSize"
      "int (unat (q_reserved m1)) = int (unat (q_reserved m)) + fixed"
    using ReserveTracked_amount(5) [OF _ args(2)] args
    by (auto simp: GuardReaderWorkspace_def guard_ok_def int64_range_def Let_def split: if_splits prod.splits sum.splits)
  show "int (unat (q_reserved m2)) = int (unat (q_reserved m)) + sum_list ns * multiplier
       + workspace_total fixed perChunk chunkSize (sum_list ns)"
    using guard_reads_Inr [OF g(1) ns reads, unfolded g(2-6) zero add_0] g(7) by linarith
  fix m3 i m4
  assume known: "GuardReaderWorkspace fs users userUsed current (sum_list ns) multiplier fixed perChunk chunkSize m3
      = (Inr (Known i), m4)"
  let ?w = "workspace_total fixed perChunk chunkSize (sum_list ns)" and ?b = "sum_list ns * multiplier"
  have oh: "workspaceOverhead (sum_list ns) fixed perChunk chunkSize = (if ?w \<le> max_int64 then Inr ?w else Inl QuotaExceeded)"
    by (rule workspaceOverhead_exact [OF pos args(4) a(2) args(2) a(3) args(3) a(4)])
  have le: "sum_list ns \<le> max_int64 sdiv multiplier" and w: "?w \<le> max_int64"
    and b1: "\<not> wrap64 ?b > wrap64 (max_int64 - ?w)"
    and res: "ReserveTracked fs users userUsed current (wrap64 (wrap64 ?b + ?w)) m3 = (Inr i, m4)"
    using known pos unfolding GuardReaderWorkspace_def oh
    by (auto split: if_splits prod.splits sum.splits)
  have wpos: "0 \<le> ?w"
    using a pos by (cases "perChunk = 0") (auto simp: workspace_total_def pos_imp_zdiv_nonneg_iff)
  have "?b \<le> max_int64" using le a(1) by (simp add: sdiv_nonneg max_int64_def le_div_iff)
  moreover have "0 \<le> ?b" using pos a(1) by simp
  ultimately have bb: "wrap64 ?b = ?b" by (intro wrap64_id) (auto simp: int64_range_def max_int64_def)
  have "wrap64 (max_int64 - ?w) = max_int64 - ?w" using w wpos by (intro wrap64_id) (auto simp: int64_range_def max_int64_def)
  with b1 bb have "?b + ?w \<le> max_int64" by simp
  with \<open>0 \<le> ?b\<close> wpos have r: "int64_range (?b + ?w)" by (auto simp: int64_range_def max_int64_def)
  with res bb have "ReserveTracked fs users userUsed current (?b + ?w) m3 = (Inr i, m4)" by simp
  from ReserveTracked_amount(1,2) [OF this r]
  show "int (unat (q_reserved m4)) = int (unat (q_reserved m3)) + ?b + ?w" by simp
qed

lemma streamed_cost_witness:
  "int (unat (q_reserved (snd (guard_reads (Some (1000, 1000)) 1 0 0 [3, 5]
      \<lparr>g_multiplier = 2, g_fixed = 10, g_perChunk = 3, g_chunkSize = 4, g_read = 0, g_tickets = [0], g_released = False\<rparr>
      \<lparr>q_reserved = 10, q_tickets = [(10, False)]\<rparr>)))) = 8 * 2 + workspace_total 10 3 4 8"
proof -
  let ?g = "\<lparr>g_multiplier = 2, g_fixed = 10, g_perChunk = 3, g_chunkSize = 4, g_read = 0, g_tickets = [0], g_released = False\<rparr>"
  let ?m = "\<lparr>q_reserved = 10, q_tickets = [(10, False)]\<rparr>"
  have start: "GuardReaderWorkspace (Some (1000, 1000)) 1 0 0 (- 1) 2 10 3 4 new_manager = (Inr (Streaming ?g), ?m)"
    by code_simp
  have "case fst (guard_reads (Some (1000, 1000)) 1 0 0 [3, 5] ?g ?m) of Inl e \<Rightarrow> False | Inr g \<Rightarrow> True" by code_simp
  then obtain g' where reads: "guard_reads (Some (1000, 1000)) 1 0 0 [3, 5] ?g ?m
      = (Inr g', snd (guard_reads (Some (1000, 1000)) 1 0 0 [3, 5] ?g ?m))"
    by (cases "guard_reads (Some (1000, 1000)) 1 0 0 [3, 5] ?g ?m"; cases "fst (guard_reads (Some (1000, 1000)) 1 0 0 [3, 5] ?g ?m)")
       auto
  from streamed_cost [OF start reads] show ?thesis by (simp add: int64_range_def new_manager_def)
qed

section \<open>No reservation is lost\<close>

text \<open>
  One guarded reader among other requests: a read reserves under the manager's lock and keeps the
  reservation under the reader's own; the release of the request may come between the two, and other
  requests may reserve and release at any time. The state holds the reservation in flight, with its
  bytes, and all reservations made for the reader.
\<close>

type_synonym guard_run = "manager \<times> guard \<times> (nat \<times> int) option \<times> nat list"

inductive guard_step :: "guard_run \<Rightarrow> guard_run \<Rightarrow> bool" where
  gs_reserve: "0 < n \<Longrightarrow> read_cost g n = Inr cost \<Longrightarrow>
     ReserveTracked fs users userUsed current cost m = (Inr i, m') \<Longrightarrow>
     guard_step (m, g, None, made) (m', g, Some (i, n), i # made)"
| gs_attach: "read_attach i n g m = (Inr g', m') \<Longrightarrow> guard_step (m, g, Some (i, n), made) (m', g', None, made)"
| gs_drop: "read_attach i n g m = (Inl err, m') \<Longrightarrow> guard_step (m, g, Some (i, n), made) (m', g, None, made)"
| gs_release: "guard_release g m = (g', m') \<Longrightarrow> guard_step (m, g, f, made) (m', g', f, made)"
| gs_reserve_other: "ReserveTracked fs users userUsed current b m = (r, m') \<Longrightarrow>
     guard_step (m, g, f, made) (m', g, f, made)"
| gs_release_other: "i \<notin> set made \<Longrightarrow> i < length (q_tickets m) \<Longrightarrow>
     guard_step (m, g, f, made) (Release i m, g, f, made)"

inductive guard_runs :: "guard_run \<Rightarrow> bool" where
  guard_start: "quota_reachable m \<Longrightarrow>
     GuardReaderWorkspace fs users userUsed current expected multiplier fixed perChunk chunkSize m
       = (Inr (Streaming g), m') \<Longrightarrow> guard_runs (m', g, None, g_tickets g)"
| guard_more: "guard_runs s \<Longrightarrow> guard_step s s' \<Longrightarrow> guard_runs s'"

definition run_ok :: "guard_run \<Rightarrow> bool" where
  "run_ok s \<longleftrightarrow> (case s of (m, g, f, made) \<Rightarrow>
     quota_ok m \<and> (\<forall>i \<in> set made. i < length (q_tickets m)) \<and> set (g_tickets g) \<subseteq> set made
     \<and> (\<forall>i n. f = Some (i, n) \<longrightarrow> i \<in> set made) \<and> (g_released g \<longrightarrow> g_tickets g = [])
     \<and> (\<forall>i \<in> set made. snd (q_tickets m ! i) \<or> i \<in> set (g_tickets g) \<or> (\<exists>n. f = Some (i, n))))"

lemma ReserveTracked_tickets:
  assumes "ReserveTracked fs users userUsed current b m = (r, m')" "j < length (q_tickets m)"
  shows "q_tickets m' ! j = q_tickets m ! j \<and> length (q_tickets m) \<le> length (q_tickets m')
    \<and> (\<forall>i. r = Inr i \<longrightarrow> i < length (q_tickets m'))"
proof (cases r)
  case (Inl err)
  with assms show ?thesis by (auto simp: ReserveTracked_def Let_def split: if_splits sum.splits)
next
  case (Inr i)
  with assms obtain s where "m' = m\<lparr>q_reserved := q_reserved m + word_of_int b,
      q_tickets := q_tickets m @ [(word_of_int b, False)]\<rparr>" "i = length (q_tickets m)"
    using ReserveTracked_Inr by metis
  with assms Inr show ?thesis by (auto simp: nth_append)
qed

lemma ReserveTracked_length:
  "ReserveTracked fs users userUsed current b m = (r, m') \<Longrightarrow> length (q_tickets m) \<le> length (q_tickets m')"
  unfolding ReserveTracked_def Let_def by (auto split: if_splits sum.splits)

lemma ReserveTracked_new:
  "ReserveTracked fs users userUsed current b m = (Inr i, m') \<Longrightarrow> i = length (q_tickets m) \<and> i < length (q_tickets m')"
  by (erule ReserveTracked_Inr) simp

lemma Release_released: "i < length (q_tickets m) \<Longrightarrow> snd (q_tickets (Release i m) ! j) \<longleftrightarrow> j = i \<or> snd (q_tickets m ! j)"
  by (auto simp: Release_def nth_list_update)

lemma fold_Release:
  assumes "\<forall>i \<in> set is. i < length (q_tickets m)" "quota_ok m"
  shows "quota_ok (fold Release is m) \<and> length (q_tickets (fold Release is m)) = length (q_tickets m)
    \<and> (\<forall>j. snd (q_tickets (fold Release is m) ! j) \<longleftrightarrow> j \<in> set is \<or> snd (q_tickets m ! j))"
  using assms
proof (induction "is" arbitrary: m)
  case (Cons i "is")
  then have "i < length (q_tickets m)" "\<forall>j \<in> set is. j < length (q_tickets (Release i m))" "quota_ok (Release i m)"
    by (auto intro: Release_ok)
  with Cons.IH [of "Release i m"] show ?case by (auto simp: Release_released)
qed simp

lemma guard_step_ok:
  assumes "guard_step s s'" "run_ok s"
  shows "run_ok s'"
  using assms
proof (induction rule: guard_step.induct)
  case (gs_reserve n g cost fs users userUsed current m i m' made)
  note t = ReserveTracked_new [OF gs_reserve.hyps(3)] ReserveTracked_length [OF gs_reserve.hyps(3)]
  have "q_tickets m' ! j = q_tickets m ! j" if "j \<in> set made" for j
    using ReserveTracked_tickets [OF gs_reserve.hyps(3)] gs_reserve.prems that by (auto simp: run_ok_def)
  with gs_reserve.prems t ReserveTracked_ok [OF _ gs_reserve.hyps(3)] show ?case
    by (fastforce simp: run_ok_def)
next
  case (gs_attach i n g m g' m' made)
  then show ?case by (auto simp: run_ok_def read_attach_def split: if_splits)
next
  case (gs_drop i n g m err m' made)
  then have "i < length (q_tickets m)" "m' = Release i m" "quota_ok m"
    by (auto simp: run_ok_def read_attach_def split: if_splits)
  with gs_drop.prems Release_ok show ?case by (auto simp: run_ok_def Release_released)
next
  case (gs_release g m g' m' f made)
  show ?case
  proof (cases "g_released g")
    case False
    from gs_release.prems have "\<forall>i \<in> set (g_tickets g). i < length (q_tickets m)" "quota_ok m"
      by (auto simp: run_ok_def)
    note free = fold_Release [OF this]
    from gs_release.hyps False have "g' = g\<lparr>g_released := True, g_tickets := []\<rparr>" "m' = fold Release (g_tickets g) m"
      by (auto simp: guard_release_def)
    with gs_release.prems free show ?thesis by (auto simp: run_ok_def)
  qed (use gs_release in \<open>simp add: guard_release_def\<close>)
next
  case (gs_reserve_other fs users userUsed current b m r m' g f made)
  have "q_tickets m' ! j = q_tickets m ! j \<and> j < length (q_tickets m')" if "j \<in> set made" for j
    using ReserveTracked_tickets [OF gs_reserve_other.hyps, of j] gs_reserve_other.prems that by (auto simp: run_ok_def)
  with gs_reserve_other.prems ReserveTracked_ok [OF _ gs_reserve_other.hyps] show ?case
    by (auto simp: run_ok_def)
next
  case (gs_release_other i made m g f)
  then show ?case using Release_ok by (auto simp: run_ok_def Release_released)
qed

lemma guard_runs_ok: "guard_runs s \<Longrightarrow> run_ok s"
proof (induction rule: guard_runs.induct)
  case (guard_start m fs users userUsed current expected multiplier fixed perChunk chunkSize g m')
  note ok = quota_reachable_ok [OF guard_start.hyps(1)]
  show ?case
  proof (cases "fixed > 0")
    case True
    with guard_start.hyps(2) obtain i where r: "ReserveTracked fs users userUsed current fixed m = (Inr i, m')"
      and "g_tickets g = [i]" "\<not> g_released g"
      by (auto simp: GuardReaderWorkspace_def Let_def split: if_splits sum.splits prod.splits)
    with ReserveTracked_new [OF r] ReserveTracked_ok [OF ok r] show ?thesis by (auto simp: run_ok_def)
  next
    case False
    with guard_start.hyps(2) have "g_tickets g = []" "m' = m"
      by (auto simp: GuardReaderWorkspace_def Let_def split: if_splits sum.splits prod.splits)
    with ok show ?thesis by (simp add: run_ok_def)
  qed
qed (rule guard_step_ok)

text \<open>C32
  No lost reservation: however the reads of a request of unknown length interleave with its release
  and with other requests, once it is released and its last read has returned, every reservation ever
  made for it is released and holds no bytes - also the one that was made while the release ran.
\<close>

theorem no_lost_reservation:
  assumes "guard_runs (m, g, None, made)" "g_released g" "i \<in> set made"
  shows "q_tickets m ! i = (0, True)"
proof -
  from guard_runs_ok [OF assms(1)] assms(2,3) have "snd (q_tickets m ! i)" "i < length (q_tickets m)" "quota_ok m"
    by (auto simp: run_ok_def)
  moreover from this have "fst (q_tickets m ! i) = 0"
    unfolding quota_ok_def using nth_mem [of i "q_tickets m"] by (cases "q_tickets m ! i") fastforce
  ultimately show ?thesis by (metis prod.collapse)
qed

lemma no_lost_reservation_witness:
  "\<exists>m g. guard_runs (m, g, None, [0]) \<and> g_released g \<and> q_tickets m ! 0 = (0, True)"
proof -
  let ?g = "\<lparr>g_multiplier = 2, g_fixed = 10, g_perChunk = 3, g_chunkSize = 4, g_read = 0, g_tickets = [0], g_released = False\<rparr>"
  let ?m = "\<lparr>q_reserved = 10, q_tickets = [(10, False)]\<rparr>"
  have "GuardReaderWorkspace (Some (1000, 1000)) 1 0 0 (- 1) 2 10 3 4 new_manager = (Inr (Streaming ?g), ?m)"
    by code_simp
  from guard_start [OF quota_new this] have s: "guard_runs (?m, ?g, None, [0])" by simp
  have r: "g_released (fst (guard_release ?g ?m))" by (simp add: guard_release_def)
  have "guard_runs (snd (guard_release ?g ?m), fst (guard_release ?g ?m), None, [0])"
    by (rule guard_more [OF s]) (rule gs_release, simp)
  with no_lost_reservation [OF this r] r show ?thesis by (intro exI conjI) simp_all
qed

end
