(* ===== verification/Rate_Limit.thy ===== *)
theory Rate_Limit
  imports Prelude
begin

text \<open>
  \<^verbatim>\<open>internal/ratelimit\<close>: the bounded fixed-window limiter in front of the password checks. Time is a
  reading of the monotonic clock in nanoseconds; the map of entries is an association list with
  distinct keys, because the code counts it.
\<close>

section \<open>The limiter\<close>

record window_entry =
  we_started :: int
  we_count :: int

record limiter =
  l_window :: int
  l_limit :: int
  l_maxKeys :: int
  l_items :: "(string \<times> window_entry) list"

definition new_limiter :: "int \<Rightarrow> int \<Rightarrow> int \<Rightarrow> limiter" where
  "new_limiter window limit maxKeys =
     \<lparr>l_window = window, l_limit = limit, l_maxKeys = maxKeys, l_items = []\<rparr>"

text \<open>\<open>Time.Sub\<close>: the difference, saturated at the limits of a signed 64-bit \<open>Duration\<close>.\<close>

definition clock_sub :: "int \<Rightarrow> int \<Rightarrow> int" where
  "clock_sub a b = max (- 9223372036854775808) (min max_int64 (a - b))"

definition window_over :: "limiter \<Rightarrow> int \<Rightarrow> window_entry \<Rightarrow> bool" where
  "window_over l now item \<longleftrightarrow> clock_sub now (we_started item) \<ge> l_window l"

definition expireLocked :: "int \<Rightarrow> limiter \<Rightarrow> limiter" where
  "expireLocked now l = l\<lparr>l_items := filter (\<lambda>(_, item). \<not> window_over l now item) (l_items l)\<rparr>"

definition Allow :: "int \<Rightarrow> string \<Rightarrow> limiter \<Rightarrow> bool \<times> limiter" where
  "Allow now key l0 =
     (let l = expireLocked now l0;
          fresh = (if int (length (l_items l)) \<ge> l_maxKeys l then (False, l)
                   else (True, l\<lparr>l_items := AList.update key \<lparr>we_started = now, we_count = 1\<rparr> (l_items l)\<rparr>))
      in case map_of (l_items l) key of
           None \<Rightarrow> fresh
         | Some item \<Rightarrow>
             if window_over l now item then fresh
             else if we_count item \<ge> l_limit l then (False, l)
             else (True, l\<lparr>l_items := AList.update key (item\<lparr>we_count := wrap64 (we_count item + 1)\<rparr>) (l_items l)\<rparr>))"

definition Reset :: "string \<Rightarrow> limiter \<Rightarrow> limiter" where
  "Reset key l = l\<lparr>l_items := AList.delete key (l_items l)\<rparr>"

section \<open>Calls in the order they take the lock\<close>

datatype limiter_call = Attempt string int | Forget string

fun limiter_run :: "limiter_call list \<Rightarrow> limiter \<Rightarrow> (string \<times> int) list \<times> limiter" where
  "limiter_run [] l = ([], l)"
| "limiter_run (Attempt key now # cs) l =
     (let rest = limiter_run cs (snd (Allow now key l))
      in (if fst (Allow now key l) then (key, now) # fst rest else fst rest, snd rest))"
| "limiter_run (Forget key # cs) l = limiter_run cs (Reset key l)"
fun call_times :: "limiter_call list \<Rightarrow> int list" where
  "call_times [] = []"
| "call_times (Attempt key now # cs) = now # call_times cs"
| "call_times (Forget key # cs) = call_times cs"

lemma clock_sub_ge:
  "int64_range w \<Longrightarrow> clock_sub a b \<ge> w \<longleftrightarrow> a - b \<ge> w \<or> w = - 9223372036854775808"
  by (auto simp: clock_sub_def int64_range_def max_int64_def)

lemma expire_fields [simp]:
  "l_window (expireLocked now l) = l_window l" "l_limit (expireLocked now l) = l_limit l"
  "l_maxKeys (expireLocked now l) = l_maxKeys l"
  by (simp_all add: expireLocked_def)

lemma Allow_fields [simp]:
  "l_window (snd (Allow now key l)) = l_window l" "l_limit (snd (Allow now key l)) = l_limit l"
  "l_maxKeys (snd (Allow now key l)) = l_maxKeys l"
  by (auto simp: Allow_def Let_def split: option.split)

lemma Reset_fields [simp]:
  "l_window (Reset key l) = l_window l" "l_limit (Reset key l) = l_limit l" "l_maxKeys (Reset key l) = l_maxKeys l"
  by (simp_all add: Reset_def)

section \<open>The map stays bounded\<close>

definition limiter_ok :: "limiter \<Rightarrow> bool" where
  "limiter_ok l \<longleftrightarrow> distinct (map fst (l_items l)) \<and> int (length (l_items l)) \<le> max 0 (l_maxKeys l)"

lemma map_of_filter_snd:
  "distinct (map fst al) \<Longrightarrow>
     map_of (filter (\<lambda>(_, v). p v) al) k = (case map_of al k of Some v \<Rightarrow> if p v then Some v else None | None \<Rightarrow> None)"
proof (induction al)
  case (Cons a al)
  obtain k' v where a: "a = (k', v)" by (cases a)
  have none: "map_of (filter (\<lambda>(_, v). p v) al) k' = None" if "k' \<notin> fst ` set al"
    using that by (auto simp: map_of_eq_None_iff)
  from Cons show ?case by (auto simp: a none split: option.split)
qed simp

lemma length_update: "length (AList.update k v al) = (if k \<in> fst ` set al then length al else Suc (length al))"
  by (induction al) auto

lemma expire_ok: "limiter_ok l \<Longrightarrow> limiter_ok (expireLocked now l)"
proof -
  have "int (length (filter p (l_items l))) \<le> b" if "int (length (l_items l)) \<le> b" for p b
    using length_filter_le [of p "l_items l"] that by linarith
  then show "limiter_ok l \<Longrightarrow> limiter_ok (expireLocked now l)"
    by (simp add: limiter_ok_def expireLocked_def distinct_map_filterI)
qed

lemma Allow_ok:
  assumes "limiter_ok l"
  shows "limiter_ok (snd (Allow now key l))"
proof -
  let ?l = "expireLocked now l"
  have d: "distinct (map fst (l_items ?l))" and n: "int (length (l_items ?l)) \<le> max 0 (l_maxKeys l)"
    using expire_ok [OF assms, of now] by (auto simp: limiter_ok_def)
  show ?thesis
  proof (cases "map_of (l_items ?l) key")
    case None
    then have "key \<notin> fst ` set (l_items ?l)" by (simp add: map_of_eq_None_iff)
    with None d n show ?thesis
      by (auto simp: Allow_def Let_def limiter_ok_def length_update distinct_update)
  next
    case (Some item)
    then have k: "key \<in> fst ` set (l_items ?l)" by (metis map_of_eq_None_iff option.distinct(1))
    have "\<not> window_over ?l now item"
      using Some by (auto simp: expireLocked_def window_over_def dest: map_of_SomeD)
    with Some k d n show ?thesis
      by (auto simp: Allow_def Let_def limiter_ok_def length_update distinct_update)
  qed
qed

lemma Reset_ok: "limiter_ok l \<Longrightarrow> limiter_ok (Reset key l)"
  using length_delete_le [of key "l_items l"] by (auto simp: limiter_ok_def Reset_def distinct_delete)

lemma limiter_run_ok: "limiter_ok l \<Longrightarrow> limiter_ok (snd (limiter_run cs l))"
  by (induction cs l rule: limiter_run.induct) (simp_all add: Let_def Allow_ok Reset_ok)

lemma limiter_run_keys: "l_maxKeys (snd (limiter_run cs l)) = l_maxKeys l"
  by (induction cs l rule: limiter_run.induct) (simp_all add: Let_def Reset_def)
text \<open>
  Keys chosen by an attacker cannot grow the limiter: after any sequence of attempts and resets it
  holds at most one entry per key and at most the configured number of entries.
\<close>

lemma limiter_bounded:
  "distinct (map fst (l_items (snd (limiter_run cs (new_limiter window limit maxKeys)))))
   \<and> int (length (l_items (snd (limiter_run cs (new_limiter window limit maxKeys))))) \<le> max 0 maxKeys"
proof -
  have "limiter_ok (new_limiter window limit maxKeys)" by (simp add: limiter_ok_def new_limiter_def)
  from limiter_run_ok [OF this, of cs] limiter_run_keys [of cs "new_limiter window limit maxKeys"]
  show ?thesis by (simp add: limiter_ok_def new_limiter_def)
qed

section \<open>What passes in one window\<close>

text \<open>
  The grants of one key so far, seen from the current time: they form windows, the last one opened
  at \<open>s\<close>; at most \<open>n\<close> were granted since and at most \<open>n\<close> in the time of one window before it.
\<close>

definition count_in :: "int \<Rightarrow> int \<Rightarrow> int list \<Rightarrow> nat" where
  "count_in a b ts = length (filter (\<lambda>t. a \<le> t \<and> t < b) ts)"

definition paced :: "int \<Rightarrow> nat \<Rightarrow> string \<Rightarrow> int list \<Rightarrow> int \<Rightarrow> limiter \<Rightarrow> bool" where
  "paced w n key ts now l \<longleftrightarrow> (\<exists>s.
     (\<forall>t \<in> set ts. t \<le> now \<and> t < s + w) \<and> s \<le> now
     \<and> count_in s (s + w) ts \<le> n \<and> count_in (s - w + 1) s ts \<le> n
     \<and> (case map_of (l_items l) key of
          Some item \<Rightarrow> we_started item = s \<and> we_count item = int (count_in s (s + w) ts)
        | None \<Rightarrow> s + w \<le> now)
     \<and> (\<forall>t. count_in t (t + w) ts \<le> 2 * n))"

lemma count_in_Cons: "count_in a b (t # ts) = count_in a b ts + (if a \<le> t \<and> t < b then 1 else 0)"
  by (simp add: count_in_def)

lemma count_in_mono:
  "(\<And>t. t \<in> set ts \<Longrightarrow> a \<le> t \<Longrightarrow> t < b \<Longrightarrow> a' \<le> t \<and> t < b') \<Longrightarrow> count_in a b ts \<le> count_in a' b' ts"
  by (induction ts) (auto simp: count_in_def)

lemma count_in_split: "count_in a c ts \<le> count_in a b ts + count_in b c ts"
  by (induction ts) (auto simp: count_in_def)

lemma count_in_zero: "(\<And>t. t \<in> set ts \<Longrightarrow> \<not> (a \<le> t \<and> t < b)) \<Longrightarrow> count_in a b ts = 0"
  by (induction ts) (auto simp: count_in_def)

lemma paced_later:
  assumes "paced w n key ts t0 l" "t0 \<le> now" "map_of (l_items l') key = map_of (l_items l) key"
  shows "paced w n key ts now l'"
  using assms unfolding paced_def by (fastforce split: option.splits)

lemma paced_expire:
  assumes p: "paced w n key ts t0 l" and t: "t0 \<le> now" and l: "limiter_ok l" "l_window l = w"
    and w: "0 < w" "int64_range w"
  shows "paced w n key ts now (expireLocked now l)"
proof -
  have over: "window_over l now item \<longleftrightarrow> we_started item + w \<le> now" for item
    using w by (auto simp: window_over_def l(2) clock_sub_ge)
  have m: "map_of (l_items (expireLocked now l)) key =
      (case map_of (l_items l) key of Some v \<Rightarrow> if \<not> window_over l now v then Some v else None | None \<Rightarrow> None)"
    unfolding expireLocked_def using l(1) map_of_filter_snd [of "l_items l" "\<lambda>v. \<not> window_over l now v" key]
    by (simp add: limiter_ok_def)
  from p obtain s where s: "\<forall>t \<in> set ts. t \<le> t0 \<and> t < s + w" "s \<le> t0" "count_in s (s + w) ts \<le> n"
      "count_in (s - w + 1) s ts \<le> n" "\<forall>t. count_in t (t + w) ts \<le> 2 * n"
    and e: "case map_of (l_items l) key of
          Some item \<Rightarrow> we_started item = s \<and> we_count item = int (count_in s (s + w) ts)
        | None \<Rightarrow> s + w \<le> t0"
    unfolding paced_def by blast
  show ?thesis
    unfolding paced_def m by (rule exI [of _ s]) (use s e t over in \<open>fastforce split: option.splits\<close>)
qed

lemma paced_Allow:
  assumes p: "paced w n key ts t0 l" and t: "t0 \<le> now" and l: "limiter_ok l" "l_window l = w" "l_limit l = limit"
    and w: "0 < w" "int64_range w" and n: "1 \<le> n" "limit \<le> int n" "int64_range limit"
  shows "paced w n key (if fst (Allow now key l) then now # ts else ts) now (snd (Allow now key l))"
proof -
  let ?l = "expireLocked now l"
  from paced_expire [OF p t l(1,2) w] obtain s where
    s: "\<forall>t \<in> set ts. t \<le> now \<and> t < s + w" "s \<le> now" "count_in s (s + w) ts \<le> n"
      "count_in (s - w + 1) s ts \<le> n"
      "case map_of (l_items ?l) key of
          Some item \<Rightarrow> we_started item = s \<and> we_count item = int (count_in s (s + w) ts)
        | None \<Rightarrow> s + w \<le> now" and all: "count_in t (t + w) ts \<le> 2 * n" for t
    unfolding paced_def by blast
  show ?thesis
  proof (cases "map_of (l_items ?l) key")
    case None
    with s(5) have sw: "s + w \<le> now" by simp
    show ?thesis
    proof (cases "int (length (l_items ?l)) \<ge> l_maxKeys l")
      case True
      with None s all show ?thesis by (auto simp: Allow_def Let_def paced_def)
    next
      case False
      have old: "count_in now (now + w) ts = 0" using s(1) sw by (intro count_in_zero) fastforce
      have recent: "count_in (now - w + 1) now ts \<le> count_in s (s + w) ts"
        using s(1) sw by (intro count_in_mono) auto
      have "count_in t (t + w) (now # ts) \<le> 2 * n" for t
      proof (cases "t \<le> now \<and> now < t + w")
        case True
        then have "count_in t (t + w) ts \<le> count_in s (s + w) ts"
          using s(1) sw by (intro count_in_mono) auto
        with s(3) n(1) show ?thesis by (simp add: count_in_Cons)
      next
        case False
        with all [of t] show ?thesis by (auto simp: count_in_Cons)
      qed
      then have "paced w n key (now # ts) now
          (?l\<lparr>l_items := AList.update key \<lparr>we_started = now, we_count = 1\<rparr> (l_items ?l)\<rparr>)"
        unfolding paced_def using s w n old recent
        by (intro exI [of _ now]) (auto simp: count_in_Cons)
      with None False show ?thesis by (simp add: Allow_def Let_def)
    qed
  next
    case (Some item)
    with s(5) have item: "we_started item = s" "we_count item = int (count_in s (s + w) ts)" by auto
    have live: "\<not> window_over ?l now item"
      using Some by (auto simp: expireLocked_def window_over_def dest: map_of_SomeD)
    with item w l(2) have sw: "now < s + w" by (auto simp: window_over_def clock_sub_ge)
    show ?thesis
    proof (cases "we_count item \<ge> l_limit l")
      case True
      with Some live s all show ?thesis by (auto simp: Allow_def Let_def paced_def)
    next
      case False
      then have c: "int (count_in s (s + w) ts) + 1 \<le> int n" "wrap64 (we_count item + 1) = we_count item + 1"
        using item n l(3) by (auto simp: int64_range_def intro!: wrap64_id)
      have "count_in t (t + w) (now # ts) \<le> 2 * n" for t
      proof (cases "t \<le> now \<and> now < t + w")
        case True
        then have "count_in t (t + w) (now # ts) \<le> count_in (s - w + 1) (s + w) (now # ts)"
          using s(1,2) sw by (intro count_in_mono) auto
        also have "\<dots> \<le> count_in (s - w + 1) s (now # ts) + count_in s (s + w) (now # ts)"
          by (rule count_in_split)
        also have "\<dots> \<le> 2 * n" using s c sw by (simp add: count_in_Cons)
        finally show ?thesis .
      next
        case False
        with all [of t] show ?thesis by (auto simp: count_in_Cons)
      qed
      then have "paced w n key (now # ts) now
          (?l\<lparr>l_items := AList.update key (item\<lparr>we_count := wrap64 (we_count item + 1)\<rparr>) (l_items ?l)\<rparr>)"
        unfolding paced_def using s sw item c
        by (intro exI [of _ s]) (auto simp: count_in_Cons)
      with Some live False show ?thesis by (simp add: Allow_def Let_def)
    qed
  qed
qed

lemma Allow_other:
  "key \<noteq> key' \<Longrightarrow> map_of (l_items (snd (Allow now key' l))) key = map_of (l_items (expireLocked now l)) key"
  by (auto simp: Allow_def Let_def split: option.split)

lemma limiter_run_paced:
  assumes "paced w n key ts t0 l" "sorted (t0 # call_times cs)" "Forget key \<notin> set cs"
    "limiter_ok l" "l_window l = w" "l_limit l = limit" "0 < w" "int64_range w" "1 \<le> n" "limit \<le> int n" "int64_range limit"
  shows "count_in t (t + w) (map snd (filter (\<lambda>g. fst g = key) (fst (limiter_run cs l))) @ ts) \<le> 2 * n"
  using assms
proof (induction cs l arbitrary: ts t0 rule: limiter_run.induct)
  case (1 l)
  then show ?case by (auto simp: paced_def)
next
  case (2 key' now cs l)
  let ?l = "snd (Allow now key' l)"
  define ts' where "ts' = (if key' = key \<and> fst (Allow now key' l) then now # ts else ts)"
  have "paced w n key ts' now ?l"
  proof (cases "key' = key")
    case True
    with paced_Allow [OF "2.prems"(1) _ "2.prems"(4-)] "2.prems"(2) show ?thesis by (simp add: ts'_def)
  next
    case False
    have "paced w n key ts now (expireLocked now l)"
      by (rule paced_expire [OF "2.prems"(1) _ "2.prems"(4,5,7,8)]) (use "2.prems"(2) in simp)
    from paced_later [OF this order_refl Allow_other] False show ?thesis by (simp add: ts'_def)
  qed
  from "2.IH" [OF this] "2.prems" have "count_in t (t + w) (map snd (filter (\<lambda>g. fst g = key) (fst (limiter_run cs ?l))) @ ts') \<le> 2 * n"
    by (simp add: Allow_ok)
  then show ?case
    by (cases "key' = key"; cases "fst (Allow now key' l)") (auto simp: ts'_def Let_def count_in_def)
next
  case (3 key' cs l)
  have "map_of (l_items (Reset key' l)) key = map_of (l_items l) key"
    using "3.prems"(3) by (simp add: Reset_def)
  from "3.IH" [OF paced_later [OF "3.prems"(1) order_refl this]] "3.prems"
  show ?case by (simp add: Reset_ok)
qed



end
