(* ===== verification/Encoding.thy ===== *)
theory Encoding
  imports Go_Lib
begin

text \<open>
  Texts the mobile uploads depend on: decimal numbers in file names (\<^verbatim>\<open>strconv.FormatInt\<close>), identifiers
  and hashes in hexadecimal, staging keys in base64 (\<^verbatim>\<open>encoding/base64\<close>, \<open>StdEncoding\<close>) and the
  grammar \<^verbatim>\<open>encoding/json\<close> accepts (\<open>json.Valid\<close>).
\<close>

section \<open>Decimal numbers\<close>

definition digit :: "nat \<Rightarrow> char" where
  "digit n = char_of (48 + n)"

fun show_nat :: "nat \<Rightarrow> string" where
  "show_nat n = (if n < 10 then [digit n] else show_nat (n div 10) @ [digit (n mod 10)])"

declare show_nat.simps [simp del]

definition show_int :: "int \<Rightarrow> string" where
  "show_int i = (if i < 0 then CHR ''-'' # show_nat (nat (- i)) else show_nat (nat i))"

definition read_nat :: "string \<Rightarrow> nat" where
  "read_nat s = foldl (\<lambda>n c. 10 * n + (of_char c - 48)) 0 s"

lemma read_show [simp]: "read_nat (show_nat n) = n"
proof (induction n rule: show_nat.induct)
  case (1 n)
  have d: "(of_char (digit k) :: nat) - 48 = k" if "k < 10" for k
    using that by (simp add: digit_def of_char_of take_bit_nat_eq_self)
  show ?case
  proof (cases "n < 10")
    case True
    then show ?thesis by (simp add: show_nat.simps [of n] read_nat_def d)
  next
    case False
    with 1 show ?thesis by (simp add: show_nat.simps [of n] read_nat_def d)
  qed
qed

lemma show_nat_inj [simp]: "show_nat m = show_nat n \<longleftrightarrow> m = n"
  by (metis read_show)

lemma show_int_inj: "0 \<le> i \<Longrightarrow> 0 \<le> j \<Longrightarrow> show_int i = show_int j \<longleftrightarrow> i = j"
  by (simp add: show_int_def eq_nat_nat_iff)

section \<open>Hexadecimal identifiers\<close>

definition is_hex :: "char \<Rightarrow> bool" where
  "is_hex c \<longleftrightarrow> c \<in> set ''0123456789abcdefABCDEF''"

text \<open>\<open>hex.DecodeString(s)\<close> succeeds and yields \<open>n\<close> bytes.\<close>

definition hex_bytes :: "nat \<Rightarrow> string \<Rightarrow> bool" where
  "hex_bytes n s \<longleftrightarrow> length s = 2 * n \<and> list_all is_hex s"

lemma hex_bytes_length: "hex_bytes n s \<Longrightarrow> length s = 2 * n"
  by (simp add: hex_bytes_def)

section \<open>Base64\<close>

definition b64_alphabet :: string where
  "b64_alphabet = ''ABCDEFGHIJKLMNOPQRSTUVWXYZabcdefghijklmnopqrstuvwxyz0123456789+/''"

definition b64_char :: "nat \<Rightarrow> char" where
  "b64_char n = b64_alphabet ! n"

definition b64_val :: "char \<Rightarrow> nat option" where
  "b64_val c = find_index ((=) c) b64_alphabet"

fun b64_encode_nats :: "nat list \<Rightarrow> string" where
  "b64_encode_nats [] = []"
| "b64_encode_nats [a] = [b64_char (a div 4), b64_char (a mod 4 * 16), CHR ''='', CHR ''='']"
| "b64_encode_nats [a, b] =
     [b64_char (a div 4), b64_char (a mod 4 * 16 + b div 16), b64_char (b mod 16 * 4), CHR ''='']"
| "b64_encode_nats (a # b # c # rest) =
     b64_char (a div 4) # b64_char (a mod 4 * 16 + b div 16) # b64_char (b mod 16 * 4 + c div 64)
     # b64_char (c mod 64) # b64_encode_nats rest"

fun b64_decode_nats :: "string \<Rightarrow> nat list option" where
  "b64_decode_nats [] = Some []"
| "b64_decode_nats (a # b # c # d # rest) =
     (case (b64_val a, b64_val b) of
        (Some x, Some y) \<Rightarrow>
          if c = CHR ''='' then
            (if d = CHR ''='' \<and> rest = [] then Some [x * 4 + y div 16] else None)
          else (case b64_val c of
                  None \<Rightarrow> None
                | Some z \<Rightarrow>
                    if d = CHR ''='' then
                      (if rest = [] then Some [x * 4 + y div 16, y mod 16 * 16 + z div 4] else None)
                    else (case b64_val d of
                            None \<Rightarrow> None
                          | Some w \<Rightarrow>
                              map_option (\<lambda>ns. (x * 4 + y div 16) # (y mod 16 * 16 + z div 4) # (z mod 4 * 64 + w) # ns)
                                (b64_decode_nats rest)))
      | _ \<Rightarrow> None)"
| "b64_decode_nats _ = None"

definition B64 :: "string \<Rightarrow> string" where
  "B64 s = b64_encode_nats (map of_char s)"

text \<open>Line breaks are skipped, as \<open>DecodeString\<close> does.\<close>

definition B64d :: "string \<Rightarrow> string option" where
  "B64d s = map_option (map char_of) (b64_decode_nats (filter (\<lambda>c. c \<noteq> CHR 0x0A \<and> c \<noteq> CHR 0x0D) s))"

lemma find_index_nth:
  "distinct xs \<Longrightarrow> n < length xs \<Longrightarrow> find_index ((=) (xs ! n)) xs = Some n"
proof (induction xs arbitrary: n)
  case (Cons x xs)
  then show ?case by (cases n) auto
qed simp

lemma b64_alphabet: "distinct b64_alphabet" "length b64_alphabet = 64"
  "CHR ''='' \<notin> set b64_alphabet" "CHR 0x0A \<notin> set b64_alphabet" "CHR 0x0D \<notin> set b64_alphabet"
  unfolding b64_alphabet_def by (code_simp, simp, simp_all)

lemma b64_val_char [simp]: "n < 64 \<Longrightarrow> b64_val (b64_char n) = Some n"
  unfolding b64_val_def b64_char_def by (rule find_index_nth) (simp_all add: b64_alphabet)

lemma b64_char_in: "n < 64 \<Longrightarrow> b64_char n \<in> set b64_alphabet"
  unfolding b64_char_def by (rule nth_mem) (simp add: b64_alphabet)

lemma b64_char_neq [simp]: "n < 64 \<Longrightarrow> b64_char n \<noteq> CHR ''=''"
  "n < 64 \<Longrightarrow> b64_char n \<noteq> CHR 0x0A" "n < 64 \<Longrightarrow> b64_char n \<noteq> CHR 0x0D"
  using b64_char_in [of n] b64_alphabet(3-5) by auto

lemma b64_small:
  "a < 256 \<Longrightarrow> a div 4 < 64" "a mod 4 * 16 < (64 :: nat)" "b < 256 \<Longrightarrow> a mod 4 * 16 + b div 16 < (64 :: nat)"
  "b mod 16 * 4 < (64 :: nat)" "c < 256 \<Longrightarrow> b mod 16 * 4 + c div 64 < (64 :: nat)" "c mod 64 < (64 :: nat)"
  for a b c :: nat
proof -
  have m: "a mod 4 \<le> 3" "b mod 16 \<le> 15" using mod_less_divisor [of 4 a] mod_less_divisor [of 16 b] by linarith+
  show "a < 256 \<Longrightarrow> a div 4 < 64" "b mod 16 * 4 < 64" "c mod 64 < 64" "a mod 4 * 16 < 64"
    using m by (simp_all add: less_mult_imp_div_less)
  show "b < 256 \<Longrightarrow> a mod 4 * 16 + b div 16 < 64"
    using m less_mult_imp_div_less [of b 16 16] by linarith
  show "c < 256 \<Longrightarrow> b mod 16 * 4 + c div 64 < 64"
    using m less_mult_imp_div_less [of c 4 64] by linarith
qed

lemma b64_digits:
  fixes b c :: nat
  shows "b < 256 \<Longrightarrow> b div 16 div 16 = 0" "b < 256 \<Longrightarrow> b div 16 mod 16 * 16 + b mod 16 = b"
    and "c < 256 \<Longrightarrow> c div 64 div 4 = 0" "c < 256 \<Longrightarrow> c div 64 mod 4 * 64 + c mod 64 = c"
proof -
  have b: "b div 16 < 16" if "b < 256" using that by (simp add: less_mult_imp_div_less)
  have c: "c div 64 < 4" if "c < 256" using that by (simp add: less_mult_imp_div_less)
  show "b < 256 \<Longrightarrow> b div 16 div 16 = 0" "b < 256 \<Longrightarrow> b div 16 mod 16 * 16 + b mod 16 = b"
    using b by simp_all
  show "c < 256 \<Longrightarrow> c div 64 div 4 = 0" "c < 256 \<Longrightarrow> c div 64 mod 4 * 64 + c mod 64 = c"
    using c by simp_all
qed
lemma b64_nats: "list_all (\<lambda>n. n < 256) ns \<Longrightarrow> b64_decode_nats (b64_encode_nats ns) = Some ns"
  by (induction ns rule: b64_encode_nats.induct) (simp_all add: b64_small b64_digits)

lemma b64_plain: "list_all (\<lambda>n. n < 256) ns \<Longrightarrow> list_all (\<lambda>c. c \<noteq> CHR 0x0A \<and> c \<noteq> CHR 0x0D) (b64_encode_nats ns)"
  by (induction ns rule: b64_encode_nats.induct) (simp_all add: b64_small)

lemma B64_roundtrip [simp]: "B64d (B64 s) = Some s"
proof -
  have s: "list_all (\<lambda>n. n < 256) (map of_char s :: nat list)" by (simp add: list_all_iff of_char_lt)
  then have "filter (\<lambda>c. c \<noteq> CHR 0x0A \<and> c \<noteq> CHR 0x0D) (B64 s) = B64 s"
    using b64_plain [OF s] by (simp add: B64_def filter_id_conv list_all_iff)
  with b64_nats [OF s] show ?thesis by (simp add: B64d_def B64_def comp_def)
qed

section \<open>JSON texts\<close>

definition json_space :: "char \<Rightarrow> bool" where
  "json_space c \<longleftrightarrow> c \<in> {CHR '' '', CHR 0x09, CHR 0x0A, CHR 0x0D}"

definition json_trim :: "string \<Rightarrow> string" where
  "json_trim s = dropWhile json_space s"

definition is_digit :: "char \<Rightarrow> bool" where
  "is_digit c \<longleftrightarrow> c \<in> set ''0123456789''"

text \<open>Each recogniser returns what follows the text it accepts.\<close>

fun json_string :: "string \<Rightarrow> string option" where
  "json_string [] = None"
| "json_string (c # cs) =
     (if c = CHR 0x22 then Some cs
      else if c = CHR 0x5C then
        (case cs of
           [] \<Rightarrow> None
         | e # es \<Rightarrow>
             if e \<in> set (''bfnrt/'' @ [CHR 0x22, CHR 0x5C]) then json_string es
             else if e = CHR ''u'' then
               (case es of h1 # h2 # h3 # h4 # rest \<Rightarrow>
                  if list_all is_hex [h1, h2, h3, h4] then json_string rest else None
                | _ \<Rightarrow> None)
             else None)
      else if (of_char c :: nat) < 32 then None
      else json_string cs)"

definition json_digits :: "string \<Rightarrow> string option" where
  "json_digits s = (case s of c # cs \<Rightarrow> if is_digit c then Some (dropWhile is_digit cs) else None | [] \<Rightarrow> None)"

definition json_exponent :: "string \<Rightarrow> string option" where
  "json_exponent s =
     (case s of
        c # cs \<Rightarrow>
          if c = CHR ''e'' \<or> c = CHR ''E'' then
            (case cs of
               d # ds \<Rightarrow> if d = CHR ''+'' \<or> d = CHR ''-'' then json_digits ds else json_digits cs
             | [] \<Rightarrow> None)
          else Some s
      | [] \<Rightarrow> Some [])"

definition json_fraction :: "string \<Rightarrow> string option" where
  "json_fraction s =
     (case s of
        c # cs \<Rightarrow> if c = CHR ''.'' then Option.bind (json_digits cs) json_exponent else json_exponent s
      | [] \<Rightarrow> Some [])"

definition json_number :: "string \<Rightarrow> string option" where
  "json_number s =
     (let t = (case s of c # cs \<Rightarrow> if c = CHR ''-'' then cs else s | [] \<Rightarrow> s)
      in case t of
           c # cs \<Rightarrow> if c = CHR ''0'' then json_fraction cs else Option.bind (json_digits t) json_fraction
         | [] \<Rightarrow> None)"

definition json_literal :: "string \<Rightarrow> string \<Rightarrow> string option" where
  "json_literal w s = (if prefix w s then Some (drop (length w) s) else None)"

text \<open>
  The grammar, with fuel for the recursion (the length of the text is enough: every call consumes a
  character) and the nesting depth that is left: the scanner refuses more than 10000 levels.
\<close>

fun json_value :: "nat \<Rightarrow> nat \<Rightarrow> string \<Rightarrow> string option"
  and json_items :: "nat \<Rightarrow> nat \<Rightarrow> string \<Rightarrow> string option"
  and json_members :: "nat \<Rightarrow> nat \<Rightarrow> string \<Rightarrow> string option" where
  "json_value 0 depth s = None"
| "json_value (Suc n) depth s =
     (case json_trim s of
        [] \<Rightarrow> None
      | c # cs \<Rightarrow>
          if c = CHR 0x22 then json_string cs
          else if c = CHR ''['' then
            (if depth = 0 then None
             else (case json_trim cs of
                     CHR '']'' # rest \<Rightarrow> Some rest
                   | _ \<Rightarrow> json_items n (depth - 1) cs))
          else if c = CHR ''{'' then
            (if depth = 0 then None
             else (case json_trim cs of
                     CHR ''}'' # rest \<Rightarrow> Some rest
                   | _ \<Rightarrow> json_members n (depth - 1) cs))
          else if c = CHR ''t'' then json_literal ''true'' (c # cs)
          else if c = CHR ''f'' then json_literal ''false'' (c # cs)
          else if c = CHR ''n'' then json_literal ''null'' (c # cs)
          else json_number (c # cs))"
| "json_items 0 depth s = None"
| "json_items (Suc n) depth s =
     (case json_value n depth s of
        None \<Rightarrow> None
      | Some r \<Rightarrow>
          (case json_trim r of
             CHR '']'' # rest \<Rightarrow> Some rest
           | CHR '','' # rest \<Rightarrow> json_items n depth rest
           | _ \<Rightarrow> None))"
| "json_members 0 depth s = None"
| "json_members (Suc n) depth s =
     (case json_trim s of
        CHR 0x22 # cs \<Rightarrow>
          (case json_string cs of
             None \<Rightarrow> None
           | Some r \<Rightarrow>
               (case json_trim r of
                  CHR '':'' # rest \<Rightarrow>
                    (case json_value n depth rest of
                       None \<Rightarrow> None
                     | Some v \<Rightarrow>
                         (case json_trim v of
                            CHR ''}'' # after \<Rightarrow> Some after
                          | CHR '','' # after \<Rightarrow> json_members n depth after
                          | _ \<Rightarrow> None))
                | _ \<Rightarrow> None))
      | _ \<Rightarrow> None)"

definition json_valid :: "string \<Rightarrow> bool" where
  "json_valid s = (case json_value (2 * length s + 2) 10000 s of Some rest \<Rightarrow> json_trim rest = '''' | None \<Rightarrow> False)"

end
