(* ===== verification/Mobile_Data.thy ===== *)
theory Mobile_Data
  imports Encoding Quota
begin

text \<open>
  \<^verbatim>\<open>internal/mobileparts\<close>: the data of a resumable mobile upload (\<^verbatim>\<open>model.go\<close>), the checks on a stored
  header (\<^verbatim>\<open>validation.go\<close>) and the bytes an upload reserves (\<^verbatim>\<open>reservations.go\<close>).
\<close>

section \<open>Errors and records\<close>

text \<open>
  \<open>ErrCommit retry code\<close> is an error of the commit callback: whether it says it is retryable, and
  its failure code (empty when it has none).
\<close>

datatype parts_error =
    ErrBusy
  | ErrInvalid
  | ErrNotFound
  | ErrConflict
  | ErrChecksum
  | ErrIncomplete
  | ErrExpired
  | ErrCorrupt
  | ErrLocked
  | ErrCanceled
  | ErrIO
  | ErrQuota quota_error
  | ErrCommit bool string

record component =
  cp_id :: string
  cp_size :: int
  cp_sha256 :: string
  cp_received_parts :: int
  cp_received_bytes :: int

record parts_spec =
  ps_kind :: string
  ps_device :: string
  ps_components :: "component list"
  ps_commit :: bool
  ps_payload :: string

record session =
  s_version :: int
  s_id :: string
  s_owner :: string
  s_spec :: parts_spec
  s_key :: string
  s_status :: string
  s_error :: string
  s_result :: string
  s_created :: gotime
  s_updated :: gotime
  s_attempts :: int
  s_retry_after :: gotime

record parts_view =
  v_id :: string
  v_status :: string
  v_components :: "component list"
  v_error :: string
  v_result :: string
  v_updated :: gotime

record part_page =
  pg_missing :: "int list"
  pg_next :: int
  pg_more :: bool

definition PartSize :: int where "PartSize = 16777216"

text \<open>24 hours in nanoseconds.\<close>

definition Lifetime :: int where "Lifetime = 86400000000000"

definition validID :: "string \<Rightarrow> bool" where
  "validID s = hex_bytes 16 s"

definition validHash :: "string \<Rightarrow> bool" where
  "validHash s = hex_bytes 32 s"

section \<open>Specifications\<close>

definition max_part_bytes :: int where "max_part_bytes = max_int64 div 4"

definition clear_counters :: "component \<Rightarrow> component" where
  "clear_counters c = c\<lparr>cp_received_parts := 0, cp_received_bytes := 0\<rparr>"

text \<open>The loop of \<open>normalize\<close>; its guards keep the sum within range.\<close>

fun normalize_components :: "int \<Rightarrow> string list \<Rightarrow> component list \<Rightarrow> component list option" where
  "normalize_components acc seen [] = (if ''original'' \<in> set seen then Some [] else None)"
| "normalize_components acc seen (c # cs) =
     (if (cp_id c \<noteq> ''original'' \<and> cp_id c \<noteq> ''motion'') \<or> cp_id c \<in> set seen \<or> cp_size c < 0
         \<or> cp_size c > max_part_bytes \<or> \<not> validHash (cp_sha256 c) \<or> acc > max_part_bytes - cp_size c
      then None
      else map_option ((#) (clear_counters (c\<lparr>cp_sha256 := to_lower (cp_sha256 c)\<rparr>)))
             (normalize_components (acc + cp_size c) (cp_id c # seen) cs))"

definition normalize :: "parts_spec \<Rightarrow> parts_error + parts_spec" where
  "normalize s =
     (if (ps_kind s \<noteq> ''photo'' \<and> ps_kind s \<noteq> ''file'') \<or> \<not> validID (ps_device s)
         \<or> length (ps_components s) < 1 \<or> length (ps_components s) > 2 \<or> length (ps_payload s) > 65536
         \<or> \<not> json_valid (ps_payload s)
      then Inl ErrInvalid
      else case normalize_components 0 [] (ps_components s) of
        None \<Rightarrow> Inl ErrInvalid
      | Some cs \<Rightarrow>
          if ps_kind s = ''file'' \<and> length (ps_components s) \<noteq> 1 then Inl ErrInvalid
          else Inr (s\<lparr>ps_components := cs\<rparr>))"

definition count :: "component \<Rightarrow> int" where
  "count c = (if cp_size c = 0 then 0 else 1 + (cp_size c - 1) sdiv PartSize)"

definition partLength :: "component \<Rightarrow> int \<Rightarrow> parts_error + int" where
  "partLength c index =
     (if index < 0 \<or> index \<ge> count c then Inl ErrInvalid
      else Inr (min PartSize (cp_size c - index * PartSize)))"

definition component_ready :: "component \<Rightarrow> bool" where
  "component_ready c \<longleftrightarrow> cp_received_parts c = count c \<and> cp_received_bytes c = cp_size c"

definition ready :: "session \<Rightarrow> bool" where
  "ready s = list_all component_ready (ps_components (s_spec s))"

definition view :: "session \<Rightarrow> parts_view" where
  "view s = \<lparr>v_id = s_id s, v_status = s_status s, v_components = ps_components (s_spec s),
             v_error = s_error s, v_result = s_result s, v_updated = s_updated s\<rparr>"

definition queued :: "session \<Rightarrow> bool" where
  "queued s \<longleftrightarrow> s_status s = ''queued'' \<or> s_status s = ''verifying''"

definition live :: "session \<Rightarrow> bool" where
  "live s \<longleftrightarrow> s_status s \<noteq> ''stored'' \<and> s_status s \<noteq> ''cancelled''"

section \<open>Validation of a stored header\<close>

definition counters_ok :: "component \<Rightarrow> bool" where
  "counters_ok c \<longleftrightarrow> \<not> (cp_received_parts c < 0 \<or> cp_received_parts c > count c
     \<or> cp_received_bytes c < 0 \<or> cp_received_bytes c > cp_size c)"

definition known_status :: "string \<Rightarrow> bool" where
  "known_status st \<longleftrightarrow>
     st \<in> set [''uploading'', ''queued'', ''verifying'', ''failed'', ''stored'', ''cancelled'']"

definition validateSession :: "session \<Rightarrow> string \<Rightarrow> parts_error option" where
  "validateSession s ident =
     (if s_version s \<noteq> 1 \<or> \<not> validID ident \<or> s_id s \<noteq> ident \<or> \<not> validID (s_owner s)
         \<or> is_zero (s_created s) \<or> is_zero (s_updated s) then Some ErrCorrupt
      else if s_attempts s < 0 \<or> s_attempts s > 3 then Some ErrCorrupt
      else if (case normalize (s_spec s) of Inl _ \<Rightarrow> True | Inr _ \<Rightarrow> False) then Some ErrCorrupt
      else if \<not> list_all counters_ok (ps_components (s_spec s)) then Some ErrCorrupt
      else case B64d (s_key s) of
        None \<Rightarrow> Some ErrCorrupt
      | Some key \<Rightarrow>
          if length key \<noteq> 32 then Some ErrCorrupt
          else if known_status (s_status s) then None else Some ErrCorrupt)"

section \<open>Bytes to reserve\<close>

fun add_amounts :: "int list \<Rightarrow> int \<Rightarrow> quota_error + int" where
  "add_amounts [] acc = Inr acc"
| "add_amounts (n # ns) acc =
     (if n < 0 \<or> acc > max_int64 - n then Inl QuotaExceeded else add_amounts ns (acc + n))"

fun reservation_sum :: "component list \<Rightarrow> int \<Rightarrow> parts_error + int" where
  "reservation_sum [] acc = Inr acc"
| "reservation_sum (c # cs) acc =
     (if \<not> counters_ok c then Inl ErrCorrupt
      else case SharedWriteReservation (cp_size c) 0 of
        Inl err \<Rightarrow> Inl (ErrQuota err)
      | Inr workspace \<Rightarrow>
          (case add_amounts [workspace, cp_size c - cp_received_bytes c,
                             (count c - cp_received_parts c) * 8192] acc of
             Inl err \<Rightarrow> Inl (ErrQuota err)
           | Inr acc' \<Rightarrow> reservation_sum cs acc'))"

definition reservationBytes :: "session \<Rightarrow> parts_error + int" where
  "reservationBytes s = reservation_sum (ps_components (s_spec s)) 8192"

section \<open>Facts about parts\<close>

definition sane_component :: "component \<Rightarrow> bool" where
  "sane_component c \<longleftrightarrow> (cp_id c = ''original'' \<or> cp_id c = ''motion'') \<and> 0 \<le> cp_size c
     \<and> cp_size c \<le> max_part_bytes \<and> validHash (cp_sha256 c)"

lemma count_exact: "0 \<le> cp_size c \<Longrightarrow> count c = (cp_size c + PartSize - 1) div PartSize"
proof -
  assume n: "0 \<le> cp_size c"
  show ?thesis
  proof (cases "cp_size c = 0")
    case False
    with n have "(cp_size c - 1) sdiv PartSize = (cp_size c - 1) div PartSize"
      by (intro sdiv_nonneg) (auto simp: PartSize_def)
    moreover have "(cp_size c + PartSize - 1) div PartSize = (cp_size c - 1) div PartSize + 1"
      using div_add_self2 [of PartSize "cp_size c - 1"] by (simp add: PartSize_def algebra_simps)
    ultimately show ?thesis using False by (simp add: count_def)
  qed (simp add: count_def PartSize_def)
qed

lemma count_nonneg: "0 \<le> cp_size c \<Longrightarrow> 0 \<le> count c"
  by (simp add: count_exact PartSize_def pos_imp_zdiv_nonneg_iff)

lemma count_bounds:
  assumes "0 \<le> cp_size c"
  shows "cp_size c \<le> count c * PartSize" "0 < count c \<Longrightarrow> (count c - 1) * PartSize < cp_size c"
  unfolding count_exact [OF assms] PartSize_def using assms by simp_all

lemma partLength_Inr:
  assumes "partLength c i = Inr n" "0 \<le> cp_size c"
  shows "0 \<le> i" "i < count c" "n = min PartSize (cp_size c - i * PartSize)" "0 < n" "n \<le> PartSize"
proof -
  show i: "0 \<le> i" "i < count c" "n = min PartSize (cp_size c - i * PartSize)"
    using assms(1) by (auto simp: partLength_def split: if_splits)
  then have "i * PartSize \<le> (count c - 1) * PartSize" by (intro mult_right_mono) (auto simp: PartSize_def)
  also have "\<dots> < cp_size c" using count_bounds(2) [OF assms(2)] i by simp
  finally show "0 < n" using i(3) by (simp add: PartSize_def)
  show "n \<le> PartSize" using i(3) by simp
qed

definition part_len :: "component \<Rightarrow> int \<Rightarrow> int" where
  "part_len c i = (case partLength c i of Inr n \<Rightarrow> n | Inl _ \<Rightarrow> 0)"

lemma part_len_sum:
  assumes "0 \<le> cp_size c" "int k \<le> count c"
  shows "(\<Sum>i < k. part_len c (int i)) = min (cp_size c) (int k * PartSize)"
  using assms(2)
proof (induction k)
  case 0
  then show ?case using assms(1) by simp
next
  case (Suc k)
  then have k: "int k < count c" by simp
  then have "int k * PartSize \<le> (count c - 1) * PartSize" by (intro mult_right_mono) (auto simp: PartSize_def)
  also have "\<dots> < cp_size c" using count_bounds(2) [OF assms(1)] k by simp
  finally have lt: "int k * PartSize < cp_size c" .
  have "part_len c (int k) = min PartSize (cp_size c - int k * PartSize)"
    using k by (simp add: part_len_def partLength_def)
  with Suc k lt show ?case by (simp add: algebra_simps min_def)
qed

text \<open>
  The parts of an upload cover the file exactly: every part is between one byte and 16 MiB long, and the
  lengths of all parts add up to the size of the component, whatever the size.
\<close>

lemma parts_cover:
  assumes "0 \<le> cp_size c"
  shows "(\<Sum>i < nat (count c). part_len c (int i)) = cp_size c
    \<and> filter (\<lambda>i. \<not> (1 \<le> part_len c i \<and> part_len c i \<le> 16777216)) [0..count c - 1] = []"
proof
  show "(\<Sum>i < nat (count c). part_len c (int i)) = cp_size c"
    using part_len_sum [OF assms, of "nat (count c)"] count_nonneg [OF assms] count_bounds(1) [OF assms] by simp
  have "1 \<le> part_len c i \<and> part_len c i \<le> 16777216" if i: "0 \<le> i" "i \<le> count c - 1" for i
  proof -
    from i have "partLength c i = Inr (min PartSize (cp_size c - i * PartSize))" by (simp add: partLength_def)
    with partLength_Inr [OF this assms] show ?thesis by (simp add: part_len_def PartSize_def)
  qed
  then show "filter (\<lambda>i. \<not> (1 \<le> part_len c i \<and> part_len c i \<le> 16777216)) [0..count c - 1] = []"
    by (simp add: filter_empty_conv)
qed

lemma parts_cover_witness:
  "(\<Sum>i < nat (count \<lparr>cp_id = ''original'', cp_size = 16777217, cp_sha256 = [], cp_received_parts = 0, cp_received_bytes = 0\<rparr>).
      part_len \<lparr>cp_id = ''original'', cp_size = 16777217, cp_sha256 = [], cp_received_parts = 0, cp_received_bytes = 0\<rparr> (int i))
   = 16777217"
  using parts_cover [of "\<lparr>cp_id = ''original'', cp_size = 16777217, cp_sha256 = [], cp_received_parts = 0, cp_received_bytes = 0\<rparr>"]
  by simp

end
