(* ===== verification/Fallible.thy ===== *)
theory Fallible
  imports Prelude
begin

text \<open>
  Operations of a component that keeps state and may fail at every step: a function from the state to
  an error or a value, and the state it leaves behind - also when it fails, because what was done before
  the failing step stays done. \<open>ensures\<close> is the Hoare triple of such an operation, with one
  postcondition for the value and one for the error.
\<close>

section \<open>Sequencing\<close>

type_synonym ('s, 'e, 'a) action = "'s \<Rightarrow> ('e + 'a) \<times> 's"

definition give :: "'a \<Rightarrow> ('s, 'e, 'a) action" where
  "give v s = (Inr v, s)"

definition fails :: "'e \<Rightarrow> ('s, 'e, 'a) action" where
  "fails e s = (Inl e, s)"

definition andthen :: "('s, 'e, 'a) action \<Rightarrow> ('a \<Rightarrow> ('s, 'e, 'b) action) \<Rightarrow> ('s, 'e, 'b) action" where
  "andthen f g s = (case f s of (Inl e, t) \<Rightarrow> (Inl e, t) | (Inr v, t) \<Rightarrow> g v t)"

text \<open>The result of a step as a value: the caller looks at the error itself.\<close>

definition attempt :: "('s, 'e, 'a) action \<Rightarrow> ('s, 'e, 'e + 'a) action" where
  "attempt f s = (case f s of (r, t) \<Rightarrow> (Inr r, t))"

definition look :: "('s \<Rightarrow> 'a) \<Rightarrow> ('s, 'e, 'a) action" where
  "look f s = (Inr (f s), s)"

definition change :: "('s \<Rightarrow> 's) \<Rightarrow> ('s, 'e, unit) action" where
  "change f s = (Inr (), f s)"

definition refuse_if :: "bool \<Rightarrow> 'e \<Rightarrow> ('s, 'e, unit) action" where
  "refuse_if b e = (if b then fails e else give ())"

definition of_result :: "'e + 'a \<Rightarrow> ('s, 'e, 'a) action" where
  "of_result r s = (r, s)"

text \<open>A loop over a slice that stops at the first error.\<close>

fun each :: "('a \<Rightarrow> ('s, 'e, unit) action) \<Rightarrow> 'a list \<Rightarrow> ('s, 'e, unit) action" where
  "each f [] = give ()"
| "each f (x # xs) = andthen (f x) (\<lambda>_. each f xs)"

named_theorems run "the operations of the monad, applied to a state"

lemma run_give [run]: "give v s = (Inr v, s)" by (simp add: give_def)
lemma run_fails [run]: "fails e s = (Inl e, s)" by (simp add: fails_def)
lemma run_look [run]: "look f s = (Inr (f s), s)" by (simp add: look_def)
lemma run_change [run]: "change f s = (Inr (), f s)" by (simp add: change_def)
lemma run_of_result [run]: "of_result r s = (r, s)" by (simp add: of_result_def)
lemma run_refuse [run]: "refuse_if b e s = (if b then (Inl e, s) else (Inr (), s))"
  by (simp add: refuse_if_def give_def fails_def)
lemma run_attempt [run]: "f s = (r, t) \<Longrightarrow> attempt f s = (Inr r, t)" by (simp add: attempt_def)
lemma run_andthen_Inr [run]: "f s = (Inr v, t) \<Longrightarrow> andthen f g s = g v t" by (simp add: andthen_def)
lemma run_andthen_Inl [run]: "f s = (Inl e, t) \<Longrightarrow> andthen f g s = (Inl e, t)" by (simp add: andthen_def)

lemma andthen_Inr_iff:
  "andthen f g s = (Inr w, u) \<longleftrightarrow> (\<exists>v t. f s = (Inr v, t) \<and> g v t = (Inr w, u))"
  by (auto simp: andthen_def split: prod.split sum.split)

lemma andthen_cases:
  assumes "andthen f g s = (r, u)"
  obtains (err) e where "f s = (Inl e, u)" "r = Inl e"
  | (val) v t where "f s = (Inr v, t)" "g v t = (r, u)"
  using assms by (cases "f s"; cases "fst (f s)") (auto simp: andthen_def)

section \<open>Triples\<close>

definition ensures ::
  "('s \<Rightarrow> bool) \<Rightarrow> ('s, 'e, 'a) action \<Rightarrow> ('a \<Rightarrow> 's \<Rightarrow> bool) \<Rightarrow> ('e \<Rightarrow> 's \<Rightarrow> bool) \<Rightarrow> bool" where
  "ensures P f Q E \<longleftrightarrow> (\<forall>s. P s \<longrightarrow> (case f s of (Inl e, t) \<Rightarrow> E e t | (Inr v, t) \<Rightarrow> Q v t))"

definition keeps :: "('s \<Rightarrow> bool) \<Rightarrow> ('s, 'e, 'a) action \<Rightarrow> bool" where
  "keeps I f \<longleftrightarrow> ensures I f (\<lambda>_. I) (\<lambda>_. I)"

named_theorems triple "Hoare rules of the operations"

lemma ensuresD_Inr: "ensures P f Q E \<Longrightarrow> P s \<Longrightarrow> f s = (Inr v, t) \<Longrightarrow> Q v t"
  by (auto simp: ensures_def)

lemma ensuresD_Inl: "ensures P f Q E \<Longrightarrow> P s \<Longrightarrow> f s = (Inl e, t) \<Longrightarrow> E e t"
  by (auto simp: ensures_def)

lemma ensuresI:
  "(\<And>s v t. P s \<Longrightarrow> f s = (Inr v, t) \<Longrightarrow> Q v t) \<Longrightarrow> (\<And>s e t. P s \<Longrightarrow> f s = (Inl e, t) \<Longrightarrow> E e t)
    \<Longrightarrow> ensures P f Q E"
  unfolding ensures_def by (auto split: prod.split sum.split)

lemma ensures_weaken:
  "ensures P f Q E \<Longrightarrow> (\<And>s. P' s \<Longrightarrow> P s) \<Longrightarrow> (\<And>v s. Q v s \<Longrightarrow> Q' v s) \<Longrightarrow> (\<And>e s. E e s \<Longrightarrow> E' e s)
    \<Longrightarrow> ensures P' f Q' E'"
  by (fastforce simp: ensures_def split: prod.splits sum.splits)

lemma keepsD: "keeps I f \<Longrightarrow> I s \<Longrightarrow> f s = (r, t) \<Longrightarrow> I t"
  by (cases r) (auto simp: keeps_def ensures_def)

lemma keepsI: "(\<And>s r t. I s \<Longrightarrow> f s = (r, t) \<Longrightarrow> I t) \<Longrightarrow> keeps I f"
  by (auto simp: keeps_def ensures_def split: prod.split sum.split)

lemma keeps_snd: "keeps I f \<Longrightarrow> I s \<Longrightarrow> I (snd (f s))"
  by (metis keepsD prod.collapse)

lemma ensures_give [triple]: "(\<And>s. P s \<Longrightarrow> Q v s) \<Longrightarrow> ensures P (give v) Q E"
  by (simp add: ensures_def give_def)

lemma ensures_fails [triple]: "(\<And>s. P s \<Longrightarrow> E e s) \<Longrightarrow> ensures P (fails e) Q E"
  by (simp add: ensures_def fails_def)

lemma ensures_look: "(\<And>s. P s \<Longrightarrow> Q (f s) s) \<Longrightarrow> ensures P (look f) Q E"
  by (simp add: ensures_def look_def)

lemma ensures_change: "(\<And>s. P s \<Longrightarrow> Q () (f s)) \<Longrightarrow> ensures P (change f) Q E"
  by (simp add: ensures_def change_def)

lemma ensures_refuse:
  "(\<And>s. P s \<Longrightarrow> b \<Longrightarrow> E e s) \<Longrightarrow> (\<And>s. P s \<Longrightarrow> \<not> b \<Longrightarrow> Q () s) \<Longrightarrow> ensures P (refuse_if b e) Q E"
  by (auto simp: ensures_def run_refuse)

lemma ensures_of_result:
  "(\<And>s e. P s \<Longrightarrow> r = Inl e \<Longrightarrow> E e s) \<Longrightarrow> (\<And>s v. P s \<Longrightarrow> r = Inr v \<Longrightarrow> Q v s) \<Longrightarrow> ensures P (of_result r) Q E"
  by (auto simp: ensures_def of_result_def split: sum.split)

lemma ensures_andthen:
  "ensures P f R E \<Longrightarrow> (\<And>v. ensures (R v) (g v) Q E) \<Longrightarrow> ensures P (andthen f g) Q E"
  unfolding ensures_def andthen_def by (fastforce split: prod.splits sum.splits)

lemma ensures_attempt:
  "ensures P f (\<lambda>v. Q (Inr v)) (\<lambda>e. Q (Inl e)) \<Longrightarrow> ensures P (attempt f) Q E"
  unfolding ensures_def attempt_def by (fastforce split: prod.splits sum.splits)

section \<open>Invariants\<close>

named_theorems kept "operations that keep an invariant"

lemma keeps_give [kept]: "keeps I (give v)" by (rule keepsI) (simp add: give_def)
lemma keeps_fails [kept]: "keeps I (fails e)" by (rule keepsI) (simp add: fails_def)
lemma keeps_look [kept]: "keeps I (look f)" by (rule keepsI) (simp add: look_def)
lemma keeps_refuse [kept]: "keeps I (refuse_if b e)" by (rule keepsI) (auto simp: run_refuse split: if_splits)
lemma keeps_of_result [kept]: "keeps I (of_result r)" by (rule keepsI) (simp add: of_result_def)
lemma keeps_change: "(\<And>s. I s \<Longrightarrow> I (f s)) \<Longrightarrow> keeps I (change f)" by (rule keepsI) (auto simp: change_def)
lemma keeps_attempt [kept]: "keeps I f \<Longrightarrow> keeps I (attempt f)"
  by (rule keepsI) (auto simp: attempt_def split: prod.splits dest: keepsD)
lemma keeps_andthen [kept]: "keeps I f \<Longrightarrow> (\<And>v. keeps I (g v)) \<Longrightarrow> keeps I (andthen f g)"
  by (rule keepsI) (auto elim!: andthen_cases dest: keepsD)
lemma keeps_if [kept]: "keeps I f \<Longrightarrow> keeps I g \<Longrightarrow> keeps I (if b then f else g)" by simp
lemma keeps_case_option [kept]:
  "keeps I f \<Longrightarrow> (\<And>x. keeps I (g x)) \<Longrightarrow> keeps I (case m of None \<Rightarrow> f | Some x \<Rightarrow> g x)"
  by (cases m) auto
lemma keeps_case_sum [kept]:
  "(\<And>x. keeps I (f x)) \<Longrightarrow> (\<And>x. keeps I (g x)) \<Longrightarrow> keeps I (case m of Inl x \<Rightarrow> f x | Inr x \<Rightarrow> g x)"
  by (cases m) auto
lemma keeps_case_prod [kept]: "(\<And>x y. keeps I (f x y)) \<Longrightarrow> keeps I (case p of (x, y) \<Rightarrow> f x y)"
  by (cases p) auto
lemma keeps_Let [kept]: "(\<And>x. keeps I (f x)) \<Longrightarrow> keeps I (Let v f)" by simp
lemma keeps_each [kept]: "(\<And>x. keeps I (f x)) \<Longrightarrow> keeps I (each f xs)"
  by (induction xs) (auto intro: kept)

text \<open>An operation that keeps two invariants keeps both together.\<close>

lemma keeps_conj: "keeps I f \<Longrightarrow> keeps J f \<Longrightarrow> keeps (\<lambda>s. I s \<and> J s) f"
  by (rule keepsI) (auto dest: keepsD)

end
