(* ===== verification/Mobile_Store.thy ===== *)
theory Mobile_Store
  imports Mobile_Data Fallible
begin

text \<open>
  The durable state of mobile uploads and the operations below the public ones: sealed files
  (\<^verbatim>\<open>store.go\<close>), queue and live markers (\<^verbatim>\<open>index.go\<close>), quota leases (\<^verbatim>\<open>reservations.go\<close>),
  reconciliation of counters with receipts (\<^verbatim>\<open>store.go\<close>, \<^verbatim>\<open>reconcile_session.go\<close>). The state is that of
  one manager over one resource. Every access to the file system may fail: it takes the next of the
  faults the state carries, and what was done before a fault stays done.
\<close>

section \<open>State\<close>

record part_receipt =
  pr_component :: string
  pr_index :: int
  pr_size :: int
  pr_hash :: string

text \<open>
  What a file in a session's directory decrypts to. A part is encrypted under a key derived from the
  staging key, the component and the index; with any other of the three it does not open.
\<close>

datatype entry =
    HeaderFile session
  | ReceiptFile part_receipt
  | PartFile string string int string
  | Unreadable

text \<open>
  A running call of \<open>AppendGuarded\<close>: the receiver the manager knows, and the variables of the call.
  \<open>rc_part\<close> is the temporary file, or nothing when the part was received before.
\<close>

record receiver =
  rc_no :: nat
  rc_owner :: string
  rc_session :: string
  rc_cancelled :: bool
  rc_header :: session
  rc_component :: component
  rc_index :: int
  rc_length :: int
  rc_hash :: string
  rc_duplicate :: bool
  rc_name :: "string option"

record receive_limits =
  rl_global :: int
  rl_per_owner :: int
  rl_pending :: int
  rl_pending_bytes :: int

record parts_state =
  p_dirs :: "(string \<times> (string \<times> entry) list) list"
  p_live :: "string list"
  p_queue :: "string list"
  p_indexed :: bool
  p_checked :: "(string \<times> gotime) list"
  p_reservations :: "(string \<times> string \<times> nat) list"
  p_active :: "(string \<times> string) list"
  p_draining :: "(string \<times> nat) list"
  p_receivers :: "receiver list"
  p_next_receiver :: nat
  p_blocked :: "(string \<times> nat) list"
  p_limits :: receive_limits
  p_quota :: "manager option"
  p_faults :: "bool list"

text \<open>
  The surroundings of one call: the clock, the answer of \<open>statfs\<close>, the hash function (in
  hexadecimal), the random bytes drawn, whether the vault is unlocked, the session gates held by
  someone else, and the names a failing \<open>os.RemoveAll\<close> leaves behind.
\<close>

record surroundings =
  e_now :: gotime
  e_statfs :: "(u64 \<times> u64) option"
  e_sha :: "string \<Rightarrow> string"
  e_random :: "string option"
  e_unlocked :: bool
  e_busy :: "string list"
  e_leftover :: "string list"

type_synonym 'a parts = "(parts_state, parts_error, 'a) action"

definition receive_defaults :: receive_limits where
  "receive_defaults = \<lparr>rl_global = 32, rl_per_owner = 32, rl_pending = 512, rl_pending_bytes = 34359738368\<rparr>"

definition new_parts :: "manager option \<Rightarrow> parts_state" where
  "new_parts q = \<lparr>p_dirs = [], p_live = [], p_queue = [], p_indexed = False, p_checked = [], p_reservations = [],
     p_active = [], p_draining = [], p_receivers = [], p_next_receiver = 0, p_blocked = [],
     p_limits = receive_defaults, p_quota = q, p_faults = []\<rparr>"

text \<open>\<open>Time.Sub\<close>: saturated at the limits of a \<open>Duration\<close>.\<close>

definition time_sub :: "gotime \<Rightarrow> gotime \<Rightarrow> int" where
  "time_sub s t = max (- 9223372036854775808) (min max_int64 (instant s - instant t))"

definition time_add :: "gotime \<Rightarrow> int \<Rightarrow> gotime" where
  "time_add t d = t\<lparr>instant := instant t + d\<rparr>"

section \<open>Files\<close>

definition io :: "unit parts" where
  "io st = (case p_faults st of
     [] \<Rightarrow> (Inr (), st)
   | b # bs \<Rightarrow> ((if b then Inl ErrIO else Inr ()), st\<lparr>p_faults := bs\<rparr>))"

definition dir_of :: "string \<Rightarrow> parts_state \<Rightarrow> (string \<times> entry) list" where
  "dir_of ident st = (case map_of (p_dirs st) ident of Some d \<Rightarrow> d | None \<Rightarrow> [])"

definition entry_of :: "string \<Rightarrow> string \<Rightarrow> parts_state \<Rightarrow> entry option" where
  "entry_of ident name st = map_of (dir_of ident st) name"

definition put_entry :: "string \<Rightarrow> string \<Rightarrow> entry \<Rightarrow> parts_state \<Rightarrow> parts_state" where
  "put_entry ident name x st =
     st\<lparr>p_dirs := AList.update ident (AList.update name x (dir_of ident st)) (p_dirs st)\<rparr>"

definition del_entry :: "string \<Rightarrow> string \<Rightarrow> parts_state \<Rightarrow> parts_state" where
  "del_entry ident name st =
     (if map_of (p_dirs st) ident = None then st
      else st\<lparr>p_dirs := AList.update ident (AList.delete name (dir_of ident st)) (p_dirs st)\<rparr>)"

text \<open>\<open>os.MkdirAll\<close>\<close>

definition make_dir :: "string \<Rightarrow> parts_state \<Rightarrow> parts_state" where
  "make_dir ident st = st\<lparr>p_dirs := AList.update ident (dir_of ident st) (p_dirs st)\<rparr>"

text \<open>\<open>os.ReadDir\<close>: the names in order; a directory that is missing is an error.\<close>

definition read_dir :: "string \<Rightarrow> string list parts" where
  "read_dir ident =
     andthen io (\<lambda>_.
     andthen (look (\<lambda>st. map_of (p_dirs st) ident)) (\<lambda>d.
     case d of None \<Rightarrow> fails ErrIO | Some es \<Rightarrow> give (sort (remdups (map fst es)))))"

text \<open>\<open>os.RemoveAll\<close>: when it fails some names are left.\<close>

definition remove_all :: "surroundings \<Rightarrow> string \<Rightarrow> unit parts" where
  "remove_all e ident =
     andthen (attempt io) (\<lambda>r.
     case r of
       Inr _ \<Rightarrow> change (\<lambda>st. st\<lparr>p_dirs := AList.delete ident (p_dirs st)\<rparr>)
     | Inl err \<Rightarrow>
         andthen (change (\<lambda>st. st\<lparr>p_dirs := AList.update ident
             (filter (\<lambda>(n, _). n \<in> set (e_leftover e)) (dir_of ident st)) (p_dirs st)\<rparr>)) (\<lambda>_. fails err))"

definition readSealed :: "surroundings \<Rightarrow> string \<Rightarrow> string \<Rightarrow> entry parts" where
  "readSealed e ident name =
     andthen io (\<lambda>_.
     andthen (look (entry_of ident name)) (\<lambda>x.
     case x of
       None \<Rightarrow> fails ErrNotFound
     | Some f \<Rightarrow> andthen (refuse_if (\<not> e_unlocked e) ErrLocked) (\<lambda>_. give f)))"

definition read_header :: "surroundings \<Rightarrow> string \<Rightarrow> session parts" where
  "read_header e ident =
     andthen (readSealed e ident ''session.enc'') (\<lambda>f.
     case f of HeaderFile s \<Rightarrow> give s | _ \<Rightarrow> fails ErrCorrupt)"

definition read_receipt :: "surroundings \<Rightarrow> string \<Rightarrow> string \<Rightarrow> part_receipt parts" where
  "read_receipt e ident name =
     andthen (readSealed e ident name) (\<lambda>f.
     case f of ReceiptFile r \<Rightarrow> give r | _ \<Rightarrow> fails ErrCorrupt)"

text \<open>\<open>AtomicWrite\<close> fails before its rename or succeeds; the directory is synced after it.\<close>

definition writeSealed :: "surroundings \<Rightarrow> string \<Rightarrow> string \<Rightarrow> entry \<Rightarrow> unit parts" where
  "writeSealed e ident name x =
     andthen (refuse_if (\<not> e_unlocked e) ErrLocked) (\<lambda>_.
     andthen io (\<lambda>_.
     andthen (change (put_entry ident name x)) (\<lambda>_. io)))"

section \<open>Markers\<close>

datatype marker_index = LiveIndex | QueueIndex

definition marked :: "marker_index \<Rightarrow> string \<Rightarrow> parts_state \<Rightarrow> bool" where
  "marked ix ident st = (case ix of LiveIndex \<Rightarrow> ident \<in> set (p_live st) | QueueIndex \<Rightarrow> ident \<in> set (p_queue st))"

definition mark :: "marker_index \<Rightarrow> string \<Rightarrow> bool \<Rightarrow> parts_state \<Rightarrow> parts_state" where
  "mark ix ident on st =
     (case ix of
        LiveIndex \<Rightarrow> st\<lparr>p_live := (if on then List.insert ident (p_live st) else removeAll ident (p_live st))\<rparr>
      | QueueIndex \<Rightarrow> st\<lparr>p_queue := (if on then List.insert ident (p_queue st) else removeAll ident (p_queue st))\<rparr>)"

definition setMarker :: "marker_index \<Rightarrow> string \<Rightarrow> bool \<Rightarrow> unit parts" where
  "setMarker ix ident on =
     andthen io (\<lambda>_.
     andthen (look (marked ix ident)) (\<lambda>present.
     if present = on then give ()
     else andthen (change (mark ix ident on)) (\<lambda>_. andthen io (\<lambda>_. io))))"

definition addSessionMarkers :: "session \<Rightarrow> unit parts" where
  "addSessionMarkers s =
     andthen (if live s then setMarker LiveIndex (s_id s) True else give ()) (\<lambda>_.
     if queued s then setMarker QueueIndex (s_id s) True else give ())"

definition syncSessionMarkers :: "session \<Rightarrow> unit parts" where
  "syncSessionMarkers s =
     andthen (setMarker QueueIndex (s_id s) (queued s)) (\<lambda>_. setMarker LiveIndex (s_id s) (live s))"

definition dropSessionMarkers :: "string \<Rightarrow> unit parts" where
  "dropSessionMarkers ident =
     andthen (setMarker QueueIndex ident False) (\<lambda>_. setMarker LiveIndex ident False)"

section \<open>Quota leases\<close>

definition hasReceiversLocked :: "string \<Rightarrow> parts_state \<Rightarrow> bool" where
  "hasReceiversLocked ident st \<longleftrightarrow> (\<exists>r \<in> set (p_receivers st). rc_session r = ident)"

definition isActive :: "string \<Rightarrow> parts_state \<Rightarrow> bool" where
  "isActive ident st \<longleftrightarrow> map_of (p_active st) ident \<noteq> None \<or> hasReceiversLocked ident st"

definition counter :: "(string \<times> nat) list \<Rightarrow> string \<Rightarrow> nat" where
  "counter al k = (case map_of al k of Some n \<Rightarrow> n | None \<Rightarrow> 0)"

definition release_lease :: "string \<Rightarrow> parts_state \<Rightarrow> parts_state" where
  "release_lease ident st =
     (case map_of (p_reservations st) ident of
        None \<Rightarrow> st
      | Some (_, t) \<Rightarrow> st\<lparr>p_quota := map_option (Release t) (p_quota st),
                          p_reservations := AList.delete ident (p_reservations st)\<rparr>)"

definition uncheck :: "string \<Rightarrow> parts_state \<Rightarrow> parts_state" where
  "uncheck ident st = st\<lparr>p_checked := AList.delete ident (p_checked st)\<rparr>"

definition release :: "string \<Rightarrow> parts_state \<Rightarrow> parts_state" where
  "release ident st = uncheck ident (release_lease ident st)"

definition take_lease :: "surroundings \<Rightarrow> session \<Rightarrow> int \<Rightarrow> manager \<Rightarrow> unit parts" where
  "take_lease e s n q st =
     (case map_of (p_reservations st) (s_id s) of
        Some (_, t) \<Rightarrow>
          (case Resize (e_statfs e) t n q of
             (Inl err, q') \<Rightarrow> (Inl (ErrQuota err), st\<lparr>p_quota := Some q'\<rparr>)
           | (Inr _, q') \<Rightarrow> (Inr (), st\<lparr>p_quota := Some q'\<rparr>))
      | None \<Rightarrow>
          (case ReserveTracked (e_statfs e) 1 0 0 n q of
             (Inl err, q') \<Rightarrow> (Inl (ErrQuota err), st\<lparr>p_quota := Some q'\<rparr>)
           | (Inr t, q') \<Rightarrow>
               (Inr (), st\<lparr>p_quota := Some q',
                           p_reservations := AList.update (s_id s) (s_owner s, t) (p_reservations st)\<rparr>)))"

definition reserve :: "surroundings \<Rightarrow> session \<Rightarrow> unit parts" where
  "reserve e s st =
     (if \<not> live s then (Inr (), release_lease (s_id s) st)
      else if counter (p_draining st) (s_owner s) > 0 then
        (if map_of (p_active st) (s_id s) \<noteq> None then Inr () else Inl ErrConflict, st)
      else case p_quota st of
        None \<Rightarrow> (Inr (), st)
      | Some q \<Rightarrow>
          (case reservationBytes s of
             Inl err \<Rightarrow> (Inl err, st)
           | Inr n \<Rightarrow> take_lease e s n q st))"

section \<open>Headers\<close>

definition check :: "session \<Rightarrow> parts_state \<Rightarrow> parts_state" where
  "check s st = st\<lparr>p_checked := AList.update (s_id s) (s_updated s) (p_checked st)\<rparr>"

definition persist :: "surroundings \<Rightarrow> session \<Rightarrow> unit parts" where
  "persist e s =
     andthen (addSessionMarkers s) (\<lambda>_.
     andthen (attempt (andthen (writeSealed e (s_id s) ''session.enc'' (HeaderFile s))
                               (\<lambda>_. syncSessionMarkers s))) (\<lambda>r.
     case r of
       Inr _ \<Rightarrow> change (check s)
     | Inl err \<Rightarrow> andthen (change (uncheck (s_id s))) (\<lambda>_. fails err)))"

definition save :: "surroundings \<Rightarrow> session \<Rightarrow> session parts" where
  "save e s =
     (let s' = s\<lparr>s_updated := to_utc (e_now e)\<rparr>
      in andthen (persist e s') (\<lambda>_. andthen (reserve e s') (\<lambda>_. give s')))"

definition partName :: "string \<Rightarrow> int \<Rightarrow> string" where
  "partName c i = c @ ''-'' @ show_int i"

definition receipt_name :: "string \<Rightarrow> int \<Rightarrow> string" where
  "receipt_name c i = partName c i @ ''.receipt.enc''"

definition part_file_name :: "string \<Rightarrow> int \<Rightarrow> string" where
  "part_file_name c i = partName c i @ ''.wza''"

text \<open>The inner loop of \<open>reconcile\<close>: count one receipt in the component it names.\<close>

fun count_receipt ::
  "bool \<Rightarrow> string \<Rightarrow> part_receipt \<Rightarrow> bool \<Rightarrow> component list \<Rightarrow> component list option" where
  "count_receipt stored name p found [] = (if found then Some [] else None)"
| "count_receipt stored name p found (c # cs) =
     (if cp_id c \<noteq> pr_component p then map_option ((#) c) (count_receipt stored name p found cs)
      else case partLength c (pr_index p) of
        Inl _ \<Rightarrow> None
      | Inr n \<Rightarrow>
          if n \<noteq> pr_size p \<or> \<not> validHash (pr_hash p) \<or> name \<noteq> receipt_name (pr_component p) (pr_index p)
             \<or> \<not> stored
          then None
          else map_option ((#) (c\<lparr>cp_received_parts := cp_received_parts c + 1,
                                   cp_received_bytes := cp_received_bytes c + n\<rparr>))
                 (count_receipt stored name p True cs))"

fun reconcile_names :: "surroundings \<Rightarrow> string \<Rightarrow> string list \<Rightarrow> component list \<Rightarrow> component list parts" where
  "reconcile_names e ident [] cs = give cs"
| "reconcile_names e ident (name # names) cs =
     (if \<not> suffix ''.receipt.enc'' name then reconcile_names e ident names cs
      else andthen (read_receipt e ident name) (\<lambda>p.
           andthen (look (entry_of ident (part_file_name (pr_component p) (pr_index p)))) (\<lambda>f.
           case count_receipt (f \<noteq> None) name p False cs of
             None \<Rightarrow> fails ErrCorrupt
           | Some cs' \<Rightarrow> reconcile_names e ident names cs')))"

definition with_components :: "component list \<Rightarrow> session \<Rightarrow> session" where
  "with_components cs s = s\<lparr>s_spec := (s_spec s)\<lparr>ps_components := cs\<rparr>\<rparr>"

definition reconcile :: "surroundings \<Rightarrow> session \<Rightarrow> session parts" where
  "reconcile e s =
     andthen (read_dir (s_id s)) (\<lambda>names.
     andthen (reconcile_names e (s_id s) names (map clear_counters (ps_components (s_spec s)))) (\<lambda>cs.
     (let s' = with_components cs s
      in give (if ready s' \<and> ps_commit (s_spec s') \<and> s_status s' = ''uploading''
               then s'\<lparr>s_status := ''queued''\<rparr> else s'))))"

definition recoverSession :: "surroundings \<Rightarrow> session \<Rightarrow> session parts" where
  "recoverSession e s =
     andthen (reconcile e s) (\<lambda>s'.
     if s_status s \<noteq> s_status s' \<or> ps_components (s_spec s) \<noteq> ps_components (s_spec s')
     then andthen (persist e s') (\<lambda>_. give s')
     else andthen (syncSessionMarkers s') (\<lambda>_. andthen (change (check s')) (\<lambda>_. give s')))"

definition disposable :: "string \<Rightarrow> bool" where
  "disposable name \<longleftrightarrow> suffix ''.wza'' name \<or> suffix ''.receipt.enc'' name \<or> prefix ''.incoming-'' name"

definition removePayload :: "string \<Rightarrow> unit parts" where
  "removePayload ident =
     andthen (read_dir ident) (\<lambda>names.
     andthen (each (\<lambda>n. if disposable n then andthen io (\<lambda>_. change (del_entry ident n)) else give ()) names) (\<lambda>_.
     io))"

definition expired :: "surroundings \<Rightarrow> session \<Rightarrow> bool" where
  "expired e s \<longleftrightarrow> live s \<and> time_sub (e_now e) (s_updated s) \<ge> Lifetime"

text \<open>
  \<open>load\<close> returns the session also with \<open>ErrExpired\<close>; here the flag says so. Any other error of
  its callers' interest comes without a session.
\<close>

definition load_any :: "surroundings \<Rightarrow> string \<Rightarrow> (session \<times> bool) parts" where
  "load_any e ident =
     andthen (refuse_if (\<not> validID ident) ErrNotFound) (\<lambda>_.
     andthen (read_header e ident) (\<lambda>s.
     case validateSession s ident of
       Some err \<Rightarrow> fails err
     | None \<Rightarrow>
         if expired e s then
           andthen (change (\<lambda>st. if isActive ident st then st else release ident st)) (\<lambda>_. give (s, True))
         else
           andthen (look (\<lambda>st. case map_of (p_checked st) ident of
                                 Some t \<Rightarrow> time_eq t (s_updated s) | None \<Rightarrow> time_eq zero_time (s_updated s))) (\<lambda>checked.
           andthen (if \<not> checked \<and> live s then recoverSession e s else give s) (\<lambda>s'.
           andthen (reserve e s') (\<lambda>_.
           andthen (if \<not> live s' then removePayload ident else give ()) (\<lambda>_.
           give (s', False)))))))"

definition load :: "surroundings \<Rightarrow> string \<Rightarrow> session parts" where
  "load e ident =
     andthen (load_any e ident) (\<lambda>(s, late). if late then fails ErrExpired else give s)"

text \<open>
  The gate of a session: the operation runs while it is held; releasing it forgets that the header was
  checked, unless someone else waits for the gate or receives a part.
\<close>

definition gated :: "surroundings \<Rightarrow> string \<Rightarrow> 'a parts \<Rightarrow> 'a parts" where
  "gated e ident f st =
     (case f st of
        (r, t) \<Rightarrow> (r, if ident \<in> set (e_busy e) \<or> hasReceiversLocked ident t then t else uncheck ident t))"

end
