(* ===== verification/Mobile_Ops.thy ===== *)
theory Mobile_Ops
  imports Mobile_Store
begin

text \<open>
  The public operations of \<^verbatim>\<open>internal/mobileparts\<close>, each run under the gate of its session. What the code
  does in several gated sections with other work between them - receiving a part, processing a finished
  upload, cancelling, releasing an owner - is one definition per section.
\<close>

section \<open>Creation\<close>

definition saturating_add :: "int \<Rightarrow> int \<Rightarrow> int \<Rightarrow> int" where
  "saturating_add limit acc n = (if acc \<ge> limit - n then limit else acc + n)"

definition spec_bytes :: "int \<Rightarrow> parts_spec \<Rightarrow> int \<Rightarrow> int" where
  "spec_bytes limit spec acc = foldl (\<lambda>a c. saturating_add limit a (cp_size c)) acc (ps_components spec)"

text \<open>The loop over the live markers: the number and the bytes of the live sessions.\<close>

fun admit_scan :: "surroundings \<Rightarrow> receive_limits \<Rightarrow> string list \<Rightarrow> int \<Rightarrow> int \<Rightarrow> (int \<times> int) parts" where
  "admit_scan e l [] n acc = give (n, acc)"
| "admit_scan e l (ident # ids) n acc =
     (if \<not> validID ident then admit_scan e l ids n acc
      else andthen (attempt (read_header e ident)) (\<lambda>r.
        case r of
          Inl err \<Rightarrow> if err = ErrNotFound then admit_scan e l ids n acc else fails err
        | Inr s \<Rightarrow>
            (case validateSession s ident of
               Some err \<Rightarrow> fails err
             | None \<Rightarrow>
                 if \<not> live s then admit_scan e l ids n acc
                 else
                   (let acc' = spec_bytes (rl_pending_bytes l) (s_spec s) acc
                    in if n + 1 \<ge> rl_pending l \<or> acc' \<ge> rl_pending_bytes l then fails ErrBusy
                       else admit_scan e l ids (n + 1) acc'))))"

definition admitNew :: "surroundings \<Rightarrow> parts_spec \<Rightarrow> unit parts" where
  "admitNew e spec =
     andthen (look p_limits) (\<lambda>l.
     andthen io (\<lambda>_.
     andthen (look p_live) (\<lambda>ids.
     andthen (admit_scan e l ids 0 0) (\<lambda>(n, acc).
     refuse_if (n > 0 \<and> spec_bytes (rl_pending_bytes l) spec 0 > rl_pending_bytes l - acc) ErrBusy))))"

definition new_session :: "surroundings \<Rightarrow> string \<Rightarrow> string \<Rightarrow> parts_spec \<Rightarrow> string \<Rightarrow> session" where
  "new_session e owner ident spec key =
     (let s = \<lparr>s_version = 1, s_id = ident, s_owner = owner, s_spec = spec, s_key = B64 key,
               s_status = ''uploading'', s_error = '''', s_result = '''', s_created = to_utc (e_now e),
               s_updated = zero_time, s_attempts = 0, s_retry_after = zero_time\<rparr>
      in if ready s \<and> ps_commit spec then s\<lparr>s_status := ''queued''\<rparr> else s)"

definition draw_key :: "surroundings \<Rightarrow> string parts" where
  "draw_key e = (case e_random e of None \<Rightarrow> fails ErrIO | Some key \<Rightarrow> give key)"

definition create_new :: "surroundings \<Rightarrow> string \<Rightarrow> string \<Rightarrow> parts_spec \<Rightarrow> parts_view parts" where
  "create_new e owner ident spec =
     andthen (admitNew e spec) (\<lambda>_.
     andthen (draw_key e) (\<lambda>key.
     andthen io (\<lambda>_.
     andthen (change (make_dir ident)) (\<lambda>_.
     (let s = new_session e owner ident spec key
      in andthen (reserve e s) (\<lambda>_.
         andthen (attempt (save e s)) (\<lambda>r.
         case r of
           Inl err \<Rightarrow> andthen (change (release ident)) (\<lambda>_. fails err)
         | Inr s' \<Rightarrow> give (view s')))))))) "

definition same_upload :: "string \<Rightarrow> parts_spec \<Rightarrow> session \<Rightarrow> bool" where
  "same_upload owner spec old \<longleftrightarrow> s_owner old = owner
     \<and> (s_spec old)\<lparr>ps_components := map clear_counters (ps_components (s_spec old))\<rparr> = spec"

definition Create :: "surroundings \<Rightarrow> string \<Rightarrow> string \<Rightarrow> parts_spec \<Rightarrow> parts_view parts" where
  "Create e owner ident spec0 =
     andthen (refuse_if (\<not> validID owner \<or> \<not> validID ident) ErrInvalid) (\<lambda>_.
     andthen (of_result (normalize spec0)) (\<lambda>spec.
     gated e ident (
       andthen (attempt (load_any e ident)) (\<lambda>r.
       case r of
         Inr (old, late) \<Rightarrow>
           if \<not> same_upload owner spec old then fails ErrConflict
           else if \<not> late then give (view old)
           else
             andthen (look (isActive ident)) (\<lambda>act.
             andthen (refuse_if act ErrConflict) (\<lambda>_.
             andthen (remove_all e ident) (\<lambda>_.
             andthen (change (release ident)) (\<lambda>_.
             create_new e owner ident spec))))
       | Inl err \<Rightarrow> if err \<noteq> ErrNotFound then fails err else create_new e owner ident spec))))"

section \<open>Receiving a part\<close>

definition receiveComponent ::
  "session \<Rightarrow> string \<Rightarrow> string \<Rightarrow> int \<Rightarrow> int \<Rightarrow> string \<Rightarrow> parts_error + component" where
  "receiveComponent s device cid index len hash =
     (if ps_device (s_spec s) \<noteq> device then Inl ErrNotFound
      else case find (\<lambda>c. cp_id c = cid) (ps_components (s_spec s)) of
        None \<Rightarrow> Inl ErrInvalid
      | Some c \<Rightarrow>
          (case partLength c index of
             Inl _ \<Rightarrow> Inl ErrInvalid
           | Inr expected \<Rightarrow> if expected \<noteq> len \<or> \<not> validHash hash then Inl ErrInvalid else Inr c))"

definition validateReceived :: "surroundings \<Rightarrow> bool \<Rightarrow> int \<Rightarrow> int \<Rightarrow> string \<Rightarrow> string \<Rightarrow> parts_error + unit" where
  "validateReceived e stopped n want data hash =
     (if stopped then Inl ErrCanceled
      else if n \<noteq> want then Inl ErrInvalid
      else if e_sha e data \<noteq> hash then Inl ErrChecksum
      else Inr ())"

definition beginReceive ::
  "session \<Rightarrow> component \<Rightarrow> int \<Rightarrow> int \<Rightarrow> string \<Rightarrow> bool \<Rightarrow> nat parts" where
  "beginReceive s c index len hash duplicate st =
     (let owned = length (filter (\<lambda>r. rc_owner r = s_owner s) (p_receivers st)); l = p_limits st
      in if counter (p_draining st) (s_owner s) > 0 \<or> counter (p_blocked st) (s_id s) > 0
         then (Inl ErrConflict, st)
         else if map_of (p_active st) (s_id s) \<noteq> None then (Inl ErrBusy, st)
         else if int (length (p_receivers st)) \<ge> rl_global l \<or> int owned \<ge> rl_per_owner l
         then (Inl ErrBusy, st)
         else (Inr (p_next_receiver st),
               st\<lparr>p_receivers := p_receivers st @
                   [\<lparr>rc_no = p_next_receiver st, rc_owner = s_owner s, rc_session = s_id s,
                     rc_cancelled = False, rc_header = s, rc_component = c, rc_index = index,
                     rc_length = len, rc_hash = hash, rc_duplicate = duplicate, rc_name = None\<rparr>],
                 p_next_receiver := Suc (p_next_receiver st)\<rparr>))"

definition admit_part ::
  "surroundings \<Rightarrow> string \<Rightarrow> string \<Rightarrow> int \<Rightarrow> int \<Rightarrow> string \<Rightarrow> session \<Rightarrow> component \<Rightarrow> nat parts" where
  "admit_part e ident cid index len hash s c =
     andthen (attempt (read_receipt e ident (receipt_name cid index))) (\<lambda>old.
     case old of
       Inr p \<Rightarrow>
         if pr_hash p \<noteq> hash \<or> pr_size p \<noteq> len then fails ErrConflict
         else beginReceive s c index len hash True
     | Inl err \<Rightarrow>
         if err \<noteq> ErrNotFound then fails err
         else if s_status s \<noteq> ''uploading'' then fails ErrConflict
         else beginReceive s c index len hash False)"

text \<open>The admission of \<open>AppendGuarded\<close>, under the gate.\<close>

definition append_begin ::
  "surroundings \<Rightarrow> bool \<Rightarrow> string \<Rightarrow> string \<Rightarrow> string \<Rightarrow> int \<Rightarrow> int \<Rightarrow> string \<Rightarrow> nat parts" where
  "append_begin e stopped ident device cid index len hash0 =
     andthen (refuse_if stopped ErrCanceled) (\<lambda>_.
     (let hash = to_lower hash0
      in gated e ident (
           andthen (load e ident) (\<lambda>s.
           andthen (of_result (receiveComponent s device cid index len hash)) (\<lambda>c.
           admit_part e ident cid index len hash s c)))))"

definition receiver_of :: "nat \<Rightarrow> parts_state \<Rightarrow> receiver option" where
  "receiver_of no st = find (\<lambda>r. rc_no r = no) (p_receivers st)"

definition end_receive :: "surroundings \<Rightarrow> receiver \<Rightarrow> parts_state \<Rightarrow> parts_state" where
  "end_receive e r st =
     (let st1 = (case rc_name r of None \<Rightarrow> st | Some n \<Rightarrow> del_entry (rc_session r) n st);
          st2 = st1\<lparr>p_receivers := filter (\<lambda>x. rc_no x \<noteq> rc_no r) (p_receivers st1)\<rparr>
      in if rc_session r \<in> set (e_busy e) then st2 else uncheck (rc_session r) st2)"

text \<open>
  The body of a part, read without the gate: at most one byte more than announced. \<open>stopped\<close>: the
  context is cancelled or the reader fails.
\<close>

definition receive_new :: "surroundings \<Rightarrow> receiver \<Rightarrow> string \<Rightarrow> string \<Rightarrow> bool \<Rightarrow> unit parts" where
  "receive_new e r name body stopped =
     (let body' = take (nat (rc_length r + 1)) body; s = rc_header r; c = rc_component r
      in andthen (refuse_if (case B64d (s_key s) of None \<Rightarrow> True | Some k \<Rightarrow> length k \<noteq> 32) ErrCorrupt) (\<lambda>_.
         andthen io (\<lambda>_.
         andthen (look (\<lambda>st. map_of (p_dirs st) (rc_session r))) (\<lambda>d.
         andthen (refuse_if (d = None) ErrIO) (\<lambda>_.
         andthen (change (put_entry (rc_session r) name (PartFile (s_key s) (cp_id c) (rc_index r) body'))) (\<lambda>_.
         andthen (of_result (validateReceived e (stopped \<or> rc_cancelled r) (int (length body')) (rc_length r)
                    body' (rc_hash r))) (\<lambda>_.
         io)))))))"

definition append_body :: "surroundings \<Rightarrow> nat \<Rightarrow> string \<Rightarrow> string \<Rightarrow> bool \<Rightarrow> unit parts" where
  "append_body e no name body stopped =
     andthen (look (receiver_of no)) (\<lambda>found.
     case found of
       None \<Rightarrow> fails ErrConflict
     | Some r \<Rightarrow>
         (let body' = take (nat (rc_length r + 1)) body;
              r' = (if rc_duplicate r then r else r\<lparr>rc_name := Some name\<rparr>)
          in andthen (attempt
               (if rc_duplicate r
                then of_result (validateReceived e (stopped \<or> rc_cancelled r) (int (length body')) (rc_length r)
                       body' (rc_hash r))
                else receive_new e r name body stopped)) (\<lambda>res.
             case res of
               Inl err \<Rightarrow> andthen (change (end_receive e r')) (\<lambda>_. fails err)
             | Inr _ \<Rightarrow>
                 change (\<lambda>st. st\<lparr>p_receivers := map (\<lambda>x. if rc_no x = no then r' else x) (p_receivers st)\<rparr>))))"

text \<open>The short commit of a received part.\<close>

definition install_part :: "surroundings \<Rightarrow> receiver \<Rightarrow> session \<Rightarrow> parts_view parts" where
  "install_part e r latest =
     (let ident = rc_session r; cid = cp_id (rc_component r); index = rc_index r
      in case rc_name r of
           None \<Rightarrow> fails ErrConflict
         | Some name \<Rightarrow>
             if s_status latest \<noteq> ''uploading'' then fails ErrConflict
             else
               andthen io (\<lambda>_.
               andthen (look (entry_of ident name)) (\<lambda>x.
               case x of
                 None \<Rightarrow> fails ErrIO
               | Some f \<Rightarrow>
                   andthen (change (\<lambda>st. put_entry ident (part_file_name cid index) f (del_entry ident name st))) (\<lambda>_.
                   andthen io (\<lambda>_.
                   andthen (writeSealed e ident (receipt_name cid index)
                      (ReceiptFile \<lparr>pr_component = cid, pr_index = index, pr_size = rc_length r, pr_hash = rc_hash r\<rparr>)) (\<lambda>_.
                   andthen (reconcile e latest) (\<lambda>latest'.
                   andthen (save e latest') (\<lambda>saved.
                   give (view saved)))))))))"

definition publish_part :: "surroundings \<Rightarrow> receiver \<Rightarrow> parts_view parts" where
  "publish_part e r =
     (let ident = rc_session r; cid = cp_id (rc_component r); index = rc_index r; s = rc_header r
      in andthen (refuse_if (rc_cancelled r) ErrCanceled) (\<lambda>_.
         andthen (load e ident) (\<lambda>latest.
         andthen (refuse_if (s_key latest \<noteq> s_key s \<or> \<not> time_eq (s_created latest) (s_created s)
                             \<or> s_status latest = ''cancelled'') ErrConflict) (\<lambda>_.
         andthen (of_result (receiveComponent latest (ps_device (s_spec s)) cid index (rc_length r) (rc_hash r))) (\<lambda>_.
         andthen (attempt (read_receipt e ident (receipt_name cid index))) (\<lambda>old.
         case old of
           Inr p \<Rightarrow>
             if pr_hash p \<noteq> rc_hash r \<or> pr_size p \<noteq> rc_length r then fails ErrConflict
             else give (view latest)
         | Inl err \<Rightarrow> if err \<noteq> ErrNotFound then fails err else install_part e r latest))))))"

text \<open>\<open>refused\<close>: the authorization barrier refuses and does not call \<open>publish\<close>.\<close>

definition append_publish :: "surroundings \<Rightarrow> nat \<Rightarrow> parts_error option \<Rightarrow> parts_view parts" where
  "append_publish e no refused =
     andthen (look (receiver_of no)) (\<lambda>found.
     case found of
       None \<Rightarrow> fails ErrConflict
     | Some r \<Rightarrow>
         andthen (attempt
           (if rc_cancelled r then fails ErrCanceled
            else gated e (rc_session r) (case refused of Some err \<Rightarrow> fails err | None \<Rightarrow> publish_part e r))) (\<lambda>res.
         andthen (change (end_receive e r)) (\<lambda>_. of_result res)))"

section \<open>Queries\<close>

definition Session :: "surroundings \<Rightarrow> string \<Rightarrow> (session \<times> bool) parts" where
  "Session e ident = gated e ident (load_any e ident)"

definition Status :: "surroundings \<Rightarrow> string \<Rightarrow> string \<Rightarrow> parts_view parts" where
  "Status e ident device =
     gated e ident (andthen (load e ident) (\<lambda>s.
       andthen (refuse_if (ps_device (s_spec s) \<noteq> device) ErrNotFound) (\<lambda>_. give (view s))))"

definition StatusKind :: "surroundings \<Rightarrow> string \<Rightarrow> string \<Rightarrow> string \<Rightarrow> string \<Rightarrow> parts_view parts" where
  "StatusKind e ident owner device kind =
     gated e ident (andthen (load_any e ident) (\<lambda>(s, late).
       if s_owner s \<noteq> owner \<or> ps_device (s_spec s) \<noteq> device \<or> ps_kind (s_spec s) \<noteq> kind then fails ErrNotFound
       else if late then fails ErrExpired else give (view s)))"

text \<open>The loop of \<open>Missing\<close>; the fuel is the number of indexes left.\<close>

fun missing_scan :: "string \<Rightarrow> string \<Rightarrow> int \<Rightarrow> nat \<Rightarrow> int \<Rightarrow> part_page \<Rightarrow> part_page parts" where
  "missing_scan ident cid limit 0 i p = give p"
| "missing_scan ident cid limit (Suc n) i p =
     andthen io (\<lambda>_.
     andthen (look (entry_of ident (receipt_name cid i))) (\<lambda>x.
     (let p' = (if x = None then p\<lparr>pg_missing := pg_missing p @ [i]\<rparr> else p)\<lparr>pg_next := i + 1\<rparr>
      in if int (length (pg_missing p')) \<ge> limit then give p'
         else missing_scan ident cid limit n (i + 1) p')))"

definition Missing :: "surroundings \<Rightarrow> string \<Rightarrow> string \<Rightarrow> string \<Rightarrow> int \<Rightarrow> int \<Rightarrow> part_page parts" where
  "Missing e ident device cid start limit0 =
     gated e ident (andthen (load e ident) (\<lambda>s.
       andthen (refuse_if (ps_device (s_spec s) \<noteq> device) ErrNotFound) (\<lambda>_.
       case find (\<lambda>c. cp_id c = cid) (rev (ps_components (s_spec s))) of
         None \<Rightarrow> fails ErrInvalid
       | Some c \<Rightarrow>
           if start < 0 \<or> start > count c then fails ErrInvalid
           else
             andthen (missing_scan ident cid (max 1 (min limit0 200))
                        (nat (min (count c) (start + 200) - start)) start
                        \<lparr>pg_missing = [], pg_next = 0, pg_more = False\<rparr>) (\<lambda>p.
             give (p\<lparr>pg_more := pg_next p < count c\<rparr>)))))"

section \<open>Retry and new authorization\<close>

definition Retry :: "surroundings \<Rightarrow> string \<Rightarrow> string \<Rightarrow> parts_view parts" where
  "Retry e ident device =
     gated e ident (andthen (load e ident) (\<lambda>s.
       andthen (refuse_if (ps_device (s_spec s) \<noteq> device) ErrNotFound) (\<lambda>_.
       andthen (look (isActive ident)) (\<lambda>act.
       andthen (refuse_if (\<not> ready s \<or> s_status s = ''stored'' \<or> s_status s = ''cancelled'' \<or> act) ErrConflict) (\<lambda>_.
       andthen (save e (s\<lparr>s_status := ''queued'', s_error := '''', s_attempts := 0, s_retry_after := zero_time\<rparr>)) (\<lambda>s'.
       give (view s')))))))"

definition restarted :: "session \<Rightarrow> string \<Rightarrow> session" where
  "restarted s key =
     (let s' = with_components (map clear_counters (ps_components (s_spec s)))
            (s\<lparr>s_key := B64 key, s_status := ''uploading'', s_error := '''', s_result := '''', s_attempts := 0,
               s_retry_after := zero_time\<rparr>)
      in if ready s' \<and> ps_commit (s_spec s') then s'\<lparr>s_status := ''queued''\<rparr> else s')"

definition restartExpired :: "surroundings \<Rightarrow> session \<Rightarrow> unit parts" where
  "restartExpired e s =
     andthen (draw_key e) (\<lambda>key.
     (let s' = restarted s key
      in andthen (reserve e s') (\<lambda>_.
         andthen (attempt (andthen (removePayload (s_id s')) (\<lambda>_. save e s'))) (\<lambda>r.
         case r of
           Inl err \<Rightarrow> andthen (change (release (s_id s'))) (\<lambda>_. fails err)
         | Inr _ \<Rightarrow> give ()))))"

definition RebindPayload :: "surroundings \<Rightarrow> string \<Rightarrow> string \<Rightarrow> string \<Rightarrow> string \<Rightarrow> unit parts" where
  "RebindPayload e ident device oldPayload newPayload =
     andthen (refuse_if (length newPayload > 65536 \<or> \<not> json_valid newPayload) ErrInvalid) (\<lambda>_.
     gated e ident (andthen (load_any e ident) (\<lambda>(s, late).
       andthen (refuse_if (ps_device (s_spec s) \<noteq> device) ErrNotFound) (\<lambda>_.
       andthen (look (isActive ident)) (\<lambda>act.
       andthen (refuse_if ((s_status s = ''verifying'' \<and> \<not> late) \<or> s_status s = ''stored'' \<or> s_status s = ''cancelled''
                           \<or> act \<or> ps_payload (s_spec s) \<noteq> oldPayload) ErrConflict) (\<lambda>_.
       (let s1 = s\<lparr>s_spec := (s_spec s)\<lparr>ps_payload := newPayload\<rparr>\<rparr>
        in if late then restartExpired e s1
           else
             (let s2 = (if s_status s1 = ''failed'' \<and> ready s1 \<and> ps_commit (s_spec s1)
                        then s1\<lparr>s_status := ''queued'', s_error := ''''\<rparr> else s1)
              in andthen (save e s2) (\<lambda>_. give ()))))))))) "

section \<open>Cancellation\<close>

text \<open>
  \<open>CancelCoordinated\<close> first blocks new receivers and cancels the running ones, waits for them without
  the gate, and then cancels the session; \<open>cancel_resume\<close> is its deferred unblocking.
\<close>

definition stopReceivers :: "surroundings \<Rightarrow> string \<Rightarrow> string \<Rightarrow> unit parts" where
  "stopReceivers e ident device =
     gated e ident (andthen (load_any e ident) (\<lambda>(s, late).
       andthen (refuse_if (ps_device (s_spec s) \<noteq> device) ErrNotFound) (\<lambda>_.
       change (\<lambda>st. st\<lparr>p_blocked := AList.update ident (Suc (counter (p_blocked st) ident)) (p_blocked st),
                       p_receivers := map (\<lambda>r. if rc_session r = ident then r\<lparr>rc_cancelled := True\<rparr> else r)
                                        (p_receivers st)\<rparr>))))"

definition cancel_resume :: "string \<Rightarrow> parts_state \<Rightarrow> parts_state" where
  "cancel_resume ident st =
     (let n = counter (p_blocked st) ident - 1
      in st\<lparr>p_blocked := (if n = 0 then AList.delete ident (p_blocked st) else AList.update ident n (p_blocked st))\<rparr>)"

text \<open>\<open>cleanup\<close>: what the coordinator answers; \<open>Some result\<close> when publication was already complete.\<close>

definition cancel_finish ::
  "surroundings \<Rightarrow> string \<Rightarrow> string \<Rightarrow> (session \<Rightarrow> parts_error + string option) \<Rightarrow> parts_view parts" where
  "cancel_finish e ident device cleanup =
     gated e ident (andthen (load_any e ident) (\<lambda>(s, late).
       andthen (refuse_if (ps_device (s_spec s) \<noteq> device) ErrNotFound) (\<lambda>_.
       andthen (look (isActive ident)) (\<lambda>act.
       andthen (refuse_if (s_status s = ''stored'' \<or> act) ErrConflict) (\<lambda>_.
       andthen (of_result (cleanup s)) (\<lambda>result.
       andthen (refuse_if (case result of None \<Rightarrow> False | Some j \<Rightarrow> \<not> json_valid j) ErrInvalid) (\<lambda>_.
       (let s1 = (case result of
                    None \<Rightarrow> s\<lparr>s_status := ''cancelled'', s_error := '''', s_result := ''''\<rparr>
                  | Some j \<Rightarrow> s\<lparr>s_status := ''stored'', s_error := '''', s_result := j\<rparr>)
        in andthen (save e s1) (\<lambda>s2.
           andthen (attempt (removePayload ident)) (\<lambda>r.
           andthen (change (release ident)) (\<lambda>_.
           case r of Inl err \<Rightarrow> fails err | Inr _ \<Rightarrow> give (view s2)))))))))))) "

section \<open>Processing\<close>

definition set_active :: "string \<Rightarrow> string \<Rightarrow> parts_state \<Rightarrow> parts_state" where
  "set_active ident owner st = st\<lparr>p_active := AList.update ident owner (p_active st)\<rparr>"

definition clear_active :: "string \<Rightarrow> parts_state \<Rightarrow> parts_state" where
  "clear_active ident st = st\<lparr>p_active := AList.delete ident (p_active st)\<rparr>"

text \<open>\<open>None\<close>: the session is busy and \<open>Process\<close> returns without an error.\<close>

definition process_begin ::
  "surroundings \<Rightarrow> string \<Rightarrow> (session \<Rightarrow> parts_error option) \<Rightarrow> session option parts" where
  "process_begin e ident authorize =
     gated e ident (andthen (load e ident) (\<lambda>s.
       andthen (look (isActive ident)) (\<lambda>act.
       if act then give None
       else
         andthen (look (\<lambda>st. counter (p_draining st) (s_owner s))) (\<lambda>draining.
         andthen (refuse_if (draining > 0) ErrConflict) (\<lambda>_.
         andthen (change (set_active ident (s_owner s))) (\<lambda>_.
         andthen (attempt (
           andthen (refuse_if ((s_status s \<noteq> ''queued'' \<and> s_status s \<noteq> ''verifying'')
                               \<or> time_before (e_now e) (s_retry_after s)) ErrConflict) (\<lambda>_.
           andthen (case authorize s of None \<Rightarrow> give () | Some err \<Rightarrow> fails err) (\<lambda>_.
           save e (s\<lparr>s_status := ''verifying''\<rparr>))))) (\<lambda>r.
         case r of
           Inl err \<Rightarrow> andthen (change (clear_active ident)) (\<lambda>_. fails err)
         | Inr s' \<Rightarrow> give (Some s'))))))))"

text \<open>Reading a component: its parts in order, each opened with its key and its exact length.\<close>

fun read_parts :: "surroundings \<Rightarrow> session \<Rightarrow> component \<Rightarrow> nat \<Rightarrow> int \<Rightarrow> string parts" where
  "read_parts e s c 0 i = give ''''"
| "read_parts e s c (Suc n) i =
     andthen (refuse_if (\<not> e_unlocked e) ErrLocked) (\<lambda>_.
     andthen io (\<lambda>_.
     andthen (look (entry_of (s_id s) (part_file_name (cp_id c) i))) (\<lambda>x.
     case x of
       Some (PartFile key cid j plain) \<Rightarrow>
         if key = s_key s \<and> cid = cp_id c \<and> j = i \<and> partLength c i = Inr (int (length plain))
         then andthen (read_parts e s c n (i + 1)) (\<lambda>rest. give (plain @ rest))
         else fails ErrCorrupt
     | _ \<Rightarrow> fails ErrCorrupt)))"

definition Open :: "surroundings \<Rightarrow> string \<Rightarrow> string \<Rightarrow> (session \<times> component) parts" where
  "Open e ident cid =
     gated e ident (andthen (load e ident) (\<lambda>s.
       andthen (refuse_if (\<not> live s) ErrConflict) (\<lambda>_.
       andthen (refuse_if (\<not> ready s) ErrIncomplete) (\<lambda>_.
       case find (\<lambda>c. cp_id c = cid) (ps_components (s_spec s)) of
         None \<Rightarrow> fails ErrInvalid
       | Some c \<Rightarrow> give (s, c)))))"

definition read_component :: "surroundings \<Rightarrow> string \<Rightarrow> string \<Rightarrow> string parts" where
  "read_component e ident cid =
     andthen (Open e ident cid) (\<lambda>(s, c). read_parts e s c (nat (count c)) 0)"

definition Verify :: "surroundings \<Rightarrow> string \<Rightarrow> unit parts" where
  "Verify e ident =
     andthen (gated e ident (load e ident)) (\<lambda>s.
     andthen (refuse_if (\<not> ready s) ErrIncomplete) (\<lambda>_.
     each (\<lambda>c. andthen (read_component e ident (cp_id c)) (\<lambda>body.
            refuse_if (int (length body) \<noteq> cp_size c \<or> e_sha e body \<noteq> cp_sha256 c) ErrChecksum))
       (ps_components (s_spec s))))"

definition failureCode :: "parts_error \<Rightarrow> string" where
  "failureCode err =
     (case err of ErrCommit _ code \<Rightarrow> if code \<noteq> '''' then code else ''commit_failed'' | _ \<Rightarrow> ''commit_failed'')"

definition failed_session :: "surroundings \<Rightarrow> parts_error \<Rightarrow> session \<Rightarrow> session" where
  "failed_session e err s =
     (let s1 = s\<lparr>s_status := ''failed'',
                 s_error := (if err = ErrChecksum then ''checksum_mismatch'' else failureCode err)\<rparr>
      in if err = ErrCanceled then s1\<lparr>s_status := ''queued'', s_error := ''''\<rparr>
         else if (case err of ErrCommit retry _ \<Rightarrow> retry | _ \<Rightarrow> False) \<and> s_attempts s1 < 3 then
           s1\<lparr>s_attempts := s_attempts s1 + 1, s_status := ''queued'', s_error := ''storage_retry'',
              s_retry_after := time_add (e_now e) (1000000000 * 2 ^ nat (s_attempts s1 + 1))\<rparr>
         else s1)"

definition process_end :: "surroundings \<Rightarrow> string \<Rightarrow> parts_error + string \<Rightarrow> unit parts" where
  "process_end e ident outcome =
     andthen (attempt (gated e ident (andthen (load e ident) (\<lambda>latest.
       case outcome of
         Inl err \<Rightarrow> andthen (save e (failed_session e err latest)) (\<lambda>_. fails err)
       | Inr result \<Rightarrow>
           andthen (save e (latest\<lparr>s_status := ''stored'', s_retry_after := zero_time, s_result := result,
                                   s_error := ''''\<rparr>)) (\<lambda>_.
           andthen (attempt (removePayload ident)) (\<lambda>r.
           andthen (change (release ident)) (\<lambda>_. of_result r))))))) (\<lambda>r.
     andthen (change (clear_active ident)) (\<lambda>_. of_result r))"

text \<open>
  \<open>Process\<close> with no other operation between its sections. The commit callback gets the session and a
  reader of its components.
\<close>

definition Process ::
  "surroundings \<Rightarrow> string \<Rightarrow> (session \<Rightarrow> parts_error option) \<Rightarrow> (session \<Rightarrow> (string \<Rightarrow> string parts) \<Rightarrow> string parts)
   \<Rightarrow> unit parts" where
  "Process e ident authorize commit =
     andthen (process_begin e ident authorize) (\<lambda>started.
     case started of
       None \<Rightarrow> give ()
     | Some s \<Rightarrow>
         andthen (attempt (
           andthen (Verify e ident) (\<lambda>_.
           andthen (case authorize s of None \<Rightarrow> give () | Some err \<Rightarrow> fails err) (\<lambda>_.
           commit s (\<lambda>cid. andthen (case authorize s of None \<Rightarrow> give () | Some err \<Rightarrow> fails err) (\<lambda>_.
                            read_component e ident cid)))))) (\<lambda>outcome.
         process_end e ident outcome))"

section \<open>Background scans\<close>

text \<open>
  The scans collect the errors of the sessions they visit as warnings. The entries a directory scan
  delivers in this round are parameters (at most 100 in the code).
\<close>

definition warn :: "unit parts \<Rightarrow> parts_error list parts" where
  "warn f = andthen (attempt f) (\<lambda>r. give (case r of Inl err \<Rightarrow> [err] | Inr _ \<Rightarrow> []))"

fun scan :: "surroundings \<Rightarrow> (string \<Rightarrow> unit parts) \<Rightarrow> string list \<Rightarrow> parts_error list parts" where
  "scan e visit [] = give []"
| "scan e visit (ident # ids) =
     (if \<not> validID ident \<or> ident \<in> set (e_busy e) then scan e visit ids
      else andthen (warn (gated e ident (visit ident))) (\<lambda>ws.
           andthen (scan e visit ids) (\<lambda>rest. give (ws @ rest))))"

definition visit_live :: "surroundings \<Rightarrow> string \<Rightarrow> unit parts" where
  "visit_live e ident =
     andthen (attempt (andthen (load_any e ident) (\<lambda>(s, late).
       if late then fails ErrExpired else syncSessionMarkers s))) (\<lambda>r.
     case r of
       Inl err \<Rightarrow>
         if err = ErrNotFound then dropSessionMarkers ident
         else if err = ErrExpired then setMarker QueueIndex ident False
         else fails err
     | Inr _ \<Rightarrow> give ())"

definition recoverLive :: "surroundings \<Rightarrow> string list \<Rightarrow> parts_error list parts" where
  "recoverLive e ids = scan e (visit_live e) ids"

definition visit_legacy :: "surroundings \<Rightarrow> string \<Rightarrow> unit parts" where
  "visit_legacy e ident =
     andthen (attempt (andthen (read_header e ident) (\<lambda>s.
       case validateSession s ident of Some err \<Rightarrow> fails err | None \<Rightarrow> syncSessionMarkers s))) (\<lambda>r.
     case r of
       Inl err \<Rightarrow> if err = ErrNotFound then give () else fails err
     | Inr _ \<Rightarrow> give ())"

fun scan_legacy :: "surroundings \<Rightarrow> string list \<Rightarrow> parts_error list parts" where
  "scan_legacy e [] = give []"
| "scan_legacy e (ident # ids) =
     (if \<not> validID ident then scan_legacy e ids
      else andthen (look (marked LiveIndex ident)) (\<lambda>present.
        if present then scan_legacy e ids
        else andthen (warn (if ident \<in> set (e_busy e) then setMarker LiveIndex ident True
                            else gated e ident (visit_legacy e ident))) (\<lambda>ws.
             andthen (scan_legacy e ids) (\<lambda>rest. give (ws @ rest)))))"

definition recoverIndex :: "surroundings \<Rightarrow> string list \<Rightarrow> bool \<Rightarrow> string list \<Rightarrow> parts_error list parts" where
  "recoverIndex e entries eof live_ids =
     andthen (look p_indexed) (\<lambda>indexed.
     if indexed then recoverLive e live_ids
     else andthen (scan_legacy e entries) (\<lambda>ws.
          if eof \<and> ws = [] then warn (andthen io (\<lambda>_. change (\<lambda>st. st\<lparr>p_indexed := True\<rparr>)))
          else give ws))"

definition visit_pending :: "surroundings \<Rightarrow> string \<Rightarrow> session option parts" where
  "visit_pending e ident =
     andthen (attempt (load_any e ident)) (\<lambda>r.
     case r of
       Inr (s, False) \<Rightarrow>
         if queued s then give (if time_before (e_now e) (s_retry_after s) then None else Some s)
         else andthen (setMarker QueueIndex ident False) (\<lambda>_. give None)
     | Inr (s, True) \<Rightarrow> andthen (setMarker QueueIndex ident False) (\<lambda>_. give None)
     | Inl err \<Rightarrow>
         if err = ErrNotFound then andthen (setMarker QueueIndex ident False) (\<lambda>_. give None)
         else fails err)"

fun scan_pending :: "surroundings \<Rightarrow> string list \<Rightarrow> (session list \<times> parts_error list) parts" where
  "scan_pending e [] = give ([], [])"
| "scan_pending e (ident # ids) =
     (if \<not> validID ident \<or> ident \<in> set (e_busy e) then scan_pending e ids
      else andthen (attempt (gated e ident (visit_pending e ident))) (\<lambda>r.
           andthen (scan_pending e ids) (\<lambda>(out, ws).
           give (case r of Inr (Some s) \<Rightarrow> s # out | _ \<Rightarrow> out, case r of Inl err \<Rightarrow> err # ws | _ \<Rightarrow> ws))))"

definition Pending ::
  "surroundings \<Rightarrow> string list \<Rightarrow> bool \<Rightarrow> string list \<Rightarrow> string list \<Rightarrow> (session list \<times> parts_error list) parts" where
  "Pending e entries eof live_ids queue_ids =
     andthen (refuse_if (\<not> e_unlocked e) ErrLocked) (\<lambda>_.
     andthen (recoverIndex e entries eof live_ids) (\<lambda>ws.
     andthen (scan_pending e queue_ids) (\<lambda>(out, more_ws). give (out, ws @ more_ws))))"

definition visit_sweep :: "surroundings \<Rightarrow> string \<Rightarrow> unit parts" where
  "visit_sweep e ident =
     andthen (look (isActive ident)) (\<lambda>act.
     if act then give ()
     else
       andthen (attempt (andthen (read_header e ident) (\<lambda>s.
         case validateSession s ident of
           Some err \<Rightarrow> fails err
         | None \<Rightarrow>
             if expired e s then
               andthen (remove_all e ident) (\<lambda>_.
               andthen (change (release ident)) (\<lambda>_.
               andthen io (\<lambda>_. dropSessionMarkers ident)))
             else syncSessionMarkers s))) (\<lambda>r.
       case r of
         Inl err \<Rightarrow> if err = ErrNotFound then dropSessionMarkers ident else fails err
       | Inr _ \<Rightarrow> give ()))"

definition Sweep :: "surroundings \<Rightarrow> string list \<Rightarrow> bool \<Rightarrow> string list \<Rightarrow> parts_error list parts" where
  "Sweep e entries eof live_ids =
     andthen (refuse_if (\<not> e_unlocked e) ErrLocked) (\<lambda>_.
     andthen (recoverIndex e entries eof live_ids) (\<lambda>ws.
     andthen (scan e (visit_sweep e) live_ids) (\<lambda>more_ws. give (ws @ more_ws))))"

section \<open>Releasing an owner\<close>

text \<open>
  \<open>ReleaseOwner\<close> marks the owner as draining and cancels its receivers, waits until none of its jobs
  and receivers is left, and then gives the leases back.
\<close>

definition release_begin :: "string \<Rightarrow> parts_state \<Rightarrow> parts_state" where
  "release_begin owner st =
     st\<lparr>p_draining := AList.update owner (Suc (counter (p_draining st) owner)) (p_draining st),
        p_receivers := map (\<lambda>r. if rc_owner r = owner then r\<lparr>rc_cancelled := True\<rparr> else r) (p_receivers st)\<rparr>"

definition owner_drained :: "string \<Rightarrow> parts_state \<Rightarrow> bool" where
  "owner_drained owner st \<longleftrightarrow> owner \<notin> snd ` set (p_active st) \<and> owner \<notin> rc_owner ` set (p_receivers st)"

definition release_end :: "string \<Rightarrow> parts_state \<Rightarrow> parts_state" where
  "release_end owner st =
     (let held_by = map fst (filter (\<lambda>(_, o', _). o' = owner) (p_reservations st));
          st' = fold (\<lambda>ident s. uncheck ident (release_lease ident s)) held_by st;
          n = counter (p_draining st') owner - 1
      in st'\<lparr>p_draining := (if n = 0 then AList.delete owner (p_draining st')
                            else AList.update owner n (p_draining st'))\<rparr>)"

definition ConfigureReceive :: "receive_limits \<Rightarrow> parts_state \<Rightarrow> parts_state" where
  "ConfigureReceive l st = st\<lparr>p_limits := l\<rparr>"

end
