(* ===== verification/Mobile_Frame.thy ===== *)
theory Mobile_Frame
  imports Mobile_Ops
begin

text \<open>
  What the operations on mobile uploads leave alone: file names never clash, leases and the record of
  checked headers are not files, and assertions about files survive the operations on the rest.
\<close>

section \<open>File names\<close>

lemma partName_inj:
  assumes "CHR ''-'' \<notin> set c" "CHR ''-'' \<notin> set c'" "0 \<le> i" "0 \<le> j"
  shows "partName c i = partName c' j \<longleftrightarrow> c = c' \<and> i = j"
proof -
  have tw: "takeWhile (\<lambda>x. x \<noteq> CHR ''-'') (partName d k) = d" if "CHR ''-'' \<notin> set d" for d k
    using that by (auto simp: partName_def takeWhile_append2 takeWhile_tail)
  have "c = c'" if "partName c i = partName c' j"
    using tw [OF assms(1), of i] tw [OF assms(2), of j] that by simp
  then show ?thesis using assms(3,4) by (auto simp: partName_def show_int_inj)
qed

definition part_ids :: "string set" where
  "part_ids = {''original'', ''motion''}"

lemma part_ids_plain: "c \<in> part_ids \<Longrightarrow> CHR ''-'' \<notin> set c"
  by (auto simp: part_ids_def)

lemma receipt_name_inj:
  "c \<in> part_ids \<Longrightarrow> c' \<in> part_ids \<Longrightarrow> 0 \<le> i \<Longrightarrow> 0 \<le> j \<Longrightarrow> receipt_name c i = receipt_name c' j \<longleftrightarrow> c = c' \<and> i = j"
  by (simp add: receipt_name_def partName_inj part_ids_plain)

lemma part_file_name_inj:
  "c \<in> part_ids \<Longrightarrow> c' \<in> part_ids \<Longrightarrow> 0 \<le> i \<Longrightarrow> 0 \<le> j \<Longrightarrow> part_file_name c i = part_file_name c' j \<longleftrightarrow> c = c' \<and> i = j"
  by (simp add: part_file_name_def partName_inj part_ids_plain)

lemma append_less: "x < y \<Longrightarrow> p @ x # xs < p @ y # (ys :: 'a :: linorder list)"
  by (induction p) simp_all

lemma receipt_before_part: "receipt_name c i < part_file_name c i"
proof -
  have "CHR ''r'' < CHR ''w''" by code_simp
  from append_less [OF this, of "partName c i @ ''.''" "''eceipt.enc''" "''za''"]
  show ?thesis by (simp add: receipt_name_def part_file_name_def)
qed

lemma last_append_right: "t \<noteq> [] \<Longrightarrow> last (s @ t) = last t"
  by simp

lemma suffix_last_neq: "suffix s x \<Longrightarrow> suffix t x \<Longrightarrow> s \<noteq> [] \<Longrightarrow> t \<noteq> [] \<Longrightarrow> last s = last t"
  by (metis last_append_right suffix_def)

lemma header_not_disposable: "\<not> disposable ''session.enc''"
  unfolding disposable_def by code_simp

lemma receipt_suffix [simp]: "suffix ''.receipt.enc'' (receipt_name c i)" "suffix ''.wza'' (part_file_name c i)"
  by (auto simp: receipt_name_def part_file_name_def suffix_def)

lemma name_neqs:
  "receipt_name c i \<noteq> part_file_name c' j" "receipt_name c i \<noteq> ''session.enc''" "part_file_name c i \<noteq> ''session.enc''"
proof -
  show "receipt_name c i \<noteq> part_file_name c' j"
    using suffix_last_neq [of "''.receipt.enc''" "receipt_name c i" "''.wza''"] receipt_suffix by fastforce
  show "receipt_name c i \<noteq> ''session.enc''" "part_file_name c i \<noteq> ''session.enc''"
    using header_not_disposable receipt_suffix(1) [of c i] receipt_suffix(2) [of c i]
    unfolding disposable_def by metis+
qed

lemma incoming_neqs:
  "c \<in> part_ids \<Longrightarrow> \<not> prefix ''.incoming-'' (receipt_name c i)"
  "c \<in> part_ids \<Longrightarrow> \<not> prefix ''.incoming-'' (part_file_name c i)"
  by (auto simp: part_ids_def receipt_name_def part_file_name_def partName_def)

section \<open>Headers, receipts and what an operation leaves alone\<close>

lemma entry_of_put:
  "entry_of k n (put_entry ident name x st) = (if k = ident \<and> n = name then Some x else entry_of k n st)"
  by (auto simp: entry_of_def put_entry_def dir_of_def)

lemma entry_of_del:
  "entry_of k n (del_entry ident name st) = (if k = ident \<and> n = name then None else entry_of k n st)"
  by (auto simp: entry_of_def del_entry_def dir_of_def split: option.splits)

lemma entry_of_make [simp]: "entry_of k n (make_dir ident st) = entry_of k n st"
  by (auto simp: entry_of_def make_dir_def dir_of_def split: option.splits)


definition header :: "string \<Rightarrow> parts_state \<Rightarrow> session option" where
  "header ident st = (case entry_of ident ''session.enc'' st of Some (HeaderFile s) \<Rightarrow> Some s | _ \<Rightarrow> None)"

definition same_files :: "parts_state \<Rightarrow> parts_state \<Rightarrow> bool" where
  "same_files st st' \<longleftrightarrow> p_dirs st' = p_dirs st \<and> p_receivers st' = p_receivers st
     \<and> p_next_receiver st' = p_next_receiver st \<and> p_active st' = p_active st"

definition same_durable :: "parts_state \<Rightarrow> parts_state \<Rightarrow> bool" where
  "same_durable st st' \<longleftrightarrow> same_files st st' \<and> p_live st' = p_live st \<and> p_queue st' = p_queue st"

text \<open>Assertions that only look at the files, or only at what survives a restart and the receivers.\<close>

definition filewise :: "(parts_state \<Rightarrow> bool) \<Rightarrow> bool" where
  "filewise A \<longleftrightarrow> (\<forall>st st'. same_files st st' \<longrightarrow> A st \<longrightarrow> A st')"

definition respectful :: "(parts_state \<Rightarrow> bool) \<Rightarrow> bool" where
  "respectful A \<longleftrightarrow> (\<forall>st st'. same_durable st st' \<longrightarrow> A st \<longrightarrow> A st')"

definition quiet :: "'a parts \<Rightarrow> bool" where
  "quiet f \<longleftrightarrow> (\<forall>st. same_durable st (snd (f st)))"

named_theorems frame "assertions about the files"

lemma filewise_respectful: "filewise A \<Longrightarrow> respectful A"
  by (auto simp: filewise_def respectful_def same_durable_def)

lemma entry_of_files: "same_files st st' \<Longrightarrow> entry_of k n st' = entry_of k n st"
  by (simp add: same_files_def entry_of_def dir_of_def)

lemma header_files: "same_files st st' \<Longrightarrow> header k st' = header k st"
  by (simp add: header_def entry_of_files)

lemma filewise_const [frame]: "filewise (\<lambda>_. b)" by (simp add: filewise_def)
lemma filewise_entry [frame]: "filewise (\<lambda>st. Q (entry_of k n st))" by (simp add: filewise_def entry_of_files)
lemma filewise_header [frame]: "filewise (\<lambda>st. Q (header k st))" by (simp add: filewise_def header_files)
lemma filewise_conj [frame]: "filewise A \<Longrightarrow> filewise B \<Longrightarrow> filewise (\<lambda>st. A st \<and> B st)"
  by (auto simp: filewise_def)
lemma filewise_dirs [frame]: "filewise (\<lambda>st. Q (p_dirs st))" by (simp add: filewise_def same_files_def)
lemma respectful_conj [frame]: "respectful A \<Longrightarrow> respectful B \<Longrightarrow> respectful (\<lambda>st. A st \<and> B st)"
  unfolding respectful_def by blast

lemma same_durable_refl [simp]: "same_durable st st" by (simp add: same_durable_def same_files_def)
lemma same_durable_trans: "same_durable a b \<Longrightarrow> same_durable b c \<Longrightarrow> same_durable a c"
  by (simp add: same_durable_def same_files_def)

lemma quiet_ensures:
  assumes "quiet f" "respectful A"
  shows "ensures A f (\<lambda>_. A) (\<lambda>_. A)"
proof (rule ensuresI)
  fix s v t assume "A s" "f s = (Inr v, t)"
  then show "A t" using assms unfolding quiet_def respectful_def by (metis snd_conv)
next
  fix s e t assume "A s" "f s = (Inl e, t)"
  then show "A t" using assms unfolding quiet_def respectful_def by (metis snd_conv)
qed

named_theorems quieten "operations that leave the durable state alone"

lemma quietI: "(\<And>st r t. f st = (r, t) \<Longrightarrow> same_durable st t) \<Longrightarrow> quiet f"
  unfolding quiet_def by (metis prod.collapse)

lemma quietD: "quiet f \<Longrightarrow> f st = (r, t) \<Longrightarrow> same_durable st t"
  unfolding quiet_def by (metis snd_conv)

lemma quiet_io [quieten]: "quiet io"
  by (rule quietI) (auto simp: io_def same_durable_def same_files_def split: list.splits)
lemma quiet_give [quieten]: "quiet (give v)" by (rule quietI) (simp add: give_def)
lemma quiet_fails [quieten]: "quiet (fails v)" by (rule quietI) (simp add: fails_def)
lemma quiet_look [quieten]: "quiet (look f)" by (rule quietI) (simp add: look_def)
lemma quiet_refuse [quieten]: "quiet (refuse_if b err)" by (rule quietI) (auto simp: run_refuse split: if_splits)
lemma quiet_of_result [quieten]: "quiet (of_result r)" by (rule quietI) (simp add: of_result_def)
lemma quiet_andthen [quieten]:
  assumes "quiet f" "\<And>v. quiet (g v)"
  shows "quiet (andthen f g)"
proof (rule quietI)
  fix st r t
  assume "andthen f g st = (r, t)"
  then show "same_durable st t"
  proof (cases rule: andthen_cases)
    case (err e)
    with assms(1) show ?thesis by (auto dest: quietD)
  next
    case (val v u)
    with assms have "same_durable st u" "same_durable u t" by (auto dest: quietD)
    then show ?thesis by (rule same_durable_trans)
  qed
qed
lemma quiet_attempt [quieten]: "quiet f \<Longrightarrow> quiet (attempt f)"
  by (rule quietI) (auto simp: attempt_def split: prod.splits dest: quietD)
lemma quiet_if [quieten]: "quiet f \<Longrightarrow> quiet g \<Longrightarrow> quiet (if b then f else g)" by simp
lemma quiet_option [quieten]: "quiet f \<Longrightarrow> (\<And>x. quiet (g x)) \<Longrightarrow> quiet (case m of None \<Rightarrow> f | Some x \<Rightarrow> g x)"
  by (cases m) auto
lemma quiet_sum [quieten]: "(\<And>x. quiet (f x)) \<Longrightarrow> (\<And>x. quiet (g x)) \<Longrightarrow> quiet (case m of Inl x \<Rightarrow> f x | Inr x \<Rightarrow> g x)"
  by (cases m) auto
lemma quiet_prod [quieten]: "(\<And>x y. quiet (f x y)) \<Longrightarrow> quiet (case p of (x, y) \<Rightarrow> f x y)" by (cases p) auto
lemma quiet_entry [quieten]:
  "(\<And>s. quiet (f s)) \<Longrightarrow> (\<And>s. quiet (g s)) \<Longrightarrow> (\<And>a b c d. quiet (h a b c d)) \<Longrightarrow> quiet k \<Longrightarrow>
    quiet (case x of HeaderFile s \<Rightarrow> f s | ReceiptFile s \<Rightarrow> g s | PartFile a b c d \<Rightarrow> h a b c d | Unreadable \<Rightarrow> k)"
  by (cases x) auto
lemma quiet_change: "(\<And>st. same_durable st (f st)) \<Longrightarrow> quiet (change f)"
  by (rule quietI) (auto simp: change_def)

lemma quiet_lease: "same_durable st (release_lease ident st)" "same_durable st (uncheck ident st)"
  "same_durable st (release ident st)" "same_durable st (check s st)"
  by (auto simp: release_lease_def uncheck_def release_def check_def
      same_durable_def same_files_def split: option.split prod.split)

lemma quiet_reserve [quieten]: "quiet (reserve e s)"
  by (rule quietI)
     (auto simp: reserve_def take_lease_def release_lease_def same_durable_def same_files_def
       split: if_splits option.splits sum.splits prod.splits)

lemma quiet_reads [quieten]: "quiet (readSealed e ident name)" "quiet (read_header e ident)" "quiet (read_receipt e ident name)"
  "quiet (read_dir ident)"
  unfolding readSealed_def read_header_def read_receipt_def read_dir_def by (intro quieten)+

end
