(* ===== verification/Mobile_Invariant.thy ===== *)
theory Mobile_Invariant
  imports Mobile_Frame
begin

text \<open>
  The invariant of the durable state of mobile uploads, and that every step of the store keeps it also
  when it fails half way: stored headers validate, every receipt vouches for a part that is there with
  its length and hash under the header's key, counters do not claim parts that were never received, and
  no live or queued header is without its marker.
\<close>

section \<open>The invariant\<close>

definition components_of :: "session \<Rightarrow> component list" where
  "components_of s = ps_components (s_spec s)"

definition part_sound :: "(string \<Rightarrow> string) \<Rightarrow> parts_state \<Rightarrow> string \<Rightarrow> session \<Rightarrow> part_receipt \<Rightarrow> bool" where
  "part_sound sha st ident s p \<longleftrightarrow>
     (\<exists>c \<in> set (components_of s). cp_id c = pr_component p \<and> partLength c (pr_index p) = Inr (pr_size p))
     \<and> (\<exists>plain. entry_of ident (part_file_name (pr_component p) (pr_index p)) st
                  = Some (PartFile (s_key s) (pr_component p) (pr_index p) plain)
                \<and> int (length plain) = pr_size p \<and> sha plain = pr_hash p)"

definition receipts_sound :: "(string \<Rightarrow> string) \<Rightarrow> parts_state \<Rightarrow> string \<Rightarrow> session \<Rightarrow> bool" where
  "receipts_sound sha st ident s \<longleftrightarrow>
     (\<forall>name p. entry_of ident name st = Some (ReceiptFile p) \<longrightarrow> part_sound sha st ident s p)"

definition received :: "parts_state \<Rightarrow> string \<Rightarrow> component \<Rightarrow> int set" where
  "received st ident c = {i. 0 \<le> i \<and> i < count c \<and> entry_of ident (receipt_name (cp_id c) i) st \<noteq> None}"

definition fresh :: "int \<Rightarrow> session \<Rightarrow> bool" where
  "fresh now s \<longleftrightarrow> now - instant (s_updated s) < Lifetime"

definition counts_sound :: "int \<Rightarrow> parts_state \<Rightarrow> string \<Rightarrow> session \<Rightarrow> bool" where
  "counts_sound now st ident s \<longleftrightarrow>
     (live s \<and> fresh now s \<longrightarrow>
        (\<forall>c \<in> set (components_of s). cp_received_parts c \<le> int (card (received st ident c))))"

text \<open>The header of an upload that is being processed is live.\<close>

definition busy_live :: "parts_state \<Rightarrow> string \<Rightarrow> session \<Rightarrow> bool" where
  "busy_live st ident s \<longleftrightarrow> (map_of (p_active st) ident \<noteq> None \<longrightarrow> live s)"

definition header_sound :: "(string \<Rightarrow> string) \<Rightarrow> int \<Rightarrow> parts_state \<Rightarrow> string \<Rightarrow> session \<Rightarrow> bool" where
  "header_sound sha now st ident s \<longleftrightarrow>
     validateSession s ident = None \<and> receipts_sound sha st ident s \<and> counts_sound now st ident s
     \<and> busy_live st ident s"

definition header_marked :: "int \<Rightarrow> parts_state \<Rightarrow> string \<Rightarrow> session \<Rightarrow> bool" where
  "header_marked now st ident s \<longleftrightarrow>
     (live s \<longrightarrow> ident \<in> set (p_live st)) \<and> (queued s \<and> fresh now s \<longrightarrow> ident \<in> set (p_queue st))"

lemma active_simps [simp]: "p_active (put_entry k n x st) = p_active st" "p_active (del_entry k n st) = p_active st"
  "p_active (make_dir k st) = p_active st" "p_active (mark ix k on st) = p_active st"
  by (simp_all add: put_entry_def del_entry_def make_dir_def mark_def split: marker_index.split)

lemma busy_live_simps [simp]: "busy_live (put_entry k n x st) = busy_live st" "busy_live (del_entry k n st) = busy_live st"
  "busy_live (make_dir k st) = busy_live st" "busy_live (mark ix k on st) = busy_live st"
  by (simp_all add: busy_live_def fun_eq_iff)

text \<open>Receipts are exactly the files with the receipt suffix, under the name of their part.\<close>

definition dir_shape :: "parts_state \<Rightarrow> string \<Rightarrow> bool" where
  "dir_shape st ident \<longleftrightarrow>
     (\<forall>name x. entry_of ident name st = Some x \<longrightarrow>
        (name = ''session.enc'' \<longrightarrow> (\<exists>s. x = HeaderFile s))
        \<and> (suffix ''.receipt.enc'' name \<longrightarrow>
             (\<exists>p. x = ReceiptFile p \<and> name = receipt_name (pr_component p) (pr_index p)))
        \<and> (\<not> suffix ''.receipt.enc'' name \<longrightarrow> (\<forall>p. x \<noteq> ReceiptFile p)))"

definition dir_sound :: "(string \<Rightarrow> string) \<Rightarrow> int \<Rightarrow> parts_state \<Rightarrow> string \<Rightarrow> bool" where
  "dir_sound sha now st ident \<longleftrightarrow> dir_shape st ident
     \<and> (case header ident st of
          None \<Rightarrow> (\<forall>name p. entry_of ident name st \<noteq> Some (ReceiptFile p)) \<and> map_of (p_active st) ident = None
        | Some s \<Rightarrow> header_sound sha now st ident s \<and> header_marked now st ident s)"

definition temp_name :: "string \<Rightarrow> bool" where
  "temp_name n \<longleftrightarrow> (\<exists>k. n = ''.incoming-'' @ show_nat k)"

definition receiver_sound :: "(string \<Rightarrow> string) \<Rightarrow> parts_state \<Rightarrow> receiver \<Rightarrow> bool" where
  "receiver_sound sha st r \<longleftrightarrow> cp_id (rc_component r) \<in> part_ids \<and> 0 \<le> rc_index r \<and> rc_no r < p_next_receiver st
     \<and> (\<forall>n. rc_name r = Some n \<longrightarrow> temp_name n \<and>
          (\<forall>x. entry_of (rc_session r) n st = Some x \<longrightarrow>
             (\<exists>plain. x = PartFile (s_key (rc_header r)) (cp_id (rc_component r)) (rc_index r) plain
                      \<and> int (length plain) = rc_length r \<and> sha plain = rc_hash r)))"

definition parts_ok :: "(string \<Rightarrow> string) \<Rightarrow> int \<Rightarrow> parts_state \<Rightarrow> bool" where
  "parts_ok sha now st \<longleftrightarrow> (\<forall>ident. dir_sound sha now st ident)
     \<and> (\<forall>r \<in> set (p_receivers st). receiver_sound sha st r) \<and> distinct (map rc_no (p_receivers st))"

section \<open>Names and validated headers\<close>

lemma temp_name_facts:
  assumes "temp_name n"
  shows "prefix ''.incoming-'' n" "\<not> suffix ''.receipt.enc'' n" "\<not> suffix ''.wza'' n" "n \<noteq> ''session.enc''"
    "disposable n"
proof -
  obtain k where n: "n = ''.incoming-'' @ show_nat k" using assms by (auto simp: temp_name_def)
  have d: "digit m \<noteq> CHR ''c'' \<and> digit m \<noteq> CHR ''a''" if "m < 10" for m
  proof -
    from that have "m \<in> set [0..<10]" by simp
    moreover have "list_all (\<lambda>m. digit m \<noteq> CHR ''c'' \<and> digit m \<noteq> CHR ''a'') [0..<10]" by code_simp
    ultimately show ?thesis by (simp add: list_all_iff)
  qed
  have "show_nat k \<noteq> [] \<and> last (show_nat k) \<noteq> CHR ''c'' \<and> last (show_nat k) \<noteq> CHR ''a''"
    by (subst (1 2 3) show_nat.simps) (auto simp: d)
  then have l: "last n \<noteq> CHR ''c''" "last n \<noteq> CHR ''a''" using n by auto
  show p: "prefix ''.incoming-'' n" using n by simp
  show "\<not> suffix ''.receipt.enc'' n" "\<not> suffix ''.wza'' n" "n \<noteq> ''session.enc''"
    using l by (auto simp: suffix_def)
  show "disposable n" using p by (simp add: disposable_def)
qed

lemma normalize_components_sane:
  "normalize_components acc seen cs = Some cs' \<Longrightarrow> 0 \<le> acc \<Longrightarrow> acc \<le> max_part_bytes \<Longrightarrow>
     list_all sane_component cs \<and> distinct (map cp_id cs) \<and> set (map cp_id cs) \<inter> set seen = {}
     \<and> acc + sum_list (map cp_size cs) \<le> max_part_bytes
     \<and> map cp_id cs' = map cp_id cs \<and> map cp_size cs' = map cp_size cs"
proof (induction acc seen cs arbitrary: cs' rule: normalize_components.induct)
  case (1 acc seen)
  then show ?case by (auto split: if_splits)
next
  case (2 acc seen c cs)
  let ?bad = "(cp_id c \<noteq> ''original'' \<and> cp_id c \<noteq> ''motion'') \<or> cp_id c \<in> set seen \<or> cp_size c < 0
         \<or> cp_size c > max_part_bytes \<or> \<not> validHash (cp_sha256 c) \<or> acc > max_part_bytes - cp_size c"
  from "2.prems"(1) have ok: "\<not> ?bad" by (metis normalize_components.simps(2) option.distinct(1))
  with "2.prems"(1) obtain ds
    where ds: "normalize_components (acc + cp_size c) (cp_id c # seen) cs = Some ds"
      "cs' = clear_counters (c\<lparr>cp_sha256 := to_lower (cp_sha256 c)\<rparr>) # ds"
    unfolding normalize_components.simps(2) if_not_P [OF ok] by blast
  from ok have c: "sane_component c" "cp_id c \<notin> set seen" "0 \<le> cp_size c" "acc + cp_size c \<le> max_part_bytes"
    unfolding sane_component_def by linarith+
  have "list_all sane_component cs \<and> distinct (map cp_id cs)
     \<and> set (map cp_id cs) \<inter> set (cp_id c # seen) = {}
     \<and> acc + cp_size c + sum_list (map cp_size cs) \<le> max_part_bytes
     \<and> map cp_id ds = map cp_id cs \<and> map cp_size ds = map cp_size cs"
    by (rule "2.IH" [OF ok ds(1)]) (use c "2.prems"(2) in linarith)+
  with c ds(2) show ?case by (simp add: clear_counters_def)
qed
lemma validate_facts:
  assumes "validateSession s ident = None"
  shows "s_id s = ident" "validID ident" "list_all sane_component (components_of s)"
    "distinct (map cp_id (components_of s))" "list_all counters_ok (components_of s)" "known_status (s_status s)"
    "0 \<le> s_attempts s" "s_attempts s \<le> 3"
proof -
  from assms obtain n where n: "normalize (s_spec s) = Inr n"
    unfolding validateSession_def by (cases "normalize (s_spec s)") (simp_all split: if_split_asm)
  then obtain cs where "normalize_components 0 [] (components_of s) = Some cs"
    unfolding normalize_def components_of_def by (simp split: if_split_asm option.split_asm)
  from normalize_components_sane [OF this] have "list_all sane_component (components_of s)
    \<and> distinct (map cp_id (components_of s))" by (simp add: max_part_bytes_def max_int64_def)
  then show "list_all sane_component (components_of s)"
    "distinct (map cp_id (components_of s))" by auto
  show "s_id s = ident" "validID ident" "list_all counters_ok (components_of s)" "known_status (s_status s)"
    "0 \<le> s_attempts s" "s_attempts s \<le> 3"
    using assms unfolding validateSession_def components_of_def
    by (simp_all split: if_split_asm option.split_asm)
qed

lemma sane_id: "sane_component c \<Longrightarrow> cp_id c \<in> part_ids" "sane_component c \<Longrightarrow> 0 \<le> cp_size c"
  by (auto simp: sane_component_def part_ids_def)

lemma part_sound_facts:
  assumes "part_sound sha st ident s p" "list_all sane_component (components_of s)"
  shows "pr_component p \<in> part_ids" "0 \<le> pr_index p"
proof -
  obtain c where "c \<in> set (components_of s)" "cp_id c = pr_component p" "partLength c (pr_index p) = Inr (pr_size p)"
    using assms(1) by (auto simp: part_sound_def)
  then show "pr_component p \<in> part_ids" "0 \<le> pr_index p"
    using assms(2) sane_id [of c] partLength_Inr(1) [of c "pr_index p" "pr_size p"] by (auto simp: list_all_iff)
qed

lemma parts_ok_later: "parts_ok sha now st \<Longrightarrow> now \<le> later \<Longrightarrow> parts_ok sha later st"
  unfolding parts_ok_def dir_sound_def header_sound_def header_marked_def counts_sound_def fresh_def
  by (fastforce split: option.splits)

lemma received_finite: "finite (received st ident c)"
  by (rule finite_subset [of _ "{0..count c}"]) (auto simp: received_def)

lemma received_full:
  assumes "0 \<le> cp_size c" "count c \<le> int (card (received st ident c))"
  shows "received st ident c = {0..<count c}"
proof (rule card_subset_eq)
  show "received st ident c \<subseteq> {0..<count c}" by (auto simp: received_def)
  then have "card (received st ident c) \<le> nat (count c)" using card_mono [of "{0..<count c}"] by fastforce
  with assms show "card (received st ident c) = card {0..<count c}" by simp
qed simp

section \<open>The invariant looks only at the durable state\<close>

lemma entry_of_durable: "same_durable st st' \<Longrightarrow> entry_of k n st' = entry_of k n st"
  by (simp add: same_durable_def entry_of_files)

lemma parts_ok_respectful [frame]: "respectful (parts_ok sha now)"
proof -
  have "dir_sound sha now st' ident = dir_sound sha now st ident \<and> (receiver_sound sha st' r = receiver_sound sha st r)"
    if "same_durable st st'" for st st' ident r
  proof -
    from that have e: "entry_of k n st' = entry_of k n st" for k n by (rule entry_of_durable)
    then have h: "header k st' = header k st" for k by (simp add: header_def)
    from that show ?thesis
      by (simp add: dir_sound_def dir_shape_def h e header_sound_def header_marked_def receipts_sound_def
          part_sound_def counts_sound_def received_def busy_live_def receiver_sound_def same_durable_def same_files_def
          split: option.split)
  qed
  then show ?thesis
    unfolding respectful_def parts_ok_def
    by (metis same_durable_def same_files_def)
qed

end
