(* ===== verification/Mobile_Rules.thy ===== *)
theory Mobile_Rules
  imports Mobile_Invariant
begin

text \<open>
  Hoare rules of the store of mobile uploads: markers, sealed headers, saving, counting receipts. Each
  says what holds when the step succeeds and that the invariant holds also when it fails.
\<close>

section \<open>Headers and markers\<close>

lemma ensures_quietly:
  "quiet f \<Longrightarrow> respectful P \<Longrightarrow> (\<And>v s. P s \<Longrightarrow> Q v s) \<Longrightarrow> (\<And>x s. P s \<Longrightarrow> E x s) \<Longrightarrow> ensures P f Q E"
  by (rule ensures_weaken [OF quiet_ensures])

lemma respectful_header: "respectful (\<lambda>st. Q (header k st))"
  by (rule filewise_respectful [OF filewise_header])

lemma header_put_header [simp]: "header k (put_entry ident ''session.enc'' (HeaderFile s) st) = (if k = ident then Some s else header k st)"
  by (auto simp: header_def entry_of_put)

lemma put_header_sound:
  assumes ok: "parts_ok sha now st" and s: "header_sound sha now st ident s" and m: "header_marked now st ident s"
  shows "parts_ok sha now (put_entry ident ''session.enc'' (HeaderFile s) st)"
proof -
  let ?st = "put_entry ident ''session.enc'' (HeaderFile s) st"
  have other: "entry_of k n ?st = entry_of k n st" if "n \<noteq> ''session.enc'' \<or> k \<noteq> ident" for k n
    using that by (auto simp: entry_of_put)
  have rec: "entry_of k n ?st = Some (ReceiptFile p) \<longleftrightarrow> entry_of k n st = Some (ReceiptFile p)" for k n p
  proof -
    have "dir_shape st k" using ok by (simp add: parts_ok_def dir_sound_def)
    then have "entry_of k ''session.enc'' st \<noteq> Some (ReceiptFile p)"
      unfolding dir_shape_def by blast
    then show ?thesis by (auto simp: entry_of_put)
  qed
  have part: "part_sound sha ?st k t p = part_sound sha st k t p" for k t p
    unfolding part_sound_def by (simp add: other name_neqs)
  have received: "received ?st k c = received st k c" for k c
    unfolding received_def by (simp add: other name_neqs)
  have head: "header_sound sha now ?st k t = header_sound sha now st k t" for k t
    unfolding header_sound_def receipts_sound_def counts_sound_def rec part received busy_live_simps ..
  have marked: "header_marked now ?st k t = header_marked now st k t" for k t
    by (simp add: header_marked_def put_entry_def)
  have shape: "dir_shape ?st k" for k
    using ok unfolding parts_ok_def dir_sound_def dir_shape_def
    by (auto simp: entry_of_put suffix_def split: if_splits)
  have "dir_sound sha now ?st k" for k
  proof (cases "k = ident")
    case True
    with s m show ?thesis by (simp add: dir_sound_def shape head marked)
  next
    case False
    from ok have "dir_sound sha now st k" by (simp add: parts_ok_def)
    with False show ?thesis
      by (cases "header k st") (simp_all add: dir_sound_def shape head marked rec)
  qed
  moreover have "receiver_sound sha ?st r = receiver_sound sha st r" for r
    unfolding receiver_sound_def using temp_name_facts(4) other by (auto simp: put_entry_def)
  moreover have "p_receivers ?st = p_receivers st" by (simp add: put_entry_def)
  ultimately show ?thesis using ok by (simp add: parts_ok_def)
qed

lemma same_files_mark: "same_files st (mark ix ident on st)"
  by (auto simp: mark_def same_files_def split: marker_index.split)

text \<open>A marker may be set at any time, and removed when the header on disk does not need it.\<close>

definition dispensable :: "int \<Rightarrow> marker_index \<Rightarrow> string \<Rightarrow> parts_state \<Rightarrow> bool" where
  "dispensable now ix ident st \<longleftrightarrow>
     (case header ident st of
        None \<Rightarrow> True
      | Some s \<Rightarrow> (case ix of LiveIndex \<Rightarrow> \<not> live s | QueueIndex \<Rightarrow> \<not> (queued s \<and> fresh now s)))"

lemma dispensable_filewise [frame]: "filewise (dispensable now ix ident)"
  unfolding dispensable_def by (rule filewise_header)

lemma mark_keeps:
  assumes "parts_ok sha now st" "on \<or> dispensable now ix ident st"
  shows "parts_ok sha now (mark ix ident on st)"
proof -
  have f: "same_files st (mark ix ident on st)" by (rule same_files_mark)
  note e = entry_of_files [OF f] header_files [OF f]
  have r: "p_receivers (mark ix ident on st) = p_receivers st" "p_next_receiver (mark ix ident on st) = p_next_receiver st"
    using f by (simp_all add: same_files_def)
  have "header_marked now (mark ix ident on st) k s" if "header k st = Some s" "header_marked now st k s" for k s
    using that assms(2) unfolding header_marked_def mark_def dispensable_def
    by (auto split: marker_index.splits option.splits)
  moreover have "dir_shape (mark ix ident on st) k = dir_shape st k" for k
    unfolding dir_shape_def e ..
  moreover have "header_sound sha now (mark ix ident on st) k s = header_sound sha now st k s" for k s
    unfolding header_sound_def receipts_sound_def part_sound_def counts_sound_def received_def e busy_live_simps ..
  moreover have "dir_sound sha now st k" for k using assms(1) by (simp add: parts_ok_def)
  ultimately have "dir_sound sha now (mark ix ident on st) k" for k
  proof -
    assume m: "\<And>k s. header k st = Some s \<Longrightarrow> header_marked now st k s \<Longrightarrow> header_marked now (mark ix ident on st) k s"
      and sh: "\<And>k. dir_shape (mark ix ident on st) k = dir_shape st k"
      and h: "\<And>k s. header_sound sha now (mark ix ident on st) k s = header_sound sha now st k s"
      and d: "\<And>k. dir_sound sha now st k"
    show ?thesis
      using d [of k] m [of k] unfolding dir_sound_def e sh h by (cases "header k st") auto
  qed
  moreover have "receiver_sound sha (mark ix ident on st) x = receiver_sound sha st x" for x
    unfolding receiver_sound_def e r ..
  ultimately show ?thesis using assms(1) by (simp add: parts_ok_def r)
qed

lemma setMarker_rule:
  assumes resp_A: "respectful A" and mark_A: "\<And>st. A st \<Longrightarrow> A (mark ix ident on st)"
  shows "ensures (\<lambda>st. parts_ok sha now st \<and> A st \<and> (on \<or> dispensable now ix ident st)) (setMarker ix ident on)
     (\<lambda>_ st. parts_ok sha now st \<and> A st \<and> marked ix ident st = on) (\<lambda>_ st. parts_ok sha now st \<and> A st)"
  unfolding setMarker_def
proof (rule ensures_andthen)
  let ?P = "\<lambda>st. parts_ok sha now st \<and> A st \<and> (on \<or> dispensable now ix ident st)"
  have resp: "respectful ?P"
    using resp_A filewise_respectful [OF dispensable_filewise]
    unfolding respectful_def by (metis (no_types, lifting) parts_ok_respectful respectful_def)
  show "ensures ?P io (\<lambda>_. ?P) (\<lambda>_ st. parts_ok sha now st \<and> A st)"
    by (rule ensures_weaken [OF quiet_ensures [OF quiet_io resp]]) auto
  have io2: "ensures (\<lambda>st. parts_ok sha now st \<and> A st \<and> marked ix ident st = on) io
      (\<lambda>_ st. parts_ok sha now st \<and> A st \<and> marked ix ident st = on) (\<lambda>_ st. parts_ok sha now st \<and> A st)"
  proof (rule ensures_weaken [OF quiet_ensures [OF quiet_io]])
    have "respectful (\<lambda>st. marked ix ident st = on)"
      by (auto simp: respectful_def same_durable_def marked_def split: marker_index.splits)
    then show "respectful (\<lambda>st. parts_ok sha now st \<and> A st \<and> marked ix ident st = on)"
      by (rule respectful_conj [OF parts_ok_respectful respectful_conj [OF resp_A]])
  qed auto
  have mk: "parts_ok sha now (mark ix ident on st) \<and> A (mark ix ident on st) \<and> marked ix ident (mark ix ident on st) = on"
    if "?P st" for st
    using that mark_A mark_keeps [of sha now st on ix ident]
    by (auto simp: mark_def marked_def split: marker_index.split)
  show "ensures ?P (andthen (look (marked ix ident)) (\<lambda>present. if present = on then give ()
          else andthen (change (mark ix ident on)) (\<lambda>_. andthen io (\<lambda>_. io))))
      (\<lambda>_ st. parts_ok sha now st \<and> A st \<and> marked ix ident st = on) (\<lambda>_ st. parts_ok sha now st \<and> A st)" for v
  proof (rule ensures_andthen [where R = "\<lambda>present st. ?P st \<and> present = marked ix ident st"])
    show "ensures ?P (look (marked ix ident)) (\<lambda>present st. ?P st \<and> present = marked ix ident st) (\<lambda>_ st. parts_ok sha now st \<and> A st)"
      by (rule ensures_look) simp
    fix present
    show "ensures (\<lambda>st. ?P st \<and> present = marked ix ident st) (if present = on then give ()
          else andthen (change (mark ix ident on)) (\<lambda>_. andthen io (\<lambda>_. io)))
      (\<lambda>_ st. parts_ok sha now st \<and> A st \<and> marked ix ident st = on) (\<lambda>_ st. parts_ok sha now st \<and> A st)"
    proof (cases "present = on")
      case True
      then show ?thesis by (auto intro!: ensures_give)
    next
      case False
      have "ensures (\<lambda>st. ?P st \<and> present = marked ix ident st) (change (mark ix ident on))
          (\<lambda>_ st. parts_ok sha now st \<and> A st \<and> marked ix ident st = on) (\<lambda>_ st. parts_ok sha now st \<and> A st)"
        by (rule ensures_change) (use mk in blast)
      then show ?thesis
        using False by (simp, intro ensures_andthen [OF _ ensures_andthen [OF io2]] io2)
    qed
  qed
qed


lemma filewise_mark: "filewise A \<Longrightarrow> A st \<Longrightarrow> A (mark ix ident on st)"
  using same_files_mark unfolding filewise_def by blast

lemma setMarker_filewise:
  assumes "filewise A"
  shows "ensures (\<lambda>st. parts_ok sha now st \<and> A st \<and> (on \<or> dispensable now ix ident st)) (setMarker ix ident on)
     (\<lambda>_ st. parts_ok sha now st \<and> A st \<and> marked ix ident st = on) (\<lambda>_ st. parts_ok sha now st \<and> A st)"
  by (rule setMarker_rule [OF filewise_respectful [OF assms] filewise_mark [OF assms]])

lemma addSessionMarkers_rule:
  assumes "filewise A"
  shows "ensures (\<lambda>st. parts_ok sha now st \<and> A st) (addSessionMarkers s)
     (\<lambda>_ st. parts_ok sha now st \<and> A st \<and> header_marked now st (s_id s) s) (\<lambda>_ st. parts_ok sha now st)"
  unfolding addSessionMarkers_def
proof (rule ensures_andthen)
  let ?B = "\<lambda>st. A st \<and> (live s \<longrightarrow> s_id s \<in> set (p_live st))"
  show "ensures (\<lambda>st. parts_ok sha now st \<and> A st) (if live s then setMarker LiveIndex (s_id s) True else give ())
     (\<lambda>_ st. parts_ok sha now st \<and> ?B st) (\<lambda>_ st. parts_ok sha now st)"
  proof (cases "live s")
    case True
    then show ?thesis
      using ensures_weaken [OF setMarker_filewise [OF assms, of sha now True LiveIndex "s_id s"]]
      by (auto simp: marked_def)
  qed (auto intro!: ensures_give)
  have resp: "respectful ?B"
    using filewise_respectful [OF assms] by (auto simp: respectful_def same_durable_def)
  have mk: "?B (mark QueueIndex k on st)" if "?B st" for st k on
    using that filewise_mark [OF assms, of st QueueIndex k on]
    by (simp add: mark_def)
  show "ensures (\<lambda>st. parts_ok sha now st \<and> ?B st) (if queued s then setMarker QueueIndex (s_id s) True else give ())
     (\<lambda>_ st. parts_ok sha now st \<and> A st \<and> header_marked now st (s_id s) s) (\<lambda>_ st. parts_ok sha now st)" for v
  proof (cases "queued s")
    case True
    then show ?thesis
      using ensures_weaken [OF setMarker_rule [of ?B QueueIndex "s_id s" True, OF resp mk, of sha now]]
      by (auto simp: marked_def header_marked_def)
  qed (auto intro!: ensures_give simp: header_marked_def)
qed

lemma syncSessionMarkers_rule:
  assumes "filewise A" "\<And>st. A st \<Longrightarrow> header (s_id s) st = Some s"
  shows "ensures (\<lambda>st. parts_ok sha now st \<and> A st) (syncSessionMarkers s)
     (\<lambda>_ st. parts_ok sha now st \<and> A st) (\<lambda>_ st. parts_ok sha now st \<and> A st)"
  unfolding syncSessionMarkers_def
  by (rule ensures_andthen [where R = "\<lambda>_ st. parts_ok sha now st \<and> A st"];
      rule ensures_weaken [OF setMarker_filewise [OF assms(1)]])
     (auto simp: dispensable_def dest: assms(2))

lemma header_sound_filewise [frame]: "filewise (\<lambda>st. header_sound sha now st ident s)"
  unfolding filewise_def header_sound_def receipts_sound_def part_sound_def counts_sound_def received_def busy_live_def
  by (simp add: entry_of_files) (simp add: same_files_def)

lemma writeHeader_rule:
  "ensures (\<lambda>st. parts_ok sha now st \<and> header_sound sha now st ident s \<and> header_marked now st ident s)
     (writeSealed e ident ''session.enc'' (HeaderFile s))
     (\<lambda>_ st. parts_ok sha now st \<and> header ident st = Some s) (\<lambda>_ st. parts_ok sha now st)"
  unfolding writeSealed_def
proof (intro ensures_andthen)
  let ?P = "\<lambda>st. parts_ok sha now st \<and> header_sound sha now st ident s \<and> header_marked now st ident s"
  have "respectful (\<lambda>st. header_marked now st ident s)"
    unfolding respectful_def header_marked_def by (simp add: same_durable_def)
  with filewise_respectful [OF header_sound_filewise]
  have resp: "respectful ?P" by (intro respectful_conj parts_ok_respectful)
  show "ensures ?P (refuse_if (\<not> e_unlocked e) ErrLocked) (\<lambda>_. ?P) (\<lambda>_ st. parts_ok sha now st)"
    by (rule ensures_refuse) auto
  show "ensures ?P io (\<lambda>_. ?P) (\<lambda>_ st. parts_ok sha now st)"
    by (rule ensures_weaken [OF quiet_ensures [OF quiet_io resp]]) auto
  show "ensures ?P (change (put_entry ident ''session.enc'' (HeaderFile s)))
     (\<lambda>_ st. parts_ok sha now st \<and> header ident st = Some s) (\<lambda>_ st. parts_ok sha now st)"
    by (rule ensures_change) (simp add: put_header_sound)
  show "ensures (\<lambda>st. parts_ok sha now st \<and> header ident st = Some s) io
     (\<lambda>_ st. parts_ok sha now st \<and> header ident st = Some s) (\<lambda>_ st. parts_ok sha now st)"
    by (rule ensures_quietly [OF quiet_io respectful_conj [OF parts_ok_respectful respectful_header]]) auto
qed

lemma persist_rule:
  "ensures (\<lambda>st. parts_ok sha now st \<and> header_sound sha now st (s_id s) s) (persist e s)
     (\<lambda>_ st. parts_ok sha now st \<and> header (s_id s) st = Some s) (\<lambda>_ st. parts_ok sha now st)"
  unfolding persist_def
proof (rule ensures_andthen [OF addSessionMarkers_rule [OF header_sound_filewise]])
  let ?H = "\<lambda>st. header (s_id s) st = Some s"
  have fH: "filewise ?H" by (rule filewise_header)
  have resp: "respectful (\<lambda>st. parts_ok sha now st \<and> ?H st)"
    by (intro respectful_conj parts_ok_respectful filewise_respectful fH)
  show "ensures (\<lambda>st. parts_ok sha now st \<and> header_sound sha now st (s_id s) s \<and> header_marked now st (s_id s) s)
     (andthen (attempt (andthen (writeSealed e (s_id s) ''session.enc'' (HeaderFile s)) (\<lambda>_. syncSessionMarkers s)))
        (\<lambda>r. case r of Inl err \<Rightarrow> andthen (change (uncheck (s_id s))) (\<lambda>_. fails err) | Inr _ \<Rightarrow> change (check s)))
     (\<lambda>_ st. parts_ok sha now st \<and> ?H st) (\<lambda>_ st. parts_ok sha now st)" for v
  proof (rule ensures_andthen [where R = "\<lambda>r st. parts_ok sha now st \<and> (case r of Inl _ \<Rightarrow> True | Inr _ \<Rightarrow> ?H st)"])
    have sync: "ensures (\<lambda>st. parts_ok sha now st \<and> ?H st) (syncSessionMarkers s)
        (\<lambda>_ st. parts_ok sha now st \<and> ?H st) (\<lambda>_ st. parts_ok sha now st)"
      by (rule ensures_weaken [OF syncSessionMarkers_rule [OF fH]]) auto
    show "ensures (\<lambda>st. parts_ok sha now st \<and> header_sound sha now st (s_id s) s \<and> header_marked now st (s_id s) s)
       (attempt (andthen (writeSealed e (s_id s) ''session.enc'' (HeaderFile s)) (\<lambda>_. syncSessionMarkers s)))
       (\<lambda>r st. parts_ok sha now st \<and> (case r of Inl _ \<Rightarrow> True | Inr _ \<Rightarrow> ?H st)) (\<lambda>_ st. parts_ok sha now st)"
      by (rule ensures_attempt) (use ensures_andthen [OF writeHeader_rule sync] in simp)
    fix r :: "parts_error + unit"
    show "ensures (\<lambda>st. parts_ok sha now st \<and> (case r of Inl _ \<Rightarrow> True | Inr _ \<Rightarrow> ?H st))
      (case r of Inl err \<Rightarrow> andthen (change (uncheck (s_id s))) (\<lambda>_. fails err) | Inr _ \<Rightarrow> change (check s))
      (\<lambda>_ st. parts_ok sha now st \<and> ?H st) (\<lambda>_ st. parts_ok sha now st)"
    proof (cases r)
      case (Inl err)
      have "quiet (andthen (change (uncheck (s_id s))) (\<lambda>_. fails err :: unit parts))"
        by (intro quieten quiet_change quiet_lease)
      from ensures_quietly [OF this parts_ok_respectful, where E = "\<lambda>_ st. parts_ok sha now st"] Inl
      show ?thesis by (auto simp: ensures_def andthen_def change_def fails_def)
    next
      case (Inr u)
      have "quiet (change (check s))" by (intro quiet_change quiet_lease)
      from ensures_quietly [OF this resp] Inr show ?thesis by simp
    qed
  qed
qed


section \<open>Saving a header\<close>

lemma valid_iff:
  "validateSession s ident = None \<longleftrightarrow> s_version s = 1 \<and> validID ident \<and> s_id s = ident \<and> validID (s_owner s)
     \<and> \<not> is_zero (s_created s) \<and> \<not> is_zero (s_updated s) \<and> 0 \<le> s_attempts s \<and> s_attempts s \<le> 3
     \<and> (\<exists>n. normalize (s_spec s) = Inr n) \<and> list_all counters_ok (components_of s)
     \<and> (\<exists>k. B64d (s_key s) = Some k \<and> length k = 32) \<and> known_status (s_status s)"
  unfolding validateSession_def components_of_def
  by (cases "normalize (s_spec s)"; cases "B64d (s_key s)") (auto split: if_splits)

definition stamped :: "surroundings \<Rightarrow> session \<Rightarrow> session" where
  "stamped e s = s\<lparr>s_updated := to_utc (e_now e)\<rparr>"

lemma stamped_simps [simp]:
  "s_id (stamped e s) = s_id s" "s_spec (stamped e s) = s_spec s" "components_of (stamped e s) = components_of s"
  "s_key (stamped e s) = s_key s" "s_status (stamped e s) = s_status s" "live (stamped e s) = live s"
  "queued (stamped e s) = queued s" "instant (s_updated (stamped e s)) = instant (e_now e)"
  "s_owner (stamped e s) = s_owner s" "s_created (stamped e s) = s_created s"
  by (simp_all add: stamped_def components_of_def live_def queued_def)

lemma save_rule:
  "ensures (\<lambda>st. parts_ok sha now st \<and> header_sound sha now st (s_id s) (stamped e s)) (save e s)
     (\<lambda>v st. parts_ok sha now st \<and> header (s_id s) st = Some (stamped e s) \<and> v = stamped e s)
     (\<lambda>_ st. parts_ok sha now st)"
  unfolding save_def Let_def stamped_def [symmetric]
proof (rule ensures_andthen [where R = "\<lambda>_ st. parts_ok sha now st \<and> header (s_id s) st = Some (stamped e s)"])
  show "ensures (\<lambda>st. parts_ok sha now st \<and> header_sound sha now st (s_id s) (stamped e s)) (persist e (stamped e s))
     (\<lambda>_ st. parts_ok sha now st \<and> header (s_id s) st = Some (stamped e s)) (\<lambda>_ st. parts_ok sha now st)"
    using persist_rule [of sha now "stamped e s" e] by simp
  have resp: "respectful (\<lambda>st. parts_ok sha now st \<and> header (s_id s) st = Some (stamped e s))"
    by (intro respectful_conj parts_ok_respectful respectful_header)
  show "ensures (\<lambda>st. parts_ok sha now st \<and> header (s_id s) st = Some (stamped e s))
      (andthen (reserve e (stamped e s)) (\<lambda>_. give (stamped e s)))
     (\<lambda>v st. parts_ok sha now st \<and> header (s_id s) st = Some (stamped e s) \<and> v = stamped e s)
     (\<lambda>_ st. parts_ok sha now st)" for v
  proof (rule ensures_andthen [where R = "\<lambda>_ st. parts_ok sha now st \<and> header (s_id s) st = Some (stamped e s)"])
    show "ensures (\<lambda>st. parts_ok sha now st \<and> header (s_id s) st = Some (stamped e s)) (reserve e (stamped e s))
       (\<lambda>_ st. parts_ok sha now st \<and> header (s_id s) st = Some (stamped e s)) (\<lambda>_ st. parts_ok sha now st)"
      by (rule ensures_quietly [OF quiet_reserve resp]) auto
  qed (auto intro!: ensures_give)
qed

section \<open>Counting receipts\<close>

definition recount :: "parts_state \<Rightarrow> string \<Rightarrow> component \<Rightarrow> component" where
  "recount st ident c = c\<lparr>cp_received_parts := int (card (received st ident c)),
     cp_received_bytes := (\<Sum>i \<in> received st ident c. part_len c i)\<rparr>"

definition named_in :: "string list \<Rightarrow> component \<Rightarrow> int set" where
  "named_in names c = {i. 0 \<le> i \<and> i < count c \<and> receipt_name (cp_id c) i \<in> set names}"

definition add_named :: "string list \<Rightarrow> component \<Rightarrow> component" where
  "add_named names c = c\<lparr>cp_received_parts := cp_received_parts c + int (card (named_in names c)),
     cp_received_bytes := cp_received_bytes c + (\<Sum>i \<in> named_in names c. part_len c i)\<rparr>"

lemma named_in_finite: "finite (named_in names c)"
  by (rule finite_subset [of _ "{0..count c}"]) (auto simp: named_in_def)

lemma count_update [simp]:
  "count (c\<lparr>cp_received_parts := a, cp_received_bytes := b\<rparr>) = count c"
  "partLength (c\<lparr>cp_received_parts := a, cp_received_bytes := b\<rparr>) = partLength c"
  "part_len (c\<lparr>cp_received_parts := a, cp_received_bytes := b\<rparr>) = part_len c"
  "named_in names (c\<lparr>cp_received_parts := a, cp_received_bytes := b\<rparr>) = named_in names c"
  by (simp_all add: count_def partLength_def part_len_def named_in_def fun_eq_iff)

lemma count_receipt_Some:
  assumes "count_receipt stored name p found cs = Some cs'"
  shows "cs' = map (\<lambda>c. if cp_id c = pr_component p
             then c\<lparr>cp_received_parts := cp_received_parts c + 1, cp_received_bytes := cp_received_bytes c + pr_size p\<rparr>
             else c) cs"
    and "found \<or> pr_component p \<in> cp_id ` set cs"
    and "c \<in> set cs \<Longrightarrow> cp_id c = pr_component p \<Longrightarrow> partLength c (pr_index p) = Inr (pr_size p) \<and> stored
           \<and> name = receipt_name (pr_component p) (pr_index p)"
proof -
  have "cs' = map (\<lambda>c. if cp_id c = pr_component p
             then c\<lparr>cp_received_parts := cp_received_parts c + 1, cp_received_bytes := cp_received_bytes c + pr_size p\<rparr>
             else c) cs
      \<and> (found \<or> pr_component p \<in> cp_id ` set cs)
      \<and> (\<forall>c \<in> set cs. cp_id c = pr_component p \<longrightarrow> partLength c (pr_index p) = Inr (pr_size p) \<and> stored
           \<and> name = receipt_name (pr_component p) (pr_index p))"
    using assms
  proof (induction cs arbitrary: cs' found)
    case (Cons c cs)
    show ?case
    proof (cases "cp_id c = pr_component p")
      case True
      with Cons.prems obtain ds where ds: "count_receipt stored name p True cs = Some ds"
        and c: "partLength c (pr_index p) = Inr (pr_size p)" "stored" "name = receipt_name (pr_component p) (pr_index p)"
          "cs' = c\<lparr>cp_received_parts := cp_received_parts c + 1, cp_received_bytes := cp_received_bytes c + pr_size p\<rparr> # ds"
        by (auto split: sum.splits if_splits)
      from Cons.IH [OF ds] c True show ?thesis by simp
    next
      case False
      with Cons.prems obtain ds where "count_receipt stored name p found cs = Some ds" "cs' = c # ds" by auto
      from Cons.IH [OF this(1)] this(2) False show ?thesis by auto
    qed
  qed (auto split: if_splits)
  then show "cs' = map (\<lambda>c. if cp_id c = pr_component p
             then c\<lparr>cp_received_parts := cp_received_parts c + 1, cp_received_bytes := cp_received_bytes c + pr_size p\<rparr>
             else c) cs"
    "found \<or> pr_component p \<in> cp_id ` set cs"
    "c \<in> set cs \<Longrightarrow> cp_id c = pr_component p \<Longrightarrow> partLength c (pr_index p) = Inr (pr_size p) \<and> stored
           \<and> name = receipt_name (pr_component p) (pr_index p)" by auto
qed

lemma reconcile_names_Inr:
  assumes "reconcile_names e ident names cs st = (Inr cs', t)" "distinct names" "list_all (\<lambda>c. cp_id c \<in> part_ids) cs"
    "list_all (\<lambda>c. 0 \<le> cp_size c) cs"
  shows "cs' = map (add_named names) cs"
  using assms
proof (induction names arbitrary: cs cs' st t)
  case Nil
  have "add_named [] c = c" for c by (simp add: add_named_def named_in_def)
  with Nil show ?case by (simp add: give_def map_idI)
next
  case (Cons name names)
  show ?case
  proof (cases "suffix ''.receipt.enc'' name")
    case False
    have "named_in (name # names) c = named_in names c" for c
      using False receipt_suffix(1) by (auto simp: named_in_def)
    then have "add_named (name # names) = add_named names" by (simp add: add_named_def fun_eq_iff)
    with Cons False show ?thesis by simp
  next
    case True
    from Cons.prems(1) True obtain p u b cs1
      where c1: "count_receipt b name p False cs = Some cs1"
      and rest: "reconcile_names e ident names cs1 u = (Inr cs', t)"
    proof -
      from Cons.prems(1) True obtain p u where
        "(case count_receipt (entry_of ident (part_file_name (pr_component p) (pr_index p)) u \<noteq> None) name p False cs of
            None \<Rightarrow> fails ErrCorrupt | Some cs' \<Rightarrow> reconcile_names e ident names cs') u = (Inr cs', t)"
        by (auto simp: andthen_Inr_iff look_def)
      with that show ?thesis
        by (cases "count_receipt (entry_of ident (part_file_name (pr_component p) (pr_index p)) u \<noteq> None) name p False cs")
           (auto simp only: option.case fails_def prod.inject sum.distinct)
    qed
    note cr = count_receipt_Some [OF c1]
    have ids: "list_all (\<lambda>c. cp_id c \<in> part_ids) cs1" "list_all (\<lambda>c. 0 \<le> cp_size c) cs1"
      using Cons.prems(3,4) by (auto simp: cr(1) list_all_iff)
    have tl: "cs' = map (add_named names) cs1"
      by (rule Cons.IH [OF rest _ ids]) (use Cons.prems(2) in auto)
    have p: "pr_component p \<in> part_ids" "0 \<le> pr_index p"
    proof -
      from cr(2) obtain c where c: "c \<in> set cs" "cp_id c = pr_component p" by auto
      with Cons.prems(3,4) have "cp_id c \<in> part_ids" "0 \<le> cp_size c" by (auto simp: list_all_iff)
      with c cr(3) [OF c] partLength_Inr(1) show "pr_component p \<in> part_ids" "0 \<le> pr_index p" by auto
    qed
    have "add_named names (if cp_id c = pr_component p
             then c\<lparr>cp_received_parts := cp_received_parts c + 1, cp_received_bytes := cp_received_bytes c + pr_size p\<rparr>
             else c) = add_named (name # names) c" if c: "c \<in> set cs" for c
    proof (cases "cp_id c = pr_component p")
      case True
      have sz: "cp_id c \<in> part_ids" "0 \<le> cp_size c" using c Cons.prems(3,4) by (auto simp: list_all_iff)
      note q = cr(3) [OF c True] and r = partLength_Inr [OF conjunct1 [OF cr(3) [OF c True]] sz(2)]
      have "named_in (name # names) c = insert (pr_index p) (named_in names c)"
        using q r(1,2) p sz True by (auto simp: named_in_def receipt_name_inj)
      moreover have "pr_index p \<notin> named_in names c"
        using Cons.prems(2) q True by (auto simp: named_in_def)
      moreover have "part_len c (pr_index p) = pr_size p" using q by (simp add: part_len_def)
      ultimately show ?thesis using True by (simp add: add_named_def named_in_finite)
    next
      case False
      from cr(2) obtain d where d: "d \<in> set cs" "cp_id d = pr_component p" by auto
      have "cp_id c \<in> part_ids" using c Cons.prems(3) by (auto simp: list_all_iff)
      then have "named_in (name # names) c = named_in names c"
        using False cr(3) [OF d] p by (auto simp: named_in_def receipt_name_inj)
      with False show ?thesis by (simp add: add_named_def)
    qed
    then show ?thesis unfolding tl cr(1) by simp
  qed
qed

lemma read_dir_Inr:
  assumes "read_dir ident st = (Inr names, t)"
  shows "distinct names" "sorted names" "n \<in> set names \<longleftrightarrow> entry_of ident n st \<noteq> None"
    "same_durable st t"
proof -
  show sd: "same_durable st t" using quietD [OF quiet_reads(4) assms] .
  from assms obtain u es where u: "io st = (Inr (), u)" "map_of (p_dirs u) ident = Some es"
    "names = sort (remdups (map fst es))"
    by (auto simp: read_dir_def andthen_Inr_iff look_def give_def fails_def split: option.splits)
  have "p_dirs u = p_dirs st" using quietD [OF quiet_io u(1)] by (simp add: same_durable_def same_files_def)
  with u show "distinct names" "sorted names" "n \<in> set names \<longleftrightarrow> entry_of ident n st \<noteq> None"
    by (auto simp: entry_of_def dir_of_def map_of_eq_None_iff)
qed

lemma quiet_reconcile_names [quieten]: "quiet (reconcile_names e ident names cs)"
proof (induction names arbitrary: cs)
  case Nil
  show ?case by (simp add: quiet_give)
next
  case (Cons name names)
  show ?case
    unfolding reconcile_names.simps by (intro quieten Cons.IH)
qed

lemma quiet_reconcile [quieten]: "quiet (reconcile e s)"
  unfolding reconcile_def Let_def by (intro quieten)

lemma reconcile_Inr:
  assumes r: "reconcile e s st = (Inr s', t)" and sane: "list_all sane_component (components_of s)"
  shows "same_durable st t"
    and "s' = with_components (map (recount st (s_id s)) (components_of s)) s
       \<or> s_status s = ''uploading'' \<and> s' = (with_components (map (recount st (s_id s)) (components_of s)) s)\<lparr>s_status := ''queued''\<rparr>"
proof -
  let ?cs = "map clear_counters (components_of s)"
  from r obtain names u cs where d: "read_dir (s_id s) st = (Inr names, u)"
    and n: "reconcile_names e (s_id s) names ?cs u = (Inr cs, t)"
    and s': "s' = (let x = with_components cs s in if ready x \<and> ps_commit (s_spec x) \<and> s_status x = ''uploading''
               then x\<lparr>s_status := ''queued''\<rparr> else x)"
    by (auto simp: reconcile_def andthen_Inr_iff give_def components_of_def Let_def)
  note rd = read_dir_Inr [OF d]
  from same_durable_trans [OF rd(4) quietD [OF quiet_reconcile_names n]] show "same_durable st t" .
  have "cs = map (add_named names) ?cs"
    by (rule reconcile_names_Inr [OF n rd(1)])
       (use sane in \<open>auto simp: list_all_iff clear_counters_def dest: sane_id\<close>)
  also have "\<dots> = map (recount st (s_id s)) (components_of s)"
  proof -
    have "named_in names (clear_counters c) = received st (s_id s) c" for c
      using rd(3) by (auto simp: clear_counters_def named_in_def received_def)
    then show ?thesis by (simp add: add_named_def recount_def) (simp add: clear_counters_def)
  qed
  finally show "s' = with_components (map (recount st (s_id s)) (components_of s)) s
       \<or> s_status s = ''uploading'' \<and> s' = (with_components (map (recount st (s_id s)) (components_of s)) s)\<lparr>s_status := ''queued''\<rparr>"
    using s' by (auto simp: Let_def with_components_def)
qed


section \<open>Headers that differ in counters\<close>

definition recounting :: "(component \<Rightarrow> component) \<Rightarrow> bool" where
  "recounting g \<longleftrightarrow> (\<forall>c. clear_counters (g c) = clear_counters c)"

lemma recountingD:
  assumes "recounting g"
  shows "cp_id (g c) = cp_id c" "cp_size (g c) = cp_size c" "cp_sha256 (g c) = cp_sha256 c" "count (g c) = count c"
    "partLength (g c) = partLength c" "received st ident (g c) = received st ident c" "sane_component (g c) = sane_component c"
proof -
  have c: "clear_counters (g c) = clear_counters c" using assms by (simp add: recounting_def)
  have "cp_id (clear_counters d) = cp_id d" "cp_size (clear_counters d) = cp_size d"
    "cp_sha256 (clear_counters d) = cp_sha256 d" for d by (simp_all add: clear_counters_def)
  then show e: "cp_id (g c) = cp_id c" "cp_size (g c) = cp_size c" "cp_sha256 (g c) = cp_sha256 c"
    using c by metis+
  show n: "count (g c) = count c" using e by (simp add: count_def)
  show "partLength (g c) = partLength c" using e n by (simp add: partLength_def fun_eq_iff)
  show "received st ident (g c) = received st ident c" using e n by (simp add: received_def)
  show "sane_component (g c) = sane_component c" using e by (simp add: sane_component_def)
qed

lemma recounting_simps [simp]: "recounting (recount st ident)" "recounting clear_counters" "recounting (\<lambda>c. c)"
  by (simp_all add: recounting_def recount_def clear_counters_def)

lemma normalize_components_recount:
  assumes "recounting g"
  shows "normalize_components acc seen (map g cs) = normalize_components acc seen cs"
proof (induction acc seen cs rule: normalize_components.induct)
  case (2 acc seen c cs)
  have "clear_counters (g c\<lparr>cp_sha256 := x\<rparr>) = clear_counters (c\<lparr>cp_sha256 := x\<rparr>)" for x
  proof -
    have "clear_counters (d\<lparr>cp_sha256 := x\<rparr>) = (clear_counters d)\<lparr>cp_sha256 := x\<rparr>" for d
      by (simp add: clear_counters_def)
    with assms show ?thesis by (simp add: recounting_def)
  qed
  note same = this
  show ?case
  proof (cases "(cp_id c \<noteq> ''original'' \<and> cp_id c \<noteq> ''motion'') \<or> cp_id c \<in> set seen \<or> cp_size c < 0
         \<or> cp_size c > max_part_bytes \<or> \<not> validHash (cp_sha256 c) \<or> acc > max_part_bytes - cp_size c")
    case True
    then show ?thesis unfolding list.map normalize_components.simps(2) recountingD [OF assms] by (simp only: if_True)
  next
    case False
    show ?thesis
      unfolding list.map normalize_components.simps(2) recountingD [OF assms] if_not_P [OF False] same "2.IH" [OF False] ..
  qed
qed simp

definition same_upload_as :: "session \<Rightarrow> session \<Rightarrow> bool" where
  "same_upload_as s s' \<longleftrightarrow> s_version s' = s_version s \<and> s_id s' = s_id s \<and> s_owner s' = s_owner s
     \<and> s_created s' = s_created s \<and> s_key s' = s_key s \<and> ps_kind (s_spec s') = ps_kind (s_spec s)
     \<and> ps_device (s_spec s') = ps_device (s_spec s) \<and> ps_payload (s_spec s') = ps_payload (s_spec s)"

lemma normalize_recount:
  assumes "recounting g" "normalize sp = Inr n" "ps_components sp' = map g (ps_components sp)"
    "ps_kind sp' = ps_kind sp" "ps_device sp' = ps_device sp"
    "length (ps_payload sp') \<le> 65536" "json_valid (ps_payload sp')"
  shows "\<exists>n. normalize sp' = Inr n"
  using assms(2,6,7)
  unfolding normalize_def assms(3-5) normalize_components_recount [OF assms(1)] length_map
  by (auto split: if_splits option.splits)

lemma valid_payload:
  assumes "validateSession s ident = None"
  shows "length (ps_payload (s_spec s)) \<le> 65536" "json_valid (ps_payload (s_spec s))"
  using assms unfolding valid_iff normalize_def by (auto split: if_splits option.splits)

lemma revalidate:
  assumes v: "validateSession s ident = None" and same: "same_upload_as s s'"
    and g: "recounting g" "components_of s' = map g (components_of s)" "list_all counters_ok (components_of s')"
    and rest: "\<not> is_zero (s_updated s')" "0 \<le> s_attempts s'" "s_attempts s' \<le> 3" "known_status (s_status s')"
  shows "validateSession s' ident = None"
proof -
  from v obtain n where n: "normalize (s_spec s) = Inr n" unfolding valid_iff by blast
  have "\<exists>n. normalize (s_spec s') = Inr n"
    by (rule normalize_recount [OF g(1) n])
       (use g same valid_payload [OF v] in \<open>simp_all add: components_of_def same_upload_as_def\<close>)
  with v same g rest show ?thesis unfolding valid_iff same_upload_as_def by simp
qed

lemma receipts_recount:
  assumes "receipts_sound sha st ident s" "s_key s' = s_key s" "recounting g" "components_of s' = map g (components_of s)"
  shows "receipts_sound sha st ident s'"
  using assms(1) unfolding receipts_sound_def part_sound_def assms(2,4)
  by (auto simp: recountingD [OF assms(3)])

lemma recount_counters_ok: "0 \<le> cp_size c \<Longrightarrow> counters_ok (recount st ident c)"
proof -
  assume sz: "0 \<le> cp_size c"
  have sub: "received st ident c \<subseteq> {0..<count c}" by (auto simp: received_def)
  have "card (received st ident c) \<le> nat (count c)" using card_mono [OF _ sub] by simp
  then have 1: "int (card (received st ident c)) \<le> count c" using count_nonneg [OF sz] by simp
  have pos: "0 \<le> part_len c i" for i
    using partLength_Inr(4) [OF _ sz, of i] by (auto simp: part_len_def less_imp_le split: sum.split)
  have "(\<Sum>i \<in> received st ident c. part_len c i) \<le> (\<Sum>i \<in> {0..<count c}. part_len c i)"
    by (rule sum_mono2) (use sub pos in auto)
  also have "\<dots> = (\<Sum>i < nat (count c). part_len c (int i))"
  proof -
    have "{0..<count c} = int ` {..<nat (count c)}"
      using image_atLeastZeroLessThan_int [OF count_nonneg [OF sz]] .
    then show ?thesis by (simp add: sum.reindex)
  qed
  also have "\<dots> = cp_size c"
    using part_len_sum [OF sz, of "nat (count c)"] count_nonneg [OF sz] count_bounds(1) [OF sz] by simp
  finally have 2: "(\<Sum>i \<in> received st ident c. part_len c i) \<le> cp_size c" .
  have 3: "0 \<le> (\<Sum>i \<in> received st ident c. part_len c i)" by (rule sum_nonneg) (rule pos)
  have "cp_size (recount st ident c) = cp_size c" "count (recount st ident c) = count c"
    by (rule recountingD [OF recounting_simps(1)])+
  then show ?thesis using 1 2 3 by (simp add: counters_ok_def recount_def)
qed

text \<open>A header whose counters were taken from the receipts.\<close>

lemma recounted_sound:
  assumes v: "validateSession s ident = None" and r: "receipts_sound sha st ident s"
    and same: "same_upload_as s s'" "components_of s' = map (recount st ident) (components_of s)"
    and rest: "\<not> is_zero (s_updated s')" "0 \<le> s_attempts s'" "s_attempts s' \<le> 3" "known_status (s_status s')"
    and busy: "busy_live st ident s'"
  shows "header_sound sha now st ident s'"
proof -
  have sz: "0 \<le> cp_size c" if "c \<in> set (components_of s)" for c
    using validate_facts(3) [OF v] that sane_id(2) by (auto simp: list_all_iff)
  have "validateSession s' ident = None"
    by (rule revalidate [OF v same(1) recounting_simps(1) same(2) _ rest])
       (auto simp: same(2) list_all_iff recount_counters_ok sz)
  moreover have "receipts_sound sha st ident s'"
    by (rule receipts_recount [OF r _ recounting_simps(1) same(2)]) (use same(1) in \<open>simp add: same_upload_as_def\<close>)
  moreover have "counts_sound now st ident s'"
    unfolding counts_sound_def same(2) by (auto simp: recountingD [OF recounting_simps(1)]) (simp add: recount_def)
  ultimately show ?thesis using busy by (simp add: header_sound_def)
qed

text \<open>A header with the counters of the stored one, while those still count.\<close>

lemma restamped_sound:
  assumes h: "header_sound sha now st ident s" and same: "same_upload_as s s'" "components_of s' = components_of s"
    and f: "live s' \<Longrightarrow> live s \<and> fresh now s"
    and rest: "\<not> is_zero (s_updated s')" "0 \<le> s_attempts s'" "s_attempts s' \<le> 3" "known_status (s_status s')"
    and busy: "busy_live st ident s'"
  shows "header_sound sha now st ident s'"
proof -
  from h have v: "validateSession s ident = None" and r: "receipts_sound sha st ident s"
    and c: "counts_sound now st ident s" by (simp_all add: header_sound_def)
  have comps: "components_of s' = map (\<lambda>c. c) (components_of s)" by (simp add: same(2))
  have "validateSession s' ident = None"
    by (rule revalidate [OF v same(1) recounting_simps(3) comps _ rest]) (use validate_facts(5) [OF v] same(2) in simp)
  moreover have "receipts_sound sha st ident s'"
    by (rule receipts_recount [OF r _ recounting_simps(3) comps]) (use same(1) in \<open>simp add: same_upload_as_def\<close>)
  moreover have "counts_sound now st ident s'" using c f unfolding counts_sound_def same(2) by blast
  ultimately show ?thesis using busy by (simp add: header_sound_def)
qed

end
