(* ===== verification/Mobile_Loading.thy ===== *)
theory Mobile_Loading
  imports Mobile_Rules
begin

text \<open>
  Hoare rules of loading: a header that is read, checked and recounted is the header on disk, an upload
  that ended loses its payload, and the invariant holds also when any of it fails. A gate does not change
  what an operation ensures.
\<close>

section \<open>Which errors a step has\<close>

lemma recover_error: "reconcile e s st = (Inl err, t) \<Longrightarrow> err \<notin> {ErrNotFound, ErrExpired}"
proof -
  have rd: "err \<notin> {ErrNotFound, ErrExpired}" if "read_dir ident st = (Inl err, t)" for ident st t err
    using that by (auto simp: read_dir_def io_def look_def give_def fails_def elim!: andthen_cases
        split: list.splits option.splits if_splits)
  have names: "err \<notin> {ErrNotFound, ErrExpired}"
    if "reconcile_names e ident names cs st = (Inl err, t)" "\<forall>n \<in> set names. entry_of ident n st \<noteq> None"
    for ident names cs st t err
    using that
  proof (induction names arbitrary: cs st t err)
    case Nil
    then show ?case by (simp add: give_def)
  next
    case (Cons name names)
    have read: "err \<notin> {ErrNotFound, ErrExpired}" if "read_receipt e ident name st = (Inl err, u)" for u err
      using that Cons.prems(2)
      by (auto simp: read_receipt_def readSealed_def io_def look_def give_def fails_def run_refuse
          entry_of_files same_files_def entry_of_def dir_of_def elim!: andthen_cases
          split: list.splits option.splits if_splits entry.splits)
    show ?case
    proof (cases "suffix ''.receipt.enc'' name")
      case False
      with Cons show ?thesis by simp
    next
      case True
      from Cons.prems(1) True have "andthen (read_receipt e ident name) (\<lambda>p.
           andthen (look (entry_of ident (part_file_name (pr_component p) (pr_index p)))) (\<lambda>f.
           case count_receipt (f \<noteq> None) name p False cs of
             None \<Rightarrow> fails ErrCorrupt
           | Some cs' \<Rightarrow> reconcile_names e ident names cs')) st = (Inl err, t)" by simp
      then show ?thesis
      proof (cases rule: andthen_cases)
        case (err e')
        then show ?thesis using read by auto
      next
        case (val p u)
        have "same_durable st u" using quietD [OF quiet_reads(3) val(1)] .
        then have "\<forall>n \<in> set names. entry_of ident n u \<noteq> None"
          using Cons.prems(2) by (simp add: entry_of_durable)
        with val(2) Cons.IH show ?thesis
          by (auto simp: andthen_def look_def fails_def split: option.splits)
      qed
    qed
  qed
  assume "reconcile e s st = (Inl err, t)"
  then show "err \<notin> {ErrNotFound, ErrExpired}"
    unfolding reconcile_def
  proof (cases rule: andthen_cases)
    case (err e')
    then show ?thesis using rd by auto
  next
    case (val ns u)
    note d = read_dir_Inr [OF val(1)]
    have "\<forall>n \<in> set ns. entry_of (s_id s) n u \<noteq> None" using d(3,4) by (auto simp: entry_of_durable)
    with val(2) show ?thesis
      by (auto simp: Let_def give_def elim!: andthen_cases dest!: names)
  qed
qed

lemma setMarker_error: "setMarker ix ident on st = (Inl err, t) \<Longrightarrow> err = ErrIO"
  by (auto simp: setMarker_def io_def look_def change_def give_def elim!: andthen_cases split: list.splits if_splits)

lemma persist_error: "persist e s st = (Inl err, t) \<Longrightarrow> err \<notin> {ErrNotFound, ErrExpired}"
  unfolding persist_def addSessionMarkers_def syncSessionMarkers_def
  by (auto simp: give_def change_def fails_def attempt_def writeSealed_def run_refuse io_def
      elim!: andthen_cases split: list.splits if_splits prod.splits sum.splits dest!: setMarker_error)

lemma reserve_error: "reserve e s st = (Inl err, t) \<Longrightarrow> err \<notin> {ErrNotFound, ErrExpired}"
proof -
  have "err \<notin> {ErrNotFound, ErrExpired}" if "reservation_sum cs n = Inl err" for cs n err
    using that by (induction cs n rule: reservation_sum.induct) (auto split: if_splits sum.splits)
  then show "reserve e s st = (Inl err, t) \<Longrightarrow> err \<notin> {ErrNotFound, ErrExpired}"
    by (auto simp: reserve_def take_lease_def reservationBytes_def
        split: if_splits option.splits sum.splits prod.splits)
qed

lemma removePayload_error: "removePayload ident st = (Inl err, t) \<Longrightarrow> err = ErrIO"
proof -
  have each: "err = ErrIO" if "each (\<lambda>n. if disposable n then andthen io (\<lambda>_. change (del_entry ident n)) else give ()) ns st = (Inl err, t)"
    for ns st t err
    using that
    by (induction ns arbitrary: st)
       (auto simp: give_def io_def change_def elim!: andthen_cases split: list.splits if_splits)
  show "removePayload ident st = (Inl err, t) \<Longrightarrow> err = ErrIO"
    by (auto simp: removePayload_def read_dir_def io_def look_def give_def fails_def elim!: andthen_cases dest!: each
        split: list.splits if_splits option.splits)
qed


lemma ensures_error:
  "ensures P f Q E \<Longrightarrow> (\<And>s err t. f s = (Inl err, t) \<Longrightarrow> X err) \<Longrightarrow> ensures P f Q (\<lambda>err t. E err t \<and> X err)"
  by (rule ensuresI) (auto dest: ensuresD_Inr ensuresD_Inl)

lemma respectfulD: "respectful A \<Longrightarrow> same_durable st st' \<Longrightarrow> A st \<Longrightarrow> A st'"
  by (auto simp: respectful_def)

definition recovered_from :: "session \<Rightarrow> session \<Rightarrow> bool" where
  "recovered_from s s' \<longleftrightarrow> same_upload_as s s' \<and> s_updated s' = s_updated s \<and> s_attempts s' = s_attempts s
     \<and> s_retry_after s' = s_retry_after s \<and> ps_commit (s_spec s') = ps_commit (s_spec s)
     \<and> s_error s' = s_error s \<and> s_result s' = s_result s
     \<and> map cp_id (components_of s') = map cp_id (components_of s)
     \<and> (s_status s' = s_status s \<or> s_status s = ''uploading'' \<and> s_status s' = ''queued'')"

lemma recovered_refl [simp]: "recovered_from s s"
  by (simp add: recovered_from_def same_upload_as_def)

lemma recovered_live: "recovered_from s s' \<Longrightarrow> live s' = live s"
  by (auto simp: recovered_from_def live_def)

lemma recovered_id: "recovered_from s s' \<Longrightarrow> s_id s' = s_id s"
  by (auto simp: recovered_from_def same_upload_as_def)

lemma reconciled:
  assumes "reconcile e s st = (Inr s', t)" "validateSession s (s_id s) = None" "receipts_sound sha st (s_id s) s"
    "busy_live st (s_id s) s"
  shows "recovered_from s s'" "header_sound sha now st (s_id s) s'" "same_durable st t"
    "s_status s' = s_status s \<Longrightarrow> components_of s' = components_of s \<Longrightarrow> s' = s"
    "components_of s' = map (recount st (s_id s)) (components_of s)"
proof -
  note sane = validate_facts(3) [OF assms(2)]
  note r = reconcile_Inr [OF assms(1) sane]
  show "same_durable st t" by (rule r(1))
  show comps: "components_of s' = map (recount st (s_id s)) (components_of s)"
    using r(2) by (auto simp: with_components_def components_of_def)
  show rf: "recovered_from s s'"
    using r(2) by (auto simp: recovered_from_def same_upload_as_def with_components_def components_of_def
        recountingD [OF recounting_simps(1)])
  show "s' = s" if "s_status s' = s_status s" "components_of s' = components_of s"
    using r(2) that by (auto simp: with_components_def components_of_def)
  show "header_sound sha now st (s_id s) s'"
  proof (rule recounted_sound [OF assms(2,3) _ comps])
    show "same_upload_as s s'" using rf by (simp add: recovered_from_def)
    show "\<not> is_zero (s_updated s')" "0 \<le> s_attempts s'" "s_attempts s' \<le> 3"
      using rf assms(2) by (auto simp: recovered_from_def valid_iff)
    show "known_status (s_status s')"
      using rf validate_facts(6) [OF assms(2)] by (auto simp: recovered_from_def known_status_def)
    show "busy_live st (s_id s) s'"
      using assms(4) by (simp add: busy_live_def recovered_live [OF rf])
  qed
qed

lemma parts_ok_dir: "parts_ok sha now st \<Longrightarrow> dir_sound sha now st ident"
  by (simp add: parts_ok_def)

lemma parts_ok_header:
  assumes "parts_ok sha now st" "header ident st = Some s"
  shows "header_sound sha now st ident s \<and> header_marked now st ident s"
  using parts_ok_dir [OF assms(1), of ident] assms(2) by (simp add: dir_sound_def)

lemma parts_ok_no_header:
  assumes "parts_ok sha now st" "header ident st = None"
  shows "entry_of ident name st \<noteq> Some (ReceiptFile p)"
  using parts_ok_dir [OF assms(1), of ident] assms(2) by (simp add: dir_sound_def)

lemma parts_ok_id:
  assumes "parts_ok sha now st" "header ident st = Some s"
  shows "s_id s = ident"
  using parts_ok_header [OF assms] validate_facts(1) [of s ident] by (simp add: header_sound_def)

lemma reconcile_rule:
  "ensures (\<lambda>st. parts_ok sha now st \<and> header (s_id s) st = Some s) (reconcile e s)
     (\<lambda>s' st. parts_ok sha now st \<and> header (s_id s) st = Some s \<and> header_sound sha now st (s_id s) s'
        \<and> recovered_from s s' \<and> (s_status s' = s_status s \<and> components_of s' = components_of s \<longrightarrow> s' = s))
     (\<lambda>err st. parts_ok sha now st \<and> err \<notin> {ErrNotFound, ErrExpired})"
proof (rule ensuresI)
  fix st s' t
  assume a: "parts_ok sha now st \<and> header (s_id s) st = Some s" "reconcile e s st = (Inr s', t)"
  have v: "validateSession s (s_id s) = None" "receipts_sound sha st (s_id s) s" "busy_live st (s_id s) s"
    using parts_ok_header [OF conjunct1 conjunct2, OF a(1) a(1)] by (simp_all add: header_sound_def)
  note r = reconciled [OF a(2) v]
  have "respectful (\<lambda>st. parts_ok sha now st \<and> header (s_id s) st = Some s)"
    by (intro respectful_conj parts_ok_respectful respectful_header)
  from respectfulD [OF this r(3) a(1)] have "parts_ok sha now t \<and> header (s_id s) t = Some s" .
  moreover have "header_sound sha now t (s_id s) s'"
    by (rule respectfulD [OF filewise_respectful [OF header_sound_filewise] r(3) r(2)])
  ultimately show "parts_ok sha now t \<and> header (s_id s) t = Some s \<and> header_sound sha now t (s_id s) s'
        \<and> recovered_from s s' \<and> (s_status s' = s_status s \<and> components_of s' = components_of s \<longrightarrow> s' = s)"
    using r(1,4) by blast
next
  fix st err t
  assume a: "parts_ok sha now st \<and> header (s_id s) st = Some s" "reconcile e s st = (Inl err, t)"
  with respectfulD [OF parts_ok_respectful quietD [OF quiet_reconcile a(2)]] recover_error [OF a(2)]
  show "parts_ok sha now t \<and> err \<notin> {ErrNotFound, ErrExpired}" by blast
qed

lemma recoverSession_rule:
  "ensures (\<lambda>st. parts_ok sha now st \<and> header (s_id s) st = Some s) (recoverSession e s)
     (\<lambda>s' st. parts_ok sha now st \<and> header (s_id s) st = Some s' \<and> recovered_from s s')
     (\<lambda>err st. parts_ok sha now st \<and> err \<notin> {ErrNotFound, ErrExpired})"
  unfolding recoverSession_def
proof (rule ensures_andthen [OF reconcile_rule])
  fix s'
  let ?R = "\<lambda>st. parts_ok sha now st \<and> header (s_id s) st = Some s \<and> header_sound sha now st (s_id s) s'
        \<and> recovered_from s s' \<and> (s_status s' = s_status s \<and> components_of s' = components_of s \<longrightarrow> s' = s)"
  let ?Q = "\<lambda>x st. parts_ok sha now st \<and> header (s_id s) st = Some x \<and> recovered_from s x"
  let ?E = "\<lambda>err st. parts_ok sha now st \<and> err \<notin> {ErrNotFound, ErrExpired}"
  show "ensures ?R (if s_status s \<noteq> s_status s' \<or> ps_components (s_spec s) \<noteq> ps_components (s_spec s')
       then andthen (persist e s') (\<lambda>_. give s')
       else andthen (syncSessionMarkers s') (\<lambda>_. andthen (change (check s')) (\<lambda>_. give s'))) ?Q ?E"
  proof (cases "recovered_from s s'")
    case False
    then show ?thesis by (simp add: ensures_def)
  next
    case rf: True
    show ?thesis
    proof (cases "s_status s \<noteq> s_status s' \<or> ps_components (s_spec s) \<noteq> ps_components (s_spec s')")
      case True
      have p: "ensures ?R (persist e s') (\<lambda>_. ?Q s') ?E"
        by (rule ensures_weaken [OF ensures_error [OF persist_rule persist_error]]) (use recovered_id [OF rf] rf in auto)
      show ?thesis unfolding if_P [OF True] by (rule ensures_andthen [OF p]) (rule ensures_give)
    next
      case False
      have H: "filewise (\<lambda>st. header (s_id s) st = Some s)" by (rule filewise_header)
      have p: "ensures ?R (syncSessionMarkers s') (\<lambda>_. ?Q s') ?E"
      proof (cases "s' = s")
        case True
        have x: "err \<notin> {ErrNotFound, ErrExpired}" if "syncSessionMarkers s st = (Inl err, t)" for st err t
          using that unfolding syncSessionMarkers_def by (auto elim!: andthen_cases dest!: setMarker_error)
        show ?thesis
          by (rule ensures_weaken [OF ensures_error [OF syncSessionMarkers_rule [OF H] x]]) (use True in auto)
      next
        case neq: False
        with False show ?thesis by (auto simp: ensures_def components_of_def)
      qed
      have g: "ensures (\<lambda>st. ?Q s' st) (andthen (change (check s')) (\<lambda>_. give s')) ?Q ?E"
        using rf by (auto simp: ensures_def andthen_def change_def give_def
            intro: respectfulD [OF parts_ok_respectful] respectfulD [OF respectful_header] quiet_lease)
      show ?thesis unfolding if_not_P [OF False] by (rule ensures_andthen [OF p g])
    qed
  qed
qed


section \<open>Removing files\<close>

text \<open>
  A file may go when no receipt that stays vouches for it and no counter that still counts needs it.
\<close>

lemma del_keeps:
  assumes ok: "parts_ok sha now st" and n: "n \<noteq> ''session.enc''"
    and vouched: "\<And>name p. entry_of ident name st = Some (ReceiptFile p) \<Longrightarrow> name \<noteq> n \<Longrightarrow>
        part_file_name (pr_component p) (pr_index p) \<noteq> n"
    and counted: "\<And>s. header ident st = Some s \<Longrightarrow> live s \<Longrightarrow> fresh now s \<Longrightarrow> \<not> suffix ''.receipt.enc'' n"
  shows "parts_ok sha now (del_entry ident n st)" "header k (del_entry ident n st) = header k st"
proof -
  let ?st = "del_entry ident n st"
  show h: "header k ?st = header k st" for k
    using n by (simp add: header_def entry_of_del)
  have "header_marked now ?st k s = header_marked now st k s" for k s
    by (simp add: header_marked_def del_entry_def)
  moreover have "dir_shape ?st k" for k
    using parts_ok_dir [OF ok, of k] by (simp add: dir_sound_def dir_shape_def entry_of_del)
  moreover have "header_sound sha now ?st k s" if hs: "header k st = Some s" "header_sound sha now st k s" for k s
  proof -
    have "receipts_sound sha ?st k s"
      unfolding receipts_sound_def
    proof (intro allI impI)
      fix name p
      assume "entry_of k name ?st = Some (ReceiptFile p)"
      then have e: "entry_of k name st = Some (ReceiptFile p)" "\<not> (k = ident \<and> name = n)"
        by (auto simp: entry_of_del split: if_splits)
      with hs(2) have "part_sound sha st k s p" by (simp add: header_sound_def receipts_sound_def)
      with e vouched show "part_sound sha ?st k s p" by (auto simp: part_sound_def entry_of_del)
    qed
    moreover have "counts_sound now ?st k s"
    proof (cases "live s \<and> fresh now s")
      case True
      have "received ?st k c = received st k c" for c
      proof (cases "k = ident")
        case same: True
        with counted hs(1) True have "\<not> suffix ''.receipt.enc'' n" by blast
        then have "receipt_name d i \<noteq> n" for d i using receipt_suffix(1) by metis
        then show ?thesis by (simp add: received_def entry_of_del)
      qed (simp add: received_def entry_of_del)
      with hs(2) show ?thesis by (simp add: header_sound_def counts_sound_def)
    qed (auto simp: counts_sound_def)
    ultimately show ?thesis using hs(2) by (simp add: header_sound_def)
  qed
  ultimately have "dir_sound sha now ?st k" for k
    using parts_ok_dir [OF ok, of k]
    by (cases "header k st") (simp_all add: dir_sound_def h entry_of_del)
  moreover have "receiver_sound sha ?st r" if "receiver_sound sha st r" for r
    using that by (auto simp: receiver_sound_def entry_of_del) (simp_all add: del_entry_def)
  moreover have "p_receivers ?st = p_receivers st" by (simp add: del_entry_def)
  ultimately show "parts_ok sha now ?st" using ok by (simp add: parts_ok_def)
qed

lemma expired_alt: "expired e s \<longleftrightarrow> live s \<and> \<not> fresh (instant (e_now e)) s"
  by (auto simp: expired_def fresh_def time_sub_def Lifetime_def max_int64_def)

definition disposables :: "string \<Rightarrow> parts_state \<Rightarrow> string set" where
  "disposables ident st = {n. disposable n \<and> entry_of ident n st \<noteq> None}"

lemma remove_each_rule:
  assumes "sorted ns"
  shows "ensures (\<lambda>st. parts_ok sha now st \<and> header ident st = Some s \<and> \<not> (live s \<and> fresh now s)
       \<and> disposables ident st \<subseteq> set ns)
     (each (\<lambda>n. if disposable n then andthen io (\<lambda>_. change (del_entry ident n)) else give ()) ns)
     (\<lambda>_ st. parts_ok sha now st \<and> header ident st = Some s \<and> disposables ident st = {})
     (\<lambda>_ st. parts_ok sha now st)"
  using assms
proof (induction ns)
  case Nil
  then show ?case by (auto intro: ensures_give)
next
  case (Cons n ns)
  let ?P = "\<lambda>ms st. parts_ok sha now st \<and> header ident st = Some s \<and> \<not> (live s \<and> fresh now s)
       \<and> disposables ident st \<subseteq> set ms"
  have resp: "respectful (?P ms)" for ms
    by (intro respectful_conj parts_ok_respectful respectful_header)
       (auto simp: respectful_def disposables_def entry_of_durable)
  have del: "?P ns (del_entry ident n st)" if p: "?P (n # ns) st" "disposable n" for st
  proof -
    have n: "n \<noteq> ''session.enc''" using p(2) header_not_disposable by auto
    have vouched: "part_file_name (pr_component p) (pr_index p) \<noteq> n"
      if r: "entry_of ident name st = Some (ReceiptFile p)" "name \<noteq> n" for name p
    proof
      assume part: "part_file_name (pr_component p) (pr_index p) = n"
      have shape: "dir_shape st ident" using parts_ok_dir [of sha now st ident] that p(1) by (simp add: dir_sound_def)
      with r(1) have nm: "suffix ''.receipt.enc'' name" "name = receipt_name (pr_component p) (pr_index p)"
        unfolding dir_shape_def by blast+
      then have "disposable name" by (simp add: disposable_def)
      with r p(1) have "name \<in> set ns" by (auto simp: disposables_def)
      with Cons.prems have "n \<le> name" by simp
      with receipt_before_part [of "pr_component p" "pr_index p"] nm(2) part show False by simp
    qed
    have "parts_ok sha now st" "header ident st = Some s" "\<not> (live s \<and> fresh now s)" using p(1) by auto
    with del_keeps [of sha now st n ident, OF _ n vouched] p(1)
    show ?thesis by (auto simp: disposables_def entry_of_del)
  qed
  have step: "ensures (?P (n # ns)) (if disposable n then andthen io (\<lambda>_. change (del_entry ident n)) else give ())
     (\<lambda>_. ?P ns) (\<lambda>_ st. parts_ok sha now st)"
  proof (cases "disposable n")
    case True
    have "ensures (?P (n # ns)) io (\<lambda>_. ?P (n # ns)) (\<lambda>_ st. parts_ok sha now st)"
      by (rule ensures_quietly [OF quiet_io resp]) auto
    moreover have "ensures (?P (n # ns)) (change (del_entry ident n)) (\<lambda>_. ?P ns) (\<lambda>_ st. parts_ok sha now st)"
      by (rule ensures_change) (rule del [OF _ True])
    ultimately show ?thesis unfolding if_P [OF True] by (rule ensures_andthen)
  next
    case False
    then show ?thesis by (auto intro!: ensures_give simp: disposables_def)
  qed
  have "sorted ns" using Cons.prems by simp
  from ensures_andthen [OF step Cons.IH [OF this]] show ?case by simp
qed

lemma removePayload_rule:
  "ensures (\<lambda>st. parts_ok sha now st \<and> header ident st = Some s \<and> \<not> (live s \<and> fresh now s)) (removePayload ident)
     (\<lambda>_ st. parts_ok sha now st \<and> header ident st = Some s \<and> disposables ident st = {})
     (\<lambda>_ st. parts_ok sha now st)"
  unfolding removePayload_def
proof (rule ensures_andthen [where R = "\<lambda>names st. (parts_ok sha now st \<and> header ident st = Some s
     \<and> \<not> (live s \<and> fresh now s) \<and> disposables ident st \<subseteq> set names) \<and> sorted names"])
  let ?P = "\<lambda>st. parts_ok sha now st \<and> header ident st = Some s \<and> \<not> (live s \<and> fresh now s)"
  let ?Q = "\<lambda>st. parts_ok sha now st \<and> header ident st = Some s \<and> disposables ident st = {}"
  have resp: "respectful ?P"
    by (intro respectful_conj parts_ok_respectful respectful_header)
  show "ensures ?P (read_dir ident) (\<lambda>names st. (parts_ok sha now st \<and> header ident st = Some s
     \<and> \<not> (live s \<and> fresh now s) \<and> disposables ident st \<subseteq> set names) \<and> sorted names) (\<lambda>_ st. parts_ok sha now st)"
  proof (rule ensuresI)
    fix st names t
    assume a: "?P st" "read_dir ident st = (Inr names, t)"
    note d = read_dir_Inr [OF a(2)]
    from respectfulD [OF resp d(4) a(1)] d show "(parts_ok sha now t \<and> header ident t = Some s
     \<and> \<not> (live s \<and> fresh now s) \<and> disposables ident t \<subseteq> set names) \<and> sorted names"
      by (auto simp: disposables_def entry_of_durable)
  next
    fix st err t
    assume a: "?P st" "read_dir ident st = (Inl err, t)"
    from respectfulD [OF resp quietD [OF quiet_reads(4) a(2)] a(1)] show "parts_ok sha now t" by simp
  qed
  fix names
  show "ensures (\<lambda>st. (parts_ok sha now st \<and> header ident st = Some s
     \<and> \<not> (live s \<and> fresh now s) \<and> disposables ident st \<subseteq> set names) \<and> sorted names)
     (andthen (each (\<lambda>n. if disposable n then andthen io (\<lambda>_. change (del_entry ident n)) else give ()) names) (\<lambda>_. io))
     (\<lambda>_. ?Q) (\<lambda>_ st. parts_ok sha now st)"
  proof (cases "sorted names")
    case True
    have q: "respectful ?Q"
      by (intro respectful_conj parts_ok_respectful respectful_header)
         (auto simp: respectful_def disposables_def entry_of_durable)
    have "ensures ?Q io (\<lambda>_. ?Q) (\<lambda>_ st. parts_ok sha now st)"
      by (rule ensures_quietly [OF quiet_io q]) auto
    from ensures_andthen [OF remove_each_rule [OF True] this] True show ?thesis by simp
  qed (simp add: ensures_def)
qed

section \<open>Loading\<close>

lemma read_header_rule:
  assumes "respectful A"
  shows "ensures A (read_header e ident) (\<lambda>s st. A st \<and> header ident st = Some s)
     (\<lambda>err st. A st \<and> (err = ErrNotFound \<longrightarrow> header ident st = None) \<and> err \<noteq> ErrExpired)"
proof (rule ensuresI)
  fix st s t
  assume a: "A st" "read_header e ident st = (Inr s, t)"
  note sd = quietD [OF quiet_reads(2) a(2)]
  from a(2) have "entry_of ident ''session.enc'' st = Some (HeaderFile s)"
    by (auto simp: read_header_def readSealed_def io_def look_def give_def fails_def run_refuse
        entry_of_def dir_of_def andthen_Inr_iff split: list.splits option.splits if_splits entry.splits)
  with respectfulD [OF assms sd a(1)] entry_of_durable [OF sd] show "A t \<and> header ident t = Some s"
    by (simp add: header_def)
next
  fix st err t
  assume a: "A st" "read_header e ident st = (Inl err, t)"
  note sd = quietD [OF quiet_reads(2) a(2)]
  have "(err = ErrNotFound \<longrightarrow> entry_of ident ''session.enc'' st = None) \<and> err \<noteq> ErrExpired"
    using a(2) by (auto simp: read_header_def readSealed_def io_def look_def give_def fails_def run_refuse
        entry_of_def dir_of_def elim!: andthen_cases split: list.splits option.splits if_splits entry.splits)
  with respectfulD [OF assms sd a(1)] entry_of_durable [OF sd]
  show "A t \<and> (err = ErrNotFound \<longrightarrow> header ident t = None) \<and> err \<noteq> ErrExpired" by (simp add: header_def)
qed


lemma recovered_expired: "recovered_from s s' \<Longrightarrow> expired e s' = expired e s"
  by (simp add: expired_def recovered_live) (simp add: recovered_from_def)

abbreviation ok_at :: "surroundings \<Rightarrow> parts_state \<Rightarrow> bool" where
  "ok_at e st \<equiv> parts_ok (e_sha e) (instant (e_now e)) st"

lemma ensures_False: "(\<And>st. \<not> P st) \<Longrightarrow> ensures P f Q E"
  by (simp add: ensures_def)

lemma load_any_rule:
  "ensures (ok_at e) (load_any e ident)
     (\<lambda>(s, late) st. ok_at e st \<and> header ident st = Some s \<and> late = expired e s)
     (\<lambda>err st. ok_at e st \<and> (err = ErrNotFound \<and> validID ident \<longrightarrow> header ident st = None) \<and> err \<noteq> ErrExpired)"
  unfolding load_any_def
proof (intro ensures_andthen)
  let ?E = "\<lambda>err st. ok_at e st \<and> (err = ErrNotFound \<and> validID ident \<longrightarrow> header ident st = None) \<and> err \<noteq> ErrExpired"
  let ?Q = "\<lambda>(s, late) st. ok_at e st \<and> header ident st = Some s \<and> late = expired e s"
  show "ensures (ok_at e) (refuse_if (\<not> validID ident) ErrNotFound) (\<lambda>_. ok_at e) ?E"
    by (rule ensures_refuse) auto
  show "ensures (ok_at e) (read_header e ident) (\<lambda>s st. ok_at e st \<and> header ident st = Some s) ?E"
    by (rule ensures_weaken [OF read_header_rule [OF parts_ok_respectful]]) auto
  fix s
  let ?P = "\<lambda>s st. ok_at e st \<and> header ident st = Some s"
  have resp: "respectful (?P s)" for s by (intro respectful_conj parts_ok_respectful respectful_header)
  show "ensures (?P s) (case validateSession s ident of Some err \<Rightarrow> fails err
     | None \<Rightarrow>
         if expired e s then
           andthen (change (\<lambda>st. if isActive ident st then st else release ident st)) (\<lambda>_. give (s, True))
         else
           andthen (look (\<lambda>st. case map_of (p_checked st) ident of
                                 Some t \<Rightarrow> time_eq t (s_updated s) | None \<Rightarrow> time_eq zero_time (s_updated s))) (\<lambda>checked.
           andthen (if \<not> checked \<and> live s then recoverSession e s else give s) (\<lambda>s'.
           andthen (reserve e s') (\<lambda>_.
           andthen (if \<not> live s' then removePayload ident else give ()) (\<lambda>_.
           give (s', False)))))) ?Q ?E"
  proof (cases "validateSession s ident")
    case (Some err)
    then have "\<not> ?P s st" for st using parts_ok_header [of "e_sha e" "instant (e_now e)" st ident s]
      by (auto simp: header_sound_def)
    then show ?thesis by (rule ensures_False)
  next
    case v: None
    then have id: "s_id s = ident" using validate_facts(1) by blast
    show ?thesis
    proof (cases "expired e s")
      case True
      have c: "ensures (?P s) (change (\<lambda>st. if isActive ident st then st else release ident st)) (\<lambda>_. ?P s) ?E"
        by (rule ensures_change, rule respectfulD [OF resp]) (auto simp: quiet_lease)
      have g: "ensures (?P s) (give (s, True)) ?Q ?E" by (rule ensures_give) (use True in auto)
      show ?thesis unfolding v option.case if_P [OF True] by (rule ensures_andthen [OF c g])
    next
      case False
      let ?R = "\<lambda>s' st. ?P s' st \<and> recovered_from s s'"
      have rec: "ensures (?P s) (if \<not> checked \<and> live s then recoverSession e s else give s) ?R ?E" for checked
      proof (cases "\<not> checked \<and> live s")
        case True
        then show ?thesis
          unfolding if_P [OF True]
          by (intro ensures_weaken [OF recoverSession_rule [of "e_sha e" "instant (e_now e)" s e]]) (auto simp: id)
      next
        case no: False
        show ?thesis unfolding if_not_P [OF no] by (rule ensures_give) auto
      qed
      have res: "ensures (?R s') (reserve e s') (\<lambda>_. ?R s') ?E" for s'
      proof -
        have "respectful (?R s')" by (intro respectful_conj parts_ok_respectful respectful_header)
        from ensures_error [OF quiet_ensures [OF quiet_reserve this] reserve_error]
        show ?thesis by (rule ensures_weaken) auto
      qed
      have rem: "ensures (?R s') (if \<not> live s' then removePayload ident else give ()) (\<lambda>_. ?R s') ?E" for s'
      proof (cases "live s'")
        case True
        then show ?thesis by (auto intro: ensures_give)
      next
        case dead: False
        have x: "ensures (\<lambda>st. ok_at e st \<and> header ident st = Some s' \<and> \<not> (live s' \<and> fresh (instant (e_now e)) s'))
            (removePayload ident) (\<lambda>_ st. ok_at e st \<and> header ident st = Some s' \<and> disposables ident st = {})
            (\<lambda>err st. ok_at e st \<and> err = ErrIO)"
          by (rule ensures_error [OF removePayload_rule removePayload_error])
        have "ensures (?R s') (removePayload ident) (\<lambda>_. ?R s') ?E"
        proof (cases "recovered_from s s'")
          case True
          show ?thesis by (rule ensures_weaken [OF x]) (use True dead in auto)
        next
          case False
          then show ?thesis by (intro ensures_False) simp
        qed
        then show ?thesis unfolding if_P [OF dead] .
      qed
      have fin: "ensures (?R s') (give (s', False)) ?Q ?E" for s'
        by (rule ensures_give) (use False in \<open>auto simp: recovered_expired\<close>)
      have look: "ensures (?P s) (look f) (\<lambda>_. ?P s) ?E" for f :: "parts_state \<Rightarrow> bool"
        by (rule ensures_look) simp
      show ?thesis unfolding v option.case if_not_P [OF False]
        by (intro ensures_andthen [OF look] ensures_andthen [OF rec] ensures_andthen [OF res] ensures_andthen [OF rem] fin)
    qed
  qed
qed

lemma load_rule:
  "ensures (ok_at e) (load e ident)
     (\<lambda>s st. ok_at e st \<and> header ident st = Some s \<and> \<not> expired e s) (\<lambda>_. ok_at e)"
  unfolding load_def
proof (rule ensures_andthen)
  show "ensures (ok_at e) (load_any e ident)
     (\<lambda>(s, late) st. ok_at e st \<and> header ident st = Some s \<and> late = expired e s) (\<lambda>_. ok_at e)"
    by (rule ensures_weaken [OF load_any_rule]) auto
qed (auto intro!: ensures_fails ensures_give)

section \<open>Gates\<close>

lemma gated_rule:
  assumes "ensures P f Q E" "\<And>v. respectful (Q v)" "\<And>err. respectful (E err)"
  shows "ensures P (gated e ident f) Q E"
proof (rule ensuresI)
  fix st v t
  assume "P st" "gated e ident f st = (Inr v, t)"
  then obtain u where u: "f st = (Inr v, u)" "same_durable u t"
    by (auto simp: gated_def quiet_lease split: prod.splits if_splits)
  from respectfulD [OF assms(2) u(2) ensuresD_Inr [OF assms(1) \<open>P st\<close> u(1)]] show "Q v t" .
next
  fix st err t
  assume "P st" "gated e ident f st = (Inl err, t)"
  then obtain u where u: "f st = (Inl err, u)" "same_durable u t"
    by (auto simp: gated_def quiet_lease split: prod.splits if_splits)
  from respectfulD [OF assms(3) u(2) ensuresD_Inl [OF assms(1) \<open>P st\<close> u(1)]] show "E err t" .
qed

lemma gated_keeps [kept]: "respectful I \<Longrightarrow> keeps I f \<Longrightarrow> keeps I (gated e ident f)"
  unfolding keeps_def by (rule gated_rule)

end
