(* ===== verification/Mobile_Safety.thy ===== *)
theory Mobile_Safety
  imports Mobile_Loading
begin

text \<open>
  Operations on mobile uploads that keep the invariant whatever fails: rules for the steps every operation
  is made of, the headers that may be saved, and the creation of an upload.
\<close>

section \<open>Operations that are safe to run\<close>

text \<open>
  \<open>safe e P f\<close>: from a sound state in which \<open>P\<close> holds, \<open>f\<close> ends in a sound state, with a result or with an
  error.
\<close>

abbreviation safe :: "surroundings \<Rightarrow> (parts_state \<Rightarrow> bool) \<Rightarrow> 'a parts \<Rightarrow> bool" where
  "safe e P f \<equiv> ensures (\<lambda>st. ok_at e st \<and> P st) f (\<lambda>_. ok_at e) (\<lambda>_. ok_at e)"

lemma safe_keeps: "safe e (\<lambda>_. True) f \<Longrightarrow> keeps (ok_at e) f"
  by (simp add: keeps_def)

lemma safe_weaken: "safe e P f \<Longrightarrow> (\<And>st. ok_at e st \<Longrightarrow> Q st \<Longrightarrow> P st) \<Longrightarrow> safe e Q f"
  by (erule ensures_weaken) auto

lemma safe_False: "(\<And>st. ok_at e st \<Longrightarrow> \<not> P st) \<Longrightarrow> safe e P f"
  by (rule ensures_False) auto

named_theorems safely "operations that are safe to run"

lemma safe_give [safely]: "safe e P (give v)" by (rule ensures_give) simp
lemma safe_fails [safely]: "safe e P (fails err)" by (rule ensures_fails) simp
lemma safe_if [safely]: "(b \<Longrightarrow> safe e P f) \<Longrightarrow> (\<not> b \<Longrightarrow> safe e P g) \<Longrightarrow> safe e P (if b then f else g)" by simp
lemma safe_option [safely]:
  "(m = None \<Longrightarrow> safe e P f) \<Longrightarrow> (\<And>x. m = Some x \<Longrightarrow> safe e P (g x)) \<Longrightarrow> safe e P (case m of None \<Rightarrow> f | Some x \<Rightarrow> g x)"
  by (cases m) auto
lemma safe_sum [safely]:
  "(\<And>x. m = Inl x \<Longrightarrow> safe e P (f x)) \<Longrightarrow> (\<And>x. m = Inr x \<Longrightarrow> safe e P (g x)) \<Longrightarrow>
     safe e P (case m of Inl x \<Rightarrow> f x | Inr x \<Rightarrow> g x)"
  by (cases m) auto
lemma safe_refuse [safely]: "(\<not> b \<Longrightarrow> safe e P (g ())) \<Longrightarrow> safe e P (andthen (refuse_if b err) g)"
  by (rule ensuresI; cases b)
     (auto simp: andthen_def run_refuse dest: ensuresD_Inr ensuresD_Inl split: prod.splits sum.splits)
lemma safe_look [safely]: "(\<And>v. safe e P (g v)) \<Longrightarrow> safe e P (andthen (look f) g)"
  by (rule ensures_andthen [where R = "\<lambda>_ st. ok_at e st \<and> P st"]) (auto intro: ensures_look)
lemma safe_look_at: "(\<And>v. safe e (\<lambda>st. P st \<and> f st = v) (g v)) \<Longrightarrow> safe e P (andthen (look f) g)"
  by (rule ensures_andthen [where R = "\<lambda>v st. ok_at e st \<and> P st \<and> f st = v"]) (auto intro: ensures_look)
lemma safe_of_result [safely]: "(\<And>v. r = Inr v \<Longrightarrow> safe e P (g v)) \<Longrightarrow> safe e P (andthen (of_result r) g)"
  by (rule ensuresI; cases r)
     (auto simp: andthen_def of_result_def dest: ensuresD_Inr ensuresD_Inl split: prod.splits sum.splits)
lemma safe_result [safely]: "safe e P (of_result r)"
  by (rule ensuresI) (auto simp: of_result_def)

lemma safe_then: "safe e P f \<Longrightarrow> (\<And>v. safe e (\<lambda>_. True) (g v)) \<Longrightarrow> safe e P (andthen f g)"
  by (rule ensures_andthen) auto

lemma safe_attempt: "safe e P f \<Longrightarrow> (\<And>v. safe e (\<lambda>_. True) (g v)) \<Longrightarrow> safe e P (andthen (attempt f) g)"
  by (rule ensures_andthen [OF ensures_attempt [where Q = "\<lambda>_. ok_at e"]]) auto

lemma safe_gated: "safe e P f \<Longrightarrow> safe e P (gated e ident f)"
  by (rule gated_rule) (auto intro: parts_ok_respectful)

lemma safe_quiet: "quiet f \<Longrightarrow> safe e P f"
  by (rule ensures_weaken [OF quiet_ensures [OF _ parts_ok_respectful]]) auto

lemma safe_quiet_then: "quiet f \<Longrightarrow> respectful P \<Longrightarrow> (\<And>v. safe e P (g v)) \<Longrightarrow> safe e P (andthen f g)"
  by (rule ensures_andthen [where R = "\<lambda>_ st. ok_at e st \<and> P st"])
     (rule ensures_quietly [OF _ respectful_conj [OF parts_ok_respectful]], auto)

lemma safe_change: "(\<And>st. ok_at e st \<Longrightarrow> P st \<Longrightarrow> ok_at e (f st)) \<Longrightarrow> safe e P (change f)"
  by (rule ensures_change) simp

lemma safe_lease [safely]: "safe e P (change (release ident))" "safe e P (change (uncheck ident))"
  by (rule safe_change, rule respectfulD [OF parts_ok_respectful], rule quiet_lease, assumption)+

lemma safe_load_any:
  assumes "\<And>s. safe e (\<lambda>st. header ident st = Some s) (g (s, expired e s))"
  shows "safe e P (andthen (load_any e ident) g)"
proof (rule ensures_andthen [where R = "\<lambda>v st. ok_at e st \<and> header ident st = Some (fst v) \<and> snd v = expired e (fst v)"])
  show "ensures (\<lambda>st. ok_at e st \<and> P st) (load_any e ident)
     (\<lambda>v st. ok_at e st \<and> header ident st = Some (fst v) \<and> snd v = expired e (fst v)) (\<lambda>_. ok_at e)"
    by (rule ensures_weaken [OF load_any_rule]) auto
  fix v
  show "ensures (\<lambda>st. ok_at e st \<and> header ident st = Some (fst v) \<and> snd v = expired e (fst v)) (g v) (\<lambda>_. ok_at e) (\<lambda>_. ok_at e)"
  proof (cases "snd v = expired e (fst v)")
    case True
    from assms [of "fst v"] show ?thesis unfolding True [symmetric] by simp
  qed (auto intro: ensures_False)
qed

lemma safe_attempt_load_any:
  assumes "\<And>s. safe e (\<lambda>st. header ident st = Some s) (g (Inr (s, expired e s)))"
    and "\<And>err. safe e (\<lambda>st. (err = ErrNotFound \<and> validID ident \<longrightarrow> header ident st = None) \<and> err \<noteq> ErrExpired) (g (Inl err))"
  shows "safe e P (andthen (attempt (load_any e ident)) g)"
proof (rule ensures_andthen [OF ensures_attempt])
  let ?R = "\<lambda>r st. ok_at e st \<and> (case r of Inr v \<Rightarrow> header ident st = Some (fst v) \<and> snd v = expired e (fst v)
      | Inl err \<Rightarrow> (err = ErrNotFound \<and> validID ident \<longrightarrow> header ident st = None) \<and> err \<noteq> ErrExpired)"
  show "ensures (\<lambda>st. ok_at e st \<and> P st) (load_any e ident) (\<lambda>v. ?R (Inr v)) (\<lambda>err. ?R (Inl err))"
    by (rule ensures_weaken [OF load_any_rule]) auto
  fix r
  show "ensures (?R r) (g r) (\<lambda>_. ok_at e) (\<lambda>_. ok_at e)"
  proof (cases r)
    case (Inl err)
    with assms(2) show ?thesis by simp
  next
    case (Inr v)
    obtain s late where v: "v = (s, late)" by (cases v)
    from assms(1) [of s] show ?thesis unfolding Inr v by (cases "late = expired e s") (auto intro: ensures_False)
  qed
qed

lemma safe_load:
  assumes "\<And>s. \<not> expired e s \<Longrightarrow> safe e (\<lambda>st. header ident st = Some s) (g s)"
  shows "safe e P (andthen (load e ident) g)"
proof (rule ensures_andthen [where R = "\<lambda>s st. ok_at e st \<and> header ident st = Some s \<and> \<not> expired e s"])
  show "ensures (\<lambda>st. ok_at e st \<and> P st) (load e ident)
     (\<lambda>s st. ok_at e st \<and> header ident st = Some s \<and> \<not> expired e s) (\<lambda>_. ok_at e)"
    by (rule ensures_weaken [OF load_rule]) auto
  show "ensures (\<lambda>st. ok_at e st \<and> header ident st = Some s \<and> \<not> expired e s) (g s) (\<lambda>_. ok_at e) (\<lambda>_. ok_at e)" for s
    using assms [of s] by (cases "expired e s") (auto intro: ensures_False)
qed

lemma safe_loads [safely]: "safe e P (load_any e ident)" "safe e P (load e ident)"
  using safe_load_any [of e ident give P] safe_load [of e ident give P] safe_give
  by (auto intro: ensures_weaken [OF load_any_rule] ensures_weaken [OF load_rule])

section \<open>Saving\<close>

lemma safe_save:
  assumes "\<And>st. ok_at e st \<Longrightarrow> P st \<Longrightarrow> header_sound (e_sha e) (instant (e_now e)) st (s_id s) (stamped e s)"
    and "safe e (\<lambda>st. header (s_id s) st = Some (stamped e s)) (g (stamped e s))"
  shows "safe e P (andthen (save e s) g)"
proof (rule ensures_andthen [where R = "\<lambda>v st. ok_at e st \<and> header (s_id s) st = Some (stamped e s) \<and> v = stamped e s"])
  show "ensures (\<lambda>st. ok_at e st \<and> P st) (save e s)
     (\<lambda>v st. ok_at e st \<and> header (s_id s) st = Some (stamped e s) \<and> v = stamped e s) (\<lambda>_. ok_at e)"
    by (rule ensures_weaken [OF save_rule]) (use assms(1) in auto)
  show "ensures (\<lambda>st. ok_at e st \<and> header (s_id s) st = Some (stamped e s) \<and> v = stamped e s) (g v) (\<lambda>_. ok_at e) (\<lambda>_. ok_at e)" for v
    by (cases "v = stamped e s") (use assms(2) in \<open>auto intro: ensures_False\<close>)
qed

lemma safe_save_last:
  "(\<And>st. ok_at e st \<Longrightarrow> P st \<Longrightarrow> header_sound (e_sha e) (instant (e_now e)) st (s_id s) (stamped e s)) \<Longrightarrow> safe e P (save e s)"
  by (rule ensures_weaken [OF save_rule]) auto

text \<open>The clock is not the zero time, which marks an absent one.\<close>

definition clocked :: "surroundings \<Rightarrow> bool" where
  "clocked e \<longleftrightarrow> \<not> is_zero (e_now e)"

lemma same_upload_as_stamped [simp]: "same_upload_as s (stamped e t) = same_upload_as s t"
  by (simp add: same_upload_as_def stamped_def)

lemma stamped_more [simp]: "s_attempts (stamped e s) = s_attempts s" "s_updated (stamped e s) = to_utc (e_now e)"
  by (simp_all add: stamped_def)

lemma restamp_ok:
  assumes "ok_at e st" "header ident st = Some s" "clocked e" "same_upload_as s t" "components_of t = components_of s"
    and "live t \<Longrightarrow> live s \<and> \<not> expired e s" "0 \<le> s_attempts t" "s_attempts t \<le> 3" "known_status (s_status t)"
    and "live t \<or> map_of (p_active st) ident = None"
  shows "header_sound (e_sha e) (instant (e_now e)) st (s_id t) (stamped e t)"
proof -
  have h: "header_sound (e_sha e) (instant (e_now e)) st ident s" using parts_ok_header [OF assms(1,2)] by simp
  have id: "s_id t = ident" using parts_ok_id [OF assms(1,2)] assms(4) by (simp add: same_upload_as_def)
  show ?thesis
    unfolding id
    by (rule restamped_sound [OF h])
       (use assms(3-) in \<open>auto simp: expired_alt clocked_def is_zero_def to_utc_def busy_live_def\<close>)
qed

definition rebound :: "string \<Rightarrow> session \<Rightarrow> session" where
  "rebound p s = s\<lparr>s_spec := (s_spec s)\<lparr>ps_payload := p\<rparr>\<rparr>"

lemma rebound_simps [simp]:
  "s_id (rebound p s) = s_id s" "components_of (rebound p s) = components_of s" "live (rebound p s) = live s"
  "s_status (rebound p s) = s_status s" "s_key (rebound p s) = s_key s" "s_updated (rebound p s) = s_updated s"
  "ready (rebound p s) = ready s" "s_attempts (rebound p s) = s_attempts s"
  by (simp_all add: rebound_def components_of_def live_def ready_def)

lemma rebound_sound:
  assumes "header_sound sha now st ident s" "length p \<le> 65536" "json_valid p"
  shows "header_sound sha now st ident (rebound p s)"
proof -
  have v: "validateSession s ident = None" using assms(1) by (simp add: header_sound_def)
  then obtain n where n: "normalize (s_spec s) = Inr n" unfolding valid_iff by blast
  have "\<exists>n. normalize (s_spec (rebound p s)) = Inr n"
    by (rule normalize_recount [OF recounting_simps(3) n]) (use assms(2,3) in \<open>simp_all add: rebound_def\<close>)
  then have "validateSession (rebound p s) ident = None"
    using v unfolding valid_iff by (simp add: rebound_def components_of_def)
  moreover have "counts_sound now st ident (rebound p s)" "receipts_sound sha st ident (rebound p s)"
    "busy_live st ident (rebound p s)"
    using assms(1) by (simp_all add: header_sound_def counts_sound_def receipts_sound_def part_sound_def fresh_def busy_live_def)
  ultimately show ?thesis by (simp add: header_sound_def)
qed

section \<open>New headers\<close>

lemma is_hex_lower: "is_hex c \<Longrightarrow> is_hex (lower_char c) \<and> lower_char (lower_char c) = lower_char c"
proof -
  have "list_all (\<lambda>c. is_hex (lower_char c) \<and> lower_char (lower_char c) = lower_char c) ''0123456789abcdefABCDEF''"
    by code_simp
  then show "is_hex c \<Longrightarrow> is_hex (lower_char c) \<and> lower_char (lower_char c) = lower_char c"
    unfolding is_hex_def list_all_iff by blast
qed

lemma validHash_lower:
  assumes "validHash h"
  shows "validHash (to_lower h)" "to_lower (to_lower h) = to_lower h"
  using assms is_hex_lower by (auto simp: validHash_def hex_bytes_def to_lower_def list_all_iff)

lemma normalize_components_again:
  "normalize_components acc seen cs = Some cs' \<Longrightarrow> normalize_components acc seen cs' = Some cs'
     \<and> length cs' = length cs"
proof (induction acc seen cs arbitrary: cs' rule: normalize_components.induct)
  case (1 acc seen)
  then show ?case by (auto split: if_splits)
next
  case (2 acc seen c cs)
  let ?bad = "(cp_id c \<noteq> ''original'' \<and> cp_id c \<noteq> ''motion'') \<or> cp_id c \<in> set seen \<or> cp_size c < 0
         \<or> cp_size c > max_part_bytes \<or> \<not> validHash (cp_sha256 c) \<or> acc > max_part_bytes - cp_size c"
  from "2.prems"(1) have ok: "\<not> ?bad" by (metis normalize_components.simps(2) option.distinct(1))
  define d where "d = clear_counters (c\<lparr>cp_sha256 := to_lower (cp_sha256 c)\<rparr>)"
  from "2.prems"(1) obtain ds
    where ds: "normalize_components (acc + cp_size c) (cp_id c # seen) cs = Some ds" "cs' = d # ds"
    unfolding normalize_components.simps(2) if_not_P [OF ok] d_def by blast
  have d: "cp_id d = cp_id c" "cp_size d = cp_size c" "cp_sha256 d = to_lower (cp_sha256 c)"
    by (simp_all add: d_def clear_counters_def)
  have h: "validHash (cp_sha256 c)" using ok by blast
  have ok': "\<not> ((cp_id d \<noteq> ''original'' \<and> cp_id d \<noteq> ''motion'') \<or> cp_id d \<in> set seen \<or> cp_size d < 0
         \<or> cp_size d > max_part_bytes \<or> \<not> validHash (cp_sha256 d) \<or> acc > max_part_bytes - cp_size d)"
    using ok validHash_lower(1) [OF h] unfolding d by blast
  have same: "clear_counters (d\<lparr>cp_sha256 := to_lower (cp_sha256 d)\<rparr>) = d"
    using validHash_lower(2) [OF h] by (simp add: d_def clear_counters_def)
  have "normalize_components (acc + cp_size d) (cp_id d # seen) ds = Some ds \<and> length ds = length cs"
    unfolding d by (rule "2.IH" [OF ok ds(1)])
  then show ?case unfolding ds(2) normalize_components.simps(2) if_not_P [OF ok'] same by simp
qed

lemma normalize_again: "normalize sp = Inr sp' \<Longrightarrow> normalize sp' = Inr sp'"
  using normalize_components_again [of 0 "[]" "ps_components sp"]
  by (auto simp: normalize_def split: if_splits option.splits)

lemma normalized_counters:
  assumes "normalize_components acc seen cs = Some cs'"
  shows "list_all (\<lambda>c. cp_received_parts c = 0 \<and> cp_received_bytes c = 0) cs'"
  using assms
proof (induction acc seen cs arbitrary: cs' rule: normalize_components.induct)
  case (1 acc seen)
  then show ?case by (auto split: if_splits)
next
  case (2 acc seen c cs)
  let ?bad = "(cp_id c \<noteq> ''original'' \<and> cp_id c \<noteq> ''motion'') \<or> cp_id c \<in> set seen \<or> cp_size c < 0
         \<or> cp_size c > max_part_bytes \<or> \<not> validHash (cp_sha256 c) \<or> acc > max_part_bytes - cp_size c"
  from "2.prems"(1) have ok: "\<not> ?bad" by (metis normalize_components.simps(2) option.distinct(1))
  from "2.prems"(1) obtain ds
    where ds: "normalize_components (acc + cp_size c) (cp_id c # seen) cs = Some ds"
      "cs' = clear_counters (c\<lparr>cp_sha256 := to_lower (cp_sha256 c)\<rparr>) # ds"
    unfolding normalize_components.simps(2) if_not_P [OF ok] by blast
  from "2.IH" [OF ok ds(1)] show ?case by (simp add: ds(2) clear_counters_def)
qed

text \<open>A header without counted parts is sound where no receipt is stored.\<close>

lemma uncounted_sound:
  assumes "validateSession s ident = None" "list_all (\<lambda>c. cp_received_parts c \<le> 0) (components_of s)"
    and "\<And>name p. entry_of ident name st \<noteq> Some (ReceiptFile p)" "live s \<or> map_of (p_active st) ident = None"
  shows "header_sound sha now st ident s"
  using assms
  by (auto simp: header_sound_def receipts_sound_def counts_sound_def busy_live_def list_all_iff intro: order_trans)

lemma zero_counters_ok: "0 \<le> cp_size c \<Longrightarrow> cp_received_parts c = 0 \<Longrightarrow> cp_received_bytes c = 0 \<Longrightarrow> counters_ok c"
  using count_nonneg [of c] by (simp add: counters_ok_def)

text \<open>The random source delivers keys of 32 bytes.\<close>

definition keyed :: "surroundings \<Rightarrow> bool" where
  "keyed e \<longleftrightarrow> (\<forall>k. e_random e = Some k \<longrightarrow> length k = 32)"

lemma new_session_valid:
  assumes "normalize sp0 = Inr sp" "validID owner" "validID ident" "length key = 32" "clocked e"
  shows "validateSession (stamped e (new_session e owner ident sp key)) ident = None"
    and "components_of (new_session e owner ident sp key) = ps_components sp"
    and "list_all (\<lambda>c. cp_received_parts c = 0 \<and> cp_received_bytes c = 0) (ps_components sp)"
proof -
  let ?s = "new_session e owner ident sp key"
  have f: "s_version ?s = 1" "s_id ?s = ident" "s_owner ?s = owner" "s_spec ?s = sp" "s_key ?s = B64 key"
    "s_created ?s = to_utc (e_now e)" "s_attempts ?s = 0" "known_status (s_status ?s)"
    by (simp_all add: new_session_def Let_def known_status_def)
  show comps: "components_of ?s = ps_components sp" by (simp add: components_of_def f)
  show z: "list_all (\<lambda>c. cp_received_parts c = 0 \<and> cp_received_bytes c = 0) (ps_components sp)"
    using assms(1) normalized_counters by (auto simp: normalize_def split: if_splits option.splits)
  from normalize_again [OF assms(1)] have n: "normalize sp = Inr sp" .
  then obtain cs where "normalize_components 0 [] (ps_components sp) = Some cs"
    unfolding normalize_def by (simp split: if_split_asm option.split_asm)
  from normalize_components_sane [OF this] have "list_all sane_component (ps_components sp)"
    by (simp add: max_part_bytes_def max_int64_def)
  with z have "list_all counters_ok (ps_components sp)"
    by (auto simp: list_all_iff intro!: zero_counters_ok sane_id(2))
  with n assms(2-) f comps show "validateSession (stamped e ?s) ident = None"
    unfolding valid_iff by (simp add: stamped_def components_of_def clocked_def is_zero_def)
qed

section \<open>Creation\<close>

lemma quiet_admit_scan [quieten]: "quiet (admit_scan e l ids n acc)"
proof (induction ids arbitrary: n acc)
  case (Cons ident ids)
  then show ?case unfolding admit_scan.simps Let_def by (intro quieten) auto
qed (simp add: quiet_give)

lemma quiet_admitNew [quieten]: "quiet (admitNew e spec)"
  unfolding admitNew_def by (intro quieten)

lemma quiet_draw_key [quieten]: "quiet (draw_key e)"
  unfolding draw_key_def by (intro quieten)

lemma parts_ok_entries:
  assumes e: "\<And>k n. entry_of k n st' = entry_of k n st"
    and r: "p_receivers st' = p_receivers st" "p_next_receiver st' = p_next_receiver st"
    and m: "p_live st' = p_live st" "p_queue st' = p_queue st" "p_active st' = p_active st"
  shows "parts_ok sha now st' = parts_ok sha now st"
proof -
  have h: "header k st' = header k st" for k by (simp add: header_def e)
  have "header_marked now st' k s = header_marked now st k s" for k s by (simp add: header_marked_def m)
  moreover have "header_sound sha now st' k s = header_sound sha now st k s" for k s
    unfolding header_sound_def receipts_sound_def part_sound_def counts_sound_def received_def busy_live_def e m ..
  moreover have "dir_shape st' k = dir_shape st k" for k unfolding dir_shape_def e ..
  ultimately have d: "dir_sound sha now st' k = dir_sound sha now st k" for k
    unfolding dir_sound_def h e m by (simp split: option.split)
  have "receiver_sound sha st' x = receiver_sound sha st x" for x unfolding receiver_sound_def e r ..
  then show ?thesis unfolding parts_ok_def r using d by presburger
qed

lemma make_dir_keeps:
  "parts_ok sha now (make_dir ident st) = parts_ok sha now st" "header k (make_dir ident st) = header k st"
proof -
  show "parts_ok sha now (make_dir ident st) = parts_ok sha now st"
    by (rule parts_ok_entries) (simp, simp_all add: make_dir_def)
  show "header k (make_dir ident st) = header k st" by (simp add: header_def)
qed

lemma safe_draw_key:
  "keyed e \<Longrightarrow> (\<And>key. length key = 32 \<Longrightarrow> safe e P (g key)) \<Longrightarrow> safe e P (andthen (draw_key e) g)"
  unfolding draw_key_def by (cases "e_random e") (auto simp: keyed_def ensures_def andthen_def fails_def give_def)

lemma safe_create_new:
  assumes "normalize sp0 = Inr sp" "validID owner" "validID ident" "clocked e" "keyed e"
  shows "safe e (\<lambda>st. header ident st = None) (create_new e owner ident sp)"
proof -
  let ?N = "\<lambda>st. header ident st = None"
  have resp: "respectful ?N" by (rule respectful_header)
  have mk: "safe e ?N (andthen (change (make_dir ident)) g)" if "\<And>v. safe e ?N (g v)"
    for g :: "unit \<Rightarrow> parts_view parts"
    by (rule ensures_andthen [where R = "\<lambda>_ st. ok_at e st \<and> ?N st"])
       (auto intro!: ensures_change that simp: make_dir_keeps)
  have sv: "safe e ?N (andthen (attempt (save e (new_session e owner ident sp key))) g)"
    if "length key = 32" "\<And>v. safe e (\<lambda>_. True) (g v)" for key and g :: "parts_error + session \<Rightarrow> parts_view parts"
  proof (rule safe_attempt [OF safe_save_last that(2)])
    fix st
    assume a: "ok_at e st" "?N st"
    note n = new_session_valid [OF assms(1-3) that(1) assms(4)]
    have "s_id (new_session e owner ident sp key) = ident" by (simp add: new_session_def Let_def)
    then show "header_sound (e_sha e) (instant (e_now e)) st (s_id (new_session e owner ident sp key))
        (stamped e (new_session e owner ident sp key))"
      using uncounted_sound [OF n(1), of st] n(2,3) parts_ok_no_header [OF a]
      by (simp add: list_all_iff live_def new_session_def Let_def)
  qed
  show ?thesis
    unfolding create_new_def Let_def
    by (rule safe_quiet_then [OF quiet_admitNew resp], rule safe_draw_key [OF assms(5)],
        rule safe_quiet_then [OF quiet_io resp], rule mk, rule safe_quiet_then [OF quiet_reserve resp], rule sv)
       (assumption, intro safe_sum safe_then safely)
qed

text \<open>
  \<open>os.RemoveAll\<close> on a directory of an upload that fails half way: what it leaves is sound when no receipt
  is left without its part and the header. The code does not ensure this.
\<close>

definition orderly :: "surroundings \<Rightarrow> bool" where
  "orderly e \<longleftrightarrow> (\<forall>c i. receipt_name c i \<in> set (e_leftover e) \<longrightarrow>
     part_file_name c i \<in> set (e_leftover e) \<and> ''session.enc'' \<in> set (e_leftover e))"

lemma map_of_filter_key: "map_of (filter (\<lambda>(n, _). n \<in> A) d) k = (if k \<in> A then map_of d k else None)"
  by (induction d) auto

lemma leftover_entries:
  "entry_of k n (st\<lparr>p_dirs := AList.update ident (filter (\<lambda>(n, _). n \<in> set ns) (dir_of ident st)) (p_dirs st)\<rparr>)
    = (if k = ident \<and> n \<notin> set ns then None else entry_of k n st)"
  by (auto simp: entry_of_def dir_of_def map_of_filter_key)

lemma removed_entries:
  "entry_of k n (st\<lparr>p_dirs := AList.delete ident (p_dirs st)\<rparr>) = (if k = ident then None else entry_of k n st)"
  by (auto simp: entry_of_def dir_of_def)

lemma receipt_named:
  assumes "dir_shape st ident" "entry_of ident n st = Some (ReceiptFile p)"
  shows "n = receipt_name (pr_component p) (pr_index p)"
proof -
  from assms have "suffix ''.receipt.enc'' n \<longrightarrow>
      (\<exists>q. ReceiptFile p = ReceiptFile q \<and> n = receipt_name (pr_component q) (pr_index q))"
    "\<not> suffix ''.receipt.enc'' n \<longrightarrow> (\<forall>q. ReceiptFile p \<noteq> ReceiptFile q)"
    unfolding dir_shape_def by blast+
  then show ?thesis by auto
qed

lemma all_less:
  "(\<And>n x. f n = Some x \<Longrightarrow> g n = Some x) \<Longrightarrow> \<forall>n x. g n = Some x \<longrightarrow> R n x \<Longrightarrow> \<forall>n x. f n = Some x \<longrightarrow> R n x"
  by blast

lemma dir_shape_less:
  "(\<And>n x. entry_of k n st' = Some x \<Longrightarrow> entry_of k n st = Some x) \<Longrightarrow> dir_shape st k \<Longrightarrow> dir_shape st' k"
  unfolding dir_shape_def by (rule all_less)

lemma fewer_files:
  assumes ok: "parts_ok sha now st"
    and e: "\<And>k n. entry_of k n st' = (if k = ident \<and> \<not> keep n then None else entry_of k n st)"
    and r: "p_receivers st' = p_receivers st" "p_next_receiver st' = p_next_receiver st"
    and m: "p_live st' = p_live st" "p_queue st' = p_queue st" "p_active st' = p_active st"
    and idle: "map_of (p_active st) ident = None"
    and k: "\<And>c i. keep (receipt_name c i) \<Longrightarrow> keep (part_file_name c i) \<and> keep ''session.enc''"
    and dead: "\<And>s. header ident st = Some s \<Longrightarrow> \<not> (live s \<and> fresh now s)"
  shows "parts_ok sha now st'"
proof -
  have other: "header k st' = header k st" if "k \<noteq> ident" for k using that by (simp add: header_def e)
  have mk: "header_marked now st' k s = header_marked now st k s" for k s by (simp add: header_marked_def m)
  have kept: "entry_of k n st = Some x" if "entry_of k n st' = Some x" for k n x
    using that by (simp add: e split: if_splits)
  have shape: "dir_shape st' k" for k
    by (rule dir_shape_less [OF kept]) (use parts_ok_dir [OF ok, of k] in \<open>simp_all add: dir_sound_def\<close>)
  have recs: "keep (part_file_name (pr_component p) (pr_index p)) \<and> keep ''session.enc''"
    if "entry_of ident n st' = Some (ReceiptFile p)" for n p
  proof -
    from that have x: "keep n" by (simp add: e split: if_splits)
    from parts_ok_dir [OF ok, of ident] have "dir_shape st ident" by (simp add: dir_sound_def)
    from receipt_named [OF this kept [OF that]] x k show ?thesis by blast
  qed
  have "dir_sound sha now st' j" for j
  proof (cases "j = ident")
    case False
    then have "entry_of j n st' = entry_of j n st" for n by (simp add: e)
    then have "header_sound sha now st' j s = header_sound sha now st j s" for s
      unfolding header_sound_def receipts_sound_def part_sound_def counts_sound_def received_def busy_live_def m by simp
    with parts_ok_dir [OF ok, of j] False show ?thesis
      by (cases "header j st") (simp_all add: dir_sound_def shape other mk e m)
  next
    case True
    show ?thesis
    proof (cases "header ident st'")
      case None
      have "entry_of ident n st' \<noteq> Some (ReceiptFile p)" for n p
      proof
        assume a: "entry_of ident n st' = Some (ReceiptFile p)"
        from recs [OF a] have "keep ''session.enc''" by simp
        then have "header ident st' = header ident st" by (simp add: header_def e)
        with None have "header ident st = None" by simp
        from parts_ok_no_header [OF ok this] a show False by (auto simp: e split: if_splits)
      qed
      with None idle show ?thesis by (simp add: dir_sound_def True shape m)
    next
      case (Some s)
      then have h: "header ident st = Some s" by (auto simp: header_def e split: if_splits)
      note hs = parts_ok_header [OF ok h]
      have "part_sound sha st' ident s p" if a: "entry_of ident n st' = Some (ReceiptFile p)" for n p
      proof -
        from a have "entry_of ident n st = Some (ReceiptFile p)" by (auto simp: e split: if_splits)
        with hs have "part_sound sha st ident s p" by (auto simp: header_sound_def receipts_sound_def)
        with recs [OF a] show ?thesis by (simp add: part_sound_def e)
      qed
      then have "receipts_sound sha st' ident s" by (simp add: receipts_sound_def)
      moreover have "counts_sound now st' ident s" using dead [OF h] unfolding counts_sound_def by blast
      ultimately show ?thesis using hs Some True by (simp add: dir_sound_def shape mk header_sound_def busy_live_def m)
    qed
  qed
  moreover have "receiver_sound sha st' x" if "receiver_sound sha st x" for x
    using that by (auto simp: receiver_sound_def e r)
  ultimately show ?thesis using ok by (simp add: parts_ok_def r)
qed

lemma not_active: "\<not> isActive ident st \<Longrightarrow> map_of (p_active st) ident = None"
  by (simp add: isActive_def)

lemma remove_all_rule:
  assumes "orderly e" "\<And>st s. ok_at e st \<Longrightarrow> P st \<Longrightarrow> header ident st = Some s \<Longrightarrow> expired e s"
    and "\<And>st. P st \<Longrightarrow> \<not> isActive ident st"
  shows "ensures (\<lambda>st. ok_at e st \<and> P st) (remove_all e ident)
     (\<lambda>_ st. ok_at e st \<and> header ident st = None) (\<lambda>_. ok_at e)"
proof (rule ensuresI)
  fix st v t
  assume a: "ok_at e st \<and> P st" "remove_all e ident st = (Inr v, t)"
  obtain r u where io: "io st = (r, u)" by (cases "io st")
  then have u: "same_durable st u" "t = u\<lparr>p_dirs := AList.delete ident (p_dirs u)\<rparr>"
    using a quietD [OF quiet_io io]
    by (auto simp: remove_all_def andthen_def attempt_def change_def fails_def split: sum.splits)
  have ok: "ok_at e u" by (rule respectfulD [OF parts_ok_respectful u(1)]) (use a in simp)
  have idle: "map_of (p_active u) ident = None"
    using a assms(3) not_active u(1) by (fastforce simp: same_durable_def same_files_def)
  have "ok_at e t"
    by (rule fewer_files [OF ok, of _ ident "\<lambda>_. False"])
       (use a idle assms(2) respectfulD [OF respectful_header [of "\<lambda>h. h = header ident st" ident] u(1)]
        in \<open>auto simp: u(2) removed_entries expired_alt\<close>)
  moreover have "header ident t = None" by (simp add: header_def u(2) removed_entries)
  ultimately show "ok_at e t \<and> header ident t = None" ..
next
  fix st err t
  assume a: "ok_at e st \<and> P st" "remove_all e ident st = (Inl err, t)"
  obtain r u where io: "io st = (r, u)" by (cases "io st")
  then have u: "same_durable st u" "t = u\<lparr>p_dirs := AList.update ident
       (filter (\<lambda>(n, _). n \<in> set (e_leftover e)) (dir_of ident u)) (p_dirs u)\<rparr>"
    using a quietD [OF quiet_io io]
    by (auto simp: remove_all_def andthen_def attempt_def change_def fails_def split: sum.splits)
  have ok: "ok_at e u" by (rule respectfulD [OF parts_ok_respectful u(1)]) (use a in simp)
  have idle: "map_of (p_active u) ident = None"
    using a assms(3) not_active u(1) by (fastforce simp: same_durable_def same_files_def)
  show "ok_at e t"
    by (rule fewer_files [OF ok, of _ ident "\<lambda>n. n \<in> set (e_leftover e)"])
       (use a idle assms(1,2) respectfulD [OF respectful_header [of "\<lambda>h. h = header ident st" ident] u(1)]
        in \<open>auto simp: u(2) leftover_entries expired_alt orderly_def\<close>)
qed

lemma safe_remove_all:
  assumes "orderly e" "\<And>st s. ok_at e st \<Longrightarrow> P st \<Longrightarrow> header ident st = Some s \<Longrightarrow> expired e s"
    and "\<And>st. P st \<Longrightarrow> \<not> isActive ident st" "\<And>v. safe e (\<lambda>st. header ident st = None) (g v)"
  shows "safe e P (andthen (remove_all e ident) g)"
  by (rule ensures_andthen [OF remove_all_rule [OF assms(1-3)] assms(4)])

lemma Create_keeps:
  assumes "clocked e" "keyed e" "orderly e"
  shows "keeps (ok_at e) (Create e owner ident sp0)"
  unfolding Create_def
proof (intro safe_keeps safe_refuse safe_of_result safe_gated safe_attempt_load_any)
  fix sp s
  assume ids: "\<not> (\<not> validID owner \<or> \<not> validID ident)" and sp: "normalize sp0 = Inr sp"
  have new: "safe e (\<lambda>st. header ident st = None) (create_new e owner ident sp)"
    using safe_create_new [OF sp _ _ assms(1,2)] ids by blast
  have rel: "safe e (\<lambda>st. header ident st = None) (andthen (change (release ident)) (\<lambda>_. create_new e owner ident sp))"
    by (rule safe_quiet_then [OF quiet_change respectful_header new]) (rule quiet_lease)
  have rem: "safe e (\<lambda>st. header ident st = Some s \<and> isActive ident st = act) (andthen (remove_all e ident) (\<lambda>_.
                     andthen (change (release ident)) (\<lambda>_. create_new e owner ident sp)))" if "expired e s" "\<not> act" for act
    by (rule safe_remove_all [OF assms(3) _ _ rel]) (use that in auto)
  show "safe e (\<lambda>st. header ident st = Some s)
     (case Inr (s, expired e s) of
         Inr (old, late) \<Rightarrow>
           if \<not> same_upload owner sp old then fails ErrConflict
           else if \<not> late then give (view old)
           else
             andthen (look (isActive ident)) (\<lambda>act.
             andthen (refuse_if act ErrConflict) (\<lambda>_.
             andthen (remove_all e ident) (\<lambda>_.
             andthen (change (release ident)) (\<lambda>_.
             create_new e owner ident sp))))
       | Inl err \<Rightarrow> if err \<noteq> ErrNotFound then fails err else create_new e owner ident sp)"
    unfolding sum.case prod.case by (intro safe_if safe_fails safe_give safe_look_at safe_refuse rem) simp_all
  fix err
  show "safe e (\<lambda>st. (err = ErrNotFound \<and> validID ident \<longrightarrow> header ident st = None) \<and> err \<noteq> ErrExpired)
     (case Inl err of
         Inr (old, late) \<Rightarrow>
           if \<not> same_upload owner sp old then fails ErrConflict
           else if \<not> late then give (view old)
           else
             andthen (look (isActive ident)) (\<lambda>act.
             andthen (refuse_if act ErrConflict) (\<lambda>_.
             andthen (remove_all e ident) (\<lambda>_.
             andthen (change (release ident)) (\<lambda>_.
             create_new e owner ident sp))))
       | Inl err \<Rightarrow> if err \<noteq> ErrNotFound then fails err else create_new e owner ident sp)"
    unfolding sum.case by (intro safe_if safe_fails safe_weaken [OF new]) (use ids in auto)
qed

end
