(* ===== verification/Mobile_Parts.thy ===== *)
theory Mobile_Parts
  imports Mobile_Safety
begin

text \<open>
  Receiving the parts of a mobile upload: admission, the body that arrives without the gate, and the short
  commit that moves it into place, seals its receipt, counts the receipts and saves the header.
\<close>

section \<open>Files of parts\<close>

lemma put_part_keeps:
  assumes ok: "parts_ok sha now st" and n: "n \<noteq> ''session.enc''" "\<not> suffix ''.receipt.enc'' n"
    and free: "\<And>name p. entry_of ident name st = Some (ReceiptFile p) \<Longrightarrow> part_file_name (pr_component p) (pr_index p) \<noteq> n"
    and unused: "\<And>r. r \<in> set (p_receivers st) \<Longrightarrow> rc_session r = ident \<Longrightarrow> rc_name r \<noteq> Some n"
  shows "parts_ok sha now (put_entry ident n (PartFile a b c d) st)"
    "header k (put_entry ident n (PartFile a b c d) st) = header k st"
proof -
  let ?st = "put_entry ident n (PartFile a b c d) st"
  have other: "entry_of k m ?st = entry_of k m st" if "m \<noteq> n \<or> k \<noteq> ident" for k m
    using that by (auto simp: entry_of_put)
  show h: "header k ?st = header k st" for k using n by (simp add: header_def other)
  have r: "p_receivers ?st = p_receivers st" "p_next_receiver ?st = p_next_receiver st"
    and m: "p_live ?st = p_live st" "p_queue ?st = p_queue st" by (simp_all add: put_entry_def)
  have mk: "header_marked now ?st k s = header_marked now st k s" for k s by (simp add: header_marked_def m)
  have rec: "entry_of k m st = Some (ReceiptFile p) \<and> (k = ident \<longrightarrow> m \<noteq> n)" if "entry_of k m ?st = Some (ReceiptFile p)" for k m p
    using that by (auto simp: entry_of_put split: if_splits)
  have received: "received ?st k c = received st k c" for k c
  proof -
    have "receipt_name (cp_id c) i \<noteq> n" for i using n(2) receipt_suffix(1) by metis
    then show ?thesis by (simp add: received_def other)
  qed
  have shape: "dir_shape ?st k" for k
    using parts_ok_dir [OF ok, of k] n unfolding dir_sound_def dir_shape_def by (simp add: entry_of_put)
  have part: "part_sound sha ?st k s p" if "part_sound sha st k s p" "entry_of k m st = Some (ReceiptFile p)" for k m s p
  proof -
    have "k = ident \<Longrightarrow> part_file_name (pr_component p) (pr_index p) \<noteq> n" using free that(2) by blast
    then have "entry_of k (part_file_name (pr_component p) (pr_index p)) ?st
        = entry_of k (part_file_name (pr_component p) (pr_index p)) st" by (intro other) blast
    with that(1) show ?thesis by (simp add: part_sound_def)
  qed
  have hs: "header_sound sha now ?st k s" if "header_sound sha now st k s" for k s
    using that part rec unfolding header_sound_def receipts_sound_def counts_sound_def received busy_live_simps by blast
  have "dir_sound sha now ?st k" for k
  proof (cases "header k st")
    case None
    have "entry_of k name ?st \<noteq> Some (ReceiptFile p)" for name p
      using rec [of k name p] parts_ok_no_header [OF ok None, of name p] by blast
    moreover have "map_of (p_active st) k = None" using parts_ok_dir [OF ok, of k] None by (simp add: dir_sound_def)
    ultimately show ?thesis using None shape by (simp add: dir_sound_def h)
  next
    case (Some s)
    with parts_ok_header [OF ok Some] hs shape show ?thesis by (simp add: dir_sound_def h mk)
  qed
  moreover have "receiver_sound sha ?st x" if "x \<in> set (p_receivers st)" "receiver_sound sha st x" for x
  proof -
    have "rc_name x = Some m \<Longrightarrow> entry_of (rc_session x) m ?st = entry_of (rc_session x) m st" for m
      using unused [OF that(1)] by (auto simp: entry_of_put)
    with that(2) show ?thesis unfolding receiver_sound_def r by simp
  qed
  ultimately show "parts_ok sha now ?st" using ok by (simp add: parts_ok_def r)
qed

lemma put_receipt_keeps:
  assumes ok: "parts_ok sha now st" and h: "header ident st = Some s" and p: "part_sound sha st ident s p"
  shows "parts_ok sha now (put_entry ident (receipt_name (pr_component p) (pr_index p)) (ReceiptFile p) st)"
    "header k (put_entry ident (receipt_name (pr_component p) (pr_index p)) (ReceiptFile p) st) = header k st"
proof -
  let ?n = "receipt_name (pr_component p) (pr_index p)"
  let ?st = "put_entry ident ?n (ReceiptFile p) st"
  have other: "entry_of k m ?st = entry_of k m st" if "m \<noteq> ?n \<or> k \<noteq> ident" for k m
    using that by (auto simp: entry_of_put)
  show hd: "header k ?st = header k st" for k using name_neqs(2) [symmetric] by (simp add: header_def other)
  have r: "p_receivers ?st = p_receivers st" "p_next_receiver ?st = p_next_receiver st"
    and m: "p_live ?st = p_live st" "p_queue ?st = p_queue st" by (simp_all add: put_entry_def)
  have mk: "header_marked now ?st k s = header_marked now st k s" for k s by (simp add: header_marked_def m)
  have part: "part_sound sha ?st k t q = part_sound sha st k t q" for k t q
    unfolding part_sound_def using name_neqs(1) other by metis
  have shape: "dir_shape ?st k" for k
    using parts_ok_dir [OF ok, of k] name_neqs(2) unfolding dir_sound_def dir_shape_def by (simp add: entry_of_put)
  have more: "card (received st k c) \<le> card (received ?st k c)" for k c
    by (rule card_mono [OF received_finite]) (auto simp: received_def entry_of_put)
  have hs: "header_sound sha now ?st k t" if "header_sound sha now st k t" "header k st = Some t" for k t
  proof -
    have "receipts_sound sha ?st k t"
      unfolding receipts_sound_def part
    proof (intro allI impI)
      fix m q
      assume a: "entry_of k m ?st = Some (ReceiptFile q)"
      show "part_sound sha st k t q"
      proof (cases "k = ident \<and> m = ?n")
        case True
        with a have "q = p" by (simp add: entry_of_put)
        with True h that(2) p show ?thesis by simp
      next
        case False
        with a have "entry_of k m st = Some (ReceiptFile q)" using other by metis
        with that(1) show ?thesis by (auto simp: header_sound_def receipts_sound_def)
      qed
    qed
    moreover have "counts_sound now ?st k t"
      using that(1) more [of k] unfolding header_sound_def counts_sound_def by (meson of_nat_mono order_trans)
    ultimately show ?thesis using that(1) by (simp add: header_sound_def)
  qed
  have "dir_sound sha now ?st k" for k
  proof (cases "header k st")
    case None
    then have "k \<noteq> ident" using h by auto
    with None parts_ok_dir [OF ok, of k] shape show ?thesis by (simp add: dir_sound_def hd other)
  next
    case (Some t)
    with parts_ok_header [OF ok Some] hs shape show ?thesis by (simp add: dir_sound_def hd mk)
  qed
  moreover have "receiver_sound sha ?st x" if "receiver_sound sha st x" for x
  proof -
    have "temp_name m \<Longrightarrow> m \<noteq> ?n" for m using temp_name_facts(2) receipt_suffix(1) by metis
    then have "rc_name x = Some m \<Longrightarrow> entry_of (rc_session x) m ?st = entry_of (rc_session x) m st" for m
      using that by (auto simp: entry_of_put receiver_sound_def)
    with that show ?thesis unfolding receiver_sound_def r by simp
  qed
  ultimately show "parts_ok sha now ?st" using ok by (simp add: parts_ok_def r)
qed

section \<open>Receivers\<close>

lemma receivers_keep:
  assumes "parts_ok sha now st" "\<forall>r \<in> set rs. receiver_sound sha (st\<lparr>p_next_receiver := n\<rparr>) r" "distinct (map rc_no rs)"
    "p_dirs st' = p_dirs st" "p_live st' = p_live st" "p_queue st' = p_queue st" "p_receivers st' = rs"
    "p_next_receiver st' = n" "p_active st' = p_active st"
  shows "parts_ok sha now st'"
proof -
  have e: "entry_of k m st' = entry_of k m st" "entry_of k m (st\<lparr>p_next_receiver := n\<rparr>) = entry_of k m st" for k m
    using assms(4) by (simp_all add: entry_of_def dir_of_def)
  have h: "header k st' = header k st" for k by (simp add: header_def e)
  have "dir_sound sha now st' k = dir_sound sha now st k" for k
    unfolding dir_sound_def dir_shape_def header_sound_def receipts_sound_def part_sound_def counts_sound_def
      received_def header_marked_def busy_live_def e h assms(5,6,9) ..
  moreover have "receiver_sound sha st' r = receiver_sound sha (st\<lparr>p_next_receiver := n\<rparr>) r" for r
    unfolding receiver_sound_def e using assms(8) by simp
  ultimately show ?thesis using assms(1-3,7) unfolding parts_ok_def by metis
qed

lemma receiver_sound_D:
  "parts_ok sha now st \<Longrightarrow> r \<in> set (p_receivers st) \<Longrightarrow> receiver_sound sha st r"
  by (simp add: parts_ok_def)

lemma receiver_of_Some: "receiver_of no st = Some r \<Longrightarrow> r \<in> set (p_receivers st) \<and> rc_no r = no"
  by (auto simp: receiver_of_def find_Some_iff)

lemma end_receive_keeps:
  assumes ok: "parts_ok sha now st" and n: "\<And>n. rc_name r = Some n \<Longrightarrow> temp_name n"
  shows "parts_ok sha now (end_receive e r st)"
proof -
  define st1 where "st1 = (case rc_name r of None \<Rightarrow> st | Some n \<Rightarrow> del_entry (rc_session r) n st)"
  have ok1: "parts_ok sha now st1"
  proof (cases "rc_name r")
    case None
    with ok show ?thesis by (simp add: st1_def)
  next
    case (Some n)
    note t = temp_name_facts [OF assms(2) [OF Some]]
    have "parts_ok sha now (del_entry (rc_session r) n st)"
      by (rule del_keeps(1) [OF ok t(4)]) (use t(2,3) receipt_suffix(2) in metis)+
    with Some show ?thesis by (simp add: st1_def)
  qed
  define st2 where "st2 = st1\<lparr>p_receivers := filter (\<lambda>x. rc_no x \<noteq> rc_no r) (p_receivers st1)\<rparr>"
  have "parts_ok sha now st2"
  proof (rule receivers_keep [OF ok1])
    show "\<forall>x \<in> set (filter (\<lambda>x. rc_no x \<noteq> rc_no r) (p_receivers st1)).
        receiver_sound sha (st1\<lparr>p_next_receiver := p_next_receiver st1\<rparr>) x"
      using ok1 by (simp add: parts_ok_def)
    show "distinct (map rc_no (filter (\<lambda>x. rc_no x \<noteq> rc_no r) (p_receivers st1)))"
      using ok1 by (simp add: parts_ok_def distinct_map_filter)
  qed (simp_all add: st2_def)
  moreover from this have "parts_ok sha now (uncheck (rc_session r) st2)"
    by (rule respectfulD [OF parts_ok_respectful quiet_lease(2)])
  ultimately show ?thesis by (simp add: end_receive_def st1_def [symmetric] st2_def [symmetric] Let_def)
qed

lemma safe_header:
  assumes "validateSession s ident = None \<Longrightarrow> s_id s = ident \<Longrightarrow> safe e (\<lambda>st. header ident st = Some s \<and> P st) f"
  shows "safe e (\<lambda>st. header ident st = Some s \<and> P st) f"
proof (cases "validateSession s ident = None")
  case True
  with validate_facts(1) assms show ?thesis by blast
next
  case False
  then show ?thesis by (intro safe_False) (use parts_ok_header in \<open>auto simp: header_sound_def\<close>)
qed

lemma receiveComponent_Inr:
  assumes "receiveComponent s device cid index len hash = Inr c"
  shows "c \<in> set (components_of s)" "cp_id c = cid" "partLength c index = Inr len" "validHash hash"
    "ps_device (s_spec s) = device"
  using assms by (auto simp: receiveComponent_def components_of_def find_Some_iff split: if_splits option.splits sum.splits)

lemma safe_beginReceive:
  assumes "cp_id c \<in> part_ids" "0 \<le> index"
  shows "safe e P (beginReceive s c index len hash dup)"
proof (rule ensuresI)
  fix st no t
  assume a: "ok_at e st \<and> P st" "beginReceive s c index len hash dup st = (Inr no, t)"
  let ?r = "\<lparr>rc_no = p_next_receiver st, rc_owner = s_owner s, rc_session = s_id s,
       rc_cancelled = False, rc_header = s, rc_component = c, rc_index = index,
       rc_length = len, rc_hash = hash, rc_duplicate = dup, rc_name = None\<rparr>"
  from a(2) have t: "t = st\<lparr>p_receivers := p_receivers st @ [?r], p_next_receiver := Suc (p_next_receiver st)\<rparr>"
    by (auto simp: beginReceive_def Let_def split: if_splits)
  have old: "receiver_sound (e_sha e) st r" if "r \<in> set (p_receivers st)" for r
    using a(1) that by (auto dest: receiver_sound_D)
  show "ok_at e t"
  proof (rule receivers_keep [OF conjunct1 [OF a(1)], where rs = "p_receivers st @ [?r]" and n = "Suc (p_next_receiver st)"])
    show "\<forall>r \<in> set (p_receivers st @ [?r]). receiver_sound (e_sha e) (st\<lparr>p_next_receiver := Suc (p_next_receiver st)\<rparr>) r"
      using old assms by (fastforce simp: receiver_sound_def entry_of_def dir_of_def)
    have "rc_no r \<noteq> p_next_receiver st" if "r \<in> set (p_receivers st)" for r
      using old [OF that] by (simp add: receiver_sound_def)
    then show "distinct (map rc_no (p_receivers st @ [?r]))"
      using a(1) by (force simp: parts_ok_def)
  qed (simp_all add: t)
next
  fix st err t
  assume a: "ok_at e st \<and> P st" "beginReceive s c index len hash dup st = (Inl err, t)"
  then show "ok_at e t" by (auto simp: beginReceive_def Let_def split: if_splits)
qed

lemma append_begin_keeps: "keeps (ok_at e) (append_begin e stopped ident device cid index len hash)"
  unfolding append_begin_def Let_def
proof (intro safe_keeps safe_refuse safe_gated safe_load)
  fix s
  have "safe e (\<lambda>st. header ident st = Some s \<and> True) (andthen (of_result (receiveComponent s device cid index len (to_lower hash)))
       (admit_part e ident cid index len (to_lower hash) s))"
  proof (rule safe_header, rule safe_of_result)
    fix c
    assume v: "validateSession s ident = None" and c: "receiveComponent s device cid index len (to_lower hash) = Inr c"
    note rc = receiveComponent_Inr [OF c]
    have "sane_component c" using validate_facts(3) [OF v] rc(1) by (simp add: list_all_iff)
    then have b: "cp_id c \<in> part_ids" "0 \<le> index" using sane_id partLength_Inr(1) [OF rc(3)] by auto
    show "safe e (\<lambda>st. header ident st = Some s \<and> True) (admit_part e ident cid index len (to_lower hash) s c)"
      unfolding admit_part_def
      by (rule safe_quiet_then [OF quiet_attempt [OF quiet_reads(3)]], rule respectful_conj [OF respectful_header])
         (simp add: respectful_def, intro safe_sum safe_if safe_fails safe_beginReceive b)
  qed
  then show "safe e (\<lambda>st. header ident st = Some s) (andthen (of_result (receiveComponent s device cid index len (to_lower hash)))
       (admit_part e ident cid index len (to_lower hash) s))" by simp
qed

section \<open>The body of a part\<close>

lemma respectful_const: "respectful (\<lambda>_. b)" by (simp add: respectful_def)

text \<open>The name of a temporary file is new: no running call uses it.\<close>

definition new_name :: "string \<Rightarrow> parts_state \<Rightarrow> bool" where
  "new_name name st \<longleftrightarrow> temp_name name \<and> (\<forall>r \<in> set (p_receivers st). rc_name r \<noteq> Some name)"

lemma validateReceived_Inr:
  "validateReceived e stopped n want data hash = Inr () \<Longrightarrow> \<not> stopped \<and> n = want \<and> e_sha e data = hash"
  by (simp add: validateReceived_def split: if_splits)

lemma receive_new_rule:
  fixes e r name body
  defines "f \<equiv> PartFile (s_key (rc_header r)) (cp_id (rc_component r)) (rc_index r) (take (nat (rc_length r + 1)) body)"
  shows "ensures (\<lambda>st. ok_at e st \<and> new_name name st \<and> r \<in> set (p_receivers st)) (receive_new e r name body stopped)
     (\<lambda>_ st. ok_at e st \<and> r \<in> set (p_receivers st) \<and> entry_of (rc_session r) name st = Some f
        \<and> int (length (take (nat (rc_length r + 1)) body)) = rc_length r
        \<and> e_sha e (take (nat (rc_length r + 1)) body) = rc_hash r)
     (\<lambda>_. ok_at e)"
proof -
  let ?P = "\<lambda>st. ok_at e st \<and> new_name name st \<and> r \<in> set (p_receivers st)"
  let ?W = "\<lambda>st. ok_at e st \<and> r \<in> set (p_receivers st) \<and> entry_of (rc_session r) name st = Some f"
  let ?b = "take (nat (rc_length r + 1)) body"
  let ?V = "\<lambda>st. ok_at e st \<and> r \<in> set (p_receivers st) \<and> entry_of (rc_session r) name st = Some f \<and> int (length ?b) = rc_length r \<and> e_sha e ?b = rc_hash r"
  have mem: "respectful (\<lambda>st. r \<in> set (p_receivers st))" by (simp add: respectful_def same_durable_def same_files_def)
  have nm: "respectful (new_name name)" by (simp add: respectful_def same_durable_def same_files_def new_name_def)
  have ent: "respectful (\<lambda>st. entry_of (rc_session r) name st = Some f)"
    by (rule filewise_respectful [OF filewise_entry])
  have respP: "respectful ?P" by (intro respectful_conj parts_ok_respectful mem nm)
  have respV: "respectful ?V" by (intro respectful_conj parts_ok_respectful mem ent respectful_const)
  have put: "ensures ?P (change (put_entry (rc_session r) name f)) (\<lambda>_. ?W) (\<lambda>_. ok_at e)"
  proof (rule ensures_change)
    fix st
    assume p: "?P st"
    then have t: "temp_name name" by (simp add: new_name_def)
    have "ok_at e (put_entry (rc_session r) name f st)"
      unfolding f_def
      by (rule put_part_keeps(1)) (use p temp_name_facts [OF t] receipt_suffix(2) in \<open>auto simp: new_name_def\<close>)
    then show "?W (put_entry (rc_session r) name f st)" using p by (simp add: entry_of_put) (simp add: put_entry_def)
  qed
  have val: "ensures ?W (of_result (validateReceived e (stopped \<or> rc_cancelled r) (int (length ?b)) (rc_length r) ?b (rc_hash r)))
      (\<lambda>_. ?V) (\<lambda>_. ok_at e)"
    by (rule ensures_of_result) (auto dest: validateReceived_Inr)
  have last: "ensures ?V io (\<lambda>_. ?V) (\<lambda>_. ok_at e)"
    by (rule ensures_quietly [OF quiet_io respV]) auto
  have r1: "ensures ?P (refuse_if b err) (\<lambda>_. ?P) (\<lambda>_. ok_at e)" for b err by (rule ensures_refuse) auto
  have io: "ensures ?P io (\<lambda>_. ?P) (\<lambda>_. ok_at e)" by (rule ensures_quietly [OF quiet_io respP]) auto
  have lk: "ensures ?P (look g) (\<lambda>_. ?P) (\<lambda>_. ok_at e)" for g :: "parts_state \<Rightarrow> (string \<times> entry) list option"
    by (rule ensures_look) simp
  show ?thesis
    unfolding receive_new_def Let_def f_def [symmetric]
    by (rule ensures_andthen [OF r1], rule ensures_andthen [OF io], rule ensures_andthen [OF lk],
        rule ensures_andthen [OF r1], rule ensures_andthen [OF put], rule ensures_andthen [OF val], rule last)
qed

lemma safe_end_receive:
  "(\<And>n. rc_name r = Some n \<Longrightarrow> temp_name n) \<Longrightarrow> safe e P (change (end_receive e r))"
  by (rule safe_change) (rule end_receive_keeps)

lemma adopt_temp:
  assumes ok: "parts_ok sha now st" and r: "r \<in> set (p_receivers st)" and t: "temp_name name"
    and f: "entry_of (rc_session r) name st
        = Some (PartFile (s_key (rc_header r)) (cp_id (rc_component r)) (rc_index r) plain)"
      "int (length plain) = rc_length r" "sha plain = rc_hash r"
  shows "parts_ok sha now (st\<lparr>p_receivers :=
      map (\<lambda>x. if rc_no x = rc_no r then r\<lparr>rc_name := Some name\<rparr> else x) (p_receivers st)\<rparr>)"
proof (rule receivers_keep [OF ok, where n = "p_next_receiver st"])
  have "receiver_sound sha st (r\<lparr>rc_name := Some name\<rparr>)"
    using receiver_sound_D [OF ok r] t f by (simp add: receiver_sound_def)
  then show "\<forall>x \<in> set (map (\<lambda>x. if rc_no x = rc_no r then r\<lparr>rc_name := Some name\<rparr> else x) (p_receivers st)).
      receiver_sound sha (st\<lparr>p_next_receiver := p_next_receiver st\<rparr>) x"
    using receiver_sound_D [OF ok] by auto
  have "map rc_no (map (\<lambda>x. if rc_no x = rc_no r then r\<lparr>rc_name := Some name\<rparr> else x) (p_receivers st))
      = map rc_no (p_receivers st)" by simp
  then show "distinct (map rc_no (map (\<lambda>x. if rc_no x = rc_no r then r\<lparr>rc_name := Some name\<rparr> else x) (p_receivers st)))"
    using ok by (simp only: parts_ok_def)
qed simp_all

lemma append_body_keeps:
  assumes "ok_at e st" "new_name name st"
  shows "ok_at e (snd (append_body e no name body stopped st))"
proof (cases "receiver_of no st")
  case None
  with assms show ?thesis by (simp add: append_body_def andthen_def look_def fails_def)
next
  case (Some r)
  note mem = receiver_of_Some [OF Some]
  from receiver_sound_D [OF assms(1) conjunct1 [OF mem]]
  have old: "\<And>n. rc_name r = Some n \<Longrightarrow> temp_name n" by (simp add: receiver_sound_def)
  have t: "temp_name name" using assms(2) by (simp add: new_name_def)
  have fail: "safe e P (andthen (change (end_receive e r')) (\<lambda>_. fails err))"
    if "\<And>n. rc_name r' = Some n \<Longrightarrow> temp_name n" for P r' err and ty :: "unit parts"
    using that by (intro safe_then safe_end_receive safe_fails)
  define body' where "body' = take (nat (rc_length r + 1)) body"
  show ?thesis
  proof (cases "rc_duplicate r")
    case True
    have same: "map (\<lambda>x. if rc_no x = no then r else x) (p_receivers st) = p_receivers st"
    proof (rule map_idI)
      fix x
      assume "x \<in> set (p_receivers st)"
      moreover have "distinct (map rc_no (p_receivers st))" using assms(1) by (simp add: parts_ok_def)
      ultimately show "(if rc_no x = no then r else x) = x" using mem by (auto dest: distinct_map_inj)
    qed
    show ?thesis
    proof (cases "validateReceived e (stopped \<or> rc_cancelled r) (int (length body')) (rc_length r) body' (rc_hash r)")
      case (Inl err)
      have "append_body e no name body stopped st = andthen (change (end_receive e r)) (\<lambda>_. fails err) st"
        by (simp add: append_body_def andthen_def look_def Some Let_def True attempt_def body'_def [symmetric] of_result_def Inl)
      with end_receive_keeps [OF assms(1) old] show ?thesis by (simp add: andthen_def change_def fails_def)
    next
      case (Inr u)
      have "append_body e no name body stopped st
          = change (\<lambda>st. st\<lparr>p_receivers := map (\<lambda>x. if rc_no x = no then r else x) (p_receivers st)\<rparr>) st"
        by (simp add: append_body_def andthen_def look_def Some Let_def True attempt_def body'_def [symmetric] of_result_def Inr)
      with assms(1) same show ?thesis by (simp add: change_def)
    qed
  next
    case False
    let ?r = "r\<lparr>rc_name := Some name\<rparr>"
    obtain res u where run: "receive_new e r name body stopped st = (res, u)" by fastforce
    show ?thesis
    proof (cases res)
      case (Inl err)
      have "append_body e no name body stopped st = andthen (change (end_receive e ?r)) (\<lambda>_. fails err) u"
        by (simp add: append_body_def andthen_def look_def Some Let_def False attempt_def run Inl)
      moreover have "ok_at e u"
        using ensuresD_Inl [OF receive_new_rule _ run [unfolded Inl]] assms mem by blast
      moreover have "temp_name n" if "rc_name ?r = Some n" for n using that t by simp
      ultimately show ?thesis using end_receive_keeps [of "e_sha e" "instant (e_now e)" u ?r e]
        by (simp add: andthen_def change_def fails_def)
    next
      case (Inr v)
      have "append_body e no name body stopped st
          = change (\<lambda>st. st\<lparr>p_receivers := map (\<lambda>x. if rc_no x = no then ?r else x) (p_receivers st)\<rparr>) u"
        by (simp add: append_body_def andthen_def look_def Some Let_def False attempt_def run Inr)
      moreover have "ok_at e u \<and> r \<in> set (p_receivers u)
          \<and> entry_of (rc_session r) name u = Some (PartFile (s_key (rc_header r)) (cp_id (rc_component r)) (rc_index r) body')
          \<and> int (length body') = rc_length r \<and> e_sha e body' = rc_hash r"
        using ensuresD_Inr [OF receive_new_rule _ run [unfolded Inr]] assms mem unfolding body'_def by blast
      ultimately show ?thesis
        using adopt_temp [of "e_sha e" "instant (e_now e)" u r name body'] t mem by (simp add: change_def)
    qed
  qed
qed

section \<open>The commit of a part\<close>

text \<open>Loading, counting and saving leave the running calls alone.\<close>

abbreviation unmoved :: "receiver list \<times> (string \<times> string) list \<Rightarrow> parts_state \<Rightarrow> bool" where
  "unmoved rs st \<equiv> (p_receivers st, p_active st) = rs"

lemma keeps_quiet: "quiet f \<Longrightarrow> keeps (unmoved rs) f"
  by (rule keepsI) (metis quietD same_durable_def same_files_def)

lemma unmoved_change [kept]: "keeps (unmoved rs) (change (mark ix ident on))" "keeps (unmoved rs) (change (put_entry ident n x))"
  "keeps (unmoved rs) (change (del_entry ident n))" "keeps (unmoved rs) (change (check s))"
  "keeps (unmoved rs) (change (uncheck ident))" "keeps (unmoved rs) (change (release ident))"
proof -
  have q: "unmoved rs (check s st) = unmoved rs st" "unmoved rs (uncheck ident st) = unmoved rs st"
    "unmoved rs (release ident st) = unmoved rs st" for st
    using quiet_lease [of st] by (simp_all add: same_durable_def same_files_def)
  show "keeps (unmoved rs) (change (check s))" "keeps (unmoved rs) (change (uncheck ident))"
    "keeps (unmoved rs) (change (release ident))"
    by (rule keeps_change; simp add: q)+
qed (rule keeps_change; auto simp: mark_def put_entry_def del_entry_def split: marker_index.split)+

lemma unmoved_reads [kept]: "keeps (unmoved rs) io" "keeps (unmoved rs) (read_header e ident)"
  "keeps (unmoved rs) (read_dir ident)" "keeps (unmoved rs) (reconcile e s)" "keeps (unmoved rs) (reserve e s)"
  by (intro keeps_quiet quieten)+

lemma unmoved_store [kept]: "keeps (unmoved rs) (setMarker ix ident on)" "keeps (unmoved rs) (addSessionMarkers s)"
  "keeps (unmoved rs) (syncSessionMarkers s)" "keeps (unmoved rs) (writeSealed e ident n x)" "keeps (unmoved rs) (persist e s)"
  "keeps (unmoved rs) (removePayload ident)" "keeps (unmoved rs) (recoverSession e s)"
  by (auto intro!: kept simp: setMarker_def addSessionMarkers_def syncSessionMarkers_def writeSealed_def persist_def
      removePayload_def recoverSession_def)

lemma unmoved_load [kept]: "keeps (unmoved rs) (load_any e ident)" "keeps (unmoved rs) (load e ident)"
proof -
  have [kept]: "keeps (unmoved rs) (change (\<lambda>st. if isActive ident st then st else release ident st))"
  proof (rule keeps_change)
    fix st
    have "p_receivers (release ident st) = p_receivers st \<and> p_active (release ident st) = p_active st"
      using quiet_lease(3) [of st ident] by (simp add: same_durable_def same_files_def)
    then show "unmoved rs st \<Longrightarrow> unmoved rs (if isActive ident st then st else release ident st)" by simp
  qed
  show "keeps (unmoved rs) (load_any e ident)" unfolding load_any_def by (intro kept)
  then show "keeps (unmoved rs) (load e ident)" unfolding load_def by (intro kept)
qed


lemma ensures_also:
  "ensures P f Q E \<Longrightarrow> keeps I f \<Longrightarrow> ensures (\<lambda>st. P st \<and> I st) f (\<lambda>v st. Q v st \<and> I st) E"
  by (rule ensuresI) (auto dest: ensuresD_Inr ensuresD_Inl keepsD)

abbreviation member :: "receiver \<Rightarrow> parts_state \<Rightarrow> bool" where
  "member r st \<equiv> r \<in> set (p_receivers st)"

lemma respectful_member: "respectful (member r)"
  by (simp add: respectful_def same_durable_def same_files_def)

lemma keeps_unmoved:
  assumes "\<And>rs. keeps (unmoved rs) f"
  shows "keeps (\<lambda>st. F (p_receivers st) (p_active st)) f"
proof (rule keepsI)
  fix st x t
  assume "F (p_receivers st) (p_active st)" "f st = (x, t)"
  with keepsD [OF assms refl this(2)] show "F (p_receivers t) (p_active t)" by simp
qed

lemma safe_load_unmoved:
  assumes "\<And>s. \<not> expired e s \<Longrightarrow> safe e (\<lambda>st. header ident st = Some s \<and> F (p_receivers st) (p_active st)) (g s)"
  shows "safe e (\<lambda>st. F (p_receivers st) (p_active st)) (andthen (load e ident) g)"
proof (rule ensures_andthen [where R = "\<lambda>s st. (ok_at e st \<and> header ident st = Some s \<and> \<not> expired e s)
    \<and> F (p_receivers st) (p_active st)"])
  have "keeps (\<lambda>st. F (p_receivers st) (p_active st)) (load e ident)" by (rule keeps_unmoved [OF unmoved_load(2)])
  from ensures_also [OF load_rule this]
  show "ensures (\<lambda>st. ok_at e st \<and> F (p_receivers st) (p_active st)) (load e ident)
      (\<lambda>s st. (ok_at e st \<and> header ident st = Some s \<and> \<not> expired e s) \<and> F (p_receivers st) (p_active st))
      (\<lambda>_. ok_at e)" .
  show "ensures (\<lambda>st. (ok_at e st \<and> header ident st = Some s \<and> \<not> expired e s) \<and> F (p_receivers st) (p_active st)) (g s)
      (\<lambda>_. ok_at e) (\<lambda>_. ok_at e)" for s
    by (cases "expired e s") (auto intro: ensures_False ensures_weaken [OF assms])
qed

lemma safe_load_member:
  "(\<And>s. \<not> expired e s \<Longrightarrow> safe e (\<lambda>st. header ident st = Some s \<and> member r st) (g s)) \<Longrightarrow>
    safe e (member r) (andthen (load e ident) g)"
  using safe_load_unmoved [of e ident "\<lambda>rs _. r \<in> set rs"] by blast

lemma read_receipt_rule:
  assumes "respectful A"
  shows "ensures A (read_receipt e ident name) (\<lambda>p st. A st \<and> entry_of ident name st = Some (ReceiptFile p))
     (\<lambda>err st. A st \<and> (err = ErrNotFound \<longrightarrow> entry_of ident name st = None))"
proof (rule ensuresI)
  fix st p t
  assume a: "A st" "read_receipt e ident name st = (Inr p, t)"
  note sd = quietD [OF quiet_reads(3) a(2)]
  from a(2) have "entry_of ident name st = Some (ReceiptFile p)"
    by (auto simp: read_receipt_def readSealed_def io_def look_def give_def fails_def run_refuse
        entry_of_def dir_of_def andthen_Inr_iff split: list.splits option.splits if_splits entry.splits)
  with respectfulD [OF assms sd a(1)] entry_of_durable [OF sd]
  show "A t \<and> entry_of ident name t = Some (ReceiptFile p)" by simp
next
  fix st err t
  assume a: "A st" "read_receipt e ident name st = (Inl err, t)"
  note sd = quietD [OF quiet_reads(3) a(2)]
  have "err = ErrNotFound \<Longrightarrow> entry_of ident name st = None"
    using a(2) by (auto simp: read_receipt_def readSealed_def io_def look_def give_def fails_def run_refuse
        entry_of_def dir_of_def elim!: andthen_cases split: list.splits option.splits if_splits entry.splits)
  with respectfulD [OF assms sd a(1)] entry_of_durable [OF sd]
  show "A t \<and> (err = ErrNotFound \<longrightarrow> entry_of ident name t = None)" by simp
qed

lemma same_upload_refl [simp]: "same_upload_as s s"
  by (simp add: same_upload_as_def)

text \<open>Counting the receipts and saving the header.\<close>

lemma safe_recount_save:
  assumes "clocked e" "\<not> expired e s" "s_id s = ident"
  shows "safe e (\<lambda>st. header ident st = Some s)
     (andthen (reconcile e s) (\<lambda>s'. andthen (save e s') (\<lambda>saved. give (view saved))))"
proof (rule ensures_andthen)
  let ?R = "\<lambda>s' st. ok_at e st \<and> header ident st = Some s \<and> header_sound (e_sha e) (instant (e_now e)) st ident s'
      \<and> recovered_from s s'"
  show "ensures (\<lambda>st. ok_at e st \<and> header ident st = Some s) (reconcile e s) ?R (\<lambda>_. ok_at e)"
    by (rule ensures_weaken [OF reconcile_rule]) (auto simp: assms(3))
  fix s'
  show "ensures (?R s') (andthen (save e s') (\<lambda>saved. give (view saved))) (\<lambda>_. ok_at e) (\<lambda>_. ok_at e)"
  proof (cases "recovered_from s s'")
    case False
    then show ?thesis by (intro ensures_False) simp
  next
    case rf: True
    have id: "s_id s' = ident" using recovered_id [OF rf] assms(3) by simp
    show ?thesis
    proof (rule safe_save)
      fix st
      assume "header ident st = Some s \<and> header_sound (e_sha e) (instant (e_now e)) st ident s' \<and> recovered_from s s'"
      then have h: "header_sound (e_sha e) (instant (e_now e)) st ident s'" by simp
      then have v: "validateSession s' ident = None" and busy: "busy_live st ident s'" by (simp_all add: header_sound_def)
      have "expired e s' = expired e s" by (rule recovered_expired [OF rf])
      then have f: "live s' \<Longrightarrow> live s' \<and> fresh (instant (e_now e)) s'" using assms(2) recovered_live [OF rf] by (auto simp: expired_alt)
      show "header_sound (e_sha e) (instant (e_now e)) st (s_id s') (stamped e s')"
        unfolding id
        by (rule restamped_sound [OF h])
           (use f assms(1) validate_facts(6-8) [OF v] busy in \<open>auto simp: clocked_def is_zero_def to_utc_def busy_live_def\<close>)
    qed (intro safely)
  qed
qed

lemma install_part_safe:
  assumes "clocked e" "\<not> expired e s" "s_key s = s_key (rc_header r)"
    and c: "receiveComponent s device (cp_id (rc_component r)) (rc_index r) (rc_length r) (rc_hash r) = Inr c"
  shows "safe e (\<lambda>st. header (rc_session r) st = Some s \<and> member r st
      \<and> entry_of (rc_session r) (receipt_name (cp_id (rc_component r)) (rc_index r)) st = None) (install_part e r s)"
proof (cases "rc_name r")
  case None
  then show ?thesis unfolding install_part_def Let_def by (simp add: safe_fails)
next
  case (Some name)
  define ident cid i where d: "ident = rc_session r" "cid = cp_id (rc_component r)" "i = rc_index r"
  define p where "p = \<lparr>pr_component = cid, pr_index = i, pr_size = rc_length r, pr_hash = rc_hash r\<rparr>"
  note rc = receiveComponent_Inr [OF c, folded d]
  let ?P = "\<lambda>st. header ident st = Some s \<and> member r st \<and> entry_of ident (receipt_name cid i) st = None"
  let ?H = "\<lambda>st. ok_at e st \<and> header ident st = Some s"
  let ?Q = "\<lambda>st. ?H st \<and> part_sound (e_sha e) st ident s p"
  have respP: "respectful (\<lambda>st. ok_at e st \<and> ?P st)"
    by (intro respectful_conj parts_ok_respectful respectful_header respectful_member filewise_respectful filewise_entry)
  have ps: "filewise (\<lambda>st. part_sound (e_sha e) st ident s p)"
    by (simp add: filewise_def part_sound_def entry_of_files)
  have respQ: "respectful ?Q" by (intro respectful_conj parts_ok_respectful respectful_header filewise_respectful ps)
  have respH: "respectful ?H" by (intro respectful_conj parts_ok_respectful respectful_header)
  have id: "s_id s = ident" if "?H st" for st using that parts_ok_id by blast
  text \<open>moving the temporary file to its place\<close>
  have move: "ensures (\<lambda>st. (ok_at e st \<and> ?P st) \<and> entry_of ident name st = Some f)
      (change (\<lambda>st. put_entry ident (part_file_name cid i) f (del_entry ident name st))) (\<lambda>_. ?Q) (\<lambda>_. ok_at e)" for f
  proof (rule ensures_change)
    fix st
    assume a: "(ok_at e st \<and> ?P st) \<and> entry_of ident name st = Some f"
    have v: "validateSession s ident = None" using parts_ok_header a by (auto simp: header_sound_def)
    have rs: "receiver_sound (e_sha e) st r" using a receiver_sound_D by blast
    then have t: "temp_name name" "cid \<in> part_ids" "0 \<le> i" using Some by (simp_all add: receiver_sound_def d)
    from rs a Some obtain plain where f: "f = PartFile (s_key s) cid i plain" "int (length plain) = rc_length r"
      "e_sha e plain = rc_hash r" by (auto simp: receiver_sound_def d assms(3))
    note tn = temp_name_facts [OF t(1)]
    let ?u = "del_entry ident name st"
    have vouch: "part_file_name (pr_component q) (pr_index q) \<noteq> part_file_name cid i"
      if "entry_of ident m st = Some (ReceiptFile q)" for m q
    proof
      assume same: "part_file_name (pr_component q) (pr_index q) = part_file_name cid i"
      from a that have "part_sound (e_sha e) st ident s q"
        using parts_ok_header by (auto simp: header_sound_def receipts_sound_def)
      from part_sound_facts [OF this validate_facts(3) [OF v]] same t(2,3)
      have "pr_component q = cid" "pr_index q = i" by (simp_all add: part_file_name_inj)
      moreover have "dir_shape st ident" using a parts_ok_dir by (auto simp: dir_sound_def)
      ultimately have "m = receipt_name cid i" using receipt_named that by metis
      with that a show False by simp
    qed
    have u: "ok_at e ?u" "header ident ?u = header ident st"
      by (rule del_keeps [of "e_sha e" "instant (e_now e)"]; (use a tn receipt_suffix(2) in metis))+
    have "part_file_name cid i \<noteq> ''session.enc''" "\<not> suffix ''.receipt.enc'' (part_file_name cid i)"
      using name_neqs(3) suffix_last_neq [OF _ receipt_suffix(2), of "''.receipt.enc''" cid i] by auto
    note n = this
    have unused: "rc_name x \<noteq> Some (part_file_name cid i)" if "x \<in> set (p_receivers ?u)" for x
    proof
      assume "rc_name x = Some (part_file_name cid i)"
      with that receiver_sound_D [OF u(1)] have "temp_name (part_file_name cid i)" by (simp add: receiver_sound_def)
      from temp_name_facts(3) [OF this] show False using receipt_suffix(2) by simp
    qed
    have put: "ok_at e (put_entry ident (part_file_name cid i) f ?u)"
      "header ident (put_entry ident (part_file_name cid i) f ?u) = header ident ?u"
      unfolding f(1)
      by (rule put_part_keeps [OF u(1) n]; (use vouch unused in \<open>force simp: entry_of_del split: if_splits\<close>))+
    have "part_sound (e_sha e) (put_entry ident (part_file_name cid i) f ?u) ident s p"
      using rc(1-3) f by (auto simp: part_sound_def p_def entry_of_put d)
    with put u(2) a show "?Q (put_entry ident (part_file_name cid i) f ?u)" by simp
  qed
  have seal: "ensures ?Q (writeSealed e ident (receipt_name cid i) (ReceiptFile p)) (\<lambda>_. ?H) (\<lambda>_. ok_at e)"
    unfolding writeSealed_def
  proof (intro ensures_andthen)
    show "ensures ?Q (refuse_if (\<not> e_unlocked e) ErrLocked) (\<lambda>_. ?Q) (\<lambda>_. ok_at e)" by (rule ensures_refuse) auto
    show "ensures ?Q io (\<lambda>_. ?Q) (\<lambda>_. ok_at e)" by (rule ensures_quietly [OF quiet_io respQ]) auto
    show "ensures ?H io (\<lambda>_. ?H) (\<lambda>_. ok_at e)" by (rule ensures_quietly [OF quiet_io respH]) auto
    show "ensures ?Q (change (put_entry ident (receipt_name cid i) (ReceiptFile p))) (\<lambda>_. ?H) (\<lambda>_. ok_at e)"
    proof (rule ensures_change)
      fix st
      assume a: "?Q st"
      from put_receipt_keeps [of "e_sha e" "instant (e_now e)" st ident s p] a
      show "?H (put_entry ident (receipt_name cid i) (ReceiptFile p) st)" by (simp add: p_def)
    qed
  qed
  have io: "ensures ?Q io (\<lambda>_. ?Q) (\<lambda>_. ok_at e)" by (rule ensures_quietly [OF quiet_io respQ]) auto
  have last: "ensures ?H (andthen (reconcile e s) (\<lambda>s'. andthen (save e s') (\<lambda>saved. give (view saved))))
      (\<lambda>_. ok_at e) (\<lambda>_. ok_at e)"
  proof (cases "s_id s = ident")
    case True
    from safe_recount_save [OF assms(1,2) True] show ?thesis .
  next
    case False
    show ?thesis by (rule ensures_False) (use False id in blast)
  qed
  have look: "ensures (\<lambda>st. ok_at e st \<and> ?P st) (look (entry_of ident name))
      (\<lambda>x st. (ok_at e st \<and> ?P st) \<and> entry_of ident name st = x) (\<lambda>_. ok_at e)" by (rule ensures_look) simp
  show ?thesis
    unfolding install_part_def Let_def Some option.case d [symmetric] p_def [symmetric]
  proof (rule safe_if)
    show "safe e ?P (andthen io (\<lambda>_. andthen (look (entry_of ident name)) (\<lambda>x.
        case x of None \<Rightarrow> fails ErrIO
        | Some f \<Rightarrow> andthen (change (\<lambda>st. put_entry ident (part_file_name cid i) f (del_entry ident name st))) (\<lambda>_.
             andthen io (\<lambda>_.
             andthen (writeSealed e ident (receipt_name cid i) (ReceiptFile p)) (\<lambda>_.
             andthen (reconcile e s) (\<lambda>s'. andthen (save e s') (\<lambda>saved. give (view saved)))))))))"
      (is "safe e ?P (andthen io (\<lambda>_. andthen ?L ?G))")
    proof (rule ensures_andthen)
      show "ensures (\<lambda>st. ok_at e st \<and> ?P st) io (\<lambda>_ st. ok_at e st \<and> ?P st) (\<lambda>_. ok_at e)"
        by (rule ensures_quietly [OF quiet_io respP]) auto
      show "ensures (\<lambda>st. ok_at e st \<and> ?P st) (andthen ?L ?G) (\<lambda>_. ok_at e) (\<lambda>_. ok_at e)" for v
      proof (rule ensures_andthen [OF look])
        show "ensures (\<lambda>st. (ok_at e st \<and> ?P st) \<and> entry_of ident name st = x) (?G x) (\<lambda>_. ok_at e) (\<lambda>_. ok_at e)" for x
        proof (cases x)
          case None
          show ?thesis unfolding None option.case by (rule ensures_fails) simp
        next
          case (Some f)
          show ?thesis unfolding Some option.case
            by (rule ensures_andthen [OF move], rule ensures_andthen [OF io], rule ensures_andthen [OF seal], rule last)
        qed
      qed
    qed
  qed (rule safe_fails)
qed

lemma safe_run:
  assumes "safe e P f" "ok_at e st" "P st" "f st = (x, t)"
  shows "ok_at e t"
  using assms ensuresD_Inr [OF assms(1), of st] ensuresD_Inl [OF assms(1), of st] by (cases x) blast+

lemma publish_part_safe:
  assumes "clocked e"
  shows "safe e (member r) (publish_part e r)"
  unfolding publish_part_def Let_def
proof (intro safe_refuse safe_load_member)
  fix s
  let ?cid = "cp_id (rc_component r)" and ?i = "rc_index r" and ?ident = "rc_session r"
  assume fresh: "\<not> expired e s"
  assume "\<not> (s_key s \<noteq> s_key (rc_header r) \<or> \<not> time_eq (s_created s) (s_created (rc_header r)) \<or> s_status s = ''cancelled'')"
  then have key: "s_key s = s_key (rc_header r)" by simp
  let ?P = "\<lambda>st. header ?ident st = Some s \<and> member r st"
  let ?G = "\<lambda>old. case old of
         Inr p \<Rightarrow> if pr_hash p \<noteq> rc_hash r \<or> pr_size p \<noteq> rc_length r then fails ErrConflict else give (view s)
       | Inl err \<Rightarrow> if err \<noteq> ErrNotFound then fails err else install_part e r s"
  show "safe e ?P (andthen (of_result (receiveComponent s (ps_device (s_spec (rc_header r))) ?cid ?i (rc_length r) (rc_hash r))) (\<lambda>_.
         andthen (attempt (read_receipt e ?ident (receipt_name ?cid ?i))) ?G))"
  proof (rule safe_of_result)
    fix c
    assume c: "receiveComponent s (ps_device (s_spec (rc_header r))) ?cid ?i (rc_length r) (rc_hash r) = Inr c"
    let ?R = "\<lambda>old st. (ok_at e st \<and> ?P st) \<and> (case old of Inr p \<Rightarrow> True
        | Inl err \<Rightarrow> err = ErrNotFound \<longrightarrow> entry_of ?ident (receipt_name ?cid ?i) st = None)"
    have resp: "respectful (\<lambda>st. ok_at e st \<and> ?P st)"
      by (intro respectful_conj parts_ok_respectful respectful_header respectful_member)
    show "safe e ?P (andthen (attempt (read_receipt e ?ident (receipt_name ?cid ?i))) ?G)"
    proof (rule ensures_andthen [OF ensures_attempt [where Q = ?R]])
      show "ensures (\<lambda>st. ok_at e st \<and> ?P st) (read_receipt e ?ident (receipt_name ?cid ?i))
          (\<lambda>p. ?R (Inr p)) (\<lambda>err. ?R (Inl err))"
        by (rule ensures_weaken [OF read_receipt_rule [OF resp]]) auto
      fix old :: "parts_error + part_receipt"
      show "ensures (?R old) (?G old) (\<lambda>_. ok_at e) (\<lambda>_. ok_at e)"
      proof (cases old)
        case (Inl err)
        show ?thesis
        proof (cases "err = ErrNotFound")
          case True
          show ?thesis unfolding Inl sum.case
            by (simp add: True) (rule ensures_weaken [OF install_part_safe [OF assms fresh key c]], auto)
        next
          case False
          then show ?thesis unfolding Inl sum.case by (simp add: ensures_def fails_def)
        qed
      next
        case (Inr p)
        show ?thesis unfolding Inr sum.case by (auto simp: ensures_def fails_def give_def)
      qed
    qed
  qed
qed

lemma append_publish_keeps:
  assumes "clocked e"
  shows "keeps (ok_at e) (append_publish e no refused)"
proof (rule keepsI)
  fix st res t
  assume ok: "ok_at e st" and run: "append_publish e no refused st = (res, t)"
  show "ok_at e t"
  proof (cases "receiver_of no st")
    case None
    with run ok show ?thesis by (simp add: append_publish_def andthen_def look_def fails_def)
  next
    case (Some r)
    note mem = receiver_of_Some [OF Some]
    from receiver_sound_D [OF ok conjunct1 [OF mem]]
    have t: "\<And>n. rc_name r = Some n \<Longrightarrow> temp_name n" by (simp add: receiver_sound_def)
    have body: "safe e (member r) (if rc_cancelled r then fails ErrCanceled
            else gated e (rc_session r) (case refused of Some err \<Rightarrow> fails err | None \<Rightarrow> publish_part e r))"
      by (intro safe_if safe_fails safe_gated safe_option publish_part_safe assms)
    have whole: "safe e (member r) (andthen (attempt
           (if rc_cancelled r then fails ErrCanceled
            else gated e (rc_session r) (case refused of Some err \<Rightarrow> fails err | None \<Rightarrow> publish_part e r))) (\<lambda>res.
         andthen (change (end_receive e r)) (\<lambda>_. of_result res)))"
      by (rule safe_attempt [OF body], intro safe_then safe_end_receive safe_result) (rule t)
    have eq: "append_publish e no refused st = andthen (attempt
           (if rc_cancelled r then fails ErrCanceled
            else gated e (rc_session r) (case refused of Some err \<Rightarrow> fails err | None \<Rightarrow> publish_part e r))) (\<lambda>res.
         andthen (change (end_receive e r)) (\<lambda>_. of_result res)) st"
      unfolding append_publish_def by (subst andthen_def) (simp add: look_def Some)
    show ?thesis by (rule safe_run [where P = "member r", OF whole ok conjunct1 [OF mem] run [unfolded eq]])
  qed
qed

end
