(* ===== verification/Mobile_Operations.thy ===== *)
theory Mobile_Operations
  imports Mobile_Parts
begin

text \<open>
  The other operations on mobile uploads keep the invariant as well.
\<close>

section \<open>Queries, retries and new authorization\<close>

lemma quiet_missing_scan [quieten]: "quiet (missing_scan ident cid limit n i p)"
proof (induction n arbitrary: i p)
  case (Suc n)
  then show ?case unfolding missing_scan.simps Let_def by (intro quieten) auto
qed (simp add: quiet_give)

lemma queries_keep:
  "keeps (ok_at e) (Session e ident)" "keeps (ok_at e) (Status e ident device)"
  "keeps (ok_at e) (StatusKind e ident owner device kind)" "keeps (ok_at e) (Missing e ident device cid start limit)"
proof -
  show "keeps (ok_at e) (Session e ident)"
    unfolding Session_def by (intro safe_keeps safe_gated safely)
  show "keeps (ok_at e) (Status e ident device)"
    unfolding Status_def by (intro safe_keeps safe_gated safe_load safely)
  show "keeps (ok_at e) (StatusKind e ident owner device kind)"
    unfolding StatusKind_def by (intro safe_keeps safe_gated safe_load_any) (simp only: prod.case, intro safely)
  show "keeps (ok_at e) (Missing e ident device cid start limit)"
    unfolding Missing_def
    by (intro safe_keeps safe_gated safe_load safe_refuse safe_option safe_fails safe_if safe_then safe_quiet [OF quiet_missing_scan] safe_give)
qed

lemma expired_live: "expired e s \<Longrightarrow> live s"
  by (simp add: expired_def)

lemma Retry_keeps:
  assumes "clocked e"
  shows "keeps (ok_at e) (Retry e ident device)"
  unfolding Retry_def
proof (intro safe_keeps safe_gated safe_load safe_refuse safe_look)
  fix s act
  assume f: "\<not> expired e s" and r: "\<not> (\<not> ready s \<or> s_status s = ''stored'' \<or> s_status s = ''cancelled'' \<or> act)"
  let ?t = "s\<lparr>s_status := ''queued'', s_error := '''', s_attempts := 0, s_retry_after := zero_time\<rparr>"
  have "live s" using r by (simp add: live_def)
  then show "safe e (\<lambda>st. header ident st = Some s) (andthen (save e ?t) (\<lambda>s'. give (view s')))"
    by (intro safe_save safe_give)
       (rule restamp_ok, assumption+, use f assms in \<open>simp_all add: same_upload_as_def components_of_def known_status_def live_def\<close>)
qed

lemma restarted_valid:
  assumes "validateSession s ident = None" "length key = 32" "clocked e"
  shows "validateSession (stamped e (restarted s key)) ident = None"
    "components_of (restarted s key) = map clear_counters (components_of s)" "s_id (restarted s key) = s_id s"
proof -
  let ?t = "restarted s key"
  have f: "s_version ?t = s_version s" "s_owner ?t = s_owner s" "s_key ?t = B64 key"
    "s_created ?t = s_created s" "s_attempts ?t = 0" "known_status (s_status ?t)"
    "ps_kind (s_spec ?t) = ps_kind (s_spec s)" "ps_device (s_spec ?t) = ps_device (s_spec s)"
    "ps_payload (s_spec ?t) = ps_payload (s_spec s)"
    by (simp_all add: restarted_def Let_def known_status_def with_components_def)
  show id: "s_id ?t = s_id s" by (simp add: restarted_def Let_def with_components_def)
  show comps: "components_of ?t = map clear_counters (components_of s)"
    by (simp add: restarted_def Let_def with_components_def components_of_def)
  from assms(1) obtain n where n: "normalize (s_spec s) = Inr n" unfolding valid_iff by blast
  have "\<exists>n. normalize (s_spec ?t) = Inr n"
    by (rule normalize_recount [OF recounting_simps(2) n])
       (use comps f valid_payload [OF assms(1)] in \<open>simp_all add: components_of_def\<close>)
  moreover have "list_all counters_ok (components_of ?t)"
    using validate_facts(3) [OF assms(1)] sane_id(2)
    by (auto simp: comps list_all_iff clear_counters_def intro!: zero_counters_ok)
  ultimately show "validateSession (stamped e ?t) ident = None"
    using assms f comps id unfolding valid_iff
    by (simp add: stamped_def components_of_def clocked_def is_zero_def to_utc_def)
qed

lemma no_disposables:
  assumes "disposables ident st = {}" "dir_shape st ident"
  shows "entry_of ident name st \<noteq> Some (ReceiptFile p)"
proof
  assume a: "entry_of ident name st = Some (ReceiptFile p)"
  from receipt_named [OF assms(2) a] have "disposable name" by (simp add: disposable_def)
  with a assms(1) show False by (auto simp: disposables_def)
qed

lemma restartExpired_safe:
  assumes "clocked e" "keyed e" "validateSession s ident = None"
    and old: "expired e s0"
  shows "safe e (\<lambda>st. header ident st = Some s0) (restartExpired e s)"
  unfolding restartExpired_def Let_def
proof (rule safe_draw_key [OF assms(2)])
  fix key :: string
  assume k: "length key = 32"
  let ?t = "restarted s key"
  note t = restarted_valid [OF assms(3) k assms(1)]
  have id: "s_id s = ident" by (rule validate_facts(1) [OF assms(3)])
  have dead: "\<not> (live s0 \<and> fresh (instant (e_now e)) s0)" using old by (simp add: expired_alt)
  have rem: "ensures (\<lambda>st. ok_at e st \<and> header ident st = Some s0) (removePayload ident)
      (\<lambda>_ st. ok_at e st \<and> disposables ident st = {}) (\<lambda>_. ok_at e)"
    by (rule ensures_weaken [OF removePayload_rule]) (use dead in auto)
  have sv: "safe e (\<lambda>st. disposables ident st = {}) (save e ?t)"
  proof (rule safe_save_last)
    fix st
    assume a: "ok_at e st" "disposables ident st = {}"
    have "dir_shape st ident" using parts_ok_dir [OF a(1)] by (simp add: dir_sound_def)
    from no_disposables [OF a(2) this] have r: "\<And>name p. entry_of ident name st \<noteq> Some (ReceiptFile p)" .
    show "header_sound (e_sha e) (instant (e_now e)) st (s_id ?t) (stamped e ?t)"
      using uncounted_sound [OF t(1) _ r] t(2,3) id
      by (simp add: list_all_iff clear_counters_def) (simp add: live_def restarted_def Let_def with_components_def)
  qed
  have both: "safe e (\<lambda>st. header ident st = Some s0) (andthen (removePayload ident) (\<lambda>_. save e ?t))"
    by (rule ensures_andthen [OF rem]) (use sv in simp)
  show "safe e (\<lambda>st. header ident st = Some s0) (andthen (reserve e ?t) (\<lambda>_.
         andthen (attempt (andthen (removePayload (s_id ?t)) (\<lambda>_. save e ?t))) (\<lambda>r.
         case r of
           Inl err \<Rightarrow> andthen (change (release (s_id ?t))) (\<lambda>_. fails err)
         | Inr _ \<Rightarrow> give ())))"
    unfolding t(3) id
    by (rule safe_quiet_then [OF quiet_reserve respectful_header], rule safe_attempt [OF both], intro safe_sum safe_then safely)
qed


lemma RebindPayload_keeps:
  assumes "clocked e" "keyed e"
  shows "keeps (ok_at e) (RebindPayload e ident device old new)"
  unfolding RebindPayload_def Let_def rebound_def [symmetric]
proof (intro safe_keeps safe_refuse safe_gated safe_load_any, unfold prod.case, intro safe_refuse safe_look safe_if)
  fix s act
  assume p: "\<not> (length new > 65536 \<or> \<not> json_valid new)"
    and c: "\<not> ((s_status s = ''verifying'' \<and> \<not> expired e s) \<or> s_status s = ''stored'' \<or> s_status s = ''cancelled''
                           \<or> act \<or> ps_payload (s_spec s) \<noteq> old)"
  have sound: "header_sound (e_sha e) (instant (e_now e)) st ident (rebound new s)"
    if "ok_at e st" "header ident st = Some s" for st
    using rebound_sound parts_ok_header [OF that] p by auto
  {
    assume late: "expired e s"
    show "safe e (\<lambda>st. header ident st = Some s) (restartExpired e (rebound new s))"
    proof (cases "validateSession (rebound new s) ident = None")
      case True
      then show ?thesis by (rule restartExpired_safe [OF assms _ late])
    next
      case False
      show ?thesis by (rule safe_False) (use False sound in \<open>auto simp: header_sound_def\<close>)
    qed
  next
    assume late: "\<not> expired e s"
    let ?s = "rebound new s"
    let ?t = "if s_status ?s = ''failed'' \<and> ready ?s \<and> ps_commit (s_spec ?s) then ?s\<lparr>s_status := ''queued'', s_error := ''''\<rparr> else ?s"
    have live: "live s" using c by (simp add: live_def)
    have f: "fresh (instant (e_now e)) s" using late live by (simp add: expired_alt)
    show "safe e (\<lambda>st. header ident st = Some s) (andthen (save e ?t) (\<lambda>_. give ()))"
    proof (rule safe_save [OF _ safe_give])
      fix st
      assume a: "ok_at e st" "header ident st = Some s"
      note h = sound [OF a]
      then have v: "validateSession ?s ident = None" by (simp add: header_sound_def)
      have id: "s_id ?t = ident" using validate_facts(1) [OF v] by simp
      have "live ?t" using live by (auto simp: live_def)
      then have busy: "busy_live st ident (stamped e ?t)" by (simp add: busy_live_def)
      show "header_sound (e_sha e) (instant (e_now e)) st (s_id ?t) (stamped e ?t)"
        unfolding id
        by (rule restamped_sound [OF h])
           (rule busy | use assms(1) f live validate_facts(6-8) [OF v] in
             \<open>simp add: same_upload_as_def components_of_def clocked_def is_zero_def to_utc_def known_status_def fresh_def stamped_def\<close>)+
    qed
  }
qed

section \<open>Cancellation and processing\<close>

lemma cancelled_receivers_keep:
  assumes "ok_at e st"
  shows "ok_at e (st\<lparr>p_blocked := b, p_receivers := map (\<lambda>r. if q r then r\<lparr>rc_cancelled := True\<rparr> else r) (p_receivers st)\<rparr>)"
    "ok_at e (st\<lparr>p_draining := b, p_receivers := map (\<lambda>r. if q r then r\<lparr>rc_cancelled := True\<rparr> else r) (p_receivers st)\<rparr>)"
proof -
  let ?rs = "map (\<lambda>r. if q r then r\<lparr>rc_cancelled := True\<rparr> else r) (p_receivers st)"
  have "receiver_sound (e_sha e) st (r\<lparr>rc_cancelled := True\<rparr>) = receiver_sound (e_sha e) st r" for r
    by (simp add: receiver_sound_def)
  then have s: "\<forall>r \<in> set ?rs. receiver_sound (e_sha e) (st\<lparr>p_next_receiver := p_next_receiver st\<rparr>) r"
    using receiver_sound_D [OF assms] by auto
  have "map rc_no ?rs = map rc_no (p_receivers st)" by simp
  then have d: "distinct (map rc_no ?rs)" using assms by (simp only: parts_ok_def)
  show "ok_at e (st\<lparr>p_blocked := b, p_receivers := ?rs\<rparr>)" "ok_at e (st\<lparr>p_draining := b, p_receivers := ?rs\<rparr>)"
    by (rule receivers_keep [OF assms s d]; simp)+
qed

lemma stopReceivers_keeps: "keeps (ok_at e) (stopReceivers e ident device)"
  unfolding stopReceivers_def
  by (intro safe_keeps safe_gated safe_load_any, unfold prod.case, intro safe_refuse safe_change cancelled_receivers_keep)

lemma cancel_finish_keeps:
  assumes "clocked e"
  shows "keeps (ok_at e) (cancel_finish e ident device cleanup)"
  unfolding cancel_finish_def Let_def
proof (intro safe_keeps safe_gated safe_load_any, unfold prod.case, intro safe_refuse safe_look_at safe_of_result)
  fix s :: session and act :: bool and result :: "string option"
  let ?t = "case result of None \<Rightarrow> s\<lparr>s_status := ''cancelled'', s_error := '''', s_result := ''''\<rparr>
     | Some j \<Rightarrow> s\<lparr>s_status := ''stored'', s_error := '''', s_result := j\<rparr>"
  have t: "s_id ?t = s_id s" "\<not> live ?t" "same_upload_as s ?t" "components_of ?t = components_of s"
    "s_attempts ?t = s_attempts s" "known_status (s_status ?t)"
    by (cases result; simp add: live_def same_upload_as_def components_of_def known_status_def)+
  have rem: "safe e (\<lambda>st. header ident st = Some (stamped e ?t)) (removePayload ident)"
    by (rule ensures_weaken [OF removePayload_rule [where s = "stamped e ?t"]]) (use t(2) in auto)
  assume "\<not> (s_status s = ''stored'' \<or> act)"
  then have idle: "\<not> act" by simp
  show "safe e (\<lambda>st. header ident st = Some s \<and> isActive ident st = act) (andthen (save e ?t) (\<lambda>s2.
           andthen (attempt (removePayload ident)) (\<lambda>r.
           andthen (change (release ident)) (\<lambda>_.
           case r of Inl err \<Rightarrow> fails err | Inr _ \<Rightarrow> give (view s2)))))"
  proof (cases "s_id s = ident")
    case True
    show ?thesis
    proof (rule safe_save)
      fix st
      assume "ok_at e st" "header ident st = Some s \<and> isActive ident st = act"
      then have a: "ok_at e st" "header ident st = Some s" "\<not> isActive ident st" using idle by auto
      then have "validateSession s ident = None" using parts_ok_header by (auto simp: header_sound_def)
      from validate_facts(7,8) [OF this] t not_active [OF a(3)] show "header_sound (e_sha e) (instant (e_now e)) st (s_id ?t) (stamped e ?t)"
        by (intro restamp_ok [OF a(1,2) assms]) simp_all
    next
      show "safe e (\<lambda>st. header (s_id ?t) st = Some (stamped e ?t)) (andthen (attempt (removePayload ident)) (\<lambda>r.
           andthen (change (release ident)) (\<lambda>_.
           case r of Inl err \<Rightarrow> fails err | Inr _ \<Rightarrow> give (view (stamped e ?t)))))"
        unfolding t(1) True by (rule safe_attempt [OF rem], intro safe_then safe_sum safely)
    qed
  next
    case False
    show ?thesis by (rule safe_False) (use False parts_ok_id in blast)
  qed
qed

end
