(* ===== verification/Mobile_Processing.thy ===== *)
theory Mobile_Processing
  imports Mobile_Operations
begin

text \<open>
  Processing a finished upload and the background scans keep the invariant. While a session is processed its
  header is live; the last step of a successful job stores the result first and ends the job after it, so its
  middle is reasoned about as if the job had ended.
\<close>

section \<open>Running jobs\<close>

lemma parts_ok_active:
  assumes ok: "parts_ok sha now st"
    and a: "\<And>k. map_of a k \<noteq> None \<Longrightarrow> map_of (p_active st) k \<noteq> None \<or> (\<exists>s. header k st = Some s \<and> live s)"
  shows "parts_ok sha now (st\<lparr>p_active := a\<rparr>)"
proof -
  let ?st = "st\<lparr>p_active := a\<rparr>"
  have e: "entry_of k n ?st = entry_of k n st" for k n by (simp add: entry_of_def dir_of_def)
  have h: "header k ?st = header k st" for k by (simp add: header_def e)
  have shape: "dir_shape ?st k = dir_shape st k" for k unfolding dir_shape_def e ..
  have rs: "receiver_sound sha ?st r = receiver_sound sha st r" for r unfolding receiver_sound_def e by simp
  have "dir_sound sha now ?st k" for k
  proof (cases "header k st")
    case None
    with a [of k] parts_ok_dir [OF ok, of k] show ?thesis
      by (cases "map_of a k") (simp_all add: dir_sound_def h e shape)
  next
    case (Some s)
    note hs = parts_ok_header [OF ok Some]
    have "busy_live ?st k s" using a [of k] Some hs by (auto simp: busy_live_def header_sound_def)
    moreover have "receipts_sound sha ?st k s = receipts_sound sha st k s" "counts_sound now ?st k s = counts_sound now st k s"
      unfolding receipts_sound_def part_sound_def counts_sound_def received_def e by simp_all
    moreover have "header_marked now ?st k s = header_marked now st k s" by (simp add: header_marked_def)
    ultimately show ?thesis
      using hs Some parts_ok_dir [OF ok, of k] by (simp add: dir_sound_def h shape header_sound_def)
  qed
  with ok show ?thesis by (simp add: parts_ok_def rs)
qed

lemma clear_active_keeps: "parts_ok sha now st \<Longrightarrow> parts_ok sha now (clear_active ident st)"
  unfolding clear_active_def by (erule parts_ok_active) (simp split: if_splits)

lemma safe_clear_active: "safe e P (change (clear_active ident))"
  by (rule safe_change) (rule clear_active_keeps)

lemma header_active [simp]: "header k (clear_active ident st) = header k st" "header k (set_active ident owner st) = header k st"
  "header k (st\<lparr>p_active := a\<rparr>) = header k st"
  by (simp_all add: header_def entry_of_def dir_of_def clear_active_def set_active_def)

lemma clear_set_active: "map_of (p_active st) ident = None \<Longrightarrow>
    map_of (p_active (clear_active ident (set_active ident owner st))) = map_of (p_active st)"
  by (auto simp: clear_active_def set_active_def fun_eq_iff)

lemma clear_set_keeps:
  assumes "parts_ok sha now st" "map_of (p_active st) ident = None"
  shows "parts_ok sha now (clear_active ident (set_active ident owner st))"
proof -
  have "clear_active ident (set_active ident owner st)
      = st\<lparr>p_active := p_active (clear_active ident (set_active ident owner st))\<rparr>"
    by (simp add: clear_active_def set_active_def)
  moreover have "parts_ok sha now (st\<lparr>p_active := p_active (clear_active ident (set_active ident owner st))\<rparr>)"
    by (rule parts_ok_active [OF assms(1)]) (simp add: clear_set_active [OF assms(2)])
  ultimately show ?thesis by simp
qed

section \<open>Operations that do not look at running jobs\<close>

abbreviation with_active :: "(string \<times> string) list \<Rightarrow> parts_state \<Rightarrow> parts_state" where
  "with_active a st \<equiv> st\<lparr>p_active := a\<rparr>"

definition blind :: "'a parts \<Rightarrow> bool" where
  "blind f \<longleftrightarrow> (\<forall>st a. f (with_active a st) = (fst (f st), with_active a (snd (f st))))"

named_theorems blinds "operations that do not look at running jobs"

lemma blindI: "(\<And>st a x t. f st = (x, t) \<Longrightarrow> f (with_active a st) = (x, with_active a t)) \<Longrightarrow> blind f"
  unfolding blind_def by (metis prod.collapse)

lemma blindD: "blind f \<Longrightarrow> f st = (x, t) \<Longrightarrow> f (with_active a st) = (x, with_active a t)"
  by (simp add: blind_def)

lemma blind_give [blinds]: "blind (give v)" "blind (fails err)" "blind (of_result r)"
  by (rule blindI; simp add: give_def fails_def of_result_def)+

lemma blind_io [blinds]: "blind io"
  by (rule blindI) (auto simp: io_def split: list.splits)

lemma blind_refuse [blinds]: "blind (refuse_if b err)"
  by (simp add: refuse_if_def blinds)

lemma blind_look: "(\<And>st a. f (with_active a st) = f st) \<Longrightarrow> blind (look f)"
  by (rule blindI) (auto simp: look_def)

lemma blind_change: "(\<And>st a. f (with_active a st) = with_active a (f st)) \<Longrightarrow> blind (change f)"
  by (rule blindI) (auto simp: change_def)

lemma blind_andthen [blinds]: "blind f \<Longrightarrow> (\<And>v. blind (g v)) \<Longrightarrow> blind (andthen f g)"
  unfolding blind_def andthen_def by (auto split: prod.split sum.split)

lemma blind_attempt [blinds]: "blind f \<Longrightarrow> blind (attempt f)"
  unfolding blind_def attempt_def by (auto split: prod.split)

lemma blind_cases [blinds]:
  "blind f \<Longrightarrow> blind g \<Longrightarrow> blind (if b then f else g)"
  "blind f \<Longrightarrow> (\<And>x. blind (h x)) \<Longrightarrow> blind (case m of None \<Rightarrow> f | Some x \<Rightarrow> h x)"
  "(\<And>x. blind (p x)) \<Longrightarrow> (\<And>y. blind (q y)) \<Longrightarrow> blind (case r of Inl x \<Rightarrow> p x | Inr y \<Rightarrow> q y)"
  by (simp_all split: option.split sum.split)

lemma blind_each [blinds]: "(\<And>x. blind (f x)) \<Longrightarrow> blind (each f xs)"
  by (induction xs) (auto intro: blinds)

lemma blind_store [blinds]: "blind (setMarker ix ident on)" "blind (addSessionMarkers s)" "blind (syncSessionMarkers s)"
  "blind (writeSealed e ident n x)" "blind (read_dir ident)" "blind (persist e s)" "blind (removePayload ident)"
  "blind (change (release ident))"
proof -
  show s: "blind (setMarker ix ident on)" for ix ident on
    unfolding setMarker_def
    by (intro blinds blind_look blind_change) (auto simp: marked_def mark_def split: marker_index.split)
  show "blind (addSessionMarkers s)" "blind (syncSessionMarkers s)"
    unfolding addSessionMarkers_def syncSessionMarkers_def by (intro blinds s)+
  note t = this
  show w: "blind (writeSealed e ident n x)" for e ident n x
    unfolding writeSealed_def by (intro blinds blind_change) (simp add: put_entry_def dir_of_def)
  show d: "blind (read_dir ident)"
    unfolding read_dir_def by (intro blinds blind_look) simp
  show "blind (persist e s)"
    unfolding persist_def by (intro blinds t w blind_change) (simp_all add: check_def uncheck_def)
  show "blind (removePayload ident)"
    unfolding removePayload_def by (intro blinds d blind_change) (simp add: del_entry_def dir_of_def)
  show "blind (change (release ident))"
    by (rule blind_change) (simp add: release_def release_lease_def uncheck_def split: option.split prod.split)
qed

lemma blind_save: "\<not> live s \<Longrightarrow> blind (save e s)"
proof -
  assume "\<not> live s"
  then have "reserve e (stamped e s) = (\<lambda>st. (Inr (), release_lease (s_id s) st))"
    by (simp add: reserve_def fun_eq_iff)
  moreover have "blind (\<lambda>st. (Inr (), release_lease (s_id s) st))"
    by (rule blindI) (auto simp: release_lease_def split: option.split prod.split)
  ultimately show ?thesis
    unfolding save_def Let_def stamped_def [symmetric] by (auto intro!: blinds)
qed

lemma blind_ensures:
  assumes b: "blind f" and f: "safe e (\<lambda>st. header ident st = Some s \<and> map_of (p_active st) ident = None) f"
  shows "ensures (\<lambda>st. ok_at e (clear_active ident st) \<and> header ident st = Some s) f
    (\<lambda>_ st. ok_at e (clear_active ident st)) (\<lambda>_ st. ok_at e (clear_active ident st))"
proof -
  have "ok_at e (clear_active ident t)"
    if a: "ok_at e (clear_active ident st) \<and> header ident st = Some s" and run: "f st = (x, t)" for st x t
  proof -
    let ?a = "AList.delete ident (p_active st)"
    have c: "clear_active ident st = with_active ?a st" by (simp add: clear_active_def)
    have "f (with_active (p_active st) st) = (x, with_active (p_active st) t)" by (rule blindD [OF b run])
    with run have "with_active (p_active st) t = t" by simp
    from arg_cong [where f = p_active, OF this] have p: "p_active t = p_active st" by simp
    have "ok_at e (with_active ?a t)"
      by (rule safe_run [OF f _ _ blindD [OF b run]]) (use a in \<open>simp_all add: c\<close>)
    with p show ?thesis by (simp add: clear_active_def)
  qed
  then show ?thesis by (intro ensuresI) blast+
qed


section \<open>Processing\<close>

lemma process_begin_keeps:
  assumes "clocked e"
  shows "keeps (ok_at e) (process_begin e ident authorize)"
  unfolding process_begin_def
proof (intro safe_keeps safe_gated safe_load safe_look_at safe_if safe_give safe_refuse)
  fix s act draining
  assume f: "\<not> expired e s" and idle: "\<not> act"
  let ?P = "\<lambda>st. (header ident st = Some s \<and> isActive ident st = act) \<and> counter (p_draining st) (s_owner s) = draining"
  let ?t = "s\<lparr>s_status := ''verifying''\<rparr>"
  let ?bad = "(s_status s \<noteq> ''queued'' \<and> s_status s \<noteq> ''verifying'') \<or> time_before (e_now e) (s_retry_after s)"
  let ?body = "andthen (refuse_if ?bad ErrConflict) (\<lambda>_.
           andthen (case authorize s of None \<Rightarrow> give () | Some err \<Rightarrow> fails err) (\<lambda>_. save e ?t))"
  let ?fin = "\<lambda>r. case r of Inl err \<Rightarrow> andthen (change (clear_active ident)) (\<lambda>_. fails err) | Inr s' \<Rightarrow> give (Some s')"
  show "safe e ?P (andthen (change (set_active ident (s_owner s))) (\<lambda>_. andthen (attempt ?body) ?fin))"
  proof (cases ?bad)
    case True
    have "andthen (change (set_active ident (s_owner s))) (\<lambda>_. andthen (attempt ?body) ?fin) st
        = (Inl ErrConflict, clear_active ident (set_active ident (s_owner s) st))" for st
      unfolding refuse_if_def if_P [OF True] by (simp add: andthen_def change_def attempt_def fails_def)
    moreover have "ok_at e (clear_active ident (set_active ident (s_owner s) st))" if "ok_at e st \<and> ?P st" for st
      using that clear_set_keeps not_active idle by blast
    ultimately show ?thesis by (simp add: ensures_def)
  next
    case False
    then have live: "live s" by (auto simp: live_def)
    have set: "ensures (\<lambda>st. ok_at e st \<and> ?P st) (change (set_active ident (s_owner s)))
        (\<lambda>_ st. ok_at e st \<and> header ident st = Some s) (\<lambda>_. ok_at e)"
    proof (rule ensures_change)
      fix st
      assume a: "ok_at e st \<and> ?P st"
      have "ok_at e (set_active ident (s_owner s) st)"
        unfolding set_active_def by (rule parts_ok_active) (use a live in \<open>auto split: if_splits\<close>)
      with a show "ok_at e (set_active ident (s_owner s) st) \<and> header ident (set_active ident (s_owner s) st) = Some s"
        by simp
    qed
    have auth: "quiet (case authorize s of None \<Rightarrow> give () | Some err \<Rightarrow> fails err)" by (intro quieten)
    have body: "safe e (\<lambda>st. header ident st = Some s) ?body"
    proof (rule safe_refuse, rule safe_quiet_then [OF auth respectful_header], rule safe_save_last)
      fix st
      assume a: "ok_at e st" "header ident st = Some s"
      then have v: "validateSession s ident = None" using parts_ok_header by (auto simp: header_sound_def)
      show "header_sound (e_sha e) (instant (e_now e)) st (s_id ?t) (stamped e ?t)"
        by (rule restamp_ok [OF a assms])
           (use f live validate_facts(7,8) [OF v] in \<open>simp_all add: same_upload_as_def components_of_def known_status_def live_def\<close>)
    qed
    have fin: "safe e (\<lambda>_. True) (?fin r)" for r by (intro safe_sum safe_give safe_then safe_clear_active safe_fails)
    show ?thesis by (rule ensures_andthen [OF set]) (rule safe_attempt [OF body fin])
  qed
qed

lemma failed_session_facts:
  "same_upload_as s (failed_session e err s)" "components_of (failed_session e err s) = components_of s"
  "live (failed_session e err s)" "known_status (s_status (failed_session e err s))"
  "0 \<le> s_attempts s \<Longrightarrow> 0 \<le> s_attempts (failed_session e err s)"
  "s_attempts s \<le> 3 \<Longrightarrow> s_attempts (failed_session e err s) \<le> 3"
  by (auto simp: failed_session_def Let_def same_upload_as_def components_of_def live_def known_status_def)

lemma process_end_keeps:
  assumes "clocked e" "ok_at e st" "map_of (p_active st) ident \<noteq> None"
  shows "ok_at e (snd (process_end e ident outcome st))"
proof -
  let ?C = "\<lambda>st. ok_at e (clear_active ident st)"
  let ?A = "\<lambda>st. map_of (p_active st) ident \<noteq> None"
  have respC: "respectful ?C"
    unfolding respectful_def
  proof (intro allI impI)
    fix st st'
    assume a: "same_durable st st'" "?C st"
    then have d: "same_durable (clear_active ident st) (clear_active ident st')"
      by (simp add: clear_active_def same_durable_def same_files_def)
    from respectfulD [OF parts_ok_respectful d a(2)] show "?C st'" .
  qed
  have weak: "ensures P f (\<lambda>_. ?C) (\<lambda>_. ?C)" if "ensures P f (\<lambda>_. ok_at e) (\<lambda>_. ok_at e)" for P and f :: "unit parts"
    by (rule ensures_weaken [OF that]) (auto intro: clear_active_keeps)
  let ?fin = "\<lambda>s. \<lambda>_. andthen (attempt (removePayload ident)) (\<lambda>r. andthen (change (release ident)) (\<lambda>_. of_result r))"
  have failed: "safe e (\<lambda>st. header ident st = Some s \<and> ?A st)
      (andthen (save e (failed_session e err s)) (\<lambda>_. fails err :: unit parts))" if "\<not> expired e s" for s err
  proof (rule safe_save [OF _ safe_fails])
    fix st
    assume "ok_at e st" and a: "header ident st = Some s \<and> ?A st"
    note h = parts_ok_header [OF \<open>ok_at e st\<close> conjunct1 [OF a]]
    then have v: "validateSession s ident = None" and live: "live s" using a by (auto simp: header_sound_def busy_live_def)
    note fs = failed_session_facts [where s = s and e = e and err = err]
    show "header_sound (e_sha e) (instant (e_now e)) st (s_id (failed_session e err s)) (stamped e (failed_session e err s))"
      by (rule restamp_ok [OF \<open>ok_at e st\<close> conjunct1 [OF a] assms(1) fs(1,2)])
         (use fs(3-) that live validate_facts(7,8) [OF v] in simp_all)
  qed
  have stored: "ensures (\<lambda>st. ok_at e st \<and> header ident st = Some s \<and> ?A st)
      (andthen (save e (s\<lparr>s_status := ''stored'', s_retry_after := zero_time, s_result := result, s_error := ''''\<rparr>)) (?fin s))
      (\<lambda>_. ?C) (\<lambda>_. ?C)" for s result
  proof -
    let ?t = "s\<lparr>s_status := ''stored'', s_retry_after := zero_time, s_result := result, s_error := ''''\<rparr>"
    have dead: "\<not> live ?t" by (simp add: live_def)
    have rem: "safe e (\<lambda>st. header ident st = Some (stamped e ?t)) (removePayload ident)"
      by (rule ensures_weaken [OF removePayload_rule [where s = "stamped e ?t"]]) (use dead in auto)
    have f: "safe e (\<lambda>st. header ident st = Some s \<and> map_of (p_active st) ident = None) (andthen (save e ?t) (?fin s))"
    proof (cases "s_id s = ident")
      case True
      show ?thesis
      proof (rule safe_save)
        fix st
        assume "ok_at e st" and a: "header ident st = Some s \<and> map_of (p_active st) ident = None"
        then have v: "validateSession s ident = None" using parts_ok_header by (auto simp: header_sound_def)
        show "header_sound (e_sha e) (instant (e_now e)) st (s_id ?t) (stamped e ?t)"
          by (rule restamp_ok [OF \<open>ok_at e st\<close> conjunct1 [OF a] assms(1)])
             (use a dead validate_facts(7,8) [OF v] in \<open>simp_all add: same_upload_as_def components_of_def known_status_def\<close>)
      next
        show "safe e (\<lambda>st. header (s_id ?t) st = Some (stamped e ?t)) (?fin s (stamped e ?t))"
          using True by (simp) (rule safe_attempt [OF rem], intro safe_then safely)
      qed
    next
      case False
      show ?thesis by (rule safe_False) (use False parts_ok_id in blast)
    qed
    have b: "blind (andthen (save e ?t) (?fin s))"
      by (intro blinds blind_save [OF dead])
    show ?thesis
      by (rule ensures_weaken [OF blind_ensures [OF b f]]) (auto intro: clear_active_keeps)
  qed
  let ?G = "\<lambda>s. case outcome of
         Inl err \<Rightarrow> andthen (save e (failed_session e err s)) (\<lambda>_. fails err)
       | Inr result \<Rightarrow>
           andthen (save e (s\<lparr>s_status := ''stored'', s_retry_after := zero_time, s_result := result, s_error := ''''\<rparr>)) (?fin s)"
  have "ensures (\<lambda>st. ok_at e st \<and> ?A st) (andthen (load e ident) ?G) (\<lambda>_. ?C) (\<lambda>_. ?C)"
  proof (rule ensures_andthen [where R = "\<lambda>s st. (ok_at e st \<and> header ident st = Some s \<and> \<not> expired e s) \<and> ?A st"])
    have "keeps ?A (load e ident)"
      using keeps_unmoved [OF unmoved_load(2), where F = "\<lambda>_ a. map_of a ident \<noteq> None"] .
    from ensures_also [OF load_rule this]
    show "ensures (\<lambda>st. ok_at e st \<and> ?A st) (load e ident)
        (\<lambda>s st. (ok_at e st \<and> header ident st = Some s \<and> \<not> expired e s) \<and> ?A st) (\<lambda>_. ?C)"
      by (rule ensures_weaken) (auto intro: clear_active_keeps)
    fix s
    show "ensures (\<lambda>st. (ok_at e st \<and> header ident st = Some s \<and> \<not> expired e s) \<and> ?A st) (?G s) (\<lambda>_. ?C) (\<lambda>_. ?C)"
    proof (cases "expired e s")
      case True
      then show ?thesis by (simp add: ensures_def)
    next
      case False
      show ?thesis
      proof (cases outcome)
        case (Inl err)
        show ?thesis unfolding Inl sum.case
          by (rule ensures_weaken [OF weak [OF failed [OF False]]]) auto
      next
        case (Inr result)
        show ?thesis unfolding Inr sum.case by (rule ensures_weaken [OF stored]) auto
      qed
    qed
  qed
  then have g: "ensures (\<lambda>st. ok_at e st \<and> ?A st) (gated e ident (andthen (load e ident) ?G)) (\<lambda>_. ?C) (\<lambda>_. ?C)"
    by (rule gated_rule) (rule respC)+
  have "ensures (\<lambda>st. ok_at e st \<and> ?A st) (process_end e ident outcome) (\<lambda>_. ok_at e) (\<lambda>_. ok_at e)"
    unfolding process_end_def
  proof (rule ensures_andthen [OF ensures_attempt])
    show "ensures (\<lambda>st. ok_at e st \<and> ?A st) (gated e ident (andthen (load e ident) ?G)) (\<lambda>_. ?C) (\<lambda>_. ?C)" by (rule g)
    show "ensures ?C (andthen (change (clear_active ident)) (\<lambda>_. of_result r)) (\<lambda>_. ok_at e) (\<lambda>_. ok_at e)"
      for r :: "parts_error + unit"
      by (rule ensuresI) (auto simp: andthen_def change_def of_result_def)
  qed
  then show ?thesis
    by (rule safe_run) (use assms(2,3) in \<open>auto simp: prod_eq_iff\<close>)
qed

end
