(* ===== verification/Mobile_Machine.thy ===== *)
theory Mobile_Machine
  imports Mobile_Processing
begin

text \<open>
  The mobile uploads as a state machine: every operation of the manager, every section of those that let go
  of the gate, the background scans, restarts of the process and failures of any file operation, in any
  order. The invariant holds in every reachable state.
\<close>

section \<open>Background scans\<close>

lemma safe_setMarker:
  "(\<And>st. P st \<Longrightarrow> on \<or> dispensable (instant (e_now e)) ix ident st) \<Longrightarrow> safe e P (setMarker ix ident on)"
  by (rule ensures_weaken [OF setMarker_filewise [OF filewise_const [of True]]]) auto

lemma safe_drop: "safe e (\<lambda>st. header ident st = None) (dropSessionMarkers ident)"
  unfolding dropSessionMarkers_def
proof (rule ensures_andthen [where R = "\<lambda>_ st. ok_at e st \<and> header ident st = None"])
  show "ensures (\<lambda>st. ok_at e st \<and> header ident st = None) (setMarker QueueIndex ident False)
      (\<lambda>_ st. ok_at e st \<and> header ident st = None) (\<lambda>_. ok_at e)"
    by (rule ensures_weaken [OF setMarker_filewise [OF filewise_header]]) (auto simp: dispensable_def)
qed (rule safe_setMarker, simp add: dispensable_def)

lemma syncSessionMarkers_error: "syncSessionMarkers s st = (Inl err, t) \<Longrightarrow> err = ErrIO"
  unfolding syncSessionMarkers_def by (auto elim!: andthen_cases dest!: setMarker_error)

lemma sync_rule:
  "ensures (\<lambda>st. ok_at e st \<and> header ident st = Some s) (syncSessionMarkers s) (\<lambda>_. ok_at e)
     (\<lambda>err st. ok_at e st \<and> err = ErrIO)"
proof (cases "s_id s = ident")
  case True
  have "ensures (\<lambda>st. ok_at e st \<and> header ident st = Some s) (syncSessionMarkers s)
      (\<lambda>_ st. ok_at e st \<and> header ident st = Some s) (\<lambda>_ st. ok_at e st \<and> header ident st = Some s)"
    by (rule syncSessionMarkers_rule [OF filewise_header]) (simp add: True)
  from ensures_error [OF this syncSessionMarkers_error] show ?thesis by (rule ensures_weaken) auto
next
  case False
  show ?thesis by (rule ensures_False) (use False parts_ok_id in blast)
qed

text \<open>What the visit of a session by a scan knows of its error.\<close>

definition explained :: "surroundings \<Rightarrow> string \<Rightarrow> parts_error \<Rightarrow> parts_state \<Rightarrow> bool" where
  "explained e ident err st \<longleftrightarrow> (err = ErrNotFound \<longrightarrow> header ident st = None)
     \<and> (err = ErrExpired \<longrightarrow> (\<exists>s. header ident st = Some s \<and> expired e s))"

lemma explained_io [simp]: "explained e ident ErrIO st" "explained e ident ErrCorrupt st"
  by (simp_all add: explained_def)

lemma expired_dispensable:
  "header ident st = Some s \<Longrightarrow> expired e s \<Longrightarrow> dispensable (instant (e_now e)) QueueIndex ident st"
  by (simp add: dispensable_def expired_alt)

lemma visit_live_safe:
  assumes "validID ident"
  shows "safe e P (visit_live e ident)"
  unfolding visit_live_def
proof (rule ensures_andthen [OF ensures_attempt [where Q = "\<lambda>r st. ok_at e st \<and> (case r of Inr _ \<Rightarrow> True | Inl err \<Rightarrow> explained e ident err st)"]])
  let ?E = "\<lambda>err st. ok_at e st \<and> explained e ident err st"
  have "ensures (\<lambda>st. ok_at e st \<and> P st) (andthen (load_any e ident) (\<lambda>(s, late). if late then fails ErrExpired else syncSessionMarkers s))
      (\<lambda>_. ok_at e) ?E"
  proof (rule ensures_andthen)
    show "ensures (\<lambda>st. ok_at e st \<and> P st) (load_any e ident)
        (\<lambda>v st. ok_at e st \<and> header ident st = Some (fst v) \<and> snd v = expired e (fst v)) ?E"
      by (rule ensures_weaken [OF load_any_rule]) (use assms in \<open>auto simp: explained_def\<close>)
    show "ensures (\<lambda>st. ok_at e st \<and> header ident st = Some (fst v) \<and> snd v = expired e (fst v))
        (case v of (s, late) \<Rightarrow> if late then fails ErrExpired else syncSessionMarkers s) (\<lambda>_. ok_at e) ?E" for v
    proof (cases v)
      case (Pair s late)
      show ?thesis
      proof (cases late)
        case True
        then show ?thesis unfolding Pair by (auto intro!: ensures_fails simp: explained_def)
      next
        case False
        show ?thesis unfolding Pair prod.case if_not_P [OF False]
          by (rule ensures_weaken [OF sync_rule]) auto
      qed
    qed
  qed
  then show "ensures (\<lambda>st. ok_at e st \<and> P st) (andthen (load_any e ident) (\<lambda>(s, late). if late then fails ErrExpired else syncSessionMarkers s))
      (\<lambda>v st. ok_at e st \<and> (case Inr v of Inr _ \<Rightarrow> True | Inl err \<Rightarrow> explained e ident err st))
      (\<lambda>x st. ok_at e st \<and> (case Inl x of Inr _ \<Rightarrow> True | Inl err \<Rightarrow> explained e ident err st))" by simp
  fix r :: "parts_error + unit"
  show "safe e (\<lambda>st. case r of Inr _ \<Rightarrow> True | Inl err \<Rightarrow> explained e ident err st)
     (case r of Inl err \<Rightarrow> if err = ErrNotFound then dropSessionMarkers ident
         else if err = ErrExpired then setMarker QueueIndex ident False else fails err
      | Inr _ \<Rightarrow> give ())"
  proof (rule safe_sum)
    fix err
    assume r: "r = Inl err"
    show "safe e (\<lambda>st. case r of Inr _ \<Rightarrow> True | Inl err \<Rightarrow> explained e ident err st) (if err = ErrNotFound then dropSessionMarkers ident
         else if err = ErrExpired then setMarker QueueIndex ident False else fails err)"
      unfolding r sum.case
    proof (intro safe_if safe_fails)
      show "safe e (explained e ident err) (dropSessionMarkers ident)" if "err = ErrNotFound"
        by (rule safe_weaken [OF safe_drop]) (use that in \<open>simp add: explained_def\<close>)
      show "safe e (explained e ident err) (setMarker QueueIndex ident False)" if "err = ErrExpired"
        by (rule safe_setMarker) (use that expired_dispensable in \<open>auto simp: explained_def\<close>)
    qed
  qed (rule safe_give)
qed

lemma validate_error: "validateSession s ident = Some err \<Longrightarrow> err = ErrCorrupt"
  by (auto simp: validateSession_def split: if_splits sum.splits option.splits)

lemma read_header_explained:
  "respectful P \<Longrightarrow> ensures (\<lambda>st. ok_at e st \<and> P st) (read_header e ident)
     (\<lambda>s st. ok_at e st \<and> P st \<and> header ident st = Some s) (\<lambda>err st. ok_at e st \<and> explained e ident err st)"
  by (rule ensures_weaken [OF read_header_rule [OF respectful_conj [OF parts_ok_respectful]]])
     (auto simp: explained_def)

lemma visit_legacy_safe: "safe e P (visit_legacy e ident)"
  unfolding visit_legacy_def
proof (rule safe_attempt)
  have "ensures (\<lambda>st. ok_at e st \<and> True) (read_header e ident)
     (\<lambda>s st. ok_at e st \<and> True \<and> header ident st = Some s) (\<lambda>_. ok_at e)"
    by (rule ensures_weaken [OF read_header_explained [OF respectful_const]]) auto
  then have rd: "ensures (\<lambda>st. ok_at e st \<and> P st) (read_header e ident)
     (\<lambda>s st. ok_at e st \<and> header ident st = Some s) (\<lambda>_. ok_at e)" by (rule ensures_weaken) auto
  show "safe e P (andthen (read_header e ident) (\<lambda>s.
       case validateSession s ident of Some err \<Rightarrow> fails err | None \<Rightarrow> syncSessionMarkers s))"
    by (rule ensures_andthen [OF rd], intro safe_option safe_fails ensures_weaken [OF sync_rule]) auto
qed (intro safe_sum safe_if safe_give safe_fails)

lemma visit_pending_safe:
  assumes "validID ident"
  shows "safe e P (visit_pending e ident)"
  unfolding visit_pending_def
proof (rule safe_attempt_load_any)
  let ?G = "\<lambda>r. case r of
       Inr (s, False) \<Rightarrow>
         if queued s then give (if time_before (e_now e) (s_retry_after s) then None else Some s)
         else andthen (setMarker QueueIndex ident False) (\<lambda>_. give None)
     | Inr (s, True) \<Rightarrow> andthen (setMarker QueueIndex ident False) (\<lambda>_. give None)
     | Inl err \<Rightarrow>
         if err = ErrNotFound then andthen (setMarker QueueIndex ident False) (\<lambda>_. give None)
         else fails err"
  fix s
  show "safe e (\<lambda>st. header ident st = Some s) (?G (Inr (s, expired e s)))"
  proof (cases "expired e s")
    case True
    have "safe e (\<lambda>st. header ident st = Some s) (setMarker QueueIndex ident False)"
      by (rule safe_setMarker) (use True expired_dispensable in blast)
    with True show ?thesis by (simp) (rule safe_then, assumption, rule safe_give)
  next
    case False
    have "safe e (\<lambda>st. header ident st = Some s) (setMarker QueueIndex ident False)" if "\<not> queued s"
      by (rule safe_setMarker) (use that in \<open>simp add: dispensable_def\<close>)
    then have "safe e (\<lambda>st. header ident st = Some s) (if queued s then give (if time_before (e_now e) (s_retry_after s) then None else Some s)
         else andthen (setMarker QueueIndex ident False) (\<lambda>_. give None))"
      by (intro safe_if safe_give safe_then)
    with False show ?thesis by simp
  qed
next
  fix err
  have "safe e (\<lambda>st. (err = ErrNotFound \<and> validID ident \<longrightarrow> header ident st = None) \<and> err \<noteq> ErrExpired)
      (setMarker QueueIndex ident False)" if "err = ErrNotFound"
    by (rule safe_setMarker) (use that assms in \<open>simp add: dispensable_def\<close>)
  then show "safe e (\<lambda>st. (err = ErrNotFound \<and> validID ident \<longrightarrow> header ident st = None) \<and> err \<noteq> ErrExpired)
     (case Inl err of
       Inr (s, False) \<Rightarrow>
         if queued s then give (if time_before (e_now e) (s_retry_after s) then None else Some s)
         else andthen (setMarker QueueIndex ident False) (\<lambda>_. give None)
     | Inr (s, True) \<Rightarrow> andthen (setMarker QueueIndex ident False) (\<lambda>_. give None)
     | Inl err \<Rightarrow>
         if err = ErrNotFound then andthen (setMarker QueueIndex ident False) (\<lambda>_. give None)
         else fails err)"
    unfolding sum.case by (intro safe_if safe_fails safe_then safe_give)
qed

lemma remove_all_error: "remove_all e ident st = (Inl err, t) \<Longrightarrow> err = ErrIO"
  by (auto simp: remove_all_def io_def attempt_def change_def fails_def elim!: andthen_cases
      split: prod.splits sum.splits list.splits if_splits)

lemma visit_sweep_safe:
  assumes "orderly e"
  shows "safe e P (visit_sweep e ident)"
  unfolding visit_sweep_def
proof (rule safe_look_at, rule safe_if [OF safe_give])
  fix act
  assume idle: "\<not> act"
  let ?P = "\<lambda>st. \<not> isActive ident st"
  let ?E = "\<lambda>err st. ok_at e st \<and> explained e ident err st"
  let ?expire = "andthen (remove_all e ident) (\<lambda>_. andthen (change (release ident)) (\<lambda>_. andthen io (\<lambda>_. dropSessionMarkers ident)))"
  have resp: "respectful ?P"
    by (simp add: respectful_def isActive_def hasReceiversLocked_def same_durable_def same_files_def)
  have drop: "ensures (\<lambda>st. ok_at e st \<and> header ident st = None) (dropSessionMarkers ident) (\<lambda>_. ok_at e) ?E"
  proof -
    have x: "err = ErrIO" if "dropSessionMarkers ident st = (Inl err, t)" for st err t
      using that unfolding dropSessionMarkers_def by (auto elim!: andthen_cases dest!: setMarker_error)
    show ?thesis by (rule ensures_weaken [OF ensures_error [OF safe_drop x]]) auto
  qed
  have respN: "respectful (\<lambda>st. ok_at e st \<and> header ident st = None)"
    by (intro respectful_conj parts_ok_respectful respectful_header)
  have io_error: "err = ErrIO" if "io st = (Inl err, t)" for st err t
    using that by (auto simp: io_def split: list.splits if_splits)
  have io: "ensures (\<lambda>st. ok_at e st \<and> header ident st = None) io (\<lambda>_ st. ok_at e st \<and> header ident st = None) ?E"
    by (rule ensures_weaken [OF ensures_error [OF quiet_ensures [OF quiet_io respN] io_error]]) auto
  have rel: "ensures (\<lambda>st. ok_at e st \<and> header ident st = None) (change (release ident))
      (\<lambda>_ st. ok_at e st \<and> header ident st = None) ?E"
    by (rule ensures_change) (rule respectfulD [OF respN quiet_lease(3)])
  have expire: "ensures (\<lambda>st. ok_at e st \<and> ?P st \<and> header ident st = Some s) ?expire (\<lambda>_. ok_at e) ?E" if "expired e s" for s
  proof -
    have "ensures (\<lambda>st. ok_at e st \<and> (?P st \<and> header ident st = Some s)) (remove_all e ident)
        (\<lambda>_ st. ok_at e st \<and> header ident st = None) (\<lambda>_. ok_at e)"
      by (rule remove_all_rule [OF assms]) (use that in auto)
    from ensures_error [OF this remove_all_error]
    have rm: "ensures (\<lambda>st. ok_at e st \<and> ?P st \<and> header ident st = Some s) (remove_all e ident)
        (\<lambda>_ st. ok_at e st \<and> header ident st = None) ?E" by (rule ensures_weaken) auto
    show ?thesis
      by (rule ensures_andthen [OF rm], rule ensures_andthen [OF rel], rule ensures_andthen [OF io], rule drop)
  qed
  let ?V = "\<lambda>s. case validateSession s ident of
           Some err \<Rightarrow> fails err
         | None \<Rightarrow> if expired e s then ?expire else syncSessionMarkers s"
  have visit: "ensures (\<lambda>st. ok_at e st \<and> ?P st) (andthen (read_header e ident) ?V) (\<lambda>_. ok_at e) ?E"
  proof (rule ensures_andthen [OF read_header_explained [OF resp]])
    fix s
    show "ensures (\<lambda>st. ok_at e st \<and> ?P st \<and> header ident st = Some s) (?V s) (\<lambda>_. ok_at e) ?E"
    proof (cases "validateSession s ident")
      case None
      show ?thesis
      proof (cases "expired e s")
        case True
        show ?thesis unfolding None option.case if_P [OF True] by (rule expire [OF True])
      next
        case False
        show ?thesis unfolding None option.case if_not_P [OF False] by (rule ensures_weaken [OF sync_rule]) auto
      qed
    next
      case (Some err)
      from validate_error [OF Some] show ?thesis unfolding Some option.case by (intro ensures_fails) simp
    qed
  qed
  have "safe e ?P (andthen (attempt (andthen (read_header e ident) ?V)) (\<lambda>r.
       case r of
         Inl err \<Rightarrow> if err = ErrNotFound then dropSessionMarkers ident else fails err
       | Inr _ \<Rightarrow> give ()))"
  proof (rule ensures_andthen [OF ensures_attempt [where Q = "\<lambda>r st. ok_at e st \<and> (case r of Inr _ \<Rightarrow> True | Inl err \<Rightarrow> explained e ident err st)"]])
    show "ensures (\<lambda>st. ok_at e st \<and> ?P st) (andthen (read_header e ident) ?V)
      (\<lambda>v st. ok_at e st \<and> (case Inr v of Inr _ \<Rightarrow> True | Inl err \<Rightarrow> explained e ident err st))
      (\<lambda>x st. ok_at e st \<and> (case Inl x of Inr _ \<Rightarrow> True | Inl err \<Rightarrow> explained e ident err st))"
      using visit by simp
    fix r :: "parts_error + unit"
    show "safe e (\<lambda>st. case r of Inr _ \<Rightarrow> True | Inl err \<Rightarrow> explained e ident err st)
       (case r of Inl err \<Rightarrow> if err = ErrNotFound then dropSessionMarkers ident else fails err | Inr _ \<Rightarrow> give ())"
    proof (cases r)
      case (Inl err)
      have "safe e (explained e ident err) (dropSessionMarkers ident)" if "err = ErrNotFound"
        by (rule safe_weaken [OF safe_drop]) (use that in \<open>simp add: explained_def\<close>)
      then show ?thesis unfolding Inl sum.case by (intro safe_if safe_fails)
    next
      case (Inr u)
      show ?thesis unfolding Inr sum.case by (rule safe_give)
    qed
  qed
  then show "safe e (\<lambda>st. P st \<and> isActive ident st = act) (andthen (attempt (andthen (read_header e ident) ?V)) (\<lambda>r.
       case r of
         Inl err \<Rightarrow> if err = ErrNotFound then dropSessionMarkers ident else fails err
       | Inr _ \<Rightarrow> give ()))"
    by (rule safe_weaken) (use idle in auto)
qed

lemma safe_prod: "(\<And>a b. safe e P (f a b)) \<Longrightarrow> safe e P (case p of (a, b) \<Rightarrow> f a b)"
  by (cases p) simp

lemma safe_warn: "safe e P f \<Longrightarrow> safe e P (warn f)"
  unfolding warn_def by (rule safe_attempt) (assumption, rule safe_give)

lemma keeps_scan: "(\<And>ident. validID ident \<Longrightarrow> safe e (\<lambda>_. True) (visit ident)) \<Longrightarrow> safe e (\<lambda>_. True) (scan e visit ids)"
proof (induction ids)
  case (Cons ident ids)
  show ?case
    unfolding scan.simps
  proof (rule safe_if)
    assume "\<not> (\<not> validID ident \<or> ident \<in> set (e_busy e))"
    then show "safe e (\<lambda>_. True) (andthen (warn (gated e ident (visit ident))) (\<lambda>ws.
           andthen (scan e visit ids) (\<lambda>rest. give (ws @ rest))))"
      by (intro safe_then safe_warn safe_gated Cons safe_give) auto
  qed (use Cons in blast)
next
  case Nil
  show ?case unfolding scan.simps by (rule safe_give)
qed

lemma keeps_scan_legacy: "safe e (\<lambda>_. True) (scan_legacy e ids)"
proof (induction ids)
  case (Cons ident ids)
  have "safe e (\<lambda>_. True) (setMarker LiveIndex ident True)" by (rule safe_setMarker) simp
  then show ?case
    unfolding scan_legacy.simps
    by (intro safe_if safe_look safe_then safe_warn safe_gated visit_legacy_safe safe_give Cons)
next
  case Nil
  show ?case unfolding scan_legacy.simps by (rule safe_give)
qed

lemma keeps_recoverIndex: "safe e (\<lambda>_. True) (recoverIndex e entries eof ids)"
proof -
  have q: "quiet (andthen io (\<lambda>_. change (\<lambda>st. st\<lparr>p_indexed := True\<rparr>)))"
    by (intro quieten quiet_change) (simp add: same_durable_def same_files_def)
  show ?thesis
    unfolding recoverIndex_def recoverLive_def
    by (intro safe_look safe_if keeps_scan visit_live_safe safe_then keeps_scan_legacy safe_warn safe_quiet [OF q] safe_give)
qed

lemma keeps_scan_pending: "safe e (\<lambda>_. True) (scan_pending e ids)"
proof (induction ids)
  case (Cons ident ids)
  show ?case
    unfolding scan_pending.simps
  proof (rule safe_if)
    assume "\<not> (\<not> validID ident \<or> ident \<in> set (e_busy e))"
    then have v: "validID ident" by simp
    show "safe e (\<lambda>_. True) (andthen (attempt (gated e ident (visit_pending e ident))) (\<lambda>r.
           andthen (scan_pending e ids) (\<lambda>(out, ws).
           give (case r of Inr (Some s) \<Rightarrow> s # out | _ \<Rightarrow> out, case r of Inl err \<Rightarrow> err # ws | _ \<Rightarrow> ws))))"
      by (intro safe_attempt safe_gated visit_pending_safe v safe_then Cons safe_prod safe_give)
  qed (use Cons in blast)
next
  case Nil
  show ?case unfolding scan_pending.simps by (rule safe_give)
qed

lemma scans_keep:
  "keeps (ok_at e) (Pending e entries eof live_ids queue_ids)"
  "orderly e \<Longrightarrow> keeps (ok_at e) (Sweep e entries eof live_ids)"
proof -
  show "keeps (ok_at e) (Pending e entries eof live_ids queue_ids)"
    unfolding Pending_def
    by (intro safe_keeps safe_refuse safe_then keeps_recoverIndex keeps_scan_pending safe_prod safe_give)
  show "orderly e \<Longrightarrow> keeps (ok_at e) (Sweep e entries eof live_ids)"
    unfolding Sweep_def
    by (intro safe_keeps safe_refuse safe_then keeps_recoverIndex keeps_scan visit_sweep_safe safe_give)
qed

section \<open>Reading back\<close>

lemma quiet_read_parts [quieten]: "quiet (read_parts e s c n i)"
proof (induction n arbitrary: i)
  case (Suc n)
  show ?case unfolding read_parts.simps by (intro quieten Suc)
qed (simp add: quiet_give)

lemma Open_keeps: "keeps (ok_at e) (Open e ident cid)"
  unfolding Open_def
  by (intro safe_keeps safe_gated safe_load safe_refuse safe_option safe_fails safe_give)

lemma read_component_keeps: "keeps (ok_at e) (read_component e ident cid)"
  unfolding read_component_def
  by (intro keeps_andthen Open_keeps keeps_case_prod)
     (simp add: keeps_def quiet_ensures [OF quiet_read_parts parts_ok_respectful])

lemma Verify_keeps: "keeps (ok_at e) (Verify e ident)"
  unfolding Verify_def
  by (intro keeps_andthen kept safe_keeps [OF safe_gated [OF safe_loads(2)]] read_component_keeps)

section \<open>Owners and limits\<close>

lemma release_end_durable: "same_durable st (release_end owner st)"
proof -
  have "same_durable st (fold (\<lambda>ident s. uncheck ident (release_lease ident s)) ids st)" for ids st
  proof (induction ids arbitrary: st)
    case (Cons ident ids)
    have "same_durable st (uncheck ident (release_lease ident st))"
      by (rule same_durable_trans [OF quiet_lease(1) quiet_lease(2)])
    from same_durable_trans [OF this Cons] show ?case by simp
  qed simp
  then show ?thesis by (simp add: release_end_def Let_def same_durable_def same_files_def)
qed

section \<open>The machine\<close>

text \<open>A restart keeps the files and the markers.\<close>

definition restart :: "manager option \<Rightarrow> parts_state \<Rightarrow> parts_state" where
  "restart q st = (new_parts q)\<lparr>p_dirs := p_dirs st, p_live := p_live st, p_queue := p_queue st, p_indexed := p_indexed st\<rparr>"

inductive mobile_step :: "surroundings \<Rightarrow> parts_state \<Rightarrow> parts_state \<Rightarrow> bool" for e where
  create: "mobile_step e st (snd (Create e owner ident spec st))"
| append_begin: "mobile_step e st (snd (append_begin e stopped ident device cid index len hash st))"
| append_body: "new_name name st \<Longrightarrow> mobile_step e st (snd (append_body e no name body stopped st))"
| append_publish: "mobile_step e st (snd (append_publish e no refused st))"
| session: "mobile_step e st (snd (Session e ident st))"
| status: "mobile_step e st (snd (Status e ident device st))"
| status_kind: "mobile_step e st (snd (StatusKind e ident owner device kind st))"
| missing: "mobile_step e st (snd (Missing e ident device cid start limit st))"
| retry: "mobile_step e st (snd (Retry e ident device st))"
| rebind: "mobile_step e st (snd (RebindPayload e ident device old_payload new_payload st))"
| stop: "mobile_step e st (snd (stopReceivers e ident device st))"
| cancel: "mobile_step e st (snd (cancel_finish e ident device cleanup st))"
| resume: "mobile_step e st (cancel_resume ident st)"
| process: "mobile_step e st (snd (process_begin e ident authorize st))"
| verify: "mobile_step e st (snd (Verify e ident st))"
| read: "mobile_step e st (snd (read_component e ident cid st))"
| processed: "map_of (p_active st) ident \<noteq> None \<Longrightarrow> mobile_step e st (snd (process_end e ident outcome st))"
| pending: "mobile_step e st (snd (Pending e entries eof live_ids queue_ids st))"
| sweep: "mobile_step e st (snd (Sweep e entries eof live_ids st))"
| release_begin: "mobile_step e st (release_begin owner st)"
| release_end: "mobile_step e st (release_end owner st)"
| configure: "mobile_step e st (ConfigureReceive limits st)"
| restart: "mobile_step e st (restart q st)"
| faults: "mobile_step e st (st\<lparr>p_faults := bs\<rparr>)"

definition sane_surroundings :: "surroundings \<Rightarrow> bool" where
  "sane_surroundings e \<longleftrightarrow> clocked e \<and> keyed e \<and> orderly e"

inductive mobile_reachable :: "(string \<Rightarrow> string) \<Rightarrow> int \<Rightarrow> parts_state \<Rightarrow> bool" for sha where
  start: "mobile_reachable sha now (new_parts q)"
| step: "mobile_reachable sha now st \<Longrightarrow> mobile_step e st st' \<Longrightarrow> e_sha e = sha \<Longrightarrow> now \<le> instant (e_now e) \<Longrightarrow>
    sane_surroundings e \<Longrightarrow> mobile_reachable sha (instant (e_now e)) st'"

lemma new_parts_ok: "parts_ok sha now (new_parts q)"
  by (simp add: parts_ok_def dir_sound_def dir_shape_def new_parts_def entry_of_def dir_of_def header_def)

lemma restart_ok:
  assumes "parts_ok sha now st"
  shows "parts_ok sha now (restart q st)"
proof -
  have "parts_ok sha now (st\<lparr>p_receivers := [], p_next_receiver := 0\<rparr>)"
    by (rule receivers_keep [OF assms]) simp_all
  then have "parts_ok sha now (st\<lparr>p_receivers := [], p_next_receiver := 0\<rparr>\<lparr>p_active := []\<rparr>)"
    by (rule parts_ok_active) simp
  moreover have "same_durable (st\<lparr>p_receivers := [], p_next_receiver := 0\<rparr>\<lparr>p_active := []\<rparr>) (restart q st)"
    by (simp add: restart_def new_parts_def same_durable_def same_files_def)
  ultimately show ?thesis using respectfulD [OF parts_ok_respectful] by blast
qed

lemma mobile_step_keeps:
  assumes "mobile_step e st st'" "ok_at e st" "sane_surroundings e"
  shows "ok_at e st'"
proof -
  have s: "clocked e" "keyed e" "orderly e" using assms(3) by (simp_all add: sane_surroundings_def)
  show ?thesis
    using assms(1)
proof (cases rule: mobile_step.cases)
  case append_body
  with assms(2) show ?thesis by (auto intro: append_body_keeps)
next
  case processed
  with assms(2,3) show ?thesis by (auto simp: sane_surroundings_def intro: process_end_keeps)
next
  case resume
  then show ?thesis
    using respectfulD [OF parts_ok_respectful _ assms(2)]
    by (simp add: cancel_resume_def Let_def same_durable_def same_files_def)
next
  case release_begin
  with cancelled_receivers_keep(2) [OF assms(2)] show ?thesis by (simp add: release_begin_def)
next
  case release_end
  then show ?thesis using respectfulD [OF parts_ok_respectful release_end_durable assms(2)] by simp
next
  case configure
  then show ?thesis
    using respectfulD [OF parts_ok_respectful _ assms(2)]
    by (simp add: ConfigureReceive_def same_durable_def same_files_def)
next
  case restart
  then show ?thesis using restart_ok assms(2) by simp
next
  case faults
  then show ?thesis
    using respectfulD [OF parts_ok_respectful _ assms(2)] by (simp add: same_durable_def same_files_def)
next
  case create
  then show ?thesis using keeps_snd [OF Create_keeps assms(2)] s by simp
next
  case append_begin
  then show ?thesis using keeps_snd [OF append_begin_keeps assms(2)] s by simp
next
  case append_publish
  then show ?thesis using keeps_snd [OF append_publish_keeps assms(2)] s by simp
next
  case session
  then show ?thesis using keeps_snd [OF queries_keep(1) assms(2)] s by simp
next
  case status
  then show ?thesis using keeps_snd [OF queries_keep(2) assms(2)] s by simp
next
  case status_kind
  then show ?thesis using keeps_snd [OF queries_keep(3) assms(2)] s by simp
next
  case missing
  then show ?thesis using keeps_snd [OF queries_keep(4) assms(2)] s by simp
next
  case retry
  then show ?thesis using keeps_snd [OF Retry_keeps assms(2)] s by simp
next
  case rebind
  then show ?thesis using keeps_snd [OF RebindPayload_keeps assms(2)] s by simp
next
  case stop
  then show ?thesis using keeps_snd [OF stopReceivers_keeps assms(2)] s by simp
next
  case cancel
  then show ?thesis using keeps_snd [OF cancel_finish_keeps assms(2)] s by simp
next
  case process
  then show ?thesis using keeps_snd [OF process_begin_keeps assms(2)] s by simp
next
  case verify
  then show ?thesis using keeps_snd [OF Verify_keeps assms(2)] s by simp
next
  case read
  then show ?thesis using keeps_snd [OF read_component_keeps assms(2)] s by simp
next
  case pending
  then show ?thesis using keeps_snd [OF scans_keep(1) assms(2)] s by simp
next
  case sweep
  then show ?thesis using keeps_snd [OF scans_keep(2) assms(2)] s by simp
qed
qed

lemma mobile_reachable_ok: "mobile_reachable sha now st \<Longrightarrow> parts_ok sha now st"
proof (induction rule: mobile_reachable.induct)
  case (start now q)
  show ?case by (rule new_parts_ok)
next
  case (step now st e st')
  from parts_ok_later [OF step.IH step.hyps(4)] step.hyps(3) have "ok_at e st" by simp
  from mobile_step_keeps [OF step.hyps(2) this step.hyps(5)] step.hyps(3) show ?case by simp
qed

end
