(* ===== verification/Mobile_Samples.thy ===== *)
theory Mobile_Samples
  imports Mobile_Machine "HOL-Library.Code_Target_Nat"
begin

text \<open>
  One upload of three bytes, from its creation to its last part, evaluated by the operations of the model;
  and the same upload restarted after a removal that failed half way.
\<close>

definition sample_id :: string where
  "sample_id = ''0123456789abcdef0123456789abcdef''"

definition sample_hash :: string where
  "sample_hash = sample_id @ sample_id"

definition sample_now :: gotime where
  "sample_now = \<lparr>instant = 1000, zone = 0\<rparr>"

definition sample_around :: surroundings where
  "sample_around = \<lparr>e_now = sample_now, e_statfs = None, e_sha = (\<lambda>_. sample_hash),
     e_random = Some ''kkkkkkkkkkkkkkkkkkkkkkkkkkkkkkkk'', e_unlocked = True, e_busy = [], e_leftover = []\<rparr>"

definition sample_component :: "int \<Rightarrow> int \<Rightarrow> component" where
  "sample_component n got = \<lparr>cp_id = ''original'', cp_size = 3, cp_sha256 = sample_hash,
     cp_received_parts = n, cp_received_bytes = got\<rparr>"

definition sample_spec :: parts_spec where
  "sample_spec = \<lparr>ps_kind = ''file'', ps_device = sample_id, ps_components = [sample_component 0 0],
     ps_commit = True, ps_payload = ''{}''\<rparr>"

definition sample_session :: "string \<Rightarrow> int \<Rightarrow> int \<Rightarrow> session" where
  "sample_session status n got = \<lparr>s_version = 1, s_id = sample_id, s_owner = sample_id,
     s_spec = sample_spec\<lparr>ps_components := [sample_component n got]\<rparr>,
     s_key = ''a2tra2tra2tra2tra2tra2tra2tra2tra2tra2tra2s='', s_status = status, s_error = '''', s_result = '''',
     s_created = sample_now, s_updated = sample_now, s_attempts = 0, s_retry_after = zero_time\<rparr>"

definition sample_created :: parts_state where
  "sample_created = (new_parts None)\<lparr>
     p_dirs := [(sample_id, [(''session.enc'', HeaderFile (sample_session ''uploading'' 0 0))])], p_live := [sample_id]\<rparr>"

definition sample_begun :: parts_state where
  "sample_begun = snd (append_begin sample_around False sample_id sample_id ''original'' 0 3 sample_hash sample_created)"

definition sample_done :: parts_state where
  "sample_done = (new_parts None)\<lparr>
     p_dirs := [(sample_id, [(''session.enc'', HeaderFile (sample_session ''queued'' 1 3)),
       (''original-0.wza'', PartFile (s_key (sample_session '''' 0 0)) ''original'' 0 ''abc''),
       (''original-0.receipt.enc'', ReceiptFile
          \<lparr>pr_component = ''original'', pr_index = 0, pr_size = 3, pr_hash = sample_hash\<rparr>)])],
     p_live := [sample_id], p_queue := [sample_id], p_next_receiver := 1\<rparr>"

lemma sample_create: "snd (Create sample_around sample_id sample_id sample_spec (new_parts None)) = sample_created"
  by code_simp

lemma sample_begin: "map rc_name (p_receivers sample_begun) = [None]"
  by code_simp

lemma sample_append:
  "snd (append_publish sample_around 0 None (snd (append_body sample_around 0 ''.incoming-7'' ''abc'' False sample_begun)))
    = sample_done"
  by code_simp

lemma sample_sane: "sane_surroundings sample_around"
  unfolding sane_surroundings_def
proof (intro conjI)
  show "clocked sample_around" by (simp add: clocked_def sample_around_def sample_now_def is_zero_def)
  show "keyed sample_around" by (simp add: keyed_def sample_around_def)
  show "orderly sample_around" by (simp add: orderly_def sample_around_def)
qed

lemma upload_reachable: "mobile_reachable (\<lambda>_. sample_hash) 1000 sample_done"
proof -
  have go: "mobile_reachable (\<lambda>_. sample_hash) 1000 t"
    if "mobile_reachable (\<lambda>_. sample_hash) 1000 s" "mobile_step sample_around s t" for s t
    using mobile_reachable.step [OF that _ _ sample_sane] by (simp add: sample_around_def sample_now_def)
  have "mobile_reachable (\<lambda>_. sample_hash) 1000 sample_created"
    unfolding sample_create [symmetric] by (rule go [OF mobile_reachable.start mobile_step.create])
  then have b: "mobile_reachable (\<lambda>_. sample_hash) 1000 sample_begun"
    unfolding sample_begun_def by (rule go [OF _ mobile_step.append_begin])
  have "''.incoming-7'' = ''.incoming-'' @ show_nat 7" by code_simp
  then have "temp_name ''.incoming-7''" unfolding temp_name_def by blast
  moreover have "rc_name r = None" if "r \<in> set (p_receivers sample_begun)" for r
  proof -
    have "rc_name r \<in> set (map rc_name (p_receivers sample_begun))" using that by simp
    then show ?thesis unfolding sample_begin by simp
  qed
  ultimately have "new_name ''.incoming-7'' sample_begun" by (simp add: new_name_def)
  from go [OF go [OF b mobile_step.append_body [OF this]] mobile_step.append_publish]
  show ?thesis unfolding sample_append [symmetric] .
qed

section \<open>A removal that fails half way\<close>

definition later_around :: surroundings where
  "later_around = sample_around\<lparr>e_now := \<lparr>instant = 1000 + Lifetime, zone = 0\<rparr>,
     e_random := Some ''nnnnnnnnnnnnnnnnnnnnnnnnnnnnnnnn'',
     e_leftover := [''original-0.wza'', ''original-0.receipt.enc'']\<rparr>"

definition old_files :: "(string \<times> entry) list" where
  "old_files = [(''original-0.wza'', PartFile (s_key (sample_session '''' 0 0)) ''original'' 0 ''abc''),
     (''original-0.receipt.enc'', ReceiptFile
        \<lparr>pr_component = ''original'', pr_index = 0, pr_size = 3, pr_hash = sample_hash\<rparr>)]"

definition half_removed :: parts_state where
  "half_removed = sample_done\<lparr>p_dirs := [(sample_id, old_files)]\<rparr>"

definition created_again :: parts_state where
  "created_again = half_removed\<lparr>p_dirs := [(sample_id, old_files @ [(''session.enc'', HeaderFile
     ((sample_session ''uploading'' 0 0)\<lparr>s_key := ''bm5ubm5ubm5ubm5ubm5ubm5ubm5ubm5ubm5ubm5ubm4='',
        s_created := e_now later_around, s_updated := e_now later_around\<rparr>))])], p_queue := []\<rparr>"

lemma half_removed_run:
  "Create later_around sample_id sample_id sample_spec (sample_done\<lparr>p_faults := [False, True]\<rparr>) = (Inl ErrIO, half_removed)"
  by code_simp

lemma created_again_run:
  "(case Create later_around sample_id sample_id sample_spec half_removed of
     (r, t) \<Rightarrow> (map_sum id v_status r, t)) = (Inr ''uploading'', created_again)"
  by code_simp

lemma created_again_status:
  "map_sum id (\<lambda>v. (v_status v, map cp_received_parts (v_components v))) (fst (Status later_around sample_id sample_id created_again))
    = Inr (''queued'', [1])"
  by code_simp

lemma created_again_missing:
  "map_sum id pg_missing (fst (Missing later_around sample_id sample_id ''original'' 0 10 created_again)) = Inr []"
  by code_simp

lemma created_again_verify: "fst (Verify later_around sample_id created_again) = Inl ErrCorrupt"
  by code_simp


end
