(* ===== verification/Mobile_Properties.thy ===== *)
theory Mobile_Properties
  imports Mobile_Samples
begin

text \<open>
  What the mobile uploads promise: receipts vouch for parts, a complete upload has every part, reading back
  gives the stored bytes, the list of missing parts is exact. One upload is followed from its creation to its
  last part on concrete data.
\<close>

section \<open>Receipts\<close>

lemma reachable_ok_at:
  "mobile_reachable (e_sha e) now st \<Longrightarrow> now \<le> instant (e_now e) \<Longrightarrow> ok_at e st"
  using mobile_reachable_ok parts_ok_later by blast



section \<open>Missing parts\<close>

lemma missing_scan_Inr:
  assumes "missing_scan ident cid limit n i p0 st = (Inr p, t)" "int (length (pg_missing p0)) < limit"
  shows "same_durable st t \<and> (\<exists>k \<le> n. (n = 0 \<longleftrightarrow> k = 0) \<and> pg_more p = pg_more p0
      \<and> pg_missing p = pg_missing p0 @ filter (\<lambda>j. entry_of ident (receipt_name cid j) st = None) [i..i + int k - 1]
      \<and> pg_next p = (if k = 0 then pg_next p0 else i + int k) \<and> int (length (pg_missing p)) \<le> limit)"
  using assms
proof (induction n arbitrary: i p0 st)
  case 0
  then show ?case by (auto simp: give_def)
next
  case (Suc n)
  let ?gone = "\<lambda>st j. entry_of ident (receipt_name cid j) st = None"
  from Suc.prems(1) obtain u where io: "io st = (Inr (), u)"
    and rest: "(let p' = (if ?gone u i then p0\<lparr>pg_missing := pg_missing p0 @ [i]\<rparr> else p0)\<lparr>pg_next := i + 1\<rparr>
      in if int (length (pg_missing p')) \<ge> limit then give p' else missing_scan ident cid limit n (i + 1) p') u = (Inr p, t)"
    by (auto simp: andthen_Inr_iff look_def)
  note sd = quietD [OF quiet_io io]
  have same: "?gone u j = ?gone st j" for j by (simp add: entry_of_durable [OF sd])
  define p' where "p' = (if ?gone st i then p0\<lparr>pg_missing := pg_missing p0 @ [i]\<rparr> else p0)\<lparr>pg_next := i + 1\<rparr>"
  have p': "pg_missing p' = pg_missing p0 @ filter (?gone st) [i]" "pg_next p' = i + 1" "pg_more p' = pg_more p0"
    by (simp_all add: p'_def)
  have upto: "[i..i + int (Suc k) - 1] = i # [i + 1..i + 1 + int k - 1]" for k
    by (subst upto.simps) (simp add: algebra_simps)
  show ?case
  proof (cases "int (length (pg_missing p')) \<ge> limit")
    case True
    with rest have "p = p'" "t = u" by (simp_all add: p'_def same Let_def give_def)
    with True p' sd Suc.prems(2) show ?thesis by (intro conjI exI [of _ 1]) (auto split: if_splits)
  next
    case False
    with rest have "missing_scan ident cid limit n (i + 1) p' u = (Inr p, t)" by (simp add: p'_def same Let_def)
    from Suc.IH [OF this] False obtain k where k: "same_durable u t" "k \<le> n" "n = 0 \<longleftrightarrow> k = 0" "pg_more p = pg_more p'"
      "pg_missing p = pg_missing p' @ filter (?gone st) [i + 1..i + 1 + int k - 1]"
      "pg_next p = (if k = 0 then pg_next p' else i + 1 + int k)" "int (length (pg_missing p)) \<le> limit"
      by (auto simp: same)
    show ?thesis
    proof (intro conjI exI [of _ "Suc k"])
      show "same_durable st t" by (rule same_durable_trans [OF sd k(1)])
      show "pg_missing p = pg_missing p0 @ filter (?gone st) [i..i + int (Suc k) - 1]"
        unfolding upto k(5) p' by simp
    qed (use k p' in auto)
  qed
qed

text \<open>C36
  A page of \<open>Missing\<close> is exact: it lists, in order, exactly the indexes from its start up to the next page
  that have no receipt, is never longer than asked for, and says that there is more when the next page starts
  inside the component. Asked for the position right after the last part it answers with position 0 instead
  of the end.
\<close>

theorem missing_exact:
  assumes "mobile_reachable (e_sha e) now st" "now \<le> instant (e_now e)"
    and "Missing e ident device cid start limit st = (Inr p, t)"
  shows "\<exists>s c. header ident t = Some s \<and> c \<in> set (components_of s) \<and> cp_id c = cid \<and> 0 \<le> start \<and> start \<le> count c
    \<and> (if start = count c then pg_missing p = [] \<and> pg_next p = 0
       else start < pg_next p \<and> pg_next p \<le> count c
         \<and> pg_missing p = filter (\<lambda>i. entry_of ident (receipt_name cid i) t = None) [start..pg_next p - 1])
    \<and> pg_more p = (pg_next p < count c) \<and> int (length (pg_missing p)) \<le> max 1 (min limit 200)"
proof -
  let ?lim = "max 1 (min limit 200)" and ?p0 = "\<lparr>pg_missing = [], pg_next = 0, pg_more = False\<rparr>"
  have ok: "ok_at e st" by (rule reachable_ok_at [OF assms(1,2)])
  obtain u where g: "andthen (load e ident) (\<lambda>s.
       andthen (refuse_if (ps_device (s_spec s) \<noteq> device) ErrNotFound) (\<lambda>_.
       case find (\<lambda>c. cp_id c = cid) (rev (ps_components (s_spec s))) of
         None \<Rightarrow> fails ErrInvalid
       | Some c \<Rightarrow>
           if start < 0 \<or> start > count c then fails ErrInvalid
           else
             andthen (missing_scan ident cid ?lim (nat (min (count c) (start + 200) - start)) start ?p0) (\<lambda>p.
             give (p\<lparr>pg_more := pg_next p < count c\<rparr>)))) st = (Inr p, u)" "same_durable u t"
    using assms(3) by (auto simp: Missing_def gated_def quiet_lease split: prod.splits if_splits)
  then obtain s u1 where s: "load e ident st = (Inr s, u1)"
    and r: "andthen (refuse_if (ps_device (s_spec s) \<noteq> device) ErrNotFound) (\<lambda>_.
       case find (\<lambda>c. cp_id c = cid) (rev (ps_components (s_spec s))) of
         None \<Rightarrow> fails ErrInvalid
       | Some c \<Rightarrow>
           if start < 0 \<or> start > count c then fails ErrInvalid
           else
             andthen (missing_scan ident cid ?lim (nat (min (count c) (start + 200) - start)) start ?p0) (\<lambda>p.
             give (p\<lparr>pg_more := pg_next p < count c\<rparr>))) u1 = (Inr p, u)"
    by (auto simp: andthen_Inr_iff)
  from ensuresD_Inr [OF load_rule ok s] have h: "header ident u1 = Some s" by simp
  from r obtain c q where c: "find (\<lambda>c. cp_id c = cid) (rev (ps_components (s_spec s))) = Some c"
      "0 \<le> start" "start \<le> count c"
    and q: "missing_scan ident cid ?lim (nat (min (count c) (start + 200) - start)) start ?p0 u1 = (Inr q, u)"
      "p = q\<lparr>pg_more := pg_next q < count c\<rparr>"
    by (auto simp: andthen_Inr_iff run_refuse give_def fails_def split: option.splits if_splits)
  have mem: "c \<in> set (components_of s)" "cp_id c = cid"
    using c(1) by (auto simp: find_Some_iff components_of_def) (metis nth_mem length_rev set_rev)
  let ?n = "nat (min (count c) (start + 200) - start)"
  have "int (length (pg_missing ?p0)) < ?lim" by simp
  from missing_scan_Inr [OF q(1) this] obtain k where k: "same_durable u1 u" "k \<le> ?n" "?n = 0 \<longleftrightarrow> k = 0"
    "pg_missing q = filter (\<lambda>j. entry_of ident (receipt_name cid j) u1 = None) [start..start + int k - 1]"
    "pg_next q = (if k = 0 then 0 else start + int k)" "int (length (pg_missing q)) \<le> ?lim"
    by auto
  have d: "same_durable u1 t" by (rule same_durable_trans [OF k(1) g(2)])
  have ht: "header ident t = Some s"
    using respectfulD [OF respectful_header [of "\<lambda>x. x = Some s"] d h] .
  have e: "entry_of ident n t = entry_of ident n u1" for n by (rule entry_of_durable [OF d])
  have n0: "?n = 0 \<longleftrightarrow> start = count c" using c(3) by auto
  have "if start = count c then pg_missing p = [] \<and> pg_next p = 0
       else start < pg_next p \<and> pg_next p \<le> count c
         \<and> pg_missing p = filter (\<lambda>i. entry_of ident (receipt_name cid i) t = None) [start..pg_next p - 1]"
  proof (cases "start = count c")
    case True
    with k(3) n0 have "k = 0" by simp
    with True k q(2) show ?thesis by simp
  next
    case False
    with k(3) n0 have "k \<noteq> 0" by simp
    moreover have "start + int k \<le> count c" using k(2) c(3) by linarith
    ultimately show ?thesis using False k q(2) by (simp add: e)
  qed
  with ht mem c(2,3) k(6) q(2) show ?thesis by (intro exI [of _ s] exI [of _ c]) simp
qed

section \<open>Reading back\<close>

lemma read_parts_Inr:
  assumes "read_parts e s c n i st = (Inr body, t)"
  shows "same_durable st t \<and> (\<exists>ps. body = concat ps \<and> length ps = n \<and>
    (\<forall>j < n. entry_of (s_id s) (part_file_name (cp_id c) (i + int j)) st
         = Some (PartFile (s_key s) (cp_id c) (i + int j) (ps ! j))
       \<and> partLength c (i + int j) = Inr (int (length (ps ! j)))))"
  using assms
proof (induction n arbitrary: i st body)
  case 0
  then show ?case by (auto simp: give_def)
next
  case (Suc n)
  let ?x = "\<lambda>st. entry_of (s_id s) (part_file_name (cp_id c) i) st"
  from Suc.prems obtain u where io: "io st = (Inr (), u)"
    and rest: "(case ?x u of
       Some (PartFile key cid j plain) \<Rightarrow>
         if key = s_key s \<and> cid = cp_id c \<and> j = i \<and> partLength c i = Inr (int (length plain))
         then andthen (read_parts e s c n (i + 1)) (\<lambda>rest. give (plain @ rest))
         else fails ErrCorrupt
     | _ \<Rightarrow> fails ErrCorrupt) u = (Inr body, t)"
    by (auto simp: andthen_Inr_iff run_refuse look_def split: if_splits)
  note sd = quietD [OF quiet_io io]
  from rest obtain plain rest' where x: "?x u = Some (PartFile (s_key s) (cp_id c) i plain)"
      "partLength c i = Inr (int (length plain))"
    and r: "read_parts e s c n (i + 1) u = (Inr rest', t)" "body = plain @ rest'"
    by (auto simp: fails_def andthen_Inr_iff give_def split: option.splits entry.splits if_splits)
  from Suc.IH [OF r(1)] obtain ps where ps: "same_durable u t" "rest' = concat ps" "length ps = n"
    "\<And>j. j < n \<Longrightarrow> entry_of (s_id s) (part_file_name (cp_id c) (i + 1 + int j)) u
         = Some (PartFile (s_key s) (cp_id c) (i + 1 + int j) (ps ! j))
       \<and> partLength c (i + 1 + int j) = Inr (int (length (ps ! j)))" by auto
  show ?case
  proof (intro conjI exI [of _ "plain # ps"] allI impI)
    show "same_durable st t" by (rule same_durable_trans [OF sd ps(1)])
    fix j
    assume j: "j < Suc n"
    have "entry_of (s_id s) (part_file_name (cp_id c) (i + int j)) st
         = Some (PartFile (s_key s) (cp_id c) (i + int j) ((plain # ps) ! j))
       \<and> partLength c (i + int j) = Inr (int (length ((plain # ps) ! j)))"
    proof (cases j)
      case 0
      with x entry_of_durable [OF sd] show ?thesis by simp
    next
      case (Suc m)
      have i: "i + int (Suc m) = i + 1 + int m" by simp
      from ps(4) [of m] j Suc entry_of_durable [OF sd] show ?thesis unfolding Suc i by simp
    qed
    then show "entry_of (s_id s) (part_file_name (cp_id c) (i + int j)) st
         = Some (PartFile (s_key s) (cp_id c) (i + int j) ((plain # ps) ! j))"
      "partLength c (i + int j) = Inr (int (length ((plain # ps) ! j)))" by blast+
  qed (use r(2) ps(2,3) in auto)
qed

text \<open>C35
  Reading a component back, as the verification and the commit callback do, gives the bytes of its stored
  parts in order, each opened with the key of the upload at its own position, and exactly as many bytes as
  the upload announced.
\<close>

theorem component_read_back:
  assumes "mobile_reachable (e_sha e) now st" "now \<le> instant (e_now e)" "read_component e ident cid st = (Inr body, t)"
  shows "\<exists>s c ps. header ident t = Some s \<and> live s \<and> c \<in> set (components_of s) \<and> cp_id c = cid
    \<and> body = concat ps \<and> int (length ps) = count c \<and> int (length body) = cp_size c
    \<and> (\<forall>i < length ps. entry_of ident (part_file_name cid (int i)) t = Some (PartFile (s_key s) cid (int i) (ps ! i)))"
proof -
  have ok: "ok_at e st" by (rule reachable_ok_at [OF assms(1,2)])
  from assms(3) obtain s c u where o: "Open e ident cid st = (Inr (s, c), u)"
    and r: "read_parts e s c (nat (count c)) 0 u = (Inr body, t)"
    by (auto simp: read_component_def andthen_Inr_iff)
  from o obtain u1 where g: "andthen (load e ident) (\<lambda>s.
       andthen (refuse_if (\<not> live s) ErrConflict) (\<lambda>_.
       andthen (refuse_if (\<not> ready s) ErrIncomplete) (\<lambda>_.
       case find (\<lambda>c. cp_id c = cid) (ps_components (s_spec s)) of
         None \<Rightarrow> fails ErrInvalid
       | Some c \<Rightarrow> give (s, c)))) st = (Inr (s, c), u1)" "same_durable u1 u"
    by (auto simp: Open_def gated_def quiet_lease split: prod.splits if_splits)
  then obtain s0 where s0: "load e ident st = (Inr s0, u1)" "s0 = s" "live s"
      "find (\<lambda>c. cp_id c = cid) (ps_components (s_spec s)) = Some c"
    by (auto simp: andthen_Inr_iff run_refuse give_def fails_def split: option.splits if_splits)
  from ensuresD_Inr [OF load_rule ok s0(1)] s0(2) have h1: "ok_at e u1" "header ident u1 = Some s" by auto
  from read_parts_Inr [OF r] obtain ps where ps: "same_durable u t" "body = concat ps" "length ps = nat (count c)"
    "\<And>j. j < nat (count c) \<Longrightarrow> entry_of (s_id s) (part_file_name (cp_id c) (int j)) u
         = Some (PartFile (s_key s) (cp_id c) (int j) (ps ! j)) \<and> partLength c (int j) = Inr (int (length (ps ! j)))"
    by auto
  have mem: "c \<in> set (components_of s)" "cp_id c = cid"
    using s0(4) by (auto simp: find_Some_iff components_of_def)
  have v: "validateSession s ident = None" using parts_ok_header [OF h1] by (simp add: header_sound_def)
  have id: "s_id s = ident" by (rule validate_facts(1) [OF v])
  have sz: "0 \<le> cp_size c" using validate_facts(3) [OF v] mem(1) sane_id(2) by (auto simp: list_all_iff)
  have d: "same_durable u1 t" by (rule same_durable_trans [OF g(2) ps(1)])
  have ht: "header ident t = Some s" using respectfulD [OF respectful_header [of "\<lambda>x. x = Some s"] d h1(2)] .
  have e: "entry_of ident n t = entry_of ident n u" for n by (rule entry_of_durable [OF ps(1)])
  have "map length ps = map (\<lambda>j. nat (part_len c (int j))) [0..<nat (count c)]"
    by (rule nth_equalityI) (use ps(3,4) in \<open>auto simp: part_len_def\<close>)
  then have "int (length body) = (\<Sum>j < nat (count c). int (nat (part_len c (int j))))"
    unfolding ps(2) length_concat by (simp add: sum_list_sum_nth atLeast0LessThan)
  also have "\<dots> = (\<Sum>j < nat (count c). part_len c (int j))"
  proof (rule sum.cong)
    fix j
    assume "j \<in> {..<nat (count c)}"
    with ps(4) [of j] show "int (nat (part_len c (int j))) = part_len c (int j)" by (simp add: part_len_def)
  qed simp
  also have "\<dots> = cp_size c"
    using part_len_sum [OF sz, of "nat (count c)"] count_nonneg [OF sz] count_bounds(1) [OF sz] by simp
  finally have "int (length body) = cp_size c" .
  moreover have "int (length ps) = count c" using ps(3) count_nonneg [OF sz] by simp
  moreover have "entry_of ident (part_file_name cid (int i)) t = Some (PartFile (s_key s) cid (int i) (ps ! i))"
    if "i < length ps" for i
    using ps(4) [of i] that ps(3) unfolding e id mem(2) by simp
  ultimately show ?thesis using ht s0(3) mem ps(2) by blast
qed

section \<open>The properties on one upload\<close>

lemma sample_header: "header sample_id sample_done = Some (sample_session ''queued'' 1 3)"
  by code_simp

lemma sample_receipt: "entry_of sample_id ''original-0.receipt.enc'' sample_done = Some (ReceiptFile
    \<lparr>pr_component = ''original'', pr_index = 0, pr_size = 3, pr_hash = sample_hash\<rparr>)"
  by code_simp



lemma sample_read: "fst (read_component sample_around sample_id ''original'' sample_done) = Inr ''abc''"
  by code_simp

lemma component_read_back_witness:
  "\<exists>t s c ps. header sample_id t = Some s \<and> c \<in> set (components_of s) \<and> ''abc'' = concat ps
     \<and> int (length ps) = count c \<and> int (length ''abc'') = cp_size c"
proof -
  obtain t where t: "read_component sample_around sample_id ''original'' sample_done = (Inr ''abc'', t)"
    using sample_read by (metis prod.collapse)
  have r: "mobile_reachable (e_sha sample_around) 1000 sample_done"
    using upload_reachable by (simp add: sample_around_def)
  have n: "1000 \<le> instant (e_now sample_around)" by (simp add: sample_around_def sample_now_def)
  from component_read_back [OF r n t] show ?thesis by blast
qed

lemma sample_missing:
  "fst (Missing sample_around sample_id sample_id ''original'' 1 10 sample_done)
    = Inr \<lparr>pg_missing = [], pg_next = 0, pg_more = True\<rparr>"
  by code_simp

lemma missing_exact_witness:
  "\<exists>t s c. header sample_id t = Some s \<and> c \<in> set (components_of s) \<and> 1 \<le> count c
     \<and> pg_more \<lparr>pg_missing = [], pg_next = 0, pg_more = True\<rparr> = (0 < count c)"
proof -
  obtain t where t: "Missing sample_around sample_id sample_id ''original'' 1 10 sample_done
      = (Inr \<lparr>pg_missing = [], pg_next = 0, pg_more = True\<rparr>, t)"
    using sample_missing by (metis prod.collapse)
  have r: "mobile_reachable (e_sha sample_around) 1000 sample_done"
    using upload_reachable by (simp add: sample_around_def)
  have n: "1000 \<le> instant (e_now sample_around)" by (simp add: sample_around_def sample_now_def)
  from missing_exact [OF r n t] show ?thesis by auto
qed

end
