(* ===== verification/User_Data.thy ===== *)
theory User_Data
  imports Encoding Text_Utf8
begin

text \<open>
  \<^verbatim>\<open>internal/users\<close>: accounts, browser sessions, requests for access and devices, and the file that
  stores all but the sessions. A save writes a temporary file and renames it, so it either installs the
  whole new file or leaves the old one.
\<close>

section \<open>Data\<close>

datatype user_error =
    ErrUserExists
  | ErrBadCredentials
  | ErrUserDisabled
  | ErrNoSession
  | ErrBadUsername
  | ErrBadUserID
  | ErrInsufficientScope
  | ErrRotationConflict
  | ErrInvalidRotation
  | ErrDeviceLimit
  | ErrRandom
  | ErrUserSave
  | ErrUserPath
  | ErrMessage string

record user =
  u_id :: string
  u_username :: string
  u_full_name :: string
  u_admin :: bool
  u_disabled :: bool
  u_disable_pending :: bool
  u_deleting :: bool
  u_delete_error :: string
  u_disable_error :: string
  u_salt :: string
  u_verifier :: string
  u_created :: gotime

record user_session =
  us_user_id :: string
  us_expires :: gotime

record access_request =
  ar_id :: string
  ar_username :: string
  ar_note :: string
  ar_status :: string
  ar_created :: gotime
  ar_approved :: gotime
  ar_token_hash :: string
  ar_consumed :: gotime

text \<open>\<open>None\<close> are the scopes of a legacy device, an empty list grants nothing.\<close>

record device =
  d_id :: string
  d_owner :: string
  d_name :: string
  d_created :: gotime
  d_expires :: gotime
  d_scopes :: "string list option"
  d_generation :: u64
  d_version :: u64
  d_revoked :: bool
  d_token_hash :: string
  d_password_version :: string
  d_previous_hash :: string
  d_previous_until :: gotime
  d_previous_expires :: gotime
  d_rotation_id :: string
  d_rotation_expected :: u64

record user_file =
  uf_version :: int
  uf_users :: "user list"
  uf_requests :: "access_request list"
  uf_devices :: "device list"

record user_store =
  st_users :: "user list"
  st_requests :: "access_request list"
  st_devices :: "device list"
  st_sessions :: "(string \<times> user_session) list"
  st_file :: "user_file option"

text \<open>
  What the surroundings answer during one call: the clock of the devices, \<open>time.Now\<close>, the draws of
  \<^verbatim>\<open>cryptox.Random\<close>, whether the write and the creation of a directory succeed, the hexadecimal SHA-256
  of a text and Argon2 of a password and a salt.
\<close>

record account_env =
  ae_now :: gotime
  ae_wall :: gotime
  ae_draws :: "string option list"
  ae_save :: bool
  ae_mkdir :: bool
  ae_hash :: "string \<Rightarrow> string"
  ae_derive :: "string \<Rightarrow> string \<Rightarrow> string"

definition draw :: "account_env \<Rightarrow> user_error + string \<times> account_env" where
  "draw e = (case ae_draws e of Some raw # rest \<Rightarrow> Inr (raw, e\<lparr>ae_draws := rest\<rparr>) | _ \<Rightarrow> Inl ErrRandom)"

definition hour :: int where
  "hour = 3600000000000"

definition sessionTTL :: int where
  "sessionTTL = 24 * hour"

definition add_time :: "gotime \<Rightarrow> int \<Rightarrow> gotime" where
  "add_time t d = t\<lparr>instant := instant t + d\<rparr>"

section \<open>The file\<close>

definition saveLocked :: "account_env \<Rightarrow> user_store \<Rightarrow> (user_error + unit) \<times> user_store" where
  "saveLocked e s =
     (if ae_save e
      then (Inr (), s\<lparr>st_file := Some \<lparr>uf_version = 2, uf_users = st_users s, uf_requests = st_requests s, uf_devices = st_devices s\<rparr>\<rparr>)
      else (Inl ErrUserSave, s))"

definition empty_users :: "user_file option \<Rightarrow> user_store" where
  "empty_users f = \<lparr>st_users = [], st_requests = [], st_devices = [], st_sessions = [], st_file = f\<rparr>"

definition pending_upgrade :: "user \<Rightarrow> user" where
  "pending_upgrade u = (if u_disabled u \<and> \<not> u_deleting u then u\<lparr>u_disable_pending := True\<rparr> else u)"

definition load_users :: "account_env \<Rightarrow> bool \<Rightarrow> user_store \<Rightarrow> (user_error + unit) \<times> user_store" where
  "load_users e persist_upgrade s =
     (case st_file s of
        None \<Rightarrow> (Inr (), s)
      | Some f \<Rightarrow>
          (let s1 = s\<lparr>st_users := uf_users f, st_requests := uf_requests f, st_devices := uf_devices f\<rparr>
           in if 2 < uf_version f then (Inl (ErrMessage ''unsupported user state version''), s1)
              else if uf_version f < 1
              then (let s2 = s1\<lparr>st_users := map pending_upgrade (st_users s1)\<rparr>
                    in if persist_upgrade then saveLocked e s2 else (Inr (), s2))
              else (Inr (), s1)))"

text \<open>\<open>New\<close> and \<open>NewReadOnly\<close>: a process that starts has no sessions.\<close>

definition open_users :: "account_env \<Rightarrow> bool \<Rightarrow> user_file option \<Rightarrow> (user_error + unit) \<times> user_store" where
  "open_users e persist_upgrade f = load_users e persist_upgrade (empty_users f)"

section \<open>Lookups\<close>

definition user_index :: "string \<Rightarrow> user_store \<Rightarrow> nat option" where
  "user_index i s = find_index (\<lambda>u. u_id u = i) (st_users s)"

definition find_user :: "string \<Rightarrow> user_store \<Rightarrow> user option" where
  "find_user i s = List.find (\<lambda>u. u_id u = i) (st_users s)"

definition active_admin :: "user \<Rightarrow> bool" where
  "active_admin u \<longleftrightarrow> u_admin u \<and> \<not> u_disabled u \<and> \<not> u_deleting u"

definition activeAdminsLocked :: "user_store \<Rightarrow> nat" where
  "activeAdminsLocked s = length (filter active_admin (st_users s))"

definition equalHash :: "string \<Rightarrow> string \<Rightarrow> bool" where
  "equalHash a b \<longleftrightarrow> a \<noteq> '''' \<and> b \<noteq> '''' \<and> a = b"

text \<open>The pattern \<open>[a-zA-Z0-9][a-zA-Z0-9._-]{2,31}\<close> of a user name.\<close>

definition name_char :: "char \<Rightarrow> bool" where
  "name_char c \<longleftrightarrow> c \<in> set ''abcdefghijklmnopqrstuvwxyzABCDEFGHIJKLMNOPQRSTUVWXYZ0123456789''"

definition usernameRE :: "string \<Rightarrow> bool" where
  "usernameRE s \<longleftrightarrow> 3 \<le> length s \<and> length s \<le> 32 \<and> name_char (hd s)
     \<and> list_all (\<lambda>c. name_char c \<or> c \<in> set ''._-'') (tl s)"

text \<open>\<open>DataPath\<close>: the directory of an account, for a well-formed identifier only.\<close>

definition DataPath :: "string \<Rightarrow> user \<Rightarrow> user_error + string" where
  "DataPath root u =
     (if length (u_id u) \<noteq> 32 \<or> \<not> list_all (\<lambda>c. c \<in> set ''0123456789abcdef'') (u_id u) then Inl ErrBadUserID
      else Inr (path_clean (root @ ''/'' @ u_id u)))"

section \<open>Invalidating the devices of an owner\<close>

definition publicDevice :: "device \<Rightarrow> device" where
  "publicDevice d = d\<lparr>d_token_hash := '''', d_password_version := '''', d_previous_hash := '''', d_rotation_id := '''',
     d_previous_until := zero_time, d_previous_expires := zero_time, d_rotation_expected := 0,
     d_generation := (if d_generation d = 0 then 1 else d_generation d),
     d_version := (if d_version d = 0 then 1 else d_version d)\<rparr>"

definition invalidateDevice :: "device \<Rightarrow> device" where
  "invalidateDevice d = d\<lparr>d_revoked := True, d_token_hash := '''', d_previous_hash := '''', d_rotation_id := '''',
     d_version := d_version (publicDevice d) + 1\<rparr>"

definition invalidateOwnerDevicesLocked :: "string \<Rightarrow> device list \<Rightarrow> device list" where
  "invalidateOwnerDevicesLocked owner ds = map (\<lambda>d. if d_owner d = owner then invalidateDevice d else d) ds"

definition removeOwnerDevicesLocked :: "string \<Rightarrow> device list \<Rightarrow> device list" where
  "removeOwnerDevicesLocked owner ds = filter (\<lambda>d. d_owner d \<noteq> owner) ds"

definition invalidateSessionsLocked :: "string \<Rightarrow> (string \<times> user_session) list \<Rightarrow> (string \<times> user_session) list" where
  "invalidateSessionsLocked i ss = filter (\<lambda>ts. us_user_id (snd ts) \<noteq> i) ss"

end
