(* ===== verification/User_Accounts.thy ===== *)
theory User_Accounts
  imports User_Data
begin

text \<open>
  \<^verbatim>\<open>internal/users\<close>, the accounts: \<^verbatim>\<open>store.go\<close> (creation, login, sessions), \<^verbatim>\<open>access.go\<close> (requests for access and
  their approval), \<^verbatim>\<open>account_state.go\<close> (disabling and deletion) and \<^verbatim>\<open>profile.go\<close>. Where the code mutates the
  lists in memory before a save and does not undo it when the save fails, so does the model.
\<close>

section \<open>Creation and login\<close>

definition set_users :: "user list \<Rightarrow> user_store \<Rightarrow> user_store" where
  "set_users us s = s\<lparr>st_users := us\<rparr>"

definition name_taken :: "string \<Rightarrow> user_store \<Rightarrow> bool" where
  "name_taken name s \<longleftrightarrow> (\<exists>u \<in> set (st_users s). equal_fold (u_username u) name)"

text \<open>A new account: a salt is drawn, then the identifier.\<close>

definition new_user :: "account_env \<Rightarrow> string \<Rightarrow> string \<Rightarrow> bool \<Rightarrow> user_error + user \<times> account_env" where
  "new_user e name password admin =
     res_bind (draw e) (\<lambda>(salt, e1).
     res_bind (draw e1) (\<lambda>(raw, e2).
       Inr (\<lparr>u_id = hex_encode raw, u_username = name, u_full_name = '''', u_admin = admin, u_disabled = False,
             u_disable_pending = False, u_deleting = False, u_delete_error = '''', u_disable_error = '''',
             u_salt = B64 salt, u_verifier = B64 (ae_derive e password salt), u_created = to_utc (ae_wall e)\<rparr>, e2)))"

definition CreateUser :: "account_env \<Rightarrow> string \<Rightarrow> string \<Rightarrow> bool \<Rightarrow> user_store \<Rightarrow> (user_error + user) \<times> user_store" where
  "CreateUser e username password admin s =
     (let name = trim_space username
      in if \<not> usernameRE name then (Inl ErrBadUsername, s)
         else if length password < 8 then (Inl (ErrMessage ''password must be at least 8 characters''), s)
         else if name_taken name s then (Inl ErrUserExists, s)
         else case new_user e name password admin of
           Inl err \<Rightarrow> (Inl err, s)
         | Inr (u, e') \<Rightarrow>
             (case saveLocked e' (set_users (st_users s @ [u]) s) of
                (Inl err, s') \<Rightarrow> (Inl err, set_users (st_users s) s')
              | (Inr v, s') \<Rightarrow> (if ae_mkdir e then (Inr u, s') else (Inl ErrUserPath, s'))))"

definition check_password :: "account_env \<Rightarrow> user \<Rightarrow> string \<Rightarrow> bool" where
  "check_password e u password \<longleftrightarrow>
     (case (B64d (u_salt u), B64d (u_verifier u)) of
        (Some salt, Some want) \<Rightarrow> ae_derive e password salt = want
      | _ \<Rightarrow> False)"

definition Authenticate :: "account_env \<Rightarrow> string \<Rightarrow> string \<Rightarrow> user_store \<Rightarrow> user_error + user" where
  "Authenticate e username password s =
     (case List.find (\<lambda>u. equal_fold (u_username u) (trim_space username)) (st_users s) of
        None \<Rightarrow> Inl ErrBadCredentials
      | Some u \<Rightarrow>
          if u_disabled u \<or> u_deleting u then Inl ErrUserDisabled
          else if u_id u = '''' then Inl ErrBadCredentials
          else if check_password e u password then Inr u else Inl ErrBadCredentials)"

definition Login :: "account_env \<Rightarrow> string \<Rightarrow> user_store \<Rightarrow> (user_error + string) \<times> user_store" where
  "Login e i s =
     (case draw e of
        Inl err \<Rightarrow> (Inl err, s)
      | Inr (raw, e') \<Rightarrow>
          (case find_user i s of
             None \<Rightarrow> (Inl ErrUserDisabled, s)
           | Some u \<Rightarrow>
               if u_disabled u \<or> u_deleting u then (Inl ErrUserDisabled, s)
               else (Inr (hex_encode raw),
                     s\<lparr>st_sessions := AList.update (hex_encode raw)
                         \<lparr>us_user_id = i, us_expires = add_time (ae_wall e) sessionTTL\<rparr> (st_sessions s)\<rparr>)))"

text \<open>The account behind a session cookie; an expired session is forgotten.\<close>

definition session_user :: "account_env \<Rightarrow> string option \<Rightarrow> user_store \<Rightarrow> (user_error + user) \<times> user_store" where
  "session_user e cookie s =
     (case cookie of
        None \<Rightarrow> (Inl ErrNoSession, s)
      | Some token \<Rightarrow>
          (case map_of (st_sessions s) token of
             None \<Rightarrow> (Inl ErrNoSession, s)
           | Some ss \<Rightarrow>
               if time_after (ae_wall e) (us_expires ss)
               then (Inl ErrNoSession, s\<lparr>st_sessions := AList.delete token (st_sessions s)\<rparr>)
               else case find_user (us_user_id ss) s of
                 None \<Rightarrow> (Inl ErrNoSession, s)
               | Some u \<Rightarrow> (if u_disabled u \<or> u_deleting u then Inl ErrNoSession else Inr u, s)))"

definition Logout :: "string option \<Rightarrow> user_store \<Rightarrow> user_store" where
  "Logout cookie s =
     (case cookie of None \<Rightarrow> s | Some token \<Rightarrow> s\<lparr>st_sessions := AList.delete token (st_sessions s)\<rparr>)"

section \<open>Requests for access\<close>

definition set_requests :: "access_request list \<Rightarrow> user_store \<Rightarrow> user_store" where
  "set_requests qs s = s\<lparr>st_requests := qs\<rparr>"

definition RequestAccess :: "account_env \<Rightarrow> string \<Rightarrow> string \<Rightarrow> user_store \<Rightarrow> (user_error + access_request) \<times> user_store" where
  "RequestAccess e username note s =
     (let name = trim_space username
      in if \<not> usernameRE name then (Inl ErrBadUsername, s)
         else if name_taken name s
              \<or> (\<exists>q \<in> set (st_requests s). ar_status q = ''pending'' \<and> equal_fold (ar_username q) name)
         then (Inl ErrUserExists, s)
         else case draw e of
           Inl err \<Rightarrow> (Inl err, s)
         | Inr (raw, e') \<Rightarrow>
             (let q = \<lparr>ar_id = hex_encode raw, ar_username = name, ar_note = trim_space note, ar_status = ''pending'',
                       ar_created = to_utc (ae_wall e), ar_approved = zero_time, ar_token_hash = '''', ar_consumed = zero_time\<rparr>
              in case saveLocked e' (set_requests (st_requests s @ [q]) s) of
                   (Inl err, s') \<Rightarrow> (Inl err, set_requests (st_requests s) s')
                 | (Inr v, s') \<Rightarrow> (Inr q, s')))"

text \<open>A failed save leaves the approval in memory, with a token nobody was told.\<close>

definition ApproveAccess :: "account_env \<Rightarrow> string \<Rightarrow> user_store \<Rightarrow> (user_error + access_request \<times> string) \<times> user_store" where
  "ApproveAccess e i s =
     (case find_index (\<lambda>q. ar_id q = i) (st_requests s) of
        None \<Rightarrow> (Inl (ErrMessage ''access request not found''), s)
      | Some k \<Rightarrow>
          (let q = st_requests s ! k
           in if ar_status q \<noteq> ''pending'' then (Inl (ErrMessage ''request is no longer pending''), s)
              else if name_taken (ar_username q) s then (Inl ErrUserExists, s)
              else case draw e of
                Inl err \<Rightarrow> (Inl err, s)
              | Inr (raw, e') \<Rightarrow>
                  (let token = hex_encode raw;
                       q' = q\<lparr>ar_status := ''approved'', ar_approved := to_utc (ae_wall e), ar_token_hash := ae_hash e token\<rparr>
                   in case saveLocked e' (set_requests ((st_requests s)[k := q']) s) of
                        (Inl err, s') \<Rightarrow> (Inl err, s')
                      | (Inr v, s') \<Rightarrow> (Inr (q', token), s'))))"

definition RejectAccess :: "account_env \<Rightarrow> string \<Rightarrow> user_store \<Rightarrow> (user_error + unit) \<times> user_store" where
  "RejectAccess e i s =
     (case find_index (\<lambda>q. ar_id q = i) (st_requests s) of
        None \<Rightarrow> (Inl (ErrMessage ''access request not found''), s)
      | Some k \<Rightarrow>
          if ar_status (st_requests s ! k) \<noteq> ''pending'' then (Inl (ErrMessage ''request is no longer pending''), s)
          else saveLocked e (set_requests ((st_requests s)[k := (st_requests s ! k)\<lparr>ar_status := ''rejected''\<rparr>]) s))"

text \<open>
  The request is found by the trimmed name, the accounts are searched for the name as it was sent. A failed
  save takes the account back, not the consumption of the approval.
\<close>

definition CompleteAccess ::
  "account_env \<Rightarrow> string \<Rightarrow> string \<Rightarrow> string \<Rightarrow> string \<Rightarrow> user_store \<Rightarrow> (user_error + user) \<times> user_store" where
  "CompleteAccess e i token username password s =
     (if \<not> usernameRE (trim_space username) \<or> length password < 8
      then (Inl (ErrMessage ''invalid account details''), s)
      else case find_index (\<lambda>q. ar_id q = i \<and> ar_username q = trim_space username) (st_requests s) of
        None \<Rightarrow> (Inl (ErrMessage ''access request not found''), s)
      | Some k \<Rightarrow>
          (let q = st_requests s ! k
           in if ar_status q \<noteq> ''approved'' \<or> ar_token_hash q = ''''
              then (Inl (ErrMessage ''approval is not available''), s)
              else if ae_hash e token \<noteq> ar_token_hash q then (Inl ErrBadCredentials, s)
              else if name_taken username s then (Inl ErrUserExists, s)
              else case new_user e (trim_space username) password False of
                Inl err \<Rightarrow> (Inl err, s)
              | Inr (u, e') \<Rightarrow>
                  (let q' = q\<lparr>ar_status := ''completed'', ar_consumed := to_utc (ae_wall e), ar_token_hash := ''''\<rparr>;
                       s1 = set_requests ((st_requests s)[k := q']) (set_users (st_users s @ [u]) s)
                   in case saveLocked e' s1 of
                        (Inl err, s') \<Rightarrow> (Inl err, set_users (st_users s) s')
                      | (Inr v, s') \<Rightarrow> (if ae_mkdir e then (Inr u, s') else (Inl ErrUserPath, s')))))"

section \<open>Disabling and deleting accounts\<close>

text \<open>Sessions end only after the change is stored; a failed save puts accounts and devices back.\<close>

definition save_account ::
  "account_env \<Rightarrow> string \<Rightarrow> bool \<Rightarrow> user list \<Rightarrow> device list \<Rightarrow> user_store \<Rightarrow> (user_error + unit) \<times> user_store" where
  "save_account e i sign_out us ds s =
     (case saveLocked e (s\<lparr>st_users := us, st_devices := ds\<rparr>) of
        (Inl err, s') \<Rightarrow> (Inl err, s'\<lparr>st_users := st_users s, st_devices := st_devices s\<rparr>)
      | (Inr u, s') \<Rightarrow>
          (Inr (), if sign_out then s'\<lparr>st_sessions := invalidateSessionsLocked i (st_sessions s')\<rparr> else s'))"

definition SetDisabled :: "account_env \<Rightarrow> string \<Rightarrow> bool \<Rightarrow> user_store \<Rightarrow> (user_error + unit) \<times> user_store" where
  "SetDisabled e i disabled s =
     (case user_index i s of
        None \<Rightarrow> (Inl ErrUserDisabled, s)
      | Some k \<Rightarrow>
          (let u = st_users s ! k
           in if u_deleting u then (Inl ErrUserDisabled, s)
              else if disabled \<and> u_admin u \<and> activeAdminsLocked s \<le> 1
              then (Inl (ErrMessage ''cannot disable the last active administrator''), s)
              else if \<not> disabled \<and> (u_disable_error u \<noteq> '''' \<or> u_disable_pending u)
              then (Inl (ErrMessage ''disable cleanup is incomplete''), s)
              else if disabled
              then save_account e i True
                     ((st_users s)[k := u\<lparr>u_disabled := True, u_disable_pending := True, u_disable_error := ''''\<rparr>])
                     (invalidateOwnerDevicesLocked i (st_devices s)) s
              else save_account e i False ((st_users s)[k := u\<lparr>u_disabled := False\<rparr>]) (st_devices s) s))"

definition SetDisableError :: "account_env \<Rightarrow> string \<Rightarrow> string \<Rightarrow> user_store \<Rightarrow> (user_error + unit) \<times> user_store" where
  "SetDisableError e i category s =
     (case user_index i s of
        None \<Rightarrow> (Inr (), s)
      | Some k \<Rightarrow>
          (let u = (st_users s ! k)\<lparr>u_disable_error := category\<rparr>
           in save_account e i False
                ((st_users s)[k := (if category = '''' then u\<lparr>u_disable_pending := False\<rparr> else u)]) (st_devices s) s))"

definition BeginDelete :: "account_env \<Rightarrow> string \<Rightarrow> user_store \<Rightarrow> (user_error + user) \<times> user_store" where
  "BeginDelete e i s =
     (case user_index i s of
        None \<Rightarrow> (Inl (ErrMessage ''account not found''), s)
      | Some k \<Rightarrow>
          (let u = st_users s ! k; u' = u\<lparr>u_disabled := True, u_deleting := True, u_delete_error := ''''\<rparr>
           in if \<not> u_deleting u \<and> u_admin u \<and> \<not> u_disabled u \<and> activeAdminsLocked s \<le> 1
              then (Inl (ErrMessage ''cannot delete the last active administrator''), s)
              else case save_account e i True ((st_users s)[k := u']) (invalidateOwnerDevicesLocked i (st_devices s)) s of
                     (Inl err, s') \<Rightarrow> (Inl err, s')
                   | (Inr v, s') \<Rightarrow> (Inr u', s')))"

definition SetDeleteError :: "account_env \<Rightarrow> string \<Rightarrow> string \<Rightarrow> user_store \<Rightarrow> (user_error + unit) \<times> user_store" where
  "SetDeleteError e i category s =
     (case user_index i s of
        None \<Rightarrow> (Inr (), s)
      | Some k \<Rightarrow>
          save_account e i False ((st_users s)[k := (st_users s ! k)\<lparr>u_delete_error := category\<rparr>]) (st_devices s) s)"

definition CompleteDelete :: "account_env \<Rightarrow> string \<Rightarrow> user_store \<Rightarrow> (user_error + unit) \<times> user_store" where
  "CompleteDelete e i s =
     (case user_index i s of
        None \<Rightarrow> (Inr (), s)
      | Some k \<Rightarrow>
          save_account e i True (take k (st_users s) @ drop (Suc k) (st_users s)) (removeOwnerDevicesLocked i (st_devices s)) s)"

section \<open>Profile and password\<close>

text \<open>A failed save leaves the new name in memory.\<close>

definition UpdateProfile :: "account_env \<Rightarrow> string \<Rightarrow> string \<Rightarrow> user_store \<Rightarrow> (user_error + user) \<times> user_store" where
  "UpdateProfile e i full_name s =
     (let name = trim_space full_name
      in if 120 < rune_count name then (Inl (ErrMessage ''full name is too long''), s)
         else case user_index i s of
           None \<Rightarrow> (Inl (ErrMessage ''user not found''), s)
         | Some k \<Rightarrow>
             (let u = (st_users s ! k)\<lparr>u_full_name := name\<rparr>
              in case saveLocked e (set_users ((st_users s)[k := u]) s) of
                   (Inl err, s') \<Rightarrow> (Inl err, s')
                 | (Inr v, s') \<Rightarrow> (Inr u, s')))"

text \<open>
  \<open>ChangePassword\<close> reads the account under the lock, verifies without it and writes under it again: other
  calls may come between the two sections, but none that takes the publication lock.
\<close>

definition change_password_begin ::
  "account_env \<Rightarrow> string \<Rightarrow> string \<Rightarrow> string \<Rightarrow> user_store \<Rightarrow> user_error + nat \<times> user" where
  "change_password_begin e i current new s =
     (if length new < 8 then Inl (ErrMessage ''password must be at least 8 characters'')
      else case user_index i s of
        None \<Rightarrow> Inl (ErrMessage ''user not found'')
      | Some k \<Rightarrow>
          (let u = st_users s ! k
           in if u_id u = '''' then Inl (ErrMessage ''user not found'')
              else if check_password e u current then Inr (k, u) else Inl ErrBadCredentials))"

definition change_password_end ::
  "account_env \<Rightarrow> string \<Rightarrow> string \<Rightarrow> nat \<times> user \<Rightarrow> user_store \<Rightarrow> (user_error + unit) \<times> user_store" where
  "change_password_end e i new seen s =
     (case draw e of
        Inl err \<Rightarrow> (Inl err, s)
      | Inr (salt, e') \<Rightarrow>
          (let k = fst seen
           in if length (st_users s) \<le> k \<or> u_id (st_users s ! k) \<noteq> i \<or> u_verifier (st_users s ! k) \<noteq> u_verifier (snd seen)
              then (Inl (ErrMessage ''user changed while password was being updated''), s)
              else save_account e' i True
                     ((st_users s)[k := (st_users s ! k)\<lparr>u_salt := B64 salt, u_verifier := B64 (ae_derive e new salt)\<rparr>])
                     (invalidateOwnerDevicesLocked i (st_devices s)) s))"

end
