(* ===== verification/User_Devices.thy ===== *)
theory User_Devices
  imports User_Accounts
begin

text \<open>
  \<^verbatim>\<open>internal/users\<close>, the devices: scopes and the routes they open (\<^verbatim>\<open>device_scopes.go\<close>), bearer credentials
  (\<^verbatim>\<open>device_auth.go\<close>), creation and revocation (\<^verbatim>\<open>devices.go\<close>), rotation and reauthorization
  (\<^verbatim>\<open>device_rotation.go\<close>) and the grants of background work (\<^verbatim>\<open>device_grants.go\<close>).
\<close>

section \<open>Scopes\<close>

definition PhotosRead :: string where "PhotosRead = ''photos:read''"
definition PhotosWrite :: string where "PhotosWrite = ''photos:write''"
definition FilesRead :: string where "FilesRead = ''files:read''"
definition FilesWrite :: string where "FilesWrite = ''files:write''"
definition BackupWrite :: string where "BackupWrite = ''backup:write''"
definition GrabsRead :: string where "GrabsRead = ''grabs:read''"
definition GrabsWrite :: string where "GrabsWrite = ''grabs:write''"
definition StorageRead :: string where "StorageRead = ''storage:read''"
definition LegacyPhotos :: string where "LegacyPhotos = ''photos:v1''"

lemmas scope_defs = PhotosRead_def PhotosWrite_def FilesRead_def FilesWrite_def BackupWrite_def
  GrabsRead_def GrabsWrite_def StorageRead_def LegacyPhotos_def

definition known_scopes :: "string list" where
  "known_scopes = [PhotosRead, PhotosWrite, FilesRead, FilesWrite, BackupWrite, GrabsRead, GrabsWrite, StorageRead]"

definition normalizeScopes :: "string list option \<Rightarrow> user_error + string list option" where
  "normalizeScopes scopes =
     (case scopes of
        None \<Rightarrow> Inr None
      | Some ss \<Rightarrow>
          if \<not> set ss \<subseteq> set known_scopes then Inl (ErrMessage ''unsupported device scope'')
          else if BackupWrite \<in> set ss \<and> FilesWrite \<notin> set ss then Inl (ErrMessage ''backup:write requires files:write'')
          else Inr (Some (sort (remdups ss))))"

definition GrantedScopes :: "device \<Rightarrow> string list" where
  "GrantedScopes d = (case d_scopes d of None \<Rightarrow> [LegacyPhotos] | Some ss \<Rightarrow> ss)"

definition HasScopes :: "device \<Rightarrow> string list \<Rightarrow> bool" where
  "HasScopes d scopes \<longleftrightarrow> list_all (\<lambda>want. want \<in> set (GrantedScopes d)) scopes"

text \<open>For resources: a legacy device has the scopes of photos only.\<close>

definition deviceScopes :: "device \<Rightarrow> string list \<Rightarrow> bool" where
  "deviceScopes d scopes \<longleftrightarrow>
     (if d_scopes d = None then list_all (\<lambda>v. v \<in> {PhotosRead, PhotosWrite, LegacyPhotos}) scopes
      else HasScopes d scopes)"

definition HasScope :: "device \<Rightarrow> string \<Rightarrow> bool" where
  "HasScope d scope = deviceScopes d [scope]"

section \<open>Routes\<close>

record route_grant =
  rg_method :: string
  rg_path :: string
  rg_scopes :: "string list"
  rg_legacy :: bool

definition route :: "string \<Rightarrow> string \<Rightarrow> bool \<Rightarrow> string list \<Rightarrow> route_grant" where
  "route method path legacy scopes = \<lparr>rg_method = method, rg_path = path, rg_scopes = scopes, rg_legacy = legacy\<rparr>"

text \<open>Every route with its method; a star stands for one segment.\<close>

definition deviceGrants :: "route_grant list" where
  "deviceGrants = [
     route ''POST'' ''/api/v1/photos/lookup'' True [PhotosRead],
     route ''GET'' ''/api/v1/photos'' True [PhotosRead],
     route ''GET'' ''/api/v1/photos/capabilities'' True [PhotosRead],
     route ''GET'' ''/api/v1/photos/albums'' True [PhotosRead],
     route ''GET'' ''/api/v1/photos/albums/memberships'' True [PhotosRead],
     route ''POST'' ''/api/v1/photos/albums'' True [PhotosWrite],
     route ''GET'' ''/api/v1/photos/search'' True [PhotosRead],
     route ''GET'' ''/api/v1/photos/dates'' True [PhotosRead],
     route ''GET'' ''/api/v1/photos/seek'' True [PhotosRead],
     route ''GET'' ''/api/v1/photos/sync'' True [PhotosRead],
     route ''POST'' ''/api/v1/photos/sync/checkpoint'' True [PhotosRead],
     route ''GET'' ''/api/v1/photos/assets/*'' True [PhotosRead],
     route ''POST'' ''/api/v1/photos/assets/*'' True [PhotosWrite],
     route ''GET'' ''/api/v1/photos/assets/*/thumbnail'' True [PhotosRead],
     route ''GET'' ''/api/v1/photos/assets/*/original'' True [PhotosRead],
     route ''HEAD'' ''/api/v1/photos/assets/*/original'' True [PhotosRead],
     route ''POST'' ''/api/v1/photos/folders'' True [PhotosWrite],
     route ''GET'' ''/api/v1/photos/trash'' True [PhotosRead],
     route ''POST'' ''/api/v1/photos/trash/restore'' True [PhotosWrite],
     route ''POST'' ''/api/v1/photos/selections'' True [PhotosRead],
     route ''POST'' ''/api/v1/photos/selection-actions'' True [PhotosRead, PhotosWrite],
     route ''GET'' ''/api/v1/photos/archives'' True [PhotosRead],
     route ''DELETE'' ''/api/v1/photos/archives'' True [PhotosWrite],
     route ''POST'' ''/api/v1/photos/grabs'' True [PhotosRead, GrabsWrite],
     route ''GET'' ''/api/v1/photos/duplicates'' True [LegacyPhotos],
     route ''POST'' ''/api/v1/photos/duplicates'' True [LegacyPhotos],
     route ''GET'' ''/api/v1/photos/metadata-jobs'' True [LegacyPhotos],
     route ''POST'' ''/api/v1/photos/metadata-jobs'' True [LegacyPhotos],
     route ''GET'' ''/api/v1/photos/collections'' False [PhotosRead],
     route ''POST'' ''/api/v1/photos/collections'' False [PhotosWrite],
     route ''PATCH'' ''/api/v1/photos/collections/*'' False [PhotosWrite],
     route ''DELETE'' ''/api/v1/photos/collections/*'' False [PhotosWrite],
     route ''POST'' ''/api/v1/photos/source-collections/recover'' False [PhotosWrite],
     route ''POST'' ''/api/v1/photos/source-collections/lookup'' False [PhotosRead],
     route ''POST'' ''/api/v1/photos/source-collections'' False [PhotosWrite],
     route ''POST'' ''/api/v1/photos/source-memberships'' False [PhotosWrite],
     route ''POST'' ''/api/v1/photos/uploads'' True [PhotosWrite],
     route ''POST'' ''/api/v1/photos/uploads/status'' False [PhotosWrite],
     route ''GET'' ''/api/v1/photos/uploads/*'' True [PhotosWrite],
     route ''GET'' ''/api/v1/photos/uploads/*/parts'' False [PhotosWrite],
     route ''POST'' ''/api/v1/photos/uploads/*/retry'' False [PhotosWrite],
     route ''DELETE'' ''/api/v1/photos/uploads/*'' True [PhotosWrite],
     route ''PATCH'' ''/api/v1/photos/uploads/*'' True [PhotosWrite],
     route ''POST'' ''/api/v1/photos/uploads/*/finalize'' True [PhotosWrite],
     route ''PATCH'' ''/api/v1/photos/uploads/*/components/*'' True [PhotosWrite],
     route ''PUT'' ''/api/v1/photos/uploads/*/components/*/parts/*'' False [PhotosWrite],
     route ''GET'' ''/api/v1/files/*'' False [FilesRead],
     route ''GET'' ''/api/v1/files/*/content'' False [FilesRead],
     route ''HEAD'' ''/api/v1/files/*/content'' False [FilesRead],
     route ''POST'' ''/api/v1/files/sync/checkpoint'' False [FilesRead],
     route ''GET'' ''/api/v1/backups/sources'' False [BackupWrite, FilesWrite],
     route ''POST'' ''/api/v1/backups/sources'' False [BackupWrite, FilesWrite],
     route ''PATCH'' ''/api/v1/backups/sources/*'' False [BackupWrite, FilesWrite],
     route ''POST'' ''/api/v1/backups/uploads'' False [BackupWrite, FilesWrite],
     route ''GET'' ''/api/v1/backups/uploads/*'' False [BackupWrite, FilesWrite],
     route ''GET'' ''/api/v1/backups/uploads/*/parts'' False [BackupWrite, FilesWrite],
     route ''POST'' ''/api/v1/backups/uploads/*/retry'' False [BackupWrite, FilesWrite],
     route ''PUT'' ''/api/v1/backups/uploads/*/components/*/parts/*'' False [BackupWrite, FilesWrite],
     route ''DELETE'' ''/api/v1/backups/uploads/*'' False [BackupWrite, FilesWrite],
     route ''POST'' ''/api/v1/backups/uploads/*/finalize'' False [BackupWrite, FilesWrite],
     route ''PATCH'' ''/api/v1/backups/uploads/*'' False [BackupWrite, FilesWrite],
     route ''PUT'' ''/api/v1/backups/uploads/*/parts/*'' False [BackupWrite, FilesWrite],
     route ''GET'' ''/api/library'' False [FilesRead],
     route ''GET'' ''/api/library/page'' False [FilesRead],
     route ''GET'' ''/api/library/search/page'' False [FilesRead],
     route ''GET'' ''/api/library/thumbnail'' False [FilesRead],
     route ''GET'' ''/api/library/music'' False [FilesRead],
     route ''GET'' ''/api/library/capability'' False [FilesRead],
     route ''GET'' ''/api/library/events'' False [FilesRead],
     route ''PUT'' ''/api/library'' False [FilesWrite],
     route ''DELETE'' ''/api/library'' False [FilesWrite],
     route ''POST'' ''/api/library/folder'' False [FilesWrite],
     route ''POST'' ''/api/library/rename'' False [FilesWrite],
     route ''POST'' ''/api/library/copy'' False [FilesRead, FilesWrite],
     route ''GET'' ''/api/trash'' False [FilesRead],
     route ''DELETE'' ''/api/trash'' False [FilesWrite],
     route ''POST'' ''/api/trash/restore'' False [FilesWrite],
     route ''GET'' ''/api/library/archive'' False [FilesRead],
     route ''POST'' ''/api/library/archive'' False [FilesRead],
     route ''DELETE'' ''/api/library/archive'' False [FilesRead],
     route ''GET'' ''/api/capsules'' False [GrabsRead],
     route ''GET'' ''/api/v1/grabs/operations'' False [GrabsRead],
     route ''POST'' ''/api/capsules'' False [GrabsWrite, FilesRead],
     route ''DELETE'' ''/api/capsules'' False [GrabsWrite],
     route ''GET'' ''/api/quota'' False [StorageRead]
]"

definition segment_matches :: "string \<Rightarrow> string \<Rightarrow> bool" where
  "segment_matches a b \<longleftrightarrow>
     (if a = ''*'' then b \<noteq> '''' \<and> b \<noteq> ''.'' \<and> b \<noteq> ''..'' \<and> CHR 0x5C \<notin> set b \<and> CHR 0x00 \<notin> set b
      else a = b)"

definition routeMatches :: "string \<Rightarrow> string \<Rightarrow> bool" where
  "routeMatches pattern path \<longleftrightarrow> list_all2 segment_matches (split_on (CHR ''/'') pattern) (split_on (CHR ''/'') path)"

text \<open>What is read of a request.\<close>

record request =
  rq_method :: string
  rq_path :: string
  rq_authorization :: string
  rq_cookie :: "string option"

definition own_routes :: "device \<Rightarrow> request \<Rightarrow> bool" where
  "own_routes d r \<longleftrightarrow>
     rq_method r = ''GET'' \<and> rq_path r \<in> {''/api/v1/devices'', ''/api/v1/devices/'' @ d_id d,
        ''/api/v1/mobile/capabilities'', ''/api/v1/mobile/profile'', ''/api/v1/mobile/status''}
     \<or> rq_method r = ''POST'' \<and> rq_path r \<in> {''/api/v1/devices/revoke'', ''/api/v1/devices/'' @ d_id d @ ''/rotate'',
        ''/api/v1/devices/'' @ d_id d @ ''/revoke''}"

definition AllowsRequest :: "device \<Rightarrow> request \<Rightarrow> bool" where
  "AllowsRequest d r \<longleftrightarrow> own_routes d r
     \<or> (case List.find (\<lambda>g. rg_method g = rq_method r \<and> routeMatches (rg_path g) (rq_path r)) deviceGrants of
          None \<Rightarrow> False
        | Some g \<Rightarrow> d_scopes d = None \<and> rg_legacy g \<or> HasScopes d (rg_scopes g))"

section \<open>Credentials\<close>

definition deviceTTL :: int where
  "deviceTTL = 90 * 24 * hour"

definition DeviceGrace :: int where
  "DeviceGrace = 15 * 60000000000"

definition validDeviceSecret :: "string \<Rightarrow> bool" where
  "validDeviceSecret secret \<longleftrightarrow> hex_bytes 32 secret"

definition bearerToken :: "string \<Rightarrow> string" where
  "bearerToken authorization =
     (case go_fields authorization of
        [scheme, token] \<Rightarrow> if equal_fold scheme ''Bearer'' \<and> validDeviceSecret token then token else ''''
      | _ \<Rightarrow> '''')"

definition deviceActiveLocked :: "account_env \<Rightarrow> user_store \<Rightarrow> device \<Rightarrow> bool" where
  "deviceActiveLocked e s d \<longleftrightarrow>
     (case user_index (d_owner d) s of
        None \<Rightarrow> False
      | Some k \<Rightarrow>
          (let u = st_users s ! k
           in \<not> u_disabled u \<and> \<not> u_deleting u \<and> \<not> d_revoked d \<and> d_token_hash d \<noteq> ''''
              \<and> time_before (ae_now e) (d_expires d) \<and> d_password_version d = ae_hash e (u_verifier u)))"

text \<open>The device a token authenticates, and whether by the credential before the last rotation.\<close>

fun credential_from :: "account_env \<Rightarrow> user_store \<Rightarrow> string \<Rightarrow> nat \<Rightarrow> device list \<Rightarrow> (nat \<times> bool) option" where
  "credential_from e s hash k [] = None"
| "credential_from e s hash k (d # ds) =
     (if deviceActiveLocked e s d \<and> equalHash hash (d_token_hash d) then Some (k, False)
      else if deviceActiveLocked e s d \<and> equalHash hash (d_previous_hash d)
              \<and> time_before (ae_now e) (d_previous_until d) \<and> time_before (ae_now e) (d_previous_expires d)
      then Some (k, True)
      else credential_from e s hash (Suc k) ds)"

definition credentialLocked :: "account_env \<Rightarrow> string \<Rightarrow> user_store \<Rightarrow> (nat \<times> bool) option" where
  "credentialLocked e token s = credential_from e s (ae_hash e token) 0 (st_devices s)"

definition DeviceForRequest :: "account_env \<Rightarrow> request \<Rightarrow> user_store \<Rightarrow> user_error + device" where
  "DeviceForRequest e r s =
     (let token = bearerToken (rq_authorization r)
      in if token = '''' then Inl ErrNoSession
         else case credentialLocked e token s of
           None \<Rightarrow> Inl ErrNoSession
         | Some (k, previous) \<Rightarrow>
             (let d = publicDevice (st_devices s ! k)
              in if AllowsRequest d r then Inr d else Inl ErrInsufficientScope))"

definition deviceUser :: "account_env \<Rightarrow> request \<Rightarrow> user_store \<Rightarrow> user_error + user" where
  "deviceUser e r s =
     res_bind (DeviceForRequest e r s) (\<lambda>d.
       case find_user (d_owner d) s of
         None \<Rightarrow> Inl ErrNoSession
       | Some u \<Rightarrow> if u_disabled u \<or> u_deleting u then Inl ErrNoSession else Inr u)"

text \<open>\<open>Current\<close>: a request with an \<open>Authorization\<close> header is a device's, any other a browser's.\<close>

definition CurrentUser :: "account_env \<Rightarrow> request \<Rightarrow> user_store \<Rightarrow> (user_error + user) \<times> user_store" where
  "CurrentUser e r s =
     (if rq_authorization r \<noteq> '''' then (deviceUser e r s, s) else session_user e (rq_cookie r) s)"

section \<open>Devices of an owner\<close>

definition set_devices :: "device list \<Rightarrow> user_store \<Rightarrow> user_store" where
  "set_devices ds s = s\<lparr>st_devices := ds\<rparr>"

definition activeDeviceCountLocked :: "account_env \<Rightarrow> string \<Rightarrow> user_store \<Rightarrow> nat" where
  "activeDeviceCountLocked e owner s = length (filter (\<lambda>d. d_owner d = owner \<and> deviceActiveLocked e s d) (st_devices s))"

definition replaceDeviceLocked :: "account_env \<Rightarrow> nat \<Rightarrow> device \<Rightarrow> user_store \<Rightarrow> (user_error + unit) \<times> user_store" where
  "replaceDeviceLocked e k d s =
     (case saveLocked e (set_devices ((st_devices s)[k := d]) s) of
        (Inl err, s') \<Rightarrow> (Inl err, set_devices (st_devices s) s')
      | (Inr u, s') \<Rightarrow> (Inr (), s'))"

definition CreateScopedDevice ::
  "account_env \<Rightarrow> string \<Rightarrow> string \<Rightarrow> string list option \<Rightarrow> user_store \<Rightarrow> (user_error + device \<times> string) \<times> user_store" where
  "CreateScopedDevice e owner name0 scopes s =
     (let name = trim_space name0
      in if name = '''' \<or> 120 < length name then (Inl (ErrMessage ''device name must contain 1-120 bytes''), s)
         else case res_bind (normalizeScopes scopes) (\<lambda>grants.
                res_bind (draw e) (\<lambda>(raw, e1). res_bind (draw e1) (\<lambda>(i, e2). Inr (grants, hex_encode raw, hex_encode i, e2)))) of
           Inl err \<Rightarrow> (Inl err, s)
         | Inr (grants, token, i, e') \<Rightarrow>
             (case user_index owner s of
                None \<Rightarrow> (Inl ErrNoSession, s)
              | Some k \<Rightarrow>
                  (let u = st_users s ! k; now = ae_now e
                   in if u_disabled u \<or> u_deleting u then (Inl ErrNoSession, s)
                      else if 32 \<le> activeDeviceCountLocked e owner s then (Inl ErrDeviceLimit, s)
                      else
                        (let d = \<lparr>d_id = i, d_owner = owner, d_name = name, d_created = now, d_expires = add_time now deviceTTL,
                              d_scopes = grants, d_generation = 1, d_version = 1, d_revoked = False,
                              d_token_hash = ae_hash e token, d_password_version = ae_hash e (u_verifier u),
                              d_previous_hash = '''', d_previous_until = zero_time, d_previous_expires = zero_time,
                              d_rotation_id = '''', d_rotation_expected = 0\<rparr>
                         in case saveLocked e' (set_devices (st_devices s @ [d]) s) of
                              (Inl err, s') \<Rightarrow> (Inl err, set_devices (st_devices s) s')
                            | (Inr v, s') \<Rightarrow> (Inr (publicDevice d, token), s')))))"

definition CreateDevice ::
  "account_env \<Rightarrow> string \<Rightarrow> string \<Rightarrow> user_store \<Rightarrow> (user_error + device \<times> string) \<times> user_store" where
  "CreateDevice e owner name s = CreateScopedDevice e owner name None s"

definition Devices :: "string \<Rightarrow> user_store \<Rightarrow> device list" where
  "Devices owner s = map publicDevice (filter (\<lambda>d. d_owner d = owner) (st_devices s))"

definition device_index :: "string \<Rightarrow> string \<Rightarrow> user_store \<Rightarrow> nat option" where
  "device_index owner i s = find_index (\<lambda>d. d_id d = i \<and> d_owner d = owner) (st_devices s)"

definition RevokeDevice :: "account_env \<Rightarrow> string \<Rightarrow> string \<Rightarrow> user_store \<Rightarrow> (user_error + unit) \<times> user_store" where
  "RevokeDevice e owner i s =
     (case device_index owner i s of
        None \<Rightarrow> (Inl ErrNoSession, s)
      | Some k \<Rightarrow> replaceDeviceLocked e k (invalidateDevice (st_devices s ! k)) s)"

definition ActiveDevice :: "account_env \<Rightarrow> string \<Rightarrow> string \<Rightarrow> user_store \<Rightarrow> device option" where
  "ActiveDevice e owner i s =
     map_option publicDevice (List.find (\<lambda>d. d_owner d = owner \<and> d_id d = i \<and> deviceActiveLocked e s d) (st_devices s))"

section \<open>Rotation and reauthorization\<close>

definition validRotation :: "string \<Rightarrow> string \<Rightarrow> u64 \<Rightarrow> bool" where
  "validRotation operation secret expected \<longleftrightarrow> operation \<noteq> '''' \<and> length operation \<le> 128 \<and> trim_space operation = operation
     \<and> CHR 0x00 \<notin> set operation \<and> CHR 0x0D \<notin> set operation \<and> CHR 0x0A \<notin> set operation
     \<and> validDeviceSecret secret \<and> 0 < expected"

definition secret_used :: "string \<Rightarrow> device \<Rightarrow> bool" where
  "secret_used hash d \<longleftrightarrow> equalHash hash (d_token_hash d) \<or> equalHash hash (d_previous_hash d)"

definition rotated :: "account_env \<Rightarrow> string \<Rightarrow> u64 \<Rightarrow> string \<Rightarrow> device \<Rightarrow> device" where
  "rotated e operation expected hash d =
     (let grace = add_time (ae_now e) DeviceGrace
      in d\<lparr>d_previous_hash := d_token_hash d, d_previous_expires := d_expires d,
           d_previous_until := (if time_before (d_expires d) grace then d_expires d else grace),
           d_token_hash := hash, d_generation := d_generation (publicDevice d) + 1,
           d_expires := add_time (ae_now e) deviceTTL, d_rotation_id := ae_hash e operation, d_rotation_expected := expected\<rparr>)"

definition RotateDevice ::
  "account_env \<Rightarrow> request \<Rightarrow> string \<Rightarrow> string \<Rightarrow> u64 \<Rightarrow> string \<Rightarrow> user_store \<Rightarrow> (user_error + device) \<times> user_store" where
  "RotateDevice e r i operation expected replacement s =
     (if \<not> validRotation operation replacement expected then (Inl ErrInvalidRotation, s)
      else if bearerToken (rq_authorization r) = '''' then (Inl ErrNoSession, s)
      else case credentialLocked e (bearerToken (rq_authorization r)) s of
        None \<Rightarrow> (Inl ErrNoSession, s)
      | Some (k, previous) \<Rightarrow>
          (let d = st_devices s ! k; hash = ae_hash e replacement; generation = d_generation (publicDevice d)
           in if d_id d \<noteq> i then (Inl ErrNoSession, s)
              else if d_rotation_id d = ae_hash e operation
              then (if d_rotation_expected d = expected \<and> equalHash (d_token_hash d) hash then (Inr (publicDevice d), s)
                    else (Inl ErrRotationConflict, s))
              else if previous \<or> expected \<noteq> generation \<or> generation = max_u64 \<or> secret_used hash d
              then (Inl ErrRotationConflict, s)
              else if \<exists>j < length (st_devices s). j \<noteq> k \<and> secret_used hash (st_devices s ! j)
              then (Inl ErrRotationConflict, s)
              else
                (let d' = rotated e operation expected hash d
                 in case replaceDeviceLocked e k d' s of
                      (Inl err, s') \<Rightarrow> (Inl err, s')
                    | (Inr u, s') \<Rightarrow> (Inr (publicDevice d'), s'))))"

definition reauthorized :: "account_env \<Rightarrow> user \<Rightarrow> string \<Rightarrow> string list option \<Rightarrow> device \<Rightarrow> device" where
  "reauthorized e u hash grants d =
     d\<lparr>d_generation := d_generation (publicDevice d) + 1, d_version := d_version (publicDevice d) + 1,
       d_token_hash := hash, d_password_version := ae_hash e (u_verifier u), d_expires := add_time (ae_now e) deviceTTL,
       d_revoked := False, d_previous_hash := '''', d_rotation_id := '''', d_previous_until := zero_time,
       d_previous_expires := zero_time, d_rotation_expected := 0,
       d_scopes := (case grants of None \<Rightarrow> d_scopes d | Some g \<Rightarrow> Some g)\<rparr>"

text \<open>
  The owner's session is read by \<open>Current\<close>, in \<open>s0\<close>, and checked again under the lock, in \<open>s\<close>: calls that
  do not take the publication lock may come between the two.
\<close>

definition reauthorize_begin :: "account_env \<Rightarrow> request \<Rightarrow> string \<Rightarrow> string list option \<Rightarrow> user_store
   \<Rightarrow> (user_error + user \<times> string list option) \<times> user_store" where
  "reauthorize_begin e r replacement scopes s =
     (if rq_authorization r \<noteq> '''' then (Inl ErrNoSession, s)
      else case CurrentUser e r s of
        (Inl err, s') \<Rightarrow> (Inl err, s')
      | (Inr u, s') \<Rightarrow>
          (if \<not> validDeviceSecret replacement then Inl ErrInvalidRotation
           else res_bind (normalizeScopes scopes) (\<lambda>grants. Inr (u, grants)), s'))"

definition reauthorize_end ::
  "account_env \<Rightarrow> request \<Rightarrow> string \<Rightarrow> string \<Rightarrow> user \<times> string list option \<Rightarrow> user_store \<Rightarrow> (user_error + device) \<times> user_store" where
  "reauthorize_end e r i replacement seen s =
     (let u = fst seen; hash = ae_hash e replacement
      in case (rq_cookie r, user_index (u_id u) s) of
           (Some token, Some ko) \<Rightarrow>
             (let owner = st_users s ! ko
              in case map_of (st_sessions s) token of
                   None \<Rightarrow> (Inl ErrNoSession, s)
                 | Some ss \<Rightarrow>
                     if us_user_id ss \<noteq> u_id u \<or> \<not> time_before (ae_wall e) (us_expires ss) \<or> u_disabled owner \<or> u_deleting owner
                     then (Inl ErrNoSession, s)
                     else case device_index (u_id u) i s of
                       None \<Rightarrow> (Inl ErrNoSession, s)
                     | Some k \<Rightarrow>
                         (let d = st_devices s ! k; d' = reauthorized e owner hash (snd seen) d
                          in if \<not> deviceActiveLocked e s d \<and> 32 \<le> activeDeviceCountLocked e (u_id u) s
                             then (Inl ErrDeviceLimit, s)
                             else if \<exists>other \<in> set (st_devices s). secret_used hash other then (Inl ErrRotationConflict, s)
                             else if d_generation (publicDevice d) = max_u64 then (Inl ErrRotationConflict, s)
                             else case replaceDeviceLocked e k d' s of
                               (Inl err, s') \<Rightarrow> (Inl err, s')
                             | (Inr v, s') \<Rightarrow> (Inr (publicDevice d'), s')))
         | _ \<Rightarrow> (Inl ErrNoSession, s))"

section \<open>Grants\<close>

record device_grant =
  dg_owner :: string
  dg_device :: string
  dg_version :: u64
  dg_expires :: gotime
  dg_scopes :: "string list"

definition GrantForRequest :: "account_env \<Rightarrow> request \<Rightarrow> string list \<Rightarrow> user_store \<Rightarrow> user_error + device_grant" where
  "GrantForRequest e r scopes s =
     (let token = bearerToken (rq_authorization r)
      in if token = '''' then Inl ErrNoSession
         else case credentialLocked e token s of
           None \<Rightarrow> Inl ErrNoSession
         | Some (k, previous) \<Rightarrow>
             (let d = publicDevice (st_devices s ! k)
              in if \<not> AllowsRequest d r \<or> \<not> deviceScopes d scopes then Inl ErrInsufficientScope
                 else Inr \<lparr>dg_owner = d_owner d, dg_device = d_id d, dg_version = d_version d,
                        dg_expires = (if previous then d_previous_expires (st_devices s ! k) else d_expires d),
                        dg_scopes = scopes\<rparr>))"

definition checkGrantLocked :: "account_env \<Rightarrow> device_grant \<Rightarrow> string list \<Rightarrow> user_store \<Rightarrow> user_error option" where
  "checkGrantLocked e g scopes s =
     (if \<not> time_before (ae_now e) (dg_expires g) then Some ErrNoSession
      else case device_index (dg_owner g) (dg_device g) s of
        None \<Rightarrow> Some ErrNoSession
      | Some k \<Rightarrow>
          (let d = st_devices s ! k
           in if \<not> deviceActiveLocked e s d \<or> d_version (publicDevice d) \<noteq> dg_version g then Some ErrNoSession
              else if \<not> list_all (\<lambda>want. want \<in> set (dg_scopes g)) scopes then Some ErrInsufficientScope
              else if \<not> deviceScopes d (dg_scopes g) then Some ErrInsufficientScope
              else None))"

definition required_scopes :: "string \<Rightarrow> string list option" where
  "required_scopes kind =
     (if kind = ''photos'' then Some [PhotosWrite]
      else if kind = ''backup'' then Some [BackupWrite, FilesWrite]
      else if kind = ''files'' then Some [FilesWrite]
      else None)"

definition CheckDeviceOperation ::
  "account_env \<Rightarrow> request \<Rightarrow> string \<Rightarrow> string \<Rightarrow> string \<Rightarrow> user_store \<Rightarrow> user_error + device" where
  "CheckDeviceOperation e r owner i kind s =
     res_bind (DeviceForRequest e r s) (\<lambda>d.
       if d_owner d \<noteq> owner \<or> d_id d \<noteq> i then Inl ErrNoSession
       else case required_scopes kind of
         None \<Rightarrow> Inl ErrInsufficientScope
       | Some required \<Rightarrow> if deviceScopes d required then Inr d else Inl ErrInsufficientScope)"

end
