(* ===== verification/User_Machine.thy ===== *)
theory User_Machine
  imports User_Devices
begin

text \<open>
  All calls on accounts and devices as one machine. \<^verbatim>\<open>mu\<close> makes each section atomic; \<^verbatim>\<open>publishMu\<close> is held
  for reading while a publication under a grant runs and for writing by the calls that take authorizations
  away, two of which leave \<^verbatim>\<open>mu\<close> between their sections. A restart reads the file and forgets the sessions.
\<close>

section \<open>Calls\<close>

text \<open>The calls that take only \<^verbatim>\<open>mu\<close>.\<close>

datatype account_call =
    Create_user string string bool
  | Log_in string
  | Log_out "string option"
  | Read_session "string option"
  | Request_access string string
  | Approve_access string
  | Reject_access string
  | Complete_access string string string string
  | Set_disable_error string string
  | Set_delete_error string string
  | Update_profile string string
  | Create_device string string "string list option"

fun run_call :: "account_env \<Rightarrow> account_call \<Rightarrow> user_store \<Rightarrow> user_store" where
  "run_call e (Create_user name password admin) s = snd (CreateUser e name password admin s)"
| "run_call e (Log_in i) s = snd (Login e i s)"
| "run_call e (Log_out cookie) s = Logout cookie s"
| "run_call e (Read_session cookie) s = snd (session_user e cookie s)"
| "run_call e (Request_access name note) s = snd (RequestAccess e name note s)"
| "run_call e (Approve_access i) s = snd (ApproveAccess e i s)"
| "run_call e (Reject_access i) s = snd (RejectAccess e i s)"
| "run_call e (Complete_access i token name password) s = snd (CompleteAccess e i token name password s)"
| "run_call e (Set_disable_error i category) s = snd (SetDisableError e i category s)"
| "run_call e (Set_delete_error i category) s = snd (SetDeleteError e i category s)"
| "run_call e (Update_profile i name) s = snd (UpdateProfile e i name s)"
| "run_call e (Create_device owner name scopes) s = snd (CreateScopedDevice e owner name scopes s)"

text \<open>
  The calls that take the publication lock for writing. An account is removed only by the end of a deletion,
  so the call comes for an account that is being deleted.
\<close>

datatype barrier_call =
    Set_disabled string bool
  | Begin_delete string
  | Complete_delete string
  | Revoke_device string string
  | Rotate_device request string string u64 string

fun run_barrier :: "account_env \<Rightarrow> barrier_call \<Rightarrow> user_store \<Rightarrow> user_store" where
  "run_barrier e (Set_disabled i disabled) s = snd (SetDisabled e i disabled s)"
| "run_barrier e (Begin_delete i) s = snd (BeginDelete e i s)"
| "run_barrier e (Complete_delete i) s = snd (CompleteDelete e i s)"
| "run_barrier e (Revoke_device owner i) s = snd (RevokeDevice e owner i s)"
| "run_barrier e (Rotate_device r i operation expected secret) s = snd (RotateDevice e r i operation expected secret s)"

fun call_allowed :: "barrier_call \<Rightarrow> user_store \<Rightarrow> bool" where
  "call_allowed (Complete_delete i) s = (\<forall>u \<in> set (st_users s). u_id u = i \<longrightarrow> u_deleting u)"
| "call_allowed _ s = True"

section \<open>The machine\<close>

text \<open>A call that holds the publication lock for writing between its two sections.\<close>

datatype holder =
    Changing_password string string "nat \<times> user"
  | Reauthorizing request string string "user \<times> string list option"

text \<open>\<open>ac_drawn\<close> is not in the program: the random values drawn so far.\<close>

record accounts =
  ac_store :: user_store
  ac_publishing :: "(device_grant \<times> string list) list"
  ac_holder :: "holder option"
  ac_drawn :: "string list"

definition accounts_start :: accounts where
  "accounts_start = \<lparr>ac_store = empty_users None, ac_publishing = [], ac_holder = None, ac_drawn = []\<rparr>"

definition device_hashes :: "device \<Rightarrow> string list" where
  "device_hashes d = filter (\<lambda>h. h \<noteq> '''') [d_token_hash d, d_previous_hash d]"

definition raws :: "account_env \<Rightarrow> string list" where
  "raws e = List.map_filter id (ae_draws e)"

text \<open>
  The assumptions on the surroundings of a call: one hash function without collisions whose values are not
  empty, and draws that repeat neither an earlier draw nor a secret a client chose.
\<close>

definition sane_accounts :: "(string \<Rightarrow> string) \<Rightarrow> account_env \<Rightarrow> accounts \<Rightarrow> bool" where
  "sane_accounts H e a \<longleftrightarrow> ae_hash e = H \<and> distinct (raws e) \<and> set (raws e) \<inter> set (ac_drawn a) = {}
     \<and> (\<forall>d \<in> set (st_devices (ac_store a)). \<forall>raw \<in> set (raws e). H (hex_encode raw) \<notin> set (device_hashes d))"

definition after :: "account_env \<Rightarrow> user_store \<Rightarrow> accounts \<Rightarrow> accounts" where
  "after e s a = a\<lparr>ac_store := s, ac_drawn := raws e @ ac_drawn a\<rparr>"

inductive account_step :: "(string \<Rightarrow> string) \<Rightarrow> accounts \<Rightarrow> accounts \<Rightarrow> bool" for H where
  step_call: "sane_accounts H e a \<Longrightarrow> account_step H a (after e (run_call e c (ac_store a)) a)"
| step_barrier: "sane_accounts H e a \<Longrightarrow> ac_publishing a = [] \<Longrightarrow> ac_holder a = None \<Longrightarrow> call_allowed c (ac_store a)
    \<Longrightarrow> account_step H a (after e (run_barrier e c (ac_store a)) a)"
| step_password_begin: "sane_accounts H e a \<Longrightarrow> ac_publishing a = [] \<Longrightarrow> ac_holder a = None
    \<Longrightarrow> change_password_begin e i current new (ac_store a) = Inr seen
    \<Longrightarrow> account_step H a (a\<lparr>ac_holder := Some (Changing_password i new seen)\<rparr>)"
| step_password_end: "sane_accounts H e a \<Longrightarrow> ac_holder a = Some (Changing_password i new seen)
    \<Longrightarrow> account_step H a (after e (snd (change_password_end e i new seen (ac_store a))) a \<lparr>ac_holder := None\<rparr>)"
| step_reauthorize_begin: "sane_accounts H e a \<Longrightarrow> ac_publishing a = [] \<Longrightarrow> ac_holder a = None
    \<Longrightarrow> reauthorize_begin e r secret scopes (ac_store a) = (Inr seen, s)
    \<Longrightarrow> account_step H a (after e s a \<lparr>ac_holder := Some (Reauthorizing r i secret seen)\<rparr>)"
| step_reauthorize_end: "sane_accounts H e a \<Longrightarrow> ac_holder a = Some (Reauthorizing r i secret seen)
    \<Longrightarrow> account_step H a (after e (snd (reauthorize_end e r i secret seen (ac_store a))) a \<lparr>ac_holder := None\<rparr>)"
| step_publish: "sane_accounts H e a \<Longrightarrow> ac_holder a = None \<Longrightarrow> checkGrantLocked e g scopes (ac_store a) = None
    \<Longrightarrow> account_step H a (a\<lparr>ac_publishing := (g, scopes) # ac_publishing a\<rparr>)"
| step_published: "account_step H a (a\<lparr>ac_publishing := remove1 p (ac_publishing a)\<rparr>)"
| step_restart: "sane_accounts H e a \<Longrightarrow> open_users e True (st_file (ac_store a)) = (Inr u, s)
    \<Longrightarrow> account_step H a (after e s a \<lparr>ac_publishing := [], ac_holder := None\<rparr>)"

text \<open>\<open>account_run H n a a'\<close>: \<open>n\<close> steps lead from \<open>a\<close> to \<open>a'\<close>.\<close>

inductive account_run :: "(string \<Rightarrow> string) \<Rightarrow> nat \<Rightarrow> accounts \<Rightarrow> accounts \<Rightarrow> bool" for H where
  run_start: "account_run H 0 a a"
| run_step: "account_run H n a b \<Longrightarrow> account_step H b c \<Longrightarrow> account_run H (Suc n) a c"

lemma run_trans: "account_run H m b c \<Longrightarrow> account_run H n a b \<Longrightarrow> account_run H (n + m) a c"
  by (induction rule: account_run.induct) (auto intro: run_step)

section \<open>Saving\<close>

lemma saveLocked_cases:
  assumes "saveLocked e s = (r, s')"
  obtains (failed) "r = Inl ErrUserSave" "s' = s"
  | (saved) "r = Inr ()" "s' = s\<lparr>st_file := Some \<lparr>uf_version = 2, uf_users = st_users s, uf_requests = st_requests s, uf_devices = st_devices s\<rparr>\<rparr>"
  using assms by (auto simp: saveLocked_def split: if_splits)

section \<open>What every call does to accounts and devices\<close>

text \<open>
  A step of the accounts: nothing that authorizes changes but the sessions, or the change is in the file
  when the call ends. The parts of an account the authorizations depend on: all but name, cleanup state
  and error categories.
\<close>

definition core :: "user \<Rightarrow> user" where
  "core u = u\<lparr>u_full_name := ''''\<rparr>"

definition in_file :: "user_store \<Rightarrow> bool" where
  "in_file s \<longleftrightarrow> (case st_file s of
      None \<Rightarrow> st_users s = [] \<and> st_devices s = []
    | Some f \<Rightarrow> uf_version f = 2 \<and> map core (uf_users f) = map core (st_users s) \<and> uf_devices f = st_devices s)"

end
