(* ===== verification/User_Effects.thy ===== *)
theory User_Effects
  imports User_Machine
begin

text \<open>
  The effects a call can have on accounts and devices, abstracting from names, notes, categories and answers:
  every section of every call has one of them. The invariants of the machine are proved once per effect.
\<close>

section \<open>Effects\<close>

definition saved_now :: "user_store \<Rightarrow> bool" where
  "saved_now s \<longleftrightarrow> st_file s =
     Some \<lparr>uf_version = 2, uf_users = st_users s, uf_requests = st_requests s, uf_devices = st_devices s\<rparr>"

text \<open>The effects of the calls that take no authorization away.\<close>

inductive mild_effect :: "account_env \<Rightarrow> user_store \<Rightarrow> user_store \<Rightarrow> bool" for e s s' where
  keeps: "map core (st_users s') = map core (st_users s) \<Longrightarrow> st_devices s' = st_devices s
    \<Longrightarrow> st_file s' = st_file s \<or> saved_now s' \<Longrightarrow> mild_effect e s s'"
| adds_user: "st_users s' = st_users s @ [u] \<Longrightarrow> st_devices s' = st_devices s \<Longrightarrow> saved_now s'
    \<Longrightarrow> raw \<in> set (raws e) \<Longrightarrow> u_id u = hex_encode raw \<Longrightarrow> mild_effect e s s'"
| eases_user: "k < length (st_users s) \<Longrightarrow> st_users s' = (st_users s)[k := u] \<Longrightarrow> st_devices s' = st_devices s \<Longrightarrow> saved_now s'
    \<Longrightarrow> u_id u = u_id (st_users s ! k) \<Longrightarrow> u_verifier u = u_verifier (st_users s ! k) \<Longrightarrow> u_admin u = u_admin (st_users s ! k)
    \<Longrightarrow> u_deleting u = u_deleting (st_users s ! k) \<Longrightarrow> (u_disabled u \<Longrightarrow> u_disabled (st_users s ! k)) \<Longrightarrow> mild_effect e s s'"
| adds_device: "st_users s' = st_users s \<Longrightarrow> st_devices s' = st_devices s @ [d] \<Longrightarrow> saved_now s'
    \<Longrightarrow> raw \<in> set (raws e) \<Longrightarrow> d_id d = hex_encode raw \<Longrightarrow> d_version d = 1
    \<Longrightarrow> token \<in> set (raws e) \<Longrightarrow> device_hashes d = [ae_hash e (hex_encode token)] \<Longrightarrow> mild_effect e s s'"

inductive effect :: "account_env \<Rightarrow> user_store \<Rightarrow> user_store \<Rightarrow> bool" for e s s' where
  mild: "mild_effect e s s' \<Longrightarrow> effect e s s'"
| ends_user: "k < length (st_users s) \<Longrightarrow> st_users s' = (st_users s)[k := u] \<Longrightarrow> saved_now s'
    \<Longrightarrow> st_devices s' = invalidateOwnerDevicesLocked (u_id u) (st_devices s)
    \<Longrightarrow> st_sessions s' = invalidateSessionsLocked (u_id u) (st_sessions s)
    \<Longrightarrow> u_id u = u_id (st_users s ! k)
    \<Longrightarrow> (active_admin (st_users s ! k) \<Longrightarrow> active_admin u \<or> 1 < activeAdminsLocked s) \<Longrightarrow> effect e s s'"
| removes_user: "k < length (st_users s) \<Longrightarrow> st_users s' = take k (st_users s) @ drop (Suc k) (st_users s) \<Longrightarrow> saved_now s'
    \<Longrightarrow> st_devices s' = removeOwnerDevicesLocked (u_id (st_users s ! k)) (st_devices s)
    \<Longrightarrow> st_sessions s' = invalidateSessionsLocked (u_id (st_users s ! k)) (st_sessions s)
    \<Longrightarrow> u_deleting (st_users s ! k) \<Longrightarrow> effect e s s'"
| renews_device: "k < length (st_devices s) \<Longrightarrow> st_users s' = st_users s \<Longrightarrow> st_devices s' = (st_devices s)[k := d] \<Longrightarrow> saved_now s'
    \<Longrightarrow> d_id d = d_id (st_devices s ! k) \<Longrightarrow> d_owner d = d_owner (st_devices s ! k)
    \<Longrightarrow> d_version (publicDevice d) = d_version (publicDevice (st_devices s ! k))
        \<or> d_version d = d_version (publicDevice (st_devices s ! k)) + 1
    \<Longrightarrow> set (device_hashes d) \<subseteq> insert h (set (device_hashes (st_devices s ! k)))
    \<Longrightarrow> (\<And>x. x \<in> set (st_devices s) \<Longrightarrow> h \<notin> set (device_hashes x)) \<Longrightarrow> distinct (device_hashes d) \<Longrightarrow> effect e s s'"

lemma mild_same [simp]: "mild_effect e s s"
  by (rule keeps) simp_all

lemma effect_same [simp]: "effect e s s"
  by (rule mild) simp

lemma keeps_same:
  "st_users s' = st_users s \<Longrightarrow> st_devices s' = st_devices s \<Longrightarrow> st_file s' = st_file s \<or> saved_now s' \<Longrightarrow> mild_effect e s s'"
  by (rule keeps) simp_all

section \<open>Draws\<close>

lemma draw_Inr:
  assumes "draw e = Inr (raw, e')"
  shows "raws e = raw # raws e'" "ae_hash e' = ae_hash e" "ae_save e' = ae_save e" "ae_mkdir e' = ae_mkdir e" "ae_now e' = ae_now e"
    "ae_wall e' = ae_wall e" "ae_derive e' = ae_derive e"
  using assms by (auto simp: draw_def raws_def List.map_filter_simps split: list.splits option.splits)

lemma new_user_Inr:
  assumes "new_user e name password admin = Inr (u, e')"
  shows "\<exists>raw \<in> set (raws e). u_id u = hex_encode raw" "u_username u = name" "u_admin u = admin" "\<not> u_disabled u" "\<not> u_deleting u"
    "ae_save e' = ae_save e"
proof -
  from assms obtain salt e1 raw where d: "draw e = Inr (salt, e1)" "draw e1 = Inr (raw, e')" and i: "u_id u = hex_encode raw"
    and rest: "u_username u = name \<and> u_admin u = admin \<and> \<not> u_disabled u \<and> \<not> u_deleting u"
    by (auto simp: new_user_def res_bind_Inr_iff)
  show "\<exists>raw \<in> set (raws e). u_id u = hex_encode raw"
    using i draw_Inr(1) [OF d(1)] draw_Inr(1) [OF d(2)] by auto
  show "ae_save e' = ae_save e" using draw_Inr(3) [OF d(1)] draw_Inr(3) [OF d(2)] by simp
qed (use assms in \<open>auto simp: new_user_def res_bind_Inr_iff\<close>)

section \<open>Accounts\<close>

lemma saved_file: "saved_now (s\<lparr>st_file := Some \<lparr>uf_version = 2, uf_users = st_users s, uf_requests = st_requests s, uf_devices = st_devices s\<rparr>\<rparr>)"
  by (simp add: saved_now_def)

lemma CreateUser_effect: "mild_effect e s (snd (CreateUser e name password admin s))"
proof (cases "usernameRE (trim_space name) \<and> 8 \<le> length password \<and> \<not> name_taken (trim_space name) s")
  case True
  show ?thesis
  proof (cases "new_user e (trim_space name) password admin")
    case (Inl err)
    with True show ?thesis by (simp add: CreateUser_def)
  next
    case (Inr p)
    then obtain u e' where u: "new_user e (trim_space name) password admin = Inr (u, e')" by (cases p) auto
    note n = new_user_Inr [OF u]
    from n(1) obtain raw where raw: "raw \<in> set (raws e)" "u_id u = hex_encode raw" by blast
    show ?thesis
    proof (cases "ae_save e")
      case False
      with True u n(6) show ?thesis by (simp add: CreateUser_def saveLocked_def set_users_def Let_def)
    next
      case ok: True
      let ?s = "set_users (st_users s @ [u]) s"
      have "snd (CreateUser e name password admin s)
          = ?s\<lparr>st_file := Some \<lparr>uf_version = 2, uf_users = st_users ?s, uf_requests = st_requests ?s, uf_devices = st_devices ?s\<rparr>\<rparr>"
        using True u n(6) ok by (simp add: CreateUser_def saveLocked_def Let_def)
      then show ?thesis
        by (intro adds_user [OF _ _ _ raw]) (simp_all add: saved_file [of ?s] set_users_def saved_now_def)
    qed
  qed
qed (auto simp: CreateUser_def Let_def)

lemma CompleteAccess_effect: "mild_effect e s (snd (CompleteAccess e i token name password s))"
proof (cases "find_index (\<lambda>q. ar_id q = i \<and> ar_username q = trim_space name) (st_requests s)")
  case None
  then show ?thesis by (simp add: CompleteAccess_def)
next
  case (Some k)
  let ?q = "st_requests s ! k"
  show ?thesis
  proof (cases "usernameRE (trim_space name) \<and> 8 \<le> length password \<and> ar_status ?q = ''approved'' \<and> ar_token_hash ?q \<noteq> ''''
      \<and> ae_hash e token = ar_token_hash ?q \<and> \<not> name_taken name s")
    case False
    with Some have "snd (CompleteAccess e i token name password s) = s"
      by (auto simp: CompleteAccess_def Let_def not_le)
    then show ?thesis by simp
  next
    case True
    show ?thesis
    proof (cases "new_user e (trim_space name) password False")
      case (Inl err)
      with True Some show ?thesis by (simp add: CompleteAccess_def Let_def)
    next
      case (Inr p)
      then obtain u e' where u: "new_user e (trim_space name) password False = Inr (u, e')" by (cases p) auto
      note n = new_user_Inr [OF u]
      from n(1) obtain raw where raw: "raw \<in> set (raws e)" "u_id u = hex_encode raw" by blast
      let ?q' = "?q\<lparr>ar_status := ''completed'', ar_consumed := to_utc (ae_wall e), ar_token_hash := ''''\<rparr>"
      let ?s = "set_requests ((st_requests s)[k := ?q']) (set_users (st_users s @ [u]) s)"
      have out: "snd (CompleteAccess e i token name password s) =
          (if ae_save e then ?s\<lparr>st_file := Some \<lparr>uf_version = 2, uf_users = st_users ?s, uf_requests = st_requests ?s, uf_devices = st_devices ?s\<rparr>\<rparr>
           else set_users (st_users s) ?s)"
        using True Some u n(6) by (simp add: CompleteAccess_def saveLocked_def Let_def)
      show ?thesis
      proof (cases "ae_save e")
        case True
        then show ?thesis unfolding out
          by (simp, intro adds_user [OF _ _ _ raw]) (simp_all add: set_users_def set_requests_def saved_now_def)
      next
        case False
        then show ?thesis unfolding out by (simp add: keeps_same set_users_def set_requests_def)
      qed
    qed
  qed
qed

lemma quiet_effects:
  "mild_effect e s (snd (Login e i s))" "mild_effect e s (Logout cookie s)" "mild_effect e s (snd (session_user e cookie s))"
  "mild_effect e s (snd (RequestAccess e name note s))" "mild_effect e s (snd (ApproveAccess e i s))" "mild_effect e s (snd (RejectAccess e i s))"
  by (auto simp: Login_def Logout_def session_user_def RequestAccess_def ApproveAccess_def RejectAccess_def Let_def
      saveLocked_def set_requests_def saved_now_def
      split: sum.splits option.splits intro!: keeps_same)

lemma user_index_Some: "user_index i s = Some k \<Longrightarrow> k < length (st_users s) \<and> u_id (st_users s ! k) = i"
  unfolding user_index_def by (auto dest: find_index_Some)

lemma core_update:
  assumes "k < length us" "core u = core (us ! k)"
  shows "map core (us[k := u]) = map core us"
  using assms by (metis list_update_id map_update)

lemma UpdateProfile_effect: "mild_effect e s (snd (UpdateProfile e i name s))"
proof (cases "120 < rune_count (trim_space name) \<or> user_index i s = None")
  case False
  then obtain k where k: "user_index i s = Some k" by auto
  let ?u = "(st_users s ! k)\<lparr>u_full_name := trim_space name\<rparr>"
  have "map core ((st_users s)[k := ?u]) = map core (st_users s)"
    by (rule core_update) (use user_index_Some [OF k] in \<open>simp_all add: core_def\<close>)
  then show ?thesis using False k
    by (auto simp: UpdateProfile_def Let_def saveLocked_def set_users_def saved_now_def intro!: keeps)
qed (auto simp: UpdateProfile_def Let_def)

text \<open>The shape of the calls that end in \<open>save_account\<close>.\<close>

lemma save_account_snd:
  "snd (save_account e i out us ds s) =
    (if ae_save e
     then (let s' = s\<lparr>st_users := us, st_devices := ds,
             st_file := Some \<lparr>uf_version = 2, uf_users = us, uf_requests = st_requests s, uf_devices = ds\<rparr>\<rparr>
           in if out then s'\<lparr>st_sessions := invalidateSessionsLocked i (st_sessions s')\<rparr> else s')
     else s)"
  by (simp add: save_account_def saveLocked_def Let_def)

lemma ease_effect:
  assumes "user_index i s = Some k" "u_id u = i" "u_verifier u = u_verifier (st_users s ! k)" "u_admin u = u_admin (st_users s ! k)"
    "u_deleting u = u_deleting (st_users s ! k)" "u_disabled u \<Longrightarrow> u_disabled (st_users s ! k)"
  shows "mild_effect e s (snd (save_account e i False ((st_users s)[k := u]) (st_devices s) s))"
proof (cases "ae_save e")
  case True
  show ?thesis
    by (rule eases_user [where k = k and u = u])
       (use assms True user_index_Some [OF assms(1)] in \<open>simp_all add: save_account_snd saved_now_def\<close>)
qed (simp add: save_account_snd)

lemma end_effect:
  assumes "user_index i s = Some k" "u_id u = i" "active_admin (st_users s ! k) \<Longrightarrow> active_admin u \<or> 1 < activeAdminsLocked s"
  shows "effect e s (snd (save_account e i True ((st_users s)[k := u]) (invalidateOwnerDevicesLocked i (st_devices s)) s))"
proof (cases "ae_save e")
  case True
  show ?thesis
    by (rule ends_user [where k = k and u = u])
       (use assms True user_index_Some [OF assms(1)] in \<open>simp_all add: save_account_snd saved_now_def\<close>)
qed (simp add: save_account_snd)

lemma SetDisabled_effect: "effect e s (snd (SetDisabled e i disabled s))"
proof (cases "user_index i s")
  case (Some k)
  note k = user_index_Some [OF Some]
  let ?u = "st_users s ! k"
  have ease: "effect e s (snd (save_account e i False ((st_users s)[k := ?u\<lparr>u_disabled := False\<rparr>]) (st_devices s) s))"
    by (rule mild, rule ease_effect [OF Some]) (use k in simp_all)
  have ends: "effect e s (snd (save_account e i True
      ((st_users s)[k := ?u\<lparr>u_disabled := True, u_disable_pending := True, u_disable_error := ''''\<rparr>])
      (invalidateOwnerDevicesLocked i (st_devices s)) s))" if "\<not> (u_admin ?u \<and> activeAdminsLocked s \<le> 1)"
    by (rule end_effect [OF Some]) (use k that in \<open>auto simp: active_admin_def\<close>)
  show ?thesis using Some ease ends by (auto simp: SetDisabled_def Let_def)
qed (simp add: SetDisabled_def)

lemma SetDisableError_effect: "mild_effect e s (snd (SetDisableError e i category s))"
proof (cases "user_index i s")
  case (Some k)
  note k = user_index_Some [OF Some]
  show ?thesis unfolding SetDisableError_def Some option.case Let_def
    by (rule ease_effect [OF Some]) (use k in \<open>simp_all split: if_splits\<close>)
qed (simp add: SetDisableError_def)

lemma SetDeleteError_effect: "mild_effect e s (snd (SetDeleteError e i category s))"
proof (cases "user_index i s")
  case (Some k)
  note k = user_index_Some [OF Some]
  show ?thesis unfolding SetDeleteError_def Some option.case
    by (rule ease_effect [OF Some]) (use k in simp_all)
qed (simp add: SetDeleteError_def)

lemma snd_with_value: "snd (case x of (Inl err, s') \<Rightarrow> (Inl err, s') | (Inr v, s') \<Rightarrow> (Inr w, s')) = snd x"
  by (cases x; cases "fst x") auto

lemma BeginDelete_effect: "effect e s (snd (BeginDelete e i s))"
proof (cases "user_index i s")
  case (Some k)
  note k = user_index_Some [OF Some]
  let ?u = "st_users s ! k"
  have ends: "effect e s (snd (save_account e i True
      ((st_users s)[k := ?u\<lparr>u_disabled := True, u_deleting := True, u_delete_error := ''''\<rparr>])
      (invalidateOwnerDevicesLocked i (st_devices s)) s))"
    if "\<not> (\<not> u_deleting ?u \<and> u_admin ?u \<and> \<not> u_disabled ?u \<and> activeAdminsLocked s \<le> 1)"
    by (rule end_effect [OF Some]) (use k that in \<open>auto simp: active_admin_def\<close>)
  then show ?thesis using Some by (auto simp: BeginDelete_def Let_def snd_with_value)
qed (simp add: BeginDelete_def)

lemma CompleteDelete_effect:
  assumes "call_allowed (Complete_delete i) s"
  shows "effect e s (snd (CompleteDelete e i s))"
proof (cases "user_index i s")
  case (Some k)
  note k = user_index_Some [OF Some]
  with assms have "u_deleting (st_users s ! k)" by simp
  with k Some show ?thesis
    by (cases "ae_save e") (auto simp: CompleteDelete_def save_account_snd saved_now_def intro!: removes_user [where k = k])
qed (simp add: CompleteDelete_def)

lemma change_password_effect: "effect e s (snd (change_password_end e i new seen s))"
proof (cases "draw e")
  case (Inr p)
  then obtain salt e' where d: "draw e = Inr (salt, e')" by (cases p) auto
  let ?k = "fst seen" and ?u = "st_users s ! fst seen"
  let ?v = "?u\<lparr>u_salt := B64 salt, u_verifier := B64 (ae_derive e new salt)\<rparr>"
  show ?thesis
  proof (cases "length (st_users s) \<le> ?k \<or> u_id ?u \<noteq> i \<or> u_verifier ?u \<noteq> u_verifier (snd seen) \<or> \<not> ae_save e")
    case True
    then have "snd (change_password_end e i new seen s) = s"
      using d draw_Inr(3) [OF d] by (auto simp: change_password_end_def Let_def save_account_snd)
    then show ?thesis by simp
  next
    case False
    have "snd (change_password_end e i new seen s)
        = snd (save_account e' i True ((st_users s)[?k := ?v]) (invalidateOwnerDevicesLocked i (st_devices s)) s)"
      using d False by (simp add: change_password_end_def Let_def)
    moreover have "effect e s \<dots>"
      by (rule ends_user [where k = ?k and u = ?v])
         (use False draw_Inr(3) [OF d] in \<open>auto simp: save_account_snd saved_now_def active_admin_def Let_def\<close>)
    ultimately show ?thesis by simp
  qed
qed (simp add: change_password_end_def)

section \<open>Devices\<close>

lemma replaceDevice_snd:
  "snd (replaceDeviceLocked e k d s) =
    (if ae_save e
     then s\<lparr>st_devices := (st_devices s)[k := d],
            st_file := Some \<lparr>uf_version = 2, uf_users = st_users s, uf_requests = st_requests s, uf_devices = (st_devices s)[k := d]\<rparr>\<rparr>
     else s)"
  by (simp add: replaceDeviceLocked_def saveLocked_def set_devices_def)

lemma renew_effect:
  assumes "k < length (st_devices s)" "d_id d = d_id (st_devices s ! k)" "d_owner d = d_owner (st_devices s ! k)"
    "d_version (publicDevice d) = d_version (publicDevice (st_devices s ! k))
        \<or> d_version d = d_version (publicDevice (st_devices s ! k)) + 1"
    "set (device_hashes d) \<subseteq> insert h (set (device_hashes (st_devices s ! k)))"
    "\<And>x. x \<in> set (st_devices s) \<Longrightarrow> h \<notin> set (device_hashes x)" "distinct (device_hashes d)"
  shows "effect e s (snd (replaceDeviceLocked e k d s))"
proof (cases "ae_save e")
  case True
  show ?thesis
    by (rule renews_device [where k = k and d = d and h = h])
       (use True assms in \<open>simp_all add: replaceDevice_snd saved_now_def\<close>)
qed (simp add: replaceDevice_snd)

lemma device_index_Some:
  "device_index owner i s = Some k \<Longrightarrow> k < length (st_devices s) \<and> d_id (st_devices s ! k) = i \<and> d_owner (st_devices s ! k) = owner"
  unfolding device_index_def by (auto dest: find_index_Some)

lemma invalid_device [simp]:
  "d_id (invalidateDevice d) = d_id d" "d_owner (invalidateDevice d) = d_owner d" "device_hashes (invalidateDevice d) = []"
  "d_version (invalidateDevice d) = d_version (publicDevice d) + 1" "d_revoked (invalidateDevice d)"
  by (simp_all add: invalidateDevice_def device_hashes_def)

lemma RevokeDevice_effect: "effect e s (snd (RevokeDevice e owner i s))"
proof (cases "device_index owner i s")
  case (Some k)
  note k = device_index_Some [OF Some]
  have "'''' \<notin> set (device_hashes x)" for x by (simp add: device_hashes_def)
  then have "effect e s (snd (replaceDeviceLocked e k (invalidateDevice (st_devices s ! k)) s))"
    by (intro renew_effect [where h = "''''"]) (use k in simp_all)
  with Some show ?thesis by (simp add: RevokeDevice_def)
qed (simp add: RevokeDevice_def)

lemma not_used: "h \<noteq> '''' \<Longrightarrow> \<not> secret_used h d \<longleftrightarrow> h \<notin> set (device_hashes d)"
  by (auto simp: secret_used_def equalHash_def device_hashes_def)

lemma public_rotated: "d_version (publicDevice (rotated e operation expected hash d)) = d_version (publicDevice d)"
  by (simp add: rotated_def publicDevice_def Let_def)

lemma credential_from_Some:
  assumes "credential_from e s h n ds = Some (k, previous)"
  shows "\<exists>j < length ds. k = n + j \<and> deviceActiveLocked e s (ds ! j)
    \<and> (if previous then equalHash h (d_previous_hash (ds ! j)) \<and> time_before (ae_now e) (d_previous_until (ds ! j))
         \<and> time_before (ae_now e) (d_previous_expires (ds ! j))
       else equalHash h (d_token_hash (ds ! j)))"
  using assms
proof (induction ds arbitrary: n)
  case (Cons d ds)
  show ?case
  proof (cases "credential_from e s h n (d # ds) = credential_from e s h (Suc n) ds")
    case True
    with Cons.prems have "credential_from e s h (Suc n) ds = Some (k, previous)" by simp
    from Cons.IH [OF this] obtain j where "j < length ds" "k = Suc n + j" "deviceActiveLocked e s (ds ! j)"
      "if previous then equalHash h (d_previous_hash (ds ! j)) \<and> time_before (ae_now e) (d_previous_until (ds ! j))
         \<and> time_before (ae_now e) (d_previous_expires (ds ! j))
       else equalHash h (d_token_hash (ds ! j))" by blast
    then show ?thesis by (intro exI [of _ "Suc j"]) simp
  next
    case False
    with Cons.prems show ?thesis by (intro exI [of _ 0]) (auto split: if_splits)
  qed
qed simp

lemma credential_Some:
  assumes "credentialLocked e token s = Some (k, previous)"
  shows "k < length (st_devices s)" "deviceActiveLocked e s (st_devices s ! k)"
    "secret_used (ae_hash e token) (st_devices s ! k)"
    "previous \<Longrightarrow> equalHash (ae_hash e token) (d_previous_hash (st_devices s ! k))"
    "\<not> previous \<Longrightarrow> equalHash (ae_hash e token) (d_token_hash (st_devices s ! k))"
  using credential_from_Some [OF assms [unfolded credentialLocked_def]] by (auto simp: secret_used_def split: if_splits)

lemma RotateDevice_effect:
  assumes "\<And>x. ae_hash e x \<noteq> ''''"
  shows "effect e s (snd (RotateDevice e r i operation expected secret s))"
proof (cases "credentialLocked e (bearerToken (rq_authorization r)) s")
  case (Some p)
  obtain k previous where p: "p = (k, previous)" by (cases p)
  let ?d = "st_devices s ! k" and ?h = "ae_hash e secret"
  let ?d' = "rotated e operation expected ?h ?d"
  have lt: "k < length (st_devices s)" by (rule credential_Some(1) [OF Some [unfolded p]])
  show ?thesis
  proof (cases "snd (RotateDevice e r i operation expected secret s) = s")
    case False
    then have g: "\<not> secret_used ?h ?d" "\<forall>j < length (st_devices s). j \<noteq> k \<longrightarrow> \<not> secret_used ?h (st_devices s ! j)"
      "snd (RotateDevice e r i operation expected secret s) = snd (replaceDeviceLocked e k ?d' s)"
      using Some p unfolding RotateDevice_def Let_def
      by (auto simp: snd_with_value split: if_splits)
    have free: "?h \<notin> set (device_hashes x)" if "x \<in> set (st_devices s)" for x
      using that g(1,2) not_used [OF assms] by (metis in_set_conv_nth)
    have "set (device_hashes ?d') \<subseteq> insert ?h (set (device_hashes ?d)) \<and> distinct (device_hashes ?d')"
      using free [OF nth_mem [OF lt]] by (auto simp: device_hashes_def rotated_def Let_def)
    moreover have "d_id ?d' = d_id ?d" "d_owner ?d' = d_owner ?d" by (simp_all add: rotated_def Let_def)
    ultimately show ?thesis unfolding g(3)
      by (intro renew_effect [OF lt, where h = ?h]) (use free public_rotated in auto)
  qed simp
qed (auto simp: RotateDevice_def)

lemma reauthorize_begin_effect: "mild_effect e s (snd (reauthorize_begin e r secret scopes s))"
proof -
  have "snd (reauthorize_begin e r secret scopes s) = s
      \<or> snd (reauthorize_begin e r secret scopes s) = snd (session_user e (rq_cookie r) s)"
    unfolding reauthorize_begin_def CurrentUser_def by (auto split: prod.splits sum.splits)
  with quiet_effects(3) show ?thesis by (metis mild_same)
qed

lemma reauthorize_end_effect:
  assumes "\<And>x. ae_hash e x \<noteq> ''''"
  shows "effect e s (snd (reauthorize_end e r i secret seen s))"
proof (cases "snd (reauthorize_end e r i secret seen s) = s")
  case False
  let ?h = "ae_hash e secret"
  from False obtain ko k where ko: "user_index (u_id (fst seen)) s = Some ko" and k: "device_index (u_id (fst seen)) i s = Some k"
    and free0: "\<forall>x \<in> set (st_devices s). \<not> secret_used ?h x"
    and out: "snd (reauthorize_end e r i secret seen s)
      = snd (replaceDeviceLocked e k (reauthorized e (st_users s ! ko) ?h (snd seen) (st_devices s ! k)) s)"
    unfolding reauthorize_end_def Let_def
    by (auto simp: snd_with_value split: option.splits if_splits)
  note lt = device_index_Some [OF k]
  have free: "?h \<notin> set (device_hashes x)" if "x \<in> set (st_devices s)" for x
    using free0 that not_used [OF assms] by blast
  show ?thesis unfolding out
    by (rule renew_effect [where h = ?h])
       (use lt free in \<open>auto simp: reauthorized_def device_hashes_def\<close>)
qed simp

lemma CreateScopedDevice_effect:
  assumes "\<And>x. ae_hash e x \<noteq> ''''"
  shows "mild_effect e s (snd (CreateScopedDevice e owner name scopes s))"
proof (cases "snd (CreateScopedDevice e owner name scopes s) = s")
  case False
  let ?drawn = "res_bind (normalizeScopes scopes) (\<lambda>grants.
      res_bind (draw e) (\<lambda>(raw, e1). res_bind (draw e1) (\<lambda>(i, e2). Inr (grants, hex_encode raw, hex_encode i, e2))))"
  from False obtain grants token i e' where r: "?drawn = Inr (grants, token, i, e')"
    unfolding CreateScopedDevice_def Let_def by (cases ?drawn) (auto split: if_splits)
  then obtain raw e1 raw' where t: "draw e = Inr (raw, e1)" "draw e1 = Inr (raw', e')" "token = hex_encode raw" "i = hex_encode raw'"
    by (auto simp: res_bind_Inr_iff)
  have drawn: "raw \<in> set (raws e)" "raw' \<in> set (raws e)" using draw_Inr(1) [OF t(1)] draw_Inr(1) [OF t(2)] by auto
  have sv: "ae_save e' = ae_save e" using draw_Inr(3) [OF t(1)] draw_Inr(3) [OF t(2)] by simp
  from False r obtain k where k: "user_index owner s = Some k"
    unfolding CreateScopedDevice_def Let_def by (cases "user_index owner s") (auto split: if_splits)
  let ?d = "\<lparr>d_id = i, d_owner = owner, d_name = trim_space name, d_created = ae_now e, d_expires = add_time (ae_now e) deviceTTL,
      d_scopes = grants, d_generation = 1, d_version = 1, d_revoked = False,
      d_token_hash = ae_hash e token, d_password_version = ae_hash e (u_verifier (st_users s ! k)),
      d_previous_hash = '''', d_previous_until = zero_time, d_previous_expires = zero_time,
      d_rotation_id = '''', d_rotation_expected = 0\<rparr>"
  let ?s = "set_devices (st_devices s @ [?d]) s"
  have out: "snd (CreateScopedDevice e owner name scopes s)
      = snd (case saveLocked e' ?s of (Inl err, s') \<Rightarrow> (Inl err :: user_error + device \<times> string, set_devices (st_devices s) s')
             | (Inr v, s') \<Rightarrow> (Inr (publicDevice ?d, token), s'))"
    using False r k unfolding CreateScopedDevice_def Let_def by (auto split: if_splits)
  show ?thesis
  proof (cases "ae_save e")
    case True
    show ?thesis unfolding out
      by (rule adds_device [where d = ?d, OF _ _ _ drawn(2) _ _ drawn(1)])
         (use True sv assms in \<open>simp_all add: saveLocked_def set_devices_def saved_now_def device_hashes_def t\<close>)
  next
    case no: False
    then show ?thesis unfolding out using sv by (simp add: saveLocked_def set_devices_def keeps_same)
  qed
qed simp

section \<open>Every call has an effect\<close>

lemma call_effect: "(\<And>x. ae_hash e x \<noteq> '''') \<Longrightarrow> mild_effect e s (run_call e c s)"
  by (cases c) (simp_all add: CreateUser_effect CompleteAccess_effect quiet_effects UpdateProfile_effect
      SetDisableError_effect SetDeleteError_effect CreateScopedDevice_effect)

lemma barrier_effect: "(\<And>x. ae_hash e x \<noteq> '''') \<Longrightarrow> call_allowed c s \<Longrightarrow> effect e s (run_barrier e c s)"
  by (cases c) (simp_all add: SetDisabled_effect BeginDelete_effect CompleteDelete_effect RevokeDevice_effect RotateDevice_effect)

lemma restart_effect:
  assumes "open_users e True (st_file s) = (Inr u, s')" "in_file s"
  shows "mild_effect e s s' \<and> st_sessions s' = []"
proof (cases "st_file s")
  case None
  with assms show ?thesis
    by (auto simp: open_users_def load_users_def empty_users_def in_file_def intro!: keeps)
next
  case (Some f)
  with assms have s': "s' = (empty_users (Some f))\<lparr>st_users := uf_users f, st_requests := uf_requests f, st_devices := uf_devices f\<rparr>"
    and f: "map core (uf_users f) = map core (st_users s)" "uf_devices f = st_devices s"
    by (auto simp: open_users_def load_users_def Let_def in_file_def empty_users_def split: if_splits)
  show ?thesis
  proof
    show "mild_effect e s s'" by (rule keeps) (simp_all add: s' f empty_users_def Some)
    show "st_sessions s' = []" by (simp add: s' empty_users_def)
  qed
qed

end
