(* ===== verification/User_Safety.thy ===== *)
theory User_Safety
  imports User_Effects
begin

text \<open>
  The invariants of the accounts: identities and credentials are unique, the file holds what the process
  holds, an administrator remains, authorization versions only grow, and no authorization is taken away
  while a publication under it runs.
\<close>

section \<open>Versions\<close>

abbreviation version :: "device \<Rightarrow> u64" where
  "version d \<equiv> d_version (publicDevice d)"

lemma version_succ: "x \<noteq> max_u64 \<Longrightarrow> d_version d = x + 1 \<Longrightarrow> version d = x + 1"
  using u64_succ_nonzero by (simp add: publicDevice_def)

section \<open>The invariant\<close>

definition drawn_ids :: "string list \<Rightarrow> string set" where
  "drawn_ids rs = hex_encode ` set rs"

definition store_ok :: "string list \<Rightarrow> user_store \<Rightarrow> bool" where
  "store_ok drawn s \<longleftrightarrow> distinct (map u_id (st_users s)) \<and> distinct (map d_id (st_devices s))
     \<and> u_id ` set (st_users s) \<subseteq> drawn_ids drawn \<and> d_id ` set (st_devices s) \<subseteq> drawn_ids drawn
     \<and> distinct (concat (map device_hashes (st_devices s))) \<and> in_file s"

lemma hex_image: "hex_encode x \<in> drawn_ids rs \<longleftrightarrow> x \<in> set rs"
  using hex_encode_inj by (auto simp: drawn_ids_def)

lemma core_fields [simp]:
  "u_id (core u) = u_id u" "u_admin (core u) = u_admin u" "u_disabled (core u) = u_disabled u" "u_deleting (core u) = u_deleting u"
  "u_verifier (core u) = u_verifier u" "u_username (core u) = u_username u" "active_admin (core u) = active_admin u"
  by (simp_all add: core_def active_admin_def)

lemma map_core_map:
  assumes "map core us' = map core us" "\<And>u. f (core u) = f u"
  shows "map f us' = map f us"
proof -
  have "map f vs = map f (map core vs)" for vs by (simp add: assms(2))
  then show ?thesis by (metis assms(1))
qed

lemma saved_in_file: "saved_now s \<Longrightarrow> in_file s"
  by (simp add: saved_now_def in_file_def)

lemma hashes_nth:
  assumes "distinct (concat (map device_hashes ds))" "i < length ds" "j < length ds" "i \<noteq> j"
  shows "set (device_hashes (ds ! i)) \<inter> set (device_hashes (ds ! j)) = {}"
  using assms
proof (induction ds arbitrary: i j)
  case (Cons d ds)
  have d: "set (device_hashes d) \<inter> set (device_hashes (ds ! n)) = {}" if "n < length ds" for n
    using Cons.prems(1) nth_mem [OF that] by auto
  show ?case using Cons.prems Cons.IH by (cases i; cases j) (simp_all add: d Int_commute [of _ "set (device_hashes d)"])
qed simp

lemma distinct_concatI:
  assumes "\<And>i. i < length ds \<Longrightarrow> distinct (device_hashes (ds ! i))"
    "\<And>i j. i < length ds \<Longrightarrow> j < length ds \<Longrightarrow> i \<noteq> j \<Longrightarrow> set (device_hashes (ds ! i)) \<inter> set (device_hashes (ds ! j)) = {}"
  shows "distinct (concat (map device_hashes ds))"
  using assms
proof (induction ds)
  case (Cons d ds)
  have "distinct (concat (map device_hashes ds))"
  proof (rule Cons.IH)
    show "distinct (device_hashes (ds ! i))" if "i < length ds" for i using Cons.prems(1) [of "Suc i"] that by simp
    show "set (device_hashes (ds ! i)) \<inter> set (device_hashes (ds ! j)) = {}" if "i < length ds" "j < length ds" "i \<noteq> j" for i j
      using Cons.prems(2) [of "Suc i" "Suc j"] that by simp
  qed
  moreover have "set (device_hashes d) \<inter> set (device_hashes x) = {}" if x: "x \<in> set ds" for x
  proof -
    obtain j where "j < length ds" "x = ds ! j" using x by (auto simp: in_set_conv_nth)
    with Cons.prems(2) [of 0 "Suc j"] show ?thesis by simp
  qed
  ultimately show ?case using Cons.prems(1) [of 0] by auto
qed simp

lemma distinct_hashes_nth: "distinct (concat (map device_hashes ds)) \<Longrightarrow> i < length ds \<Longrightarrow> distinct (device_hashes (ds ! i))"
  by (induction ds arbitrary: i) (auto simp: nth_Cons split: nat.splits)

lemma hashes_update:
  assumes "distinct (concat (map device_hashes ds))" "k < length ds" "distinct (device_hashes d)"
    "set (device_hashes d) \<subseteq> insert h (set (device_hashes (ds ! k)))" "\<And>x. x \<in> set ds \<Longrightarrow> h \<notin> set (device_hashes x)"
  shows "distinct (concat (map device_hashes (ds[k := d])))"
proof (rule distinct_concatI)
  show "distinct (device_hashes (ds[k := d] ! i))" if "i < length (ds[k := d])" for i
    using distinct_hashes_nth [OF assms(1), of i] assms(2,3) that by (cases "i = k") auto
  have other: "set (device_hashes d) \<inter> set (device_hashes (ds ! j)) = {}" if "j < length ds" "j \<noteq> k" for j
    using hashes_nth [OF assms(1,2) that(1)] that(2) assms(4,5) nth_mem [OF that(1)] by blast
  show "set (device_hashes (ds[k := d] ! i)) \<inter> set (device_hashes (ds[k := d] ! j)) = {}"
    if "i < length (ds[k := d])" "j < length (ds[k := d])" "i \<noteq> j" for i j
    using that other [of i] other [of j] hashes_nth [OF assms(1), of i j]
    by (cases "i = k"; cases "j = k") (simp_all add: Int_commute [of _ "set (device_hashes d)"])
qed

lemma hashes_subseq:
  "distinct (concat (map device_hashes ds)) \<Longrightarrow> distinct (concat (map device_hashes (filter p ds)))"
  by (induction ds) auto

lemma concat_emptied:
  assumes "\<And>d. g d = [] \<or> g d = f d" "distinct (concat (map f ds))"
  shows "distinct (concat (map g ds)) \<and> set (concat (map g ds)) \<subseteq> set (concat (map f ds))"
  using assms(2)
proof (induction ds)
  case (Cons d ds)
  then have "distinct (concat (map g ds))" "set (concat (map g ds)) \<subseteq> set (concat (map f ds))" "distinct (f d)"
    "set (f d) \<inter> set (concat (map f ds)) = {}" by auto
  with assms(1) [of d] show ?case by (cases "g d = []") (simp_all, blast+)
qed simp

lemma hashes_invalidated:
  "distinct (concat (map device_hashes ds)) \<Longrightarrow> distinct (concat (map device_hashes (invalidateOwnerDevicesLocked i ds)))"
  unfolding invalidateOwnerDevicesLocked_def map_map
  by (rule conjunct1, rule concat_emptied [where f = device_hashes]) auto

lemma sane_fresh:
  assumes "sane_accounts H e a" "x \<in> set (raws e)"
  shows "x \<notin> set (ac_drawn a)" "\<And>d. d \<in> set (st_devices (ac_store a)) \<Longrightarrow> ae_hash e (hex_encode x) \<notin> set (device_hashes d)"
  using assms by (auto simp: sane_accounts_def)

lemma ids_take_drop:
  "distinct (map f xs) \<Longrightarrow> distinct (map f (take k xs @ drop (Suc k) xs))
    \<and> set (take k xs @ drop (Suc k) xs) \<subseteq> set xs"
proof -
  assume d: "distinct (map f xs)"
  show ?thesis
  proof (cases "k < length xs")
    case True
    then have "xs = take k xs @ xs ! k # drop (Suc k) xs" by (rule id_take_nth_drop)
    with d have "distinct (map f (take k xs @ xs ! k # drop (Suc k) xs))" by simp
    then show ?thesis by (auto dest: in_set_takeD in_set_dropD)
  next
    case False
    with d show ?thesis by simp
  qed
qed

lemma store_ok_mild:
  assumes ok: "store_ok (ac_drawn a) (ac_store a)" and sane: "sane_accounts H e a" and ef: "mild_effect e (ac_store a) s'"
  shows "store_ok (raws e @ ac_drawn a) s'"
proof -
  let ?s = "ac_store a"
  from ok have o: "distinct (map u_id (st_users ?s))" "distinct (map d_id (st_devices ?s))"
    "u_id ` set (st_users ?s) \<subseteq> drawn_ids (ac_drawn a)" "d_id ` set (st_devices ?s) \<subseteq> drawn_ids (ac_drawn a)"
    "distinct (concat (map device_hashes (st_devices ?s)))" "in_file ?s" by (auto simp: store_ok_def)
  have more: "drawn_ids (ac_drawn a) \<subseteq> drawn_ids (raws e @ ac_drawn a)" by (auto simp: drawn_ids_def)
  from ef show ?thesis
  proof cases
    case keeps
    have u: "map u_id (st_users s') = map u_id (st_users ?s)" by (rule map_core_map [OF keeps(1)]) simp
    then have "u_id ` set (st_users s') = u_id ` set (st_users ?s)" by (metis set_map)
    moreover have "in_file s'"
    proof (cases "saved_now s'")
      case False
      with keeps(3) have "st_file s' = st_file ?s" by blast
      with o(6) keeps(1,2) show ?thesis by (simp add: in_file_def split: option.splits)
    qed (rule saved_in_file)
    ultimately show ?thesis using o more keeps(2) u unfolding store_ok_def by auto
  next
    case (adds_user u raw)
    have "u_id u \<notin> u_id ` set (st_users ?s)"
      using sane_fresh(1) [OF sane adds_user(4)] o(3) hex_image adds_user(5) by auto
    then show ?thesis using o more adds_user saved_in_file hex_image [of raw "raws e @ ac_drawn a"]
      unfolding store_ok_def by auto
  next
    case (eases_user k u)
    have "map u_id (st_users s') = map u_id (st_users ?s)" using eases_user by (simp add: map_update_id)
    moreover from this have "u_id ` set (st_users s') = u_id ` set (st_users ?s)" by (metis set_map)
    ultimately show ?thesis using o more eases_user(3,4) saved_in_file unfolding store_ok_def by auto
  next
    case (adds_device d raw token)
    have "d_id d \<notin> d_id ` set (st_devices ?s)"
      using sane_fresh(1) [OF sane adds_device(4)] o(4) hex_image adds_device(5) by auto
    moreover have "ae_hash e (hex_encode token) \<notin> set (device_hashes x)" if "x \<in> set (st_devices ?s)" for x
      by (rule sane_fresh(2) [OF sane adds_device(7) that])
    ultimately show ?thesis using o more adds_device saved_in_file hex_image [of raw "raws e @ ac_drawn a"]
      unfolding store_ok_def by auto
  qed
qed

lemma store_ok_effect:
  assumes ok: "store_ok (ac_drawn a) (ac_store a)" and sane: "sane_accounts H e a" and ef: "effect e (ac_store a) s'"
  shows "store_ok (raws e @ ac_drawn a) s'"
proof -
  let ?s = "ac_store a"
  from ok have o: "distinct (map u_id (st_users ?s))" "distinct (map d_id (st_devices ?s))"
    "u_id ` set (st_users ?s) \<subseteq> drawn_ids (ac_drawn a)" "d_id ` set (st_devices ?s) \<subseteq> drawn_ids (ac_drawn a)"
    "distinct (concat (map device_hashes (st_devices ?s)))" "in_file ?s" by (auto simp: store_ok_def)
  have more: "drawn_ids (ac_drawn a) \<subseteq> drawn_ids (raws e @ ac_drawn a)" by (auto simp: drawn_ids_def)
  from ef show ?thesis
  proof cases
    case mild
    then show ?thesis by (rule store_ok_mild [OF ok sane])
  next
    case (ends_user k u)
    have u: "map u_id (st_users s') = map u_id (st_users ?s)" using ends_user by (simp add: map_update_id)
    then have us: "u_id ` set (st_users s') = u_id ` set (st_users ?s)" by (metis set_map)
    have d: "map d_id (st_devices s') = map d_id (st_devices ?s)"
      unfolding ends_user(4) invalidateOwnerDevicesLocked_def by simp
    then have "d_id ` set (st_devices s') = d_id ` set (st_devices ?s)" by (metis set_map)
    with u us d o more ends_user(3,4) saved_in_file hashes_invalidated show ?thesis unfolding store_ok_def by auto
  next
    case (removes_user k)
    note u = ids_take_drop [OF o(1), of k]
    have "u_id ` set (st_users s') \<subseteq> u_id ` set (st_users ?s)"
      unfolding removes_user(2) by (intro image_mono conjunct2 [OF u])
    then have "u_id ` set (st_users s') \<subseteq> drawn_ids (raws e @ ac_drawn a)" using o(3) more by blast
    moreover have "d_id ` set (st_devices s') \<subseteq> drawn_ids (raws e @ ac_drawn a)" "distinct (map d_id (st_devices s'))"
      "distinct (concat (map device_hashes (st_devices s')))"
      using o(2,4,5) more removes_user(4) hashes_subseq
      by (auto simp: removeOwnerDevicesLocked_def distinct_map_filterI)
    ultimately show ?thesis using u removes_user(2,3) saved_in_file unfolding store_ok_def by auto
  next
    case (renews_device k d h)
    have d: "map d_id (st_devices s') = map d_id (st_devices ?s)" using renews_device by (simp add: map_update_id)
    then have "d_id ` set (st_devices s') = d_id ` set (st_devices ?s)" by (metis set_map)
    moreover have "distinct (concat (map device_hashes (st_devices s')))"
      unfolding renews_device(3) by (rule hashes_update [OF o(5) renews_device(1,10,8,9)])
    ultimately show ?thesis using d o more renews_device(2,4) saved_in_file unfolding store_ok_def by auto
  qed
qed

end
