(* ===== verification/User_Invariants.thy ===== *)
theory User_Invariants
  imports User_Safety
begin

text \<open>
  The invariants of runs of the accounts: the store is well formed, an administrator remains, versions only
  grow, and no authorization is taken away while a publication under it runs.
\<close>

section \<open>Steps and effects\<close>

lemma raw_after [simp]:
  "ac_store (after e s a) = s" "ac_drawn (after e s a) = raws e @ ac_drawn a"
  "ac_publishing (after e s a) = ac_publishing a" "ac_holder (after e s a) = ac_holder a"
  by (simp_all add: after_def)

text \<open>What is assumed of the hexadecimal SHA-256.\<close>

definition good_hash :: "(string \<Rightarrow> string) \<Rightarrow> bool" where
  "good_hash H \<longleftrightarrow> inj H \<and> '''' \<notin> range H"

lemma env_hash: "good_hash H \<Longrightarrow> sane_accounts H e a \<Longrightarrow> ae_hash e x \<noteq> ''''"
  unfolding sane_accounts_def good_hash_def by (metis rangeI)

lemma step_cases:
  assumes H: "good_hash H" and "account_step H a b" "store_ok (ac_drawn a) (ac_store a)"
  obtains (same) "ac_store b = ac_store a" "ac_drawn b = ac_drawn a"
  | (mildly) e where "sane_accounts H e a" "mild_effect e (ac_store a) (ac_store b)" "ac_drawn b = raws e @ ac_drawn a"
  | (harshly) e where "sane_accounts H e a" "effect e (ac_store a) (ac_store b)" "ac_drawn b = raws e @ ac_drawn a"
      "ac_holder a \<noteq> None \<or> ac_publishing a = []"
  using assms(2)
proof cases
  case (step_call e c)
  then show thesis using mildly call_effect env_hash [OF H] by simp
next
  case (step_barrier e c)
  then show thesis using harshly barrier_effect env_hash [OF H] by simp
next
  case (step_password_begin e i current new seen)
  then show thesis using same by simp
next
  case (step_password_end e i new seen)
  then show thesis using harshly change_password_effect by simp
next
  case (step_reauthorize_begin e r secret scopes seen s i)
  then show thesis using mildly reauthorize_begin_effect by (metis accounts.select_convs(1) accounts.surjective accounts.update_convs(3) raw_after(1,2) accounts.select_convs(4) snd_conv)
next
  case (step_reauthorize_end e r i secret seen)
  then show thesis using harshly reauthorize_end_effect env_hash [OF H] by simp
next
  case (step_publish e g scopes)
  then show thesis using same by simp
next
  case (step_published p)
  then show thesis using same by simp
next
  case (step_restart e u s)
  then show thesis using mildly restart_effect assms(3) by (simp add: store_ok_def)
qed

lemma step_effect:
  assumes H: "good_hash H" and "account_step H a b" "store_ok (ac_drawn a) (ac_store a)"
  obtains (same) "ac_store b = ac_store a" "ac_drawn b = ac_drawn a"
  | (changed) e where "sane_accounts H e a" "effect e (ac_store a) (ac_store b)" "ac_drawn b = raws e @ ac_drawn a"
  by (rule step_cases [OF assms]) (auto intro: mild)

lemma store_ok_step:
  "good_hash H \<Longrightarrow> account_step H a b \<Longrightarrow> store_ok (ac_drawn a) (ac_store a) \<Longrightarrow> store_ok (ac_drawn b) (ac_store b)"
  by (elim step_effect) (auto simp: store_ok_effect)

lemma store_ok_run:
  assumes "good_hash H" "account_run H n a b" "store_ok (ac_drawn a) (ac_store a)"
  shows "store_ok (ac_drawn b) (ac_store b)"
  using assms(2,3) by induction (auto intro: store_ok_step assms(1))

lemma store_ok_start: "store_ok (ac_drawn accounts_start) (ac_store accounts_start)"
  by (simp add: store_ok_def accounts_start_def empty_users_def in_file_def)

section \<open>An administrator remains\<close>

lemma admins_map: "map active_admin (st_users s') = map active_admin (st_users s) \<Longrightarrow> activeAdminsLocked s' = activeAdminsLocked s"
proof -
  have "activeAdminsLocked v = length (filter id (map active_admin (st_users v)))" for v
    by (simp add: activeAdminsLocked_def filter_map)
  then show "map active_admin (st_users s') = map active_admin (st_users s) \<Longrightarrow> activeAdminsLocked s' = activeAdminsLocked s"
    by presburger
qed

lemma admins_split:
  assumes "k < length us"
  shows "length (filter active_admin us) =
      length (filter active_admin (take k us)) + (if active_admin (us ! k) then 1 else 0) + length (filter active_admin (drop (Suc k) us))"
  by (subst id_take_nth_drop [OF assms]) simp

lemma admins_update:
  assumes "k < length us"
  shows "length (filter active_admin (us[k := u])) + (if active_admin (us ! k) then 1 else 0)
    = length (filter active_admin us) + (if active_admin u then 1 else 0)"
  using assms
proof (induction us arbitrary: k)
  case (Cons v us)
  then show ?case by (cases k) auto
qed simp

lemma admins_mild:
  assumes "mild_effect e s s'"
  shows "activeAdminsLocked s \<le> activeAdminsLocked s'"
  using assms
proof cases
  case keeps
  have "map active_admin (st_users s') = map active_admin (st_users s)" by (rule map_core_map [OF keeps(1)]) simp
  from admins_map [OF this] show ?thesis by simp
next
  case (eases_user k u)
  then have "active_admin (st_users s ! k) \<Longrightarrow> active_admin u" by (auto simp: active_admin_def)
  then show ?thesis using admins_update [OF eases_user(1), of u] unfolding activeAdminsLocked_def eases_user(2)
    by (simp split: if_splits)
qed (simp_all add: activeAdminsLocked_def)

lemma admins_effect:
  assumes "effect e s s'" "0 < activeAdminsLocked s"
  shows "0 < activeAdminsLocked s'"
  using assms(1)
proof cases
  case mild
  then show ?thesis using admins_mild assms(2) by fastforce
next
  case (ends_user k u)
  have "active_admin (st_users s ! k) \<Longrightarrow> active_admin u \<or> 1 < activeAdminsLocked s" by (rule ends_user)
  then show ?thesis using admins_update [OF ends_user(1), of u] assms(2) unfolding activeAdminsLocked_def ends_user(2)
    by (cases "active_admin (st_users s ! k)"; cases "active_admin u") (simp_all only: if_True if_False, auto)
next
  case (removes_user k)
  then have "\<not> active_admin (st_users s ! k)" by (simp add: active_admin_def)
  then show ?thesis using removes_user admins_split [of k "st_users s"] assms(2) by (simp add: activeAdminsLocked_def)
next
  case (renews_device k d h)
  then show ?thesis using assms(2) by (simp add: activeAdminsLocked_def)
qed

lemma admins_run:
  assumes "good_hash H" "account_run H n a b" "store_ok (ac_drawn a) (ac_store a)" "0 < activeAdminsLocked (ac_store a)"
  shows "0 < activeAdminsLocked (ac_store b)"
  using assms(2-4)
proof induction
  case (run_step n a b c)
  have "store_ok (ac_drawn b) (ac_store b)" by (rule store_ok_run [OF assms(1) run_step.hyps(1) run_step.prems(1)])
  with run_step show ?case
    by (elim step_effect [OF assms(1) run_step.hyps(2)]) (auto intro: admins_effect)
qed

end
