(* ===== verification/User_Grants.thy ===== *)
theory User_Grants
  imports User_Invariants
begin

text \<open>
  Grants over runs: versions of a device only grow, so a grant whose device or owner lost its authorization
  is never accepted again; and no authorization is lost while a publication under it runs.
\<close>

section \<open>Versions only grow\<close>

lemma version_one [simp]: "d_version d = 1 \<Longrightarrow> version d = 1"
  by (simp add: publicDevice_def)

lemma device_effect:
  assumes "effect e s s'" "d' \<in> set (st_devices s')"
  obtains (kept) d where "d \<in> set (st_devices s)" "d_id d' = d_id d" "d_owner d' = d_owner d"
      "version d' = version d \<or> d_version d' = version d + 1"
  | (created) raw where "raw \<in> set (raws e)" "d_id d' = hex_encode raw" "version d' = 1"
  using assms(1)
proof cases
  case mild
  then show thesis
  proof cases
    case (adds_device d raw token)
    then show thesis using assms(2) kept [of d'] created [of raw] by auto
  qed (use assms(2) kept [of d'] in auto)
next
  case (ends_user k u)
  with assms(2) obtain d where d: "d \<in> set (st_devices s)" "d' = (if d_owner d = u_id u then invalidateDevice d else d)"
    by (auto simp: invalidateOwnerDevicesLocked_def)
  then show thesis by (intro kept [of d]) auto
next
  case (removes_user k)
  then show thesis using assms(2) by (intro kept [of d']) (auto simp: removeOwnerDevicesLocked_def)
next
  case (renews_device k d h)
  from assms(2) have "d' \<in> insert d (set (st_devices s))"
    unfolding renews_device(3) by (meson set_update_subset_insert subsetD)
  then show thesis
  proof
    assume "d' = d"
    then show thesis using renews_device by (intro kept [of "st_devices s ! k"]) auto
  qed (intro kept [of d'], auto)
qed

definition versions_below :: "nat \<Rightarrow> user_store \<Rightarrow> bool" where
  "versions_below n s \<longleftrightarrow> (\<forall>d \<in> set (st_devices s). unat (version d) \<le> n)"

definition beyond :: "string \<Rightarrow> string \<Rightarrow> nat \<Rightarrow> accounts \<Rightarrow> bool" where
  "beyond owner i v a \<longleftrightarrow> i \<in> drawn_ids (ac_drawn a)
     \<and> (\<forall>d \<in> set (st_devices (ac_store a)). d_id d = i \<longrightarrow> d_owner d = owner \<and> v \<le> unat (version d))"

lemma version_next:
  assumes "unat (version d) \<le> n" "n < 2 ^ 64 - 1" "version d' = version d \<or> d_version d' = version d + 1"
  shows "unat (version d) \<le> unat (version d') \<and> unat (version d') \<le> Suc n"
proof (cases "version d' = version d")
  case False
  have "unat (version d + 1) = Suc (unat (version d))"
    using assms(1,2) by (simp add: unat_plus_simple word_le_nat_alt unat_add_lem [THEN iffD1])
  moreover from this have "version d + 1 \<noteq> 0" by (metis nat.distinct(1) unat_0)
  with False assms(3) have "version d' = version d + 1" by (auto simp: publicDevice_def)
  ultimately show ?thesis using assms(1) by simp
qed (use assms(1) in simp)

lemma versions_effect:
  assumes "effect e s s'" "versions_below n s" "n < 2 ^ 64 - 1"
  shows "versions_below (Suc n) s'"
  unfolding versions_below_def
proof
  fix d' assume "d' \<in> set (st_devices s')"
  with assms(1) show "unat (version d') \<le> Suc n"
  proof (cases rule: device_effect)
    case (kept d)
    then show ?thesis using assms(2,3) version_next [of d n d'] by (auto simp: versions_below_def)
  next
    case (created raw)
    then show ?thesis by simp
  qed
qed

lemma beyond_effect:
  assumes "sane_accounts H e a" "effect e (ac_store a) s'" "versions_below n (ac_store a)" "n < 2 ^ 64 - 1" "beyond owner i v a"
    "ac_store b = s'" "ac_drawn b = raws e @ ac_drawn a"
  shows "beyond owner i v b"
proof -
  have "d_owner d' = owner \<and> v \<le> unat (version d')" if d': "d' \<in> set (st_devices s')" "d_id d' = i" for d'
    using assms(2) d'(1)
  proof (cases rule: device_effect)
    case (kept d)
    then show ?thesis using assms(3,4,5) d' version_next [of d n d'] by (fastforce simp: versions_below_def beyond_def)
  next
    case (created raw)
    with assms(5) d' have "hex_encode raw \<in> drawn_ids (ac_drawn a)" by (simp add: beyond_def)
    then have "raw \<in> set (ac_drawn a)" by (simp add: hex_image)
    with sane_fresh(1) [OF assms(1) created(1)] show ?thesis by simp
  qed
  moreover have "i \<in> drawn_ids (raws e @ ac_drawn a)" using assms(5) by (auto simp: beyond_def drawn_ids_def)
  ultimately show ?thesis by (simp add: beyond_def assms(6,7))
qed

lemma versions_run:
  assumes H: "good_hash H" and "account_run H n a b" "store_ok (ac_drawn a) (ac_store a)" "versions_below m (ac_store a)" "n + m < 2 ^ 64"
  shows "versions_below (n + m) (ac_store b) \<and> (beyond owner i v a \<longrightarrow> beyond owner i v b)"
  using assms(2-)
proof induction
  case (run_step n a b c)
  from store_ok_run [OF H run_step.hyps(1) run_step.prems(1)] have ok: "store_ok (ac_drawn b) (ac_store b)" .
  from run_step.IH run_step.prems have IH: "versions_below (n + m) (ac_store b)" "beyond owner i v a \<longrightarrow> beyond owner i v b" by auto
  have lt: "n + m < 2 ^ 64 - 1" using run_step.prems(3) by simp
  from H run_step.hyps(2) ok show ?case
  proof (cases rule: step_effect)
    case same
    with IH show ?thesis by (auto simp: versions_below_def beyond_def le_Suc_eq)
  next
    case (changed e)
    with versions_effect [OF changed(2) IH(1) lt] beyond_effect [OF changed(1,2) IH(1) lt _ refl changed(3)] IH(2)
    show ?thesis by auto
  qed
qed simp

lemma versions_start: "versions_below 1 (ac_store accounts_start)"
  by (simp add: versions_below_def accounts_start_def empty_users_def)

section \<open>Grants\<close>

text \<open>What takes an authorization away, with its answer.\<close>

datatype withdrawal = Disabling | Deleting | Revoking | New_password string "nat \<times> user"

fun withdraw :: "account_env \<Rightarrow> withdrawal \<Rightarrow> device_grant \<Rightarrow> user_store \<Rightarrow> (user_error + unit) \<times> user_store" where
  "withdraw e Disabling g s = SetDisabled e (dg_owner g) True s"
| "withdraw e Deleting g s = (case BeginDelete e (dg_owner g) s of (Inl err, s') \<Rightarrow> (Inl err, s') | (Inr u, s') \<Rightarrow> (Inr (), s'))"
| "withdraw e Revoking g s = RevokeDevice e (dg_owner g) (dg_device g) s"
| "withdraw e (New_password new seen) g s = change_password_end e (dg_owner g) new seen s"

lemma withdraw_effect: "effect e s (snd (withdraw e w g s))"
  by (cases w) (auto simp: snd_with_value SetDisabled_effect BeginDelete_effect RevokeDevice_effect change_password_effect)

lemma save_account_Inr:
  "save_account e i out us ds s = (Inr (), s') \<Longrightarrow> st_users s' = us \<and> st_devices s' = ds"
  by (auto simp: save_account_def saveLocked_def split: if_splits)

lemma draw_case: "(case draw e of Inl err \<Rightarrow> (Inl err, s) | Inr (salt, e') \<Rightarrow> f salt e') = (Inr (), s') \<Longrightarrow> \<exists>salt e'. f salt e' = (Inr (), s')"
  by (auto split: sum.splits)

text \<open>A withdrawal that succeeds raises the version of the device of the grant.\<close>

lemma withdraw_devices:
  assumes "withdraw e w g s = (Inr (), s')" "distinct (map d_id (st_devices s))"
    "\<And>d. d \<in> set (st_devices s) \<Longrightarrow> d_id d = dg_device g \<Longrightarrow> d_owner d = dg_owner g"
    "d' \<in> set (st_devices s')" "d_id d' = dg_device g"
  shows "\<exists>d \<in> set (st_devices s). d_id d = dg_device g \<and> d' = invalidateDevice d"
proof (cases "w = Revoking")
  case True
  with assms(1) obtain k where k: "device_index (dg_owner g) (dg_device g) s = Some k"
    by (cases "device_index (dg_owner g) (dg_device g) s") (auto simp: RevokeDevice_def)
  note lt = device_index_Some [OF k]
  from True assms(1) k have "st_devices s' = (st_devices s)[k := invalidateDevice (st_devices s ! k)]"
    by (auto simp: RevokeDevice_def replaceDeviceLocked_def saveLocked_def set_devices_def split: if_splits)
  with assms(4) obtain j where j: "j < length (st_devices s)" "d' = (st_devices s)[k := invalidateDevice (st_devices s ! k)] ! j"
    by (auto simp: in_set_conv_nth)
  have "j = k"
  proof (rule ccontr)
    assume "j \<noteq> k"
    with j assms(5) lt have "d_id (st_devices s ! j) = d_id (st_devices s ! k)" by simp
    with \<open>j \<noteq> k\<close> nth_eq_iff_index_eq [OF assms(2), of j k] j(1) lt show False by simp
  qed
  with j lt show ?thesis by (intro bexI [of _ "st_devices s ! k"]) auto
next
  case False
  have "st_devices s' = invalidateOwnerDevicesLocked (dg_owner g) (st_devices s)"
    using assms(1) False
    by (cases w) (auto simp: SetDisabled_def BeginDelete_def change_password_end_def Let_def dest!: save_account_Inr
        split: option.splits if_splits prod.splits sum.splits)
  with assms(4) obtain d where "d \<in> set (st_devices s)" "d' = (if d_owner d = dg_owner g then invalidateDevice d else d)"
    by (auto simp: invalidateOwnerDevicesLocked_def)
  then show ?thesis using assms(3) [of d] assms(5) by (intro bexI [of _ d]) (auto split: if_splits)
qed

lemma checkGrant_None:
  assumes "checkGrantLocked e g scopes s = None"
  shows "\<exists>d \<in> set (st_devices s). d_id d = dg_device g \<and> d_owner d = dg_owner g \<and> version d = dg_version g"
proof -
  from assms obtain k where k: "device_index (dg_owner g) (dg_device g) s = Some k"
    by (cases "device_index (dg_owner g) (dg_device g) s") (auto simp: checkGrantLocked_def split: if_splits)
  with assms device_index_Some [OF k] show ?thesis
    by (intro bexI [of _ "st_devices s ! k"]) (auto simp: checkGrantLocked_def Let_def split: if_splits)
qed

lemma grant_device:
  assumes "GrantForRequest e r scopes s = Inr g"
  shows "\<exists>d \<in> set (st_devices s). d_id d = dg_device g \<and> d_owner d = dg_owner g \<and> version d = dg_version g"
proof -
  from assms obtain k previous where c: "credentialLocked e (bearerToken (rq_authorization r)) s = Some (k, previous)"
    by (cases "credentialLocked e (bearerToken (rq_authorization r)) s") (auto simp: GrantForRequest_def Let_def split: if_splits)
  with assms credential_Some(1) [OF c] show ?thesis
    by (intro bexI [of _ "st_devices s ! k"]) (auto simp: GrantForRequest_def Let_def publicDevice_def split: if_splits)
qed

text \<open>Once the grant's version is passed, no check accepts it.\<close>

lemma beyond_refused: "beyond (dg_owner g) (dg_device g) (Suc (unat (dg_version g))) a \<Longrightarrow> checkGrantLocked e g scopes (ac_store a) \<noteq> None"
  using checkGrant_None by (fastforce simp: beyond_def)

lemma grant_beyond:
  assumes "store_ok (ac_drawn a) (ac_store a)" "GrantForRequest e r scopes (ac_store a) = Inr g"
  shows "beyond (dg_owner g) (dg_device g) (unat (dg_version g)) a"
proof -
  from assms(1) have ok: "distinct (map d_id (st_devices (ac_store a)))" "d_id ` set (st_devices (ac_store a)) \<subseteq> drawn_ids (ac_drawn a)"
    by (simp_all add: store_ok_def)
  obtain d where d: "d \<in> set (st_devices (ac_store a))" "d_id d = dg_device g" "d_owner d = dg_owner g" "version d = dg_version g"
    using grant_device [OF assms(2)] by blast
  have "x = d" if "x \<in> set (st_devices (ac_store a))" "d_id x = dg_device g" for x
    using ok(1) that d(1,2) by (metis distinct_map inj_onD)
  with d ok(2) show ?thesis unfolding beyond_def by (metis image_subset_iff order_refl)
qed

lemma withdraw_beyond:
  assumes H: "good_hash H" and "sane_accounts H e a" "store_ok (ac_drawn a) (ac_store a)" "beyond (dg_owner g) (dg_device g) v a"
    "versions_below n (ac_store a)" "n < 2 ^ 64 - 1" "withdraw e w g (ac_store a) = (Inr (), s')"
    "ac_store b = s'" "ac_drawn b = raws e @ ac_drawn a"
  shows "beyond (dg_owner g) (dg_device g) (Suc v) b"
proof -
  have ef: "effect e (ac_store a) s'" using withdraw_effect [of e "ac_store a" w g] assms(7) by simp
  from beyond_effect [OF assms(2) ef assms(5,6,4,8,9)] have b: "beyond (dg_owner g) (dg_device g) v b" .
  have "Suc v \<le> unat (version d')" if d': "d' \<in> set (st_devices s')" "d_id d' = dg_device g" for d'
  proof -
    obtain d where d: "d \<in> set (st_devices (ac_store a))" "d_id d = dg_device g" "d' = invalidateDevice d"
      using withdraw_devices [OF assms(7) _ _ d'] assms(3,4) by (auto simp: store_ok_def beyond_def)
    then have "d_version d' = version d + 1" "v \<le> unat (version d)" "unat (version d) \<le> n"
      using assms(4,5) by (auto simp: beyond_def versions_below_def)
    moreover from this(3) assms(6) have "unat (version d + 1) = Suc (unat (version d))"
      by (simp add: unat_plus_simple word_le_nat_alt unat_add_lem [THEN iffD1])
    moreover from this have "version d + 1 \<noteq> 0" by (metis nat.distinct(1) unat_0)
    ultimately show ?thesis by (simp add: publicDevice_def)
  qed
  with b show ?thesis by (simp add: beyond_def assms(8))
qed

lemma withdrawn_stays:
  assumes H: "good_hash H" and run: "account_run H m accounts_start x" "account_run H n x a"
    and grant: "GrantForRequest e0 r scopes (ac_store x) = Inr g"
    and gone: "sane_accounts H e a" "withdraw e w g (ac_store a) = (Inr (), s')" "ac_store b = s'" "ac_drawn b = raws e @ ac_drawn a"
    and later: "account_run H k b z" and few: "m + n + k + 2 < 2 ^ 64"
  shows "checkGrantLocked e' g scopes' (ac_store z) \<noteq> None"
proof -
  note okx = store_ok_run [OF H run(1) store_ok_start]
  note oka = store_ok_run [OF H run(2) okx]
  have vx: "versions_below (m + 1) (ac_store x)"
    using versions_run [OF H run(1) store_ok_start versions_start] few by simp
  have va: "versions_below (n + (m + 1)) (ac_store a)" "beyond (dg_owner g) (dg_device g) (unat (dg_version g)) a"
    using versions_run [OF H run(2) okx vx] grant_beyond [OF okx grant] few by auto
  have lt: "n + (m + 1) < 2 ^ 64 - 1" using few by simp
  have ef: "effect e (ac_store a) s'" using withdraw_effect [of e "ac_store a" w g] gone(2) by simp
  have b: "beyond (dg_owner g) (dg_device g) (Suc (unat (dg_version g))) b"
    by (rule withdraw_beyond [OF H gone(1) oka va(2,1) lt gone(2,3,4)])
  have okb: "store_ok (ac_drawn b) (ac_store b)" using store_ok_effect [OF oka gone(1) ef] gone(3,4) by simp
  have vb: "versions_below (Suc (n + (m + 1))) (ac_store b)" using versions_effect [OF ef va(1) lt] gone(3) by simp
  have "beyond (dg_owner g) (dg_device g) (Suc (unat (dg_version g))) z"
    using versions_run [OF H later okb vb] b few by simp
  then show ?thesis by (rule beyond_refused)
qed

section \<open>Publications\<close>

text \<open>What a check asks apart from the time.\<close>

definition stands :: "(string \<Rightarrow> string) \<Rightarrow> device_grant \<Rightarrow> string list \<Rightarrow> user_store \<Rightarrow> bool" where
  "stands H g scopes s \<longleftrightarrow>
     (case (device_index (dg_owner g) (dg_device g) s, user_index (dg_owner g) s) of
        (Some k, Some j) \<Rightarrow>
          (let d = st_devices s ! k; u = st_users s ! j
           in \<not> u_disabled u \<and> \<not> u_deleting u \<and> \<not> d_revoked d \<and> d_token_hash d \<noteq> '''' \<and> d_password_version d = H (u_verifier u)
              \<and> version d = dg_version g \<and> list_all (\<lambda>want. want \<in> set (dg_scopes g)) scopes \<and> deviceScopes d (dg_scopes g))
      | _ \<Rightarrow> False)"

text \<open>The grant or its device ran out.\<close>

definition ran_out :: "account_env \<Rightarrow> device_grant \<Rightarrow> user_store \<Rightarrow> bool" where
  "ran_out e g s \<longleftrightarrow> \<not> time_before (ae_now e) (dg_expires g)
     \<or> (case device_index (dg_owner g) (dg_device g) s of
          None \<Rightarrow> False | Some k \<Rightarrow> \<not> time_before (ae_now e) (d_expires (st_devices s ! k)))"

lemma checkGrant_stands:
  assumes "ae_hash e = H"
  shows "checkGrantLocked e g scopes s = None \<longleftrightarrow> stands H g scopes s \<and> \<not> ran_out e g s"
proof (cases "device_index (dg_owner g) (dg_device g) s")
  case (Some k)
  from device_index_Some [OF this] have "d_owner (st_devices s ! k) = dg_owner g" by simp
  with Some assms show ?thesis
    by (cases "user_index (dg_owner g) s")
       (auto simp: checkGrantLocked_def stands_def ran_out_def deviceActiveLocked_def Let_def)
qed (simp add: checkGrantLocked_def stands_def)

lemma index_map: "find_index p xs = find_index q ys" if "map p xs = map q ys"
  using that by (induction xs arbitrary: ys) (auto simp: Cons_eq_map_conv)

lemma index_append: "find_index p xs = Some k \<Longrightarrow> find_index p (xs @ ys) = Some k"
  by (induction xs arbitrary: k) (auto split: if_splits)

text \<open>A mild effect keeps what the owner's check reads.\<close>

lemma mild_user:
  assumes "mild_effect e s s'" "user_index i s = Some j"
  shows "user_index i s' = Some j \<and> (u_disabled (st_users s' ! j) \<longrightarrow> u_disabled (st_users s ! j))
    \<and> u_deleting (st_users s' ! j) = u_deleting (st_users s ! j) \<and> u_verifier (st_users s' ! j) = u_verifier (st_users s ! j)"
  using assms(1)
proof cases
  case keeps
  have l: "length (st_users s') = length (st_users s)" using keeps(1) by (metis length_map)
  have "map (\<lambda>u. u_id u = i) (st_users s') = map (\<lambda>u. u_id u = i) (st_users s)" by (rule map_core_map [OF keeps(1)]) simp
  from index_map [OF this] have "user_index i s' = Some j" using assms(2) by (simp add: user_index_def)
  moreover have "core (st_users s' ! j) = core (st_users s ! j)"
    using keeps(1) l user_index_Some [OF assms(2)] by (metis nth_map)
  then have "u_disabled (st_users s' ! j) = u_disabled (st_users s ! j)" "u_deleting (st_users s' ! j) = u_deleting (st_users s ! j)"
    "u_verifier (st_users s' ! j) = u_verifier (st_users s ! j)" by (metis core_fields(3), metis core_fields(4), metis core_fields(5))
  ultimately show ?thesis by simp
next
  case (adds_user u raw)
  then show ?thesis using assms(2) user_index_Some [OF assms(2)] by (simp add: user_index_def index_append nth_append)
next
  case (eases_user k u)
  have "map (\<lambda>u. u_id u = i) (st_users s') = map (\<lambda>u. u_id u = i) (st_users s)"
    unfolding eases_user(2) map_update eases_user(5) by (metis list_update_id map_update)
  from index_map [OF this] have "user_index i s' = Some j" using assms(2) by (simp add: user_index_def)
  then show ?thesis using eases_user by (cases "j = k") simp_all
next
  case (adds_device d raw token)
  then show ?thesis using assms(2) by (simp add: user_index_def)
qed

lemma mild_device:
  assumes "mild_effect e s s'" "device_index owner i s = Some k"
  shows "device_index owner i s' = Some k \<and> st_devices s' ! k = st_devices s ! k"
  using assms(1)
proof cases
  case (adds_device d raw token)
  then show ?thesis using assms(2) device_index_Some [OF assms(2)] by (simp add: device_index_def index_append nth_append)
qed (use assms(2) in \<open>simp_all add: device_index_def\<close>)

lemma stands_mild:
  assumes "mild_effect e s s'" "stands H g scopes s"
  shows "stands H g scopes s'"
proof -
  from assms(2) obtain k j where kj: "device_index (dg_owner g) (dg_device g) s = Some k" "user_index (dg_owner g) s = Some j"
    by (auto simp: stands_def split: option.splits)
  from mild_device [OF assms(1) kj(1)] mild_user [OF assms(1) kj(2)] kj assms(2) show ?thesis
    by (auto simp: stands_def Let_def)
qed

definition publishing_ok :: "(string \<Rightarrow> string) \<Rightarrow> accounts \<Rightarrow> bool" where
  "publishing_ok H a \<longleftrightarrow> (\<forall>(g, scopes) \<in> set (ac_publishing a). stands H g scopes (ac_store a))
     \<and> (ac_holder a \<noteq> None \<longrightarrow> ac_publishing a = [])"

lemma publishing_step:
  assumes H: "good_hash H" and "account_step H a b" "store_ok (ac_drawn a) (ac_store a)" "publishing_ok H a"
  shows "publishing_ok H b"
  using assms(2)
proof cases
  case (step_call e c)
  then show ?thesis using assms(4) call_effect [OF env_hash [OF H]] stands_mild by (fastforce simp: publishing_ok_def)
next
  case (step_publish e g scopes)
  then show ?thesis using assms(4) checkGrant_stands [of e H g scopes "ac_store a"] by (auto simp: publishing_ok_def sane_accounts_def)
next
  case (step_published p)
  have "set (remove1 p (ac_publishing a)) \<subseteq> set (ac_publishing a)" by (rule set_remove1_subset)
  then show ?thesis using step_published assms(4) by (auto simp: publishing_ok_def)
qed (use assms(4) in \<open>auto simp: publishing_ok_def\<close>)

lemma publishing_run:
  assumes H: "good_hash H" and "account_run H n a b" "store_ok (ac_drawn a) (ac_store a)" "publishing_ok H a"
  shows "publishing_ok H b"
  using assms(2-)
proof induction
  case (run_step n a b c)
  from store_ok_run [OF H run_step.hyps(1) run_step.prems(1)] run_step show ?case by (blast intro: publishing_step [OF H])
qed

lemma publishing_start: "publishing_ok H accounts_start"
  by (simp add: publishing_ok_def accounts_start_def)

end
