(* ===== verification/User_Facts.thy ===== *)
theory User_Facts
  imports User_Grants
begin

text \<open>
  What the answers of the accounts rest on: a secret belongs to one device, a rotation can be repeated, the
  scopes of photos open the routes of photos only, and a restart finds what the process held.
\<close>

section \<open>A secret belongs to one device\<close>

lemma secret_mem: "secret_used h d \<longleftrightarrow> h \<noteq> '''' \<and> h \<in> set (device_hashes d)"
  by (auto simp: secret_used_def equalHash_def device_hashes_def)

lemma secret_once:
  assumes "store_ok drawn s" "j < length (st_devices s)" "k < length (st_devices s)"
    "secret_used h (st_devices s ! j)" "secret_used h (st_devices s ! k)"
  shows "j = k"
proof (rule ccontr)
  assume "j \<noteq> k"
  with hashes_nth [of "st_devices s" j k] assms have "set (device_hashes (st_devices s ! j)) \<inter> set (device_hashes (st_devices s ! k)) = {}"
    by (simp add: store_ok_def)
  with assms(4,5) show False by (auto simp: secret_mem)
qed

lemma filter_unique:
  assumes "k < length xs" "p (xs ! k)" "\<And>j. j < length xs \<Longrightarrow> p (xs ! j) \<Longrightarrow> j = k"
  shows "filter p xs = [xs ! k]"
proof -
  have a: "filter p (take k xs) = []"
  proof -
    have False if "j < k" "p (xs ! j)" for j using assms(3) [of j] that assms(1) by simp
    then show ?thesis using assms(1) by (auto simp: filter_empty_conv set_conv_nth [of "take k xs"])
  qed
  have b: "filter p (drop (Suc k) xs) = []"
  proof -
    have False if j: "j < length xs - Suc k" "p (xs ! Suc (k + j))" for j
    proof -
      have "Suc (k + j) < length xs" using j(1) by linarith
      with assms(3) j(2) show False by fastforce
    qed
    then show ?thesis by (auto simp: filter_empty_conv set_conv_nth [of "drop (Suc k) xs"])
  qed
  from id_take_nth_drop [OF assms(1)] a b assms(2) show ?thesis by (metis append.left_neutral filter.simps(2) filter_append)
qed

section \<open>Repeating a rotation\<close>

lemma credential_at:
  assumes "k < length ds" "\<And>j. j < k \<Longrightarrow> \<not> secret_used h (ds ! j)" "deviceActiveLocked e s (ds ! k)"
    "\<not> equalHash h (d_token_hash (ds ! k))" "equalHash h (d_previous_hash (ds ! k))"
    "time_before (ae_now e) (d_previous_until (ds ! k))" "time_before (ae_now e) (d_previous_expires (ds ! k))"
  shows "credential_from e s h n ds = Some (n + k, True)"
  using assms
proof (induction ds arbitrary: k n)
  case (Cons d ds)
  show ?case
  proof (cases k)
    case 0
    with Cons.prems show ?thesis by simp
  next
    case (Suc i)
    have "\<not> secret_used h d" using Cons.prems(2) [of 0] Suc by simp
    moreover have "credential_from e s h (Suc n) ds = Some (Suc n + i, True)"
    proof (rule Cons.IH)
      show "\<not> secret_used h (ds ! j)" if "j < i" for j using Cons.prems(2) [of "Suc j"] Suc that by simp
    qed (use Cons.prems Suc in simp_all)
    ultimately show ?thesis by (simp add: secret_used_def Suc)
  qed
qed simp

lemma rotation_shape:
  assumes "RotateDevice e r i operation expected secret s = (Inr d, s')" "s' \<noteq> s"
  obtains k where "credentialLocked e (bearerToken (rq_authorization r)) s = Some (k, False)"
    "d_id (st_devices s ! k) = i" "\<not> secret_used (ae_hash e secret) (st_devices s ! k)"
    "validRotation operation secret expected" "bearerToken (rq_authorization r) \<noteq> ''''"
    "s' = s\<lparr>st_devices := (st_devices s)[k := rotated e operation expected (ae_hash e secret) (st_devices s ! k)],
            st_file := Some \<lparr>uf_version = 2, uf_users = st_users s, uf_requests = st_requests s,
              uf_devices = (st_devices s)[k := rotated e operation expected (ae_hash e secret) (st_devices s ! k)]\<rparr>\<rparr>"
    "d = publicDevice (rotated e operation expected (ae_hash e secret) (st_devices s ! k))"
proof -
  from assms have v: "validRotation operation secret expected" "bearerToken (rq_authorization r) \<noteq> ''''"
    by (auto simp: RotateDevice_def split: if_splits)
  with assms obtain k previous where c: "credentialLocked e (bearerToken (rq_authorization r)) s = Some (k, previous)"
    by (cases "credentialLocked e (bearerToken (rq_authorization r)) s") (auto simp: RotateDevice_def)
  let ?d = "st_devices s ! k"
  from assms v c have g: "d_id ?d = i" "\<not> previous" "\<not> secret_used (ae_hash e secret) ?d"
    by (auto simp: RotateDevice_def Let_def split: if_splits)
  moreover from assms v c g have "replaceDeviceLocked e k (rotated e operation expected (ae_hash e secret) ?d) s = (Inr (), s')
      \<and> d = publicDevice (rotated e operation expected (ae_hash e secret) ?d)"
    by (auto simp: RotateDevice_def Let_def split: if_splits prod.splits sum.splits)
  ultimately show thesis using that [of k] c v
    by (simp add: replaceDeviceLocked_def saveLocked_def set_devices_def split: if_splits)
qed

lemma rotation_repeats:
  assumes H: "good_hash H" and hs: "ae_hash e = H" "ae_hash e' = H" and ok: "store_ok drawn s"
    and done0: "RotateDevice e r i operation expected secret s = (Inr d, s')" "s' \<noteq> s"
    and soon: "instant (ae_now e') < instant (ae_now e) + DeviceGrace"
      "\<And>x. x \<in> set (st_devices s) \<Longrightarrow> d_id x = i \<Longrightarrow> time_before (ae_now e') (d_expires x)"
  shows "RotateDevice e' r i operation expected secret s' = (Inr d, s')"
proof -
  from done0 obtain k where k: "credentialLocked e (bearerToken (rq_authorization r)) s = Some (k, False)"
    "d_id (st_devices s ! k) = i" "\<not> secret_used (ae_hash e secret) (st_devices s ! k)"
    "validRotation operation secret expected" "bearerToken (rq_authorization r) \<noteq> ''''"
    "s' = s\<lparr>st_devices := (st_devices s)[k := rotated e operation expected (ae_hash e secret) (st_devices s ! k)],
            st_file := Some \<lparr>uf_version = 2, uf_users = st_users s, uf_requests = st_requests s,
              uf_devices = (st_devices s)[k := rotated e operation expected (ae_hash e secret) (st_devices s ! k)]\<rparr>\<rparr>"
    "d = publicDevice (rotated e operation expected (ae_hash e secret) (st_devices s ! k))" by (rule rotation_shape)
  let ?d = "st_devices s ! k" and ?t = "bearerToken (rq_authorization r)"
  let ?d' = "rotated e operation expected (H secret) ?d"
  note c = credential_Some [OF k(1)]
  have tok: "H ?t \<noteq> ''''" "H secret \<noteq> ''''" using H unfolding good_hash_def by (metis rangeI)+
  have old: "d_token_hash ?d = H ?t" using c(5) hs by (simp add: equalHash_def)
  have exp: "time_before (ae_now e') (d_expires ?d)" using soon(2) c(1) k(2) by simp
  have act: "deviceActiveLocked e' s' ?d'"
    using c(2) soon(1) tok hs by (auto simp: deviceActiveLocked_def k(6) rotated_def user_index_def Let_def time_before_def
        add_time_def deviceTTL_def DeviceGrace_def hour_def split: option.splits)
  have "credential_from e' s' (H ?t) 0 ((st_devices s)[k := ?d']) = Some (0 + k, True)"
  proof (rule credential_at)
    show "k < length ((st_devices s)[k := ?d'])" using c(1) by simp
    show "\<not> secret_used (H ?t) ((st_devices s)[k := ?d'] ! j)" if "j < k" for j
    proof
      assume "secret_used (H ?t) ((st_devices s)[k := ?d'] ! j)"
      then have "secret_used (ae_hash e ?t) (st_devices s ! j)" using that hs by simp
      then have "j = k" using secret_once [OF ok _ c(1) _ c(3), of j] that c(1) by simp
      with that show False by simp
    qed
    show "deviceActiveLocked e' s' ((st_devices s)[k := ?d'] ! k)" using act c(1) by simp
    have "H ?t \<noteq> H secret" using k(3) old tok hs by (auto simp: secret_used_def equalHash_def)
    then show "\<not> equalHash (H ?t) (d_token_hash ((st_devices s)[k := ?d'] ! k))"
      using c(1) by (simp add: rotated_def Let_def equalHash_def)
    show "equalHash (H ?t) (d_previous_hash ((st_devices s)[k := ?d'] ! k))"
      using c(1) old tok by (simp add: rotated_def Let_def equalHash_def)
    show "time_before (ae_now e') (d_previous_until ((st_devices s)[k := ?d'] ! k))"
      using c(1) exp soon(1) by (simp add: rotated_def Let_def time_before_def add_time_def)
    show "time_before (ae_now e') (d_previous_expires ((st_devices s)[k := ?d'] ! k))"
      using c(1) exp by (simp add: rotated_def Let_def)
  qed
  then have "credentialLocked e' ?t s' = Some (k, True)" by (simp add: credentialLocked_def k(6) hs)
  then show ?thesis using k c(1) tok hs
    by (simp add: RotateDevice_def Let_def rotated_def equalHash_def)
qed

section \<open>Routes\<close>

definition photo_routes :: "request \<Rightarrow> bool" where
  "photo_routes r \<longleftrightarrow> take 4 (split_on (CHR ''/'') (rq_path r)) = ['''', ''api'', ''v1'', ''photos'']"

lemma literal_start:
  assumes "list_all2 segment_matches ps qs" "take n ps = ls" "''*'' \<notin> set ls"
  shows "take n qs = ls"
  using assms
proof (induction ps qs arbitrary: n ls rule: list_all2_induct)
  case (Cons p ps q qs)
  then show ?case by (cases n) (auto simp: segment_matches_def)
qed simp

lemma photo_grants:
  "list_all (\<lambda>g. (rg_legacy g \<or> set (rg_scopes g) \<subseteq> {PhotosRead, PhotosWrite} \<or> set (rg_scopes g) \<subseteq> {LegacyPhotos})
     \<longrightarrow> take 4 (split_on (CHR ''/'') (rg_path g)) = ['''', ''api'', ''v1'', ''photos'']) deviceGrants"
  by code_simp

lemma photo_device_routes:
  assumes "AllowsRequest d r" "\<not> own_routes d r" "d_scopes d = None \<or> set (GrantedScopes d) \<subseteq> {PhotosRead, PhotosWrite}"
  shows "photo_routes r"
proof -
  from assms(1,2) obtain g where g: "List.find (\<lambda>g. rg_method g = rq_method r \<and> routeMatches (rg_path g) (rq_path r)) deviceGrants = Some g"
    and s: "d_scopes d = None \<and> rg_legacy g \<or> HasScopes d (rg_scopes g)"
    by (auto simp: AllowsRequest_def split: option.splits)
  from g have g': "g \<in> set deviceGrants" "routeMatches (rg_path g) (rq_path r)" by (auto simp: find_Some_iff)
  have "rg_legacy g \<or> set (rg_scopes g) \<subseteq> {PhotosRead, PhotosWrite} \<or> set (rg_scopes g) \<subseteq> {LegacyPhotos}"
    using s assms(3) by (auto simp: HasScopes_def GrantedScopes_def list_all_iff subset_iff)
  with photo_grants g'(1) have "take 4 (split_on (CHR ''/'') (rg_path g)) = ['''', ''api'', ''v1'', ''photos'']"
    by (auto simp: list_all_iff)
  from literal_start [OF g'(2) [unfolded routeMatches_def] this] show ?thesis by (simp add: photo_routes_def)
qed

section \<open>A restart\<close>

lemma restart_reads:
  assumes "in_file s"
  shows "fst (open_users e True (st_file s)) = Inr () \<and> st_devices (snd (open_users e True (st_file s))) = st_devices s
    \<and> map core (st_users (snd (open_users e True (st_file s)))) = map core (st_users s)
    \<and> st_sessions (snd (open_users e True (st_file s))) = []"
  using assms by (auto simp: in_file_def open_users_def load_users_def empty_users_def Let_def split: option.splits)

section \<open>A disabled administrator\<close>

text \<open>
  With the cleanup of a disabled administrator pending and one administrator active, the repetition of the
  call is refused and so is the return of the account.
\<close>

lemma pending_admin_stuck:
  assumes "user_index i s = Some k" "u_admin (st_users s ! k)" "u_disable_pending (st_users s ! k)" "activeAdminsLocked s = 1"
  shows "snd (SetDisabled e i disabled s) = s \<and> (\<exists>err. fst (SetDisabled e i disabled s) = Inl err)"
  using assms by (auto simp: SetDisabled_def Let_def)

end
