(* ===== verification/User_Lifecycle.thy ===== *)
theory User_Lifecycle
  imports User_Facts
begin

text \<open>
  \<^verbatim>\<open>internal/accountlifecycle\<close>: disabling and deleting an account across the components that hold its work.
  The other components answer each call, possibly differently after different histories; the calls on the
  accounts themselves are those of the users component.
\<close>

section \<open>The manager\<close>

datatype owner_call =
    On_accounts
  | Block string
  | DrainResource string
  | CleanupOwner string
  | RevokeAll string
  | DeleteUploads string
  | DeleteCapsules string
  | ReleaseSharedOwner string
  | RemoveAll string
  | Open_owner string

datatype lifecycle_error = Not_exist | From_users user_error | At_stage string

record lifecycle =
  lc_store :: user_store
  lc_calls :: "owner_call list"

text \<open>
  \<open>lv_ok h c\<close>: whether the call \<open>c\<close> succeeds after the calls \<open>h\<close>; \<open>lv_env h\<close>: the surroundings of a call on
  the accounts after \<open>h\<close>.
\<close>

record lifecycle_env =
  lv_ok :: "owner_call list \<Rightarrow> owner_call \<Rightarrow> bool"
  lv_env :: "owner_call list \<Rightarrow> account_env"
  lv_root :: string

fun try_stages :: "lifecycle_env \<Rightarrow> (owner_call \<times> string) list \<Rightarrow> owner_call list \<Rightarrow> string option \<times> owner_call list" where
  "try_stages v [] h = (None, h)"
| "try_stages v ((c, stage) # cs) h = (if lv_ok v h c then try_stages v cs (h @ [c]) else (Some stage, h @ [c]))"

text \<open>A call on the accounts.\<close>

definition on_accounts ::
  "lifecycle_env \<Rightarrow> (account_env \<Rightarrow> user_store \<Rightarrow> (user_error + 'a) \<times> user_store) \<Rightarrow> lifecycle \<Rightarrow> (user_error + 'a) \<times> lifecycle" where
  "on_accounts v f l =
     (case f (lv_env v (lc_calls l)) (lc_store l) of
        (res, s) \<Rightarrow> (res, l\<lparr>lc_store := s, lc_calls := lc_calls l @ [On_accounts]\<rparr>))"

definition of_users :: "(user_error + 'a) \<times> lifecycle \<Rightarrow> (lifecycle_error + unit) \<times> lifecycle" where
  "of_users p = (case p of (Inl err, l) \<Rightarrow> (Inl (From_users err), l) | (Inr x, l) \<Rightarrow> (Inr (), l))"

definition fail_disable :: "lifecycle_env \<Rightarrow> string \<Rightarrow> string \<Rightarrow> lifecycle \<Rightarrow> (lifecycle_error + unit) \<times> lifecycle" where
  "fail_disable v i stage l = (Inl (At_stage stage), snd (on_accounts v (\<lambda>e. SetDisableError e i stage) l))"

definition disable_stages :: "string \<Rightarrow> (owner_call \<times> string) list" where
  "disable_stages i = [(Block i, ''draining''), (DrainResource i, ''draining''), (CleanupOwner i, ''mobile staging''),
     (RevokeAll i, ''grab links'')]"

definition SetDisabledOwner :: "lifecycle_env \<Rightarrow> string \<Rightarrow> bool \<Rightarrow> lifecycle \<Rightarrow> (lifecycle_error + unit) \<times> lifecycle" where
  "SetDisabledOwner v i disabled l =
     (case find_user i (lc_store l) of
        None \<Rightarrow> (Inl Not_exist, l)
      | Some u \<Rightarrow>
          (case on_accounts v (\<lambda>e. SetDisabled e i disabled) l of
             (Inl err, l1) \<Rightarrow> (Inl (From_users err), l1)
           | (Inr x, l1) \<Rightarrow>
               if \<not> disabled then (Inr (), l1\<lparr>lc_calls := lc_calls l1 @ [Open_owner i]\<rparr>)
               else (case try_stages v (disable_stages i) (lc_calls l1) of
                       (Some stage, h) \<Rightarrow> fail_disable v i stage (l1\<lparr>lc_calls := h\<rparr>)
                     | (None, h) \<Rightarrow> of_users (on_accounts v (\<lambda>e. SetDisableError e i '''') (l1\<lparr>lc_calls := h\<rparr>)))))"

definition fail_delete :: "lifecycle_env \<Rightarrow> string \<Rightarrow> string \<Rightarrow> lifecycle \<Rightarrow> (lifecycle_error + unit) \<times> lifecycle" where
  "fail_delete v i stage l = (Inl (At_stage stage), snd (on_accounts v (\<lambda>e. SetDeleteError e i stage) l))"

definition delete_stages :: "string \<Rightarrow> (owner_call \<times> string) list" where
  "delete_stages i = [(Block i, ''draining''), (DrainResource i, ''draining''), (CleanupOwner i, ''mobile staging''),
     (DeleteUploads i, ''uploads''), (DeleteCapsules i, ''grab links''), (ReleaseSharedOwner i, ''shared storage'')]"

definition finish :: "lifecycle_env \<Rightarrow> user \<Rightarrow> lifecycle \<Rightarrow> (lifecycle_error + unit) \<times> lifecycle" where
  "finish v u l =
     (let i = u_id u
      in case try_stages v (delete_stages i) (lc_calls l) of
           (Some stage, h) \<Rightarrow> fail_delete v i stage (l\<lparr>lc_calls := h\<rparr>)
         | (None, h) \<Rightarrow>
             (case DataPath (lv_root v) u of
                Inl err \<Rightarrow> fail_delete v i ''user data'' (l\<lparr>lc_calls := h\<rparr>)
              | Inr path \<Rightarrow>
                  (case try_stages v [(RemoveAll path, ''user data'')] h of
                     (Some stage, h) \<Rightarrow> fail_delete v i stage (l\<lparr>lc_calls := h\<rparr>)
                   | (None, h) \<Rightarrow>
                       (case on_accounts v (\<lambda>e. CompleteDelete e i) (l\<lparr>lc_calls := h\<rparr>) of
                          (Inl err, l1) \<Rightarrow> fail_delete v i ''account record'' l1
                        | (Inr x, l1) \<Rightarrow> (Inr (), l1)))))"

definition DeleteOwner :: "lifecycle_env \<Rightarrow> string \<Rightarrow> lifecycle \<Rightarrow> (lifecycle_error + unit) \<times> lifecycle" where
  "DeleteOwner v i l =
     (case on_accounts v (\<lambda>e. BeginDelete e i) l of
        (Inl err, l1) \<Rightarrow> (Inl (From_users err), l1)
      | (Inr u, l1) \<Rightarrow> finish v u l1)"

definition resume_one :: "lifecycle_env \<Rightarrow> user \<Rightarrow> lifecycle \<Rightarrow> (lifecycle_error + unit) \<times> lifecycle" where
  "resume_one v u l =
     (if u_deleting u then finish v u l
      else if u_disabled u \<and> u_disable_pending u then SetDisabledOwner v (u_id u) True l
      else (Inr (), l))"

text \<open>Every pending account is tried; the first error is returned.\<close>

fun resume_all :: "lifecycle_env \<Rightarrow> user list \<Rightarrow> lifecycle \<Rightarrow> (lifecycle_error + unit) \<times> lifecycle" where
  "resume_all v [] l = (Inr (), l)"
| "resume_all v (u # us) l =
     (case resume_one v u l of
        (Inl err, l1) \<Rightarrow> (Inl err, snd (resume_all v us l1))
      | (Inr x, l1) \<Rightarrow> resume_all v us l1)"

definition ResumePending :: "lifecycle_env \<Rightarrow> lifecycle \<Rightarrow> (lifecycle_error + unit) \<times> lifecycle" where
  "ResumePending v l = resume_all v (st_users (lc_store l)) l"

lemma DataPath_cases: "DataPath root u \<noteq> Inl ErrBadUserID \<longleftrightarrow> (\<exists>path. DataPath root u = Inr path)"
  unfolding DataPath_def by (cases "length (u_id u) \<noteq> 32 \<or> \<not> list_all (\<lambda>c. c \<in> set ''0123456789abcdef'') (u_id u)") (simp_all only: if_True if_False, simp_all)

section \<open>Stages\<close>

lemma try_stages_None:
  "try_stages v cs h = (None, h') \<Longrightarrow> h' = h @ map fst cs"
proof (induction cs arbitrary: h)
  case (Cons p cs)
  then show ?case using Cons.IH [of "h @ [fst p]"] by (cases p) (simp split: if_splits)
qed simp

lemma try_stages_ok: "(\<And>h c. lv_ok v h c) \<Longrightarrow> try_stages v cs h = (None, h @ map fst cs)"
  by (induction cs arbitrary: h) auto

text \<open>Every stage ran before the account record went, in order.\<close>

lemma SetDeleteError_ids: "map u_id (st_users (snd (SetDeleteError e i category s))) = map u_id (st_users s)"
proof (cases "user_index i s")
  case (Some k)
  then show ?thesis using user_index_Some [OF Some]
    by (simp add: SetDeleteError_def save_account_snd map_update Let_def) (metis list_update_id map_update)
qed (simp add: SetDeleteError_def)

lemma on_accounts_snd: "snd (on_accounts v f l) = l\<lparr>lc_store := snd (f (lv_env v (lc_calls l)) (lc_store l)), lc_calls := lc_calls l @ [On_accounts]\<rparr>"
  by (simp add: on_accounts_def split: prod.split)

lemma on_accounts_fst: "fst (on_accounts v f l) = fst (f (lv_env v (lc_calls l)) (lc_store l))"
  by (simp add: on_accounts_def split: prod.split)

lemma fail_delete_ids: "map u_id (st_users (lc_store (snd (fail_delete v i stage l)))) = map u_id (st_users (lc_store l))"
  by (simp add: fail_delete_def on_accounts_snd SetDeleteError_ids)

lemma complete_fails: "fst (CompleteDelete e i s) = Inl err \<Longrightarrow> snd (CompleteDelete e i s) = s"
  by (auto simp: CompleteDelete_def save_account_def saveLocked_def split: option.splits if_splits)

lemma finish_order:
  assumes "u_id u \<in> u_id ` set (st_users (lc_store l))" "u_id u \<notin> u_id ` set (st_users (lc_store (snd (finish v u l))))"
  shows "\<exists>path. DataPath (lv_root v) u = Inr path
    \<and> lc_calls (snd (finish v u l)) = lc_calls l @ map fst (delete_stages (u_id u)) @ [RemoveAll path, On_accounts]"
proof -
  have kept: False if "snd (finish v u l) = snd (fail_delete v i stage l')" "map u_id (st_users (lc_store l')) = map u_id (st_users (lc_store l))" for i stage l'
    using assms that fail_delete_ids by (metis list.set_map)
  obtain o1 h1 where t: "try_stages v (delete_stages (u_id u)) (lc_calls l) = (o1, h1)" by fastforce
  have "o1 = None" using kept [of "u_id u" "the o1" "l\<lparr>lc_calls := h1\<rparr>"] t by (cases o1) (auto simp: finish_def Let_def)
  with t have h1: "h1 = lc_calls l @ map fst (delete_stages (u_id u))" using try_stages_None by blast
  have "\<exists>path. DataPath (lv_root v) u = Inr path"
    using kept [of "u_id u" "''user data''" "l\<lparr>lc_calls := h1\<rparr>"] t \<open>o1 = None\<close>
    by (cases "DataPath (lv_root v) u") (auto simp: finish_def Let_def)
  then obtain path where path: "DataPath (lv_root v) u = Inr path" by blast
  obtain o2 h2 where r: "try_stages v [(RemoveAll path, ''user data'')] h1 = (o2, h2)" by fastforce
  have "o2 = None" using kept [of "u_id u" "the o2" "l\<lparr>lc_calls := h2\<rparr>"] t \<open>o1 = None\<close> path r by (cases o2) (auto simp: finish_def Let_def)
  with r have h2: "h2 = h1 @ [RemoveAll path]" by (auto split: if_splits)
  obtain res l1 where c: "on_accounts v (\<lambda>e. CompleteDelete e (u_id u)) (l\<lparr>lc_calls := h2\<rparr>) = (res, l1)" by fastforce
  have "\<exists>x. res = Inr x"
  proof (cases res)
    case (Inl err)
    with c have "st_users (lc_store l1) = st_users (lc_store l)"
      using complete_fails [of "lv_env v h2" "u_id u" "lc_store l" err]
        on_accounts_fst [of v "\<lambda>e. CompleteDelete e (u_id u)" "l\<lparr>lc_calls := h2\<rparr>"]
        on_accounts_snd [of v "\<lambda>e. CompleteDelete e (u_id u)" "l\<lparr>lc_calls := h2\<rparr>"] by simp
    then show ?thesis using kept [of "u_id u" "''account record''" l1] t \<open>o1 = None\<close> path r \<open>o2 = None\<close> c Inl by (simp add: finish_def Let_def)
  qed simp
  then have "snd (finish v u l) = l1" using t \<open>o1 = None\<close> path r \<open>o2 = None\<close> c by (auto simp: finish_def Let_def)
  moreover have "lc_calls l1 = h2 @ [On_accounts]" using c by (auto simp: on_accounts_def split: prod.splits)
  ultimately show ?thesis using path h1 h2 by simp
qed

section \<open>Pending deletions end\<close>

abbreviation marks :: "user list \<Rightarrow> (string \<times> bool) list" where
  "marks us \<equiv> map (\<lambda>u. (u_id u, u_deleting u)) us"

lemma marks_update:
  assumes "k < length us" "u_id u = u_id (us ! k)" "u_deleting u = u_deleting (us ! k)"
  shows "marks (us[k := u]) = marks us"
proof -
  have "(u_id u, u_deleting u) = marks us ! k" using assms by simp
  then show ?thesis by (simp add: map_update)
qed

lemma SetDisabled_marks: "marks (st_users (snd (SetDisabled e i disabled s))) = marks (st_users s)"
proof (cases "user_index i s")
  case (Some k)
  then show ?thesis using user_index_Some [OF Some]
    by (simp add: SetDisabled_def save_account_snd marks_update Let_def)
qed (simp add: SetDisabled_def)

lemma SetDisableError_marks: "marks (st_users (snd (SetDisableError e i category s))) = marks (st_users s)"
proof (cases "user_index i s")
  case (Some k)
  then show ?thesis using user_index_Some [OF Some]
    by (simp add: SetDisableError_def save_account_snd marks_update Let_def)
qed (simp add: SetDisableError_def)

lemma of_users_snd: "snd (of_users p) = snd p"
  by (auto simp: of_users_def split: prod.split sum.split)

lemma SetDisabledOwner_marks: "marks (st_users (lc_store (snd (SetDisabledOwner v i disabled l)))) = marks (st_users (lc_store l))"
proof (cases "find_user i (lc_store l)")
  case (Some u)
  obtain res l1 where r: "on_accounts v (\<lambda>e. SetDisabled e i disabled) l = (res, l1)" by fastforce
  have m: "marks (st_users (lc_store l1)) = marks (st_users (lc_store l))"
    using r SetDisabled_marks [of "lv_env v (lc_calls l)" i disabled "lc_store l"]
      on_accounts_snd [of v "\<lambda>e. SetDisabled e i disabled" l] by simp
  show ?thesis unfolding SetDisabledOwner_def Some option.case r prod.case
    using m by (auto simp: fail_disable_def of_users_snd on_accounts_snd SetDisableError_marks split: sum.split option.split prod.split)
qed (simp add: SetDisabledOwner_def)

text \<open>With every answer favourable, a deletion that was begun ends.\<close>

definition favourable :: "lifecycle_env \<Rightarrow> bool" where
  "favourable v \<longleftrightarrow> (\<forall>h c. lv_ok v h c) \<and> (\<forall>h. ae_save (lv_env v h))"

lemma take_drop_set:
  assumes "k < length us" "distinct (map u_id us)"
  shows "set (take k us @ drop (Suc k) us) = {u \<in> set us. u_id u \<noteq> u_id (us ! k)}"
proof -
  have us: "us = take k us @ us ! k # drop (Suc k) us" by (rule id_take_nth_drop [OF assms(1)])
  have "distinct (map u_id (take k us @ us ! k # drop (Suc k) us))" using assms(2) us by simp
  then have "\<forall>u \<in> set (take k us @ drop (Suc k) us). u_id u \<noteq> u_id (us ! k)" by (auto simp: rev_image_eqI)
  moreover have "set us = insert (us ! k) (set (take k us @ drop (Suc k) us))" using arg_cong [OF us, of set] by simp
  ultimately show ?thesis by auto
qed

lemma CompleteDelete_good:
  assumes "ae_save e" "distinct (map u_id (st_users s))"
  shows "fst (CompleteDelete e i s) = Inr () \<and> set (st_users (snd (CompleteDelete e i s))) = {u \<in> set (st_users s). u_id u \<noteq> i}
    \<and> distinct (map u_id (st_users (snd (CompleteDelete e i s))))"
proof (cases "user_index i s")
  case None
  then have "\<forall>u \<in> set (st_users s). u_id u \<noteq> i" unfolding user_index_def by (simp add: find_index_None)
  with None assms(2) show ?thesis by (auto simp: CompleteDelete_def)
next
  case (Some k)
  note k = user_index_Some [OF Some]
  have "st_users (snd (CompleteDelete e i s)) = take k (st_users s) @ drop (Suc k) (st_users s)"
    using Some assms(1) by (simp add: CompleteDelete_def save_account_snd Let_def)
  moreover have "fst (CompleteDelete e i s) = Inr ()" using Some assms(1) by (simp add: CompleteDelete_def save_account_def saveLocked_def)
  ultimately show ?thesis
    using take_drop_set [of k "st_users s"] ids_take_drop [OF assms(2), of k] k assms(2) by simp
qed

lemma finish_good:
  assumes "favourable v" "distinct (map u_id (st_users (lc_store l)))" "DataPath (lv_root v) u = Inr path"
  shows "set (st_users (lc_store (snd (finish v u l)))) = {x \<in> set (st_users (lc_store l)). u_id x \<noteq> u_id u}
    \<and> distinct (map u_id (st_users (lc_store (snd (finish v u l)))))"
proof -
  have ok: "lv_ok v h c" "ae_save (lv_env v h)" for h c using assms(1) by (auto simp: favourable_def)
  let ?h = "(lc_calls l @ map fst (delete_stages (u_id u))) @ [RemoveAll path]"
  obtain res l1 where c: "on_accounts v (\<lambda>e. CompleteDelete e (u_id u)) (l\<lparr>lc_calls := ?h\<rparr>) = (res, l1)" by fastforce
  note good = CompleteDelete_good [OF ok(2) assms(2), of ?h "u_id u"]
  have "res = Inr ()" "lc_store l1 = snd (CompleteDelete (lv_env v ?h) (u_id u) (lc_store l))"
    using c good on_accounts_fst [of v "\<lambda>e. CompleteDelete e (u_id u)" "l\<lparr>lc_calls := ?h\<rparr>"]
      on_accounts_snd [of v "\<lambda>e. CompleteDelete e (u_id u)" "l\<lparr>lc_calls := ?h\<rparr>"] by simp_all
  moreover from this(1) have "snd (finish v u l) = l1"
    using c ok assms(3) by (simp add: finish_def Let_def try_stages_ok)
  ultimately show ?thesis using good by simp
qed

definition pending_deletions :: "lifecycle \<Rightarrow> string set" where
  "pending_deletions l = u_id ` {u \<in> set (st_users (lc_store l)). u_deleting u}"

lemma marks_pending: "marks (st_users (lc_store l')) = marks (st_users (lc_store l)) \<Longrightarrow>
    pending_deletions l' = pending_deletions l \<and> map u_id (st_users (lc_store l')) = map u_id (st_users (lc_store l))"
proof
  assume m: "marks (st_users (lc_store l')) = marks (st_users (lc_store l))"
  have "pending_deletions l = fst ` {p \<in> set (marks (st_users (lc_store l))). snd p}" for l
    unfolding pending_deletions_def by force
  then show "pending_deletions l' = pending_deletions l" using m by presburger
  have "map u_id us = map fst (marks us)" for us by simp
  then show "map u_id (st_users (lc_store l')) = map u_id (st_users (lc_store l))" using m by presburger
qed

lemma resume_one_good:
  assumes "favourable v" "distinct (map u_id (st_users (lc_store l)))" "DataPath (lv_root v) u = Inr path"
  shows "pending_deletions (snd (resume_one v u l)) \<subseteq> pending_deletions l - (if u_deleting u then {u_id u} else {})
    \<and> distinct (map u_id (st_users (lc_store (snd (resume_one v u l)))))"
proof (cases "u_deleting u")
  case True
  with finish_good [OF assms] show ?thesis by (auto simp: resume_one_def pending_deletions_def)
next
  case False
  then show ?thesis
    using assms(2) marks_pending [OF SetDisabledOwner_marks [of v "u_id u" True l]] by (simp add: resume_one_def)
qed

lemma resume_all_good:
  assumes "favourable v" "distinct (map u_id (st_users (lc_store l)))" "\<And>u. u \<in> set us \<Longrightarrow> \<exists>path. DataPath (lv_root v) u = Inr path"
  shows "pending_deletions (snd (resume_all v us l)) \<subseteq> pending_deletions l - u_id ` {u \<in> set us. u_deleting u}"
  using assms(2,3)
proof (induction us arbitrary: l)
  case (Cons u us)
  from Cons.prems(2) [of u] obtain path where "DataPath (lv_root v) u = Inr path" by auto
  note one = resume_one_good [OF assms(1) Cons.prems(1) this]
  have "snd (resume_all v (u # us) l) = snd (resume_all v us (snd (resume_one v u l)))"
    by (auto split: prod.split sum.split)
  with Cons.IH [of "snd (resume_one v u l)"] Cons.prems(2) one show ?case by (auto split: if_splits)
qed simp

section \<open>A disabled administrator\<close>

lemma stuck_owner:
  assumes "user_index i (lc_store l) = Some k" "u_admin (st_users (lc_store l) ! k)" "u_disable_pending (st_users (lc_store l) ! k)"
    "activeAdminsLocked (lc_store l) = 1"
  shows "\<exists>err. SetDisabledOwner v i disabled l = (Inl err, l\<lparr>lc_calls := lc_calls l @ [On_accounts]\<rparr>)"
proof -
  obtain err where "SetDisabled (lv_env v (lc_calls l)) i disabled (lc_store l) = (Inl err, lc_store l)"
    using pending_admin_stuck [OF assms, of "lv_env v (lc_calls l)" disabled] by (metis prod.collapse)
  moreover have "find_user i (lc_store l) \<noteq> None"
    using user_index_Some [OF assms(1)] by (auto simp: find_user_def find_None_iff in_set_conv_nth)
  ultimately show ?thesis by (auto simp: SetDisabledOwner_def on_accounts_def)
qed

end
