(* ===== verification/User_Samples.thy ===== *)
theory User_Samples
  imports User_Lifecycle "HOL-Library.Code_Target_Nat"
begin

text \<open>
  Concrete accounts: an administrator with a phone, a grant of it, its rotation and its revocation. They show
  that the hypotheses of the properties can hold together.
\<close>

section \<open>The surroundings\<close>

definition account_hash :: "string \<Rightarrow> string" where
  "account_hash x = CHR ''h'' # x"

lemma account_hash_good: "good_hash account_hash"
  by (auto simp: good_hash_def account_hash_def inj_def)

definition at_time :: "int \<Rightarrow> string list \<Rightarrow> account_env" where
  "at_time t ds = \<lparr>ae_now = zero_time\<lparr>instant := t\<rparr>, ae_wall = zero_time\<lparr>instant := t\<rparr>, ae_draws = map Some ds,
     ae_save = True, ae_mkdir = True, ae_hash = account_hash, ae_derive = (\<lambda>password salt. password @ salt)\<rparr>"

lemma at_time_hash [simp]: "ae_hash (at_time t ds) = account_hash"
  by (simp add: at_time_def)

lemma at_time_raws [simp]: "raws (at_time t ds) = ds"
  by (induction ds) (simp_all add: at_time_def raws_def List.map_filter_simps)

lemma sane_at:
  "distinct ds \<Longrightarrow> set ds \<inter> set (ac_drawn a) = {}
    \<Longrightarrow> \<forall>d \<in> set (st_devices (ac_store a)). \<forall>raw \<in> set ds. account_hash (hex_encode raw) \<notin> set (device_hashes d)
    \<Longrightarrow> sane_accounts account_hash (at_time t ds) a"
  by (simp add: sane_accounts_def)

section \<open>An administrator with a phone\<close>

definition owner_raw :: string where "owner_raw = ''the account root''"
definition phone_raw :: string where "phone_raw = ''the first phone!''"
definition token_raw :: string where "token_raw = ''the secret of the first phone!!!''"
definition owner_id :: string where "owner_id = ''746865206163636f756e7420726f6f74''"
definition phone_id :: string where "phone_id = ''7468652066697273742070686f6e6521''"
definition token_hex :: string where "token_hex = ''74686520736563726574206f66207468652066697273742070686f6e65212121''"
definition new_secret :: string where "new_secret = ''6120736563726574207468652070686f6e652063686f736520697473656c6621''"

definition accounts1 :: accounts where
  "accounts1 = (let e = at_time 1000 [''salt'', owner_raw]
    in after e (run_call e (Create_user ''admin'' ''password'' True) (ac_store accounts_start)) accounts_start)"

text \<open>The results are written out; the evaluations below start from them.\<close>

definition owner :: user where
  "owner = \<lparr>u_id = owner_id, u_username = ''admin'', u_full_name = '''', u_admin = True, u_disabled = False,
     u_disable_pending = False, u_deleting = False, u_delete_error = '''', u_disable_error = '''', u_salt = ''c2FsdA=='',
     u_verifier = ''cGFzc3dvcmRzYWx0'', u_created = zero_time\<lparr>instant := 1000\<rparr>\<rparr>"

lemma accounts1_code [code]:
  "accounts1 = \<lparr>ac_store = \<lparr>st_users = [owner], st_requests = [], st_devices = [], st_sessions = [],
       st_file = Some \<lparr>uf_version = 2, uf_users = [owner], uf_requests = [], uf_devices = []\<rparr>\<rparr>,
     ac_publishing = [], ac_holder = None, ac_drawn = [''salt'', owner_raw]\<rparr>"
  by code_simp

definition accounts2 :: accounts where
  "accounts2 = (let e = at_time 2000 [token_raw, phone_raw]
    in after e (run_call e (Create_device owner_id ''phone'' (Some [PhotosRead, PhotosWrite])) (ac_store accounts1)) accounts1)"

lemma run1: "account_run account_hash 1 accounts_start accounts1"
proof -
  have "sane_accounts account_hash (at_time 1000 [''salt'', owner_raw]) accounts_start"
    by (rule sane_at) code_simp+
  from run_step [OF run_start step_call [OF this, of "Create_user ''admin'' ''password'' True"]] show ?thesis
    by (simp del: run_call.simps add: accounts1_def Let_def)
qed

lemma run2: "account_run account_hash 2 accounts_start accounts2"
proof -
  have "sane_accounts account_hash (at_time 2000 [token_raw, phone_raw]) accounts1"
    by (rule sane_at) code_simp+
  from run_step [OF run1 step_call [OF this, of "Create_device owner_id ''phone'' (Some [PhotosRead, PhotosWrite])"]]
  show ?thesis by (simp del: run_call.simps add: accounts2_def Let_def numeral_2_eq_2)
qed

definition phone :: device where
  "phone = \<lparr>d_id = phone_id, d_owner = owner_id, d_name = ''phone'', d_created = zero_time\<lparr>instant := 2000\<rparr>,
     d_expires = add_time (zero_time\<lparr>instant := 2000\<rparr>) deviceTTL, d_scopes = Some [PhotosRead, PhotosWrite], d_generation = 1,
     d_version = 1, d_revoked = False, d_token_hash = account_hash token_hex,
     d_password_version = account_hash (u_verifier owner), d_previous_hash = '''', d_previous_until = zero_time,
     d_previous_expires = zero_time, d_rotation_id = '''', d_rotation_expected = 0\<rparr>"

lemma accounts2_code [code]:
  "accounts2 = \<lparr>ac_store = \<lparr>st_users = [owner], st_requests = [], st_devices = [phone], st_sessions = [],
       st_file = Some \<lparr>uf_version = 2, uf_users = [owner], uf_requests = [], uf_devices = [phone]\<rparr>\<rparr>,
     ac_publishing = [], ac_holder = None, ac_drawn = [token_raw, phone_raw, ''salt'', owner_raw]\<rparr>"
  by code_simp

definition phone_request :: request where
  "phone_request = \<lparr>rq_method = ''GET'', rq_path = ''/api/v1/photos'', rq_authorization = ''Bearer '' @ token_hex, rq_cookie = None\<rparr>"

definition phone_grant :: device_grant where
  "phone_grant = \<lparr>dg_owner = owner_id, dg_device = phone_id, dg_version = 1,
     dg_expires = add_time (zero_time\<lparr>instant := 2000\<rparr>) deviceTTL, dg_scopes = [PhotosRead]\<rparr>"

lemma phone_token: "bearerToken (rq_authorization phone_request) = token_hex"
  by code_simp

lemma phone_credential: "credentialLocked (at_time 3000 []) token_hex (ac_store accounts2) = Some (0, False)"
  by code_simp

lemma phone_allowed: "AllowsRequest (publicDevice phone) phone_request"
  by code_simp

lemma phone_fields:
  "d_scopes phone = Some [PhotosRead, PhotosWrite]" "d_owner phone = owner_id" "d_id phone = phone_id"
  "d_version phone = 1" "d_generation phone = 1" "d_expires phone = add_time (zero_time\<lparr>instant := 2000\<rparr>) deviceTTL"
  "d_token_hash phone = account_hash token_hex" "d_previous_hash phone = ''''" "d_rotation_id phone = ''''"
  by (simp_all add: phone_def)

lemma phone_alone: "st_devices (ac_store accounts2) = [phone]"
  by (simp add: accounts2_code)

lemma token_nonempty: "token_hex \<noteq> ''''"
  by code_simp

lemma phone_granted: "GrantForRequest (at_time 3000 []) phone_request [PhotosRead] (ac_store accounts2) = Inr phone_grant"
  using phone_allowed
  by (simp add: GrantForRequest_def phone_grant_def Let_def phone_alone phone_fields phone_token phone_credential token_nonempty publicDevice_def deviceScopes_def HasScopes_def GrantedScopes_def)

section \<open>Revocation, publication and rotation\<close>

definition accounts3 :: accounts where
  "accounts3 = after (at_time 4000 []) (snd (withdraw (at_time 4000 []) Revoking phone_grant (ac_store accounts2))) accounts2 \<lparr>ac_holder := None\<rparr>"

lemma phone_revoked: "withdraw (at_time 4000 []) Revoking phone_grant (ac_store accounts2) = (Inr (), ac_store accounts3)"
proof -
  have "fst (withdraw (at_time 4000 []) Revoking phone_grant (ac_store accounts2)) = Inr ()" by code_simp
  then show ?thesis by (simp add: accounts3_def prod_eq_iff)
qed

lemma sane_later: "sane_accounts account_hash (at_time t []) a"
  by (rule sane_at) simp_all

definition accounts4 :: accounts where
  "accounts4 = after (at_time 5000 []) (run_call (at_time 5000 []) (Update_profile owner_id ''The Owner'') (ac_store accounts3)) accounts3"

lemma run4: "account_run account_hash 1 accounts3 accounts4"
  using run_step [OF run_start step_call [OF sane_later], of accounts3 5000 "Update_profile owner_id ''The Owner''"]
  by (simp del: run_call.simps add: accounts4_def)

definition accounts5 :: accounts where
  "accounts5 = accounts2\<lparr>ac_publishing := [(phone_grant, [PhotosRead])]\<rparr>"

lemma phone_checks: "checkGrantLocked (at_time 3000 []) phone_grant [PhotosRead] (ac_store accounts2) = None"
  by code_simp

lemma quiet2: "ac_publishing accounts2 = []" "ac_holder accounts2 = None" "ac_publishing accounts1 = []" "ac_holder accounts1 = None"
  by (simp_all add: accounts2_def accounts1_def accounts_start_def Let_def)

lemma run5: "account_run account_hash 3 accounts_start accounts5"
  using run_step [OF run2 step_publish [OF sane_later quiet2(2) phone_checks]]
  by (simp add: accounts5_def quiet2 numeral_3_eq_3 numeral_2_eq_2)

definition accounts6 :: accounts where
  "accounts6 = after (at_time 4000 []) (run_barrier (at_time 4000 []) (Set_disabled owner_id True) (ac_store accounts1)) accounts1"

lemma run6: "account_run account_hash 1 accounts1 accounts6"
  using run_step [OF run_start step_barrier [OF sane_later quiet2(3,4)], of "Set_disabled owner_id True" 4000]
  by (simp del: run_barrier.simps add: accounts6_def)

lemma admin1: "0 < activeAdminsLocked (ac_store accounts1)"
  by code_simp

definition rotate_phone :: "int \<Rightarrow> user_store \<Rightarrow> (user_error + device) \<times> user_store" where
  "rotate_phone t = RotateDevice (at_time t []) phone_request phone_id ''rotation 1'' 1 new_secret"

definition renewed_phone :: device where
  "renewed_phone = rotated (at_time 4000 []) ''rotation 1'' 1 (account_hash new_secret) phone"

definition rotated_store :: user_store where
  "rotated_store = (ac_store accounts2)\<lparr>st_devices := [renewed_phone],
     st_file := Some \<lparr>uf_version = 2, uf_users = st_users (ac_store accounts2), uf_requests = st_requests (ac_store accounts2),
       uf_devices = [renewed_phone]\<rparr>\<rparr>"

lemma rotation_valid: "validRotation ''rotation 1'' new_secret 1"
  by code_simp

lemma new_secret_unused: "\<not> secret_used (account_hash new_secret) phone"
  by code_simp

lemma phone_credential_later: "credentialLocked (at_time 4000 []) token_hex (ac_store accounts2) = Some (0, False)"
  by code_simp

lemma phone_rotated: "rotate_phone 4000 (ac_store accounts2) = (Inr (publicDevice renewed_phone), rotated_store)"
  using rotation_valid new_secret_unused phone_credential_later
  by (simp add: rotate_phone_def RotateDevice_def phone_token token_nonempty phone_alone phone_fields
      account_hash_def publicDevice_def replaceDeviceLocked_def saveLocked_def set_devices_def rotated_store_def renewed_phone_def
      Let_def max_u64_def at_time_def)

lemma rotation_stored: "rotated_store \<noteq> ac_store accounts2"
proof -
  have "d_generation renewed_phone = 2" by (simp add: renewed_phone_def rotated_def Let_def publicDevice_def phone_fields)
  then have "st_devices rotated_store \<noteq> st_devices (ac_store accounts2)"
    using phone_fields(5) by (auto simp: rotated_store_def phone_alone)
  then show ?thesis by metis
qed

section \<open>A second account of one name\<close>

text \<open>
  Access was approved for \<open>bob\<close>, then an administrator created \<open>bob\<close>. The approval is completed under the
  name with a blank before it: the request is found by the trimmed name, the accounts are searched for the
  name as it was sent, and a second \<open>bob\<close> arises.
\<close>

definition bob :: user where
  "bob = owner\<lparr>u_id := phone_id, u_username := ''bob'', u_admin := False\<rparr>"

definition approved_bob :: access_request where
  "approved_bob = \<lparr>ar_id = ''request'', ar_username = ''bob'', ar_note = '''', ar_status = ''approved'', ar_created = zero_time,
     ar_approved = zero_time, ar_token_hash = account_hash ''token'', ar_consumed = zero_time\<rparr>"

definition with_bob :: user_store where
  "with_bob = (ac_store accounts2)\<lparr>st_users := [owner, bob], st_requests := [approved_bob]\<rparr>"

lemma second_bob:
  "map u_username (st_users (snd (CompleteAccess (at_time 3000 [''salt'', ''one more account'']) ''request'' ''token'' '' bob'' ''password'' with_bob)))
    = [''admin'', ''bob'', ''bob'']"
  by code_simp

text \<open>Completed under its own name, the same approval is refused.\<close>

lemma bob_refused:
  "CompleteAccess (at_time 3000 [''salt'', ''one more account'']) ''request'' ''token'' ''bob'' ''password'' with_bob = (Inl ErrUserExists, with_bob)"
  by code_simp

section \<open>The account manager\<close>

definition kind_surroundings :: lifecycle_env where
  "kind_surroundings = \<lparr>lv_ok = \<lambda>h c. True, lv_env = \<lambda>h. at_time 9000 [], lv_root = ''/srv''\<rparr>"

definition guest :: user where
  "guest = \<lparr>u_id = phone_id, u_username = ''guest'', u_full_name = '''', u_admin = False, u_disabled = True,
     u_disable_pending = False, u_deleting = True, u_delete_error = ''uploads'', u_disable_error = '''', u_salt = '''',
     u_verifier = '''', u_created = zero_time\<rparr>"

definition leaving :: lifecycle where
  "leaving = \<lparr>lc_store = (ac_store accounts2)\<lparr>st_users := st_users (ac_store accounts2) @ [guest]\<rparr>, lc_calls = []\<rparr>"

lemma kind_favourable: "favourable kind_surroundings"
  by (simp add: favourable_def kind_surroundings_def at_time_def)

lemma leaving_ids: "distinct (map u_id (st_users (lc_store leaving)))"
  by code_simp

lemma leaving_paths: "u \<in> set (st_users (lc_store leaving)) \<Longrightarrow> \<exists>path. DataPath (lv_root kind_surroundings) u = Inr path"
proof -
  have "list_all (\<lambda>u. length (u_id u) = 32 \<and> list_all (\<lambda>c. c \<in> set ''0123456789abcdef'') (u_id u)) (st_users (lc_store leaving))"
    by code_simp
  then show "u \<in> set (st_users (lc_store leaving)) \<Longrightarrow> \<exists>path. DataPath (lv_root kind_surroundings) u = Inr path"
    by (simp only: DataPath_def list_all_iff [of _ "st_users (lc_store leaving)"] if_False simp_thms) blast
qed

text \<open>An administrator whose cleanup is pending, beside the one that is active.\<close>

definition stuck :: lifecycle where
  "stuck = \<lparr>lc_store = (ac_store accounts2)\<lparr>st_users := st_users (ac_store accounts2)
     @ [guest\<lparr>u_admin := True, u_deleting := False, u_disable_pending := True\<rparr>]\<rparr>, lc_calls = []\<rparr>"

end
