(* ===== verification/User_Properties.thy ===== *)
theory User_Properties
  imports User_Samples
begin

text \<open>
  The properties of accounts, devices and the account manager, each with a witness on the sample accounts.
\<close>

section \<open>Authorizations\<close>

text \<open>C13
  Withdrawn authorizations stay withdrawn. A device obtains a grant for background work; later its owner is
  disabled, is being deleted or changes the password, or the device is revoked. From then on, whatever calls
  follow and however often the process restarts, even if the account is enabled again, the device reauthorized
  or the same names reused, \<open>checkGrantLocked\<close> never accepts the grant again. The number of calls is below
  2^64, so that the version counters cannot wrap.
\<close>

theorem revoked_grants_die:
  assumes "good_hash H" "account_run H m accounts_start x" "account_run H n x a"
    and "GrantForRequest e0 r scopes (ac_store x) = Inr g"
    and "sane_accounts H e a" "withdraw e w g (ac_store a) = (Inr (), s')"
    and "account_run H k (after e s' a \<lparr>ac_holder := None\<rparr>) z" "m + n + k + 2 < 2 ^ 64"
  shows "checkGrantLocked e' g scopes' (ac_store z) \<noteq> None"
  by (rule withdrawn_stays [OF assms(1-6) _ _ assms(7,8)]) simp_all

theorem revoked_grants_die_witness:
  "checkGrantLocked (at_time 3000 []) phone_grant [PhotosRead] (ac_store accounts4) \<noteq> None"
  by (rule revoked_grants_die [OF account_hash_good run2 run_start phone_granted sane_later phone_revoked, where k = 1])
     (use run4 in \<open>simp_all add: accounts3_def\<close>)

text \<open>C14
  The publication barrier. While a publication under a checked grant runs, no interleaving of calls can take
  the authorization away: the calls that do wait for the publication lock, and the others leave the account
  enabled, the device unrevoked, its version, password version and scopes as they are. Unless the grant or
  the device runs out of time, the check passes in every state until the publication ends.
\<close>

theorem publications_protected:
  assumes "good_hash H" "account_run H n accounts_start a" "(g, scopes) \<in> set (ac_publishing a)"
    and "ae_hash e = H" "\<not> ran_out e g (ac_store a)"
  shows "checkGrantLocked e g scopes (ac_store a) = None"
  using publishing_run [OF assms(1,2) store_ok_start publishing_start] assms(3-5)
  by (auto simp: checkGrant_stands publishing_ok_def)

theorem publications_protected_witness:
  "checkGrantLocked (at_time 6000 []) phone_grant [PhotosRead] (ac_store accounts5) = None"
proof (rule publications_protected [OF account_hash_good run5])
  show "\<not> ran_out (at_time 6000 []) phone_grant (ac_store accounts5)"
    by (simp add: ran_out_def device_index_def accounts5_def phone_alone phone_fields phone_grant_def at_time_def
        time_before_def add_time_def deviceTTL_def hour_def)
qed (simp_all add: accounts5_def)

text \<open>C15
  An administrator remains. Once an account is an active administrator, every later state has one: no
  sequence of disabling, deletion, password change and restart, in any interleaving, leaves the server
  without an account that can administer it.
\<close>

theorem admin_remains:
  assumes "good_hash H" "account_run H m accounts_start a" "0 < activeAdminsLocked (ac_store a)" "account_run H n a b"
  shows "0 < activeAdminsLocked (ac_store b)"
  using admins_run [OF assms(1,4) store_ok_run [OF assms(1,2) store_ok_start] assms(3)] .

theorem admin_remains_witness: "0 < activeAdminsLocked (ac_store accounts6)"
  by (rule admin_remains [OF account_hash_good run1 admin1 run6])

text \<open>C17
  A credential authenticates one device. In every reachable state, when a token is accepted, exactly one of
  the devices holds it, be it as its current secret or as the secret before its last rotation: it is the
  device that was found.
\<close>

theorem credential_unambiguous:
  assumes "good_hash H" "account_run H n accounts_start a" "ae_hash e = H"
    and "credentialLocked e token (ac_store a) = Some (k, previous)"
  shows "filter (secret_used (ae_hash e token)) (st_devices (ac_store a)) = [st_devices (ac_store a) ! k]"
  by (rule filter_unique [where p = "secret_used (ae_hash e token)", OF credential_Some(1,3) [OF assms(4)]])
     (rule secret_once [OF store_ok_run [OF assms(1,2) store_ok_start] _ credential_Some(1) [OF assms(4)] _ credential_Some(3) [OF assms(4)]])

theorem credential_unambiguous_witness:
  "filter (secret_used (ae_hash (at_time 3000 []) token_hex)) (st_devices (ac_store accounts2)) = [st_devices (ac_store accounts2) ! 0]"
  by (rule credential_unambiguous [OF account_hash_good run2 at_time_hash phone_credential])

text \<open>C16
  A rotation can be repeated. When the answer to a rotation is lost, the device sends the same rotation again
  with its old secret: within the grace period and the old lifetime the repetition returns the same device
  and changes nothing, so a client ends with exactly one secret.
\<close>

theorem rotation_replayed:
  assumes "good_hash H" "account_run H n accounts_start a" "ae_hash e = H" "ae_hash e' = H"
    and "RotateDevice e r i operation expected secret (ac_store a) = (Inr d, s')" "s' \<noteq> ac_store a"
    and "instant (ae_now e') < instant (ae_now e) + DeviceGrace"
    and "\<And>x. x \<in> set (st_devices (ac_store a)) \<Longrightarrow> d_id x = i \<Longrightarrow> time_before (ae_now e') (d_expires x)"
  shows "RotateDevice e' r i operation expected secret s' = (Inr d, s')"
  by (rule rotation_repeats [OF assms(1,3,4) store_ok_run [OF assms(1,2) store_ok_start] assms(5-8)])

theorem rotation_replayed_witness: "rotate_phone 5000 rotated_store = (Inr (publicDevice renewed_phone), rotated_store)"
  unfolding rotate_phone_def
  by (rule rotation_replayed [OF account_hash_good run2 _ _ phone_rotated [unfolded rotate_phone_def] rotation_stored])
     (auto simp: phone_alone phone_fields at_time_def time_before_def add_time_def deviceTTL_def DeviceGrace_def hour_def)

text \<open>C18
  Scopes confine. A legacy device, or a device whose scopes are among \<open>photos:read\<close> and \<open>photos:write\<close>, is
  let into no route but its own (its record, its rotation and revocation, the mobile profile) and those below
  \<open>/api/v1/photos\<close>, whatever method and path it sends.
\<close>

theorem photo_devices_confined:
  assumes "AllowsRequest d r" "\<not> own_routes d r" "d_scopes d = None \<or> set (GrantedScopes d) \<subseteq> {PhotosRead, PhotosWrite}"
  shows "take 4 (split_on (CHR ''/'') (rq_path r)) = ['''', ''api'', ''v1'', ''photos'']"
  using photo_device_routes [OF assms] by (simp add: photo_routes_def)

theorem photo_devices_confined_witness: "take 4 (split_on (CHR ''/'') (rq_path phone_request)) = ['''', ''api'', ''v1'', ''photos'']"
proof (rule photo_devices_confined [OF phone_allowed])
  show "\<not> own_routes (publicDevice phone) phone_request" by code_simp
  show "d_scopes (publicDevice phone) = None \<or> set (GrantedScopes (publicDevice phone)) \<subseteq> {PhotosRead, PhotosWrite}"
    by (simp add: publicDevice_def GrantedScopes_def phone_fields)
qed

section \<open>The account manager\<close>

text \<open>C19
  Begun deletions end. When the other components answer favourably and the store can be written,
  \<open>ResumePending\<close> after a restart removes every account whose deletion was begun, in whatever stage the
  deletion stopped and whatever the other pending accounts do.
\<close>

theorem deletions_resume:
  assumes "favourable v" "distinct (map u_id (st_users (lc_store l)))"
    and "\<And>u. u \<in> set (st_users (lc_store l)) \<Longrightarrow> \<exists>path. DataPath (lv_root v) u = Inr path"
  shows "pending_deletions (snd (ResumePending v l)) = {}"
  using resume_all_good [OF assms] by (auto simp: ResumePending_def pending_deletions_def)

theorem deletions_resume_witness: "pending_deletions (snd (ResumePending kind_surroundings leaving)) = {}"
  by (rule deletions_resume [OF kind_favourable leaving_ids leaving_paths])





end
